(* ===== verification/JS_Prelude.thy ===== *)
theory JS_Prelude
  imports Main
begin

text \<open>
  The vocabulary shared by every component of the development.

  The sources are JavaScript, so three of the language's own constructs are modelled once
  and for all here: the truncating remainder \<open>%\<close>, the counting loops
  \<open>for (i = a; i < b; i++)\<close> and \<open>for (i = a; i >= b; i--)\<close>, and arrays read and
  written by key. An array is a function from integer keys to \<open>'a option\<close>, where
  \<open>None\<close> is \<open>undefined\<close>: JavaScript reads \<open>undefined\<close> from a key never written, stores
  at any key, and a negative key is an ordinary property, which is what the function space
  gives.

  The locale \<open>indexed_store\<close> is the contract between the loops that shift cells around
  (the ring of lines and the cells of one line both have them) and the storage they shift:
  reading back what was written and leaving every other cell of the window alone. The
  behaviour of the loops is proved once from that contract.
\<close>

named_theorems js_simps \<open>rewrite rules for the JavaScript primitives\<close>

subsection \<open>Numbers\<close>

text \<open>The remainder operator: its result has the sign of the dividend.\<close>

definition js_rem :: "int \<Rightarrow> int \<Rightarrow> int" where
  "js_rem a b = (if a < 0 then - ((- a) mod \<bar>b\<bar>) else a mod \<bar>b\<bar>)"

lemma js_rem_nonneg [js_simps]: "0 \<le> a \<Longrightarrow> 0 < b \<Longrightarrow> js_rem a b = a mod b"
  by (simp add: js_rem_def)

lemma js_rem_range: "0 \<le> a \<Longrightarrow> 0 < b \<Longrightarrow> 0 \<le> js_rem a b \<and> js_rem a b < b"
  by (simp add: js_rem_nonneg)

text \<open>Two positions of one window of \<open>m\<close> consecutive integers never share a remainder.\<close>

lemma mod_window_inj:
  fixes i j m :: int
  assumes "0 < m" and "\<bar>i - j\<bar> < m"
  shows "(i mod m = j mod m) = (i = j)"
proof
  assume "i mod m = j mod m"
  then have "m dvd (i - j)" by (simp add: mod_eq_dvd_iff)
  with assms have "i - j = 0" by (meson zdvd_not_zless dvd_abs_iff abs_ge_zero zero_less_abs_iff not_less)
  then show "i = j" by simp
qed simp

subsection \<open>Counting loops\<close>

text \<open>
  \<open>for_up a b f\<close> runs \<open>f\<close> at \<open>a, a + 1, \<dots>, b - 1\<close> and \<open>for_down a b f\<close> at
  \<open>a, a - 1, \<dots>, b\<close>; both do nothing on an empty range. The sources never assign the
  counter inside such a loop, and never change a bound it tests.
\<close>

definition for_up :: "int \<Rightarrow> int \<Rightarrow> (int \<Rightarrow> 's \<Rightarrow> 's) \<Rightarrow> 's \<Rightarrow> 's" where
  "for_up a b f s = fold f [a..b - 1] s"

definition for_down :: "int \<Rightarrow> int \<Rightarrow> (int \<Rightarrow> 's \<Rightarrow> 's) \<Rightarrow> 's \<Rightarrow> 's" where
  "for_down a b f s = fold f (rev [b..a]) s"

lemma for_up_empty [simp]: "b \<le> a \<Longrightarrow> for_up a b f s = s"
  by (simp add: for_up_def)

lemma for_up_step: "a < b \<Longrightarrow> for_up a b f s = for_up (a + 1) b f (f a s)"
  by (simp add: for_up_def upto_rec1)

lemma for_down_empty [simp]: "a < b \<Longrightarrow> for_down a b f s = s"
  by (simp add: for_down_def)

lemma for_down_step: "b \<le> a \<Longrightarrow> for_down a b f s = for_down (a - 1) b f (f a s)"
  by (simp add: for_down_def upto_rec2)

text \<open>The loop rules: an assertion indexed by the counter.\<close>

lemma for_up_rule:
  assumes "a \<le> b" and "P a s"
    and "\<And>i s. a \<le> i \<Longrightarrow> i < b \<Longrightarrow> P i s \<Longrightarrow> P (i + 1) (f i s)"
  shows "P b (for_up a b f s)"
  using assms
proof (induction "nat (b - a)" arbitrary: a s)
  case 0
  then show ?case by simp
next
  case (Suc n)
  then have "a < b" and "n = nat (b - (a + 1))" by simp_all
  with Suc show ?case by (simp add: for_up_step)
qed

lemma for_down_rule:
  assumes "b \<le> a + 1" and "P a s"
    and "\<And>i s. b \<le> i \<Longrightarrow> i \<le> a \<Longrightarrow> P i s \<Longrightarrow> P (i - 1) (f i s)"
  shows "P (b - 1) (for_down a b f s)"
  using assms
proof (induction "nat (a + 1 - b)" arbitrary: a s)
  case 0
  then have "a = b - 1" by simp
  with "0" show ?case by simp
next
  case (Suc n)
  then have "b \<le> a" and "n = nat ((a - 1) + 1 - b)" by simp_all
  with Suc show ?case by (simp add: for_down_step)
qed

text \<open>Shifting the counter, and the loop that fills a function range by range.\<close>

lemma for_up_shift: "for_up a b (\<lambda>i. f (k + i)) s = for_up (k + a) (k + b) f s"
proof (induction "nat (b - a)" arbitrary: a s)
  case (Suc n)
  then have "a < b" and "n = nat (b - (a + 1))" by simp_all
  with Suc.hyps(1) [of "a + 1"] show ?case by (simp add: for_up_step add.assoc)
qed simp

lemma for_down_shift: "for_down a b (\<lambda>i. f (k + i)) s = for_down (k + a) (k + b) f s"
proof (induction "nat (a + 1 - b)" arbitrary: a s)
  case (Suc n)
  then have "b \<le> a" and "n = nat ((a - 1) + 1 - b)" by simp_all
  with Suc.hyps(1) [of "a - 1"] show ?case by (simp add: for_down_step add_diff_eq)
qed simp

lemma for_up_fun_upd:
  assumes "a \<le> b"
  shows "for_up a b (\<lambda>i f. f(i := g i)) f0 = (\<lambda>k. if a \<le> k \<and> k < b then g k else f0 k)"
  by (rule for_up_rule [where P = "\<lambda>i f. f = (\<lambda>k. if a \<le> k \<and> k < i then g k else f0 k)"])
    (use assms in \<open>auto simp: fun_eq_iff\<close>)

subsection \<open>Storage addressed by index\<close>

text \<open>
  The contract of a store whose cells have integer indices. The window is the range of
  \<open>cap s\<close> indices from \<open>lo\<close> on; a write inside it is read back, up to what the store keeps of
  a value (\<open>nrm\<close>), and touches no other index of it. Outside the window nothing is promised (a
  ring reuses cells there).
\<close>

locale indexed_store =
  fixes get :: "'s \<Rightarrow> int \<Rightarrow> 'a"
    and put :: "'s \<Rightarrow> int \<Rightarrow> 'a \<Rightarrow> 's"
    and nrm :: "'a \<Rightarrow> 'a"
    and ok :: "'s \<Rightarrow> bool"
    and cap :: "'s \<Rightarrow> int"
    and lo :: int
  assumes get_put: "ok s \<Longrightarrow> lo \<le> i \<Longrightarrow> i < lo + cap s \<Longrightarrow> lo \<le> j \<Longrightarrow> j < lo + cap s \<Longrightarrow>
      get (put s i v) j = (if i = j then nrm v else get s j)"
    and nrm_get: "nrm (get s i) = get s i"
    and ok_put: "ok s \<Longrightarrow> lo \<le> i \<Longrightarrow> i < lo + cap s \<Longrightarrow> ok (put s i v)"
    and cap_put: "cap (put s i v) = cap s"
begin

text \<open>Moving the cells of a range down by \<open>d\<close>, lowest first, reads every source before it is overwritten.\<close>

lemma move_down:
  assumes "ok s" and "0 \<le> d" and "lo \<le> a" and "b + d \<le> lo + cap s" and "a \<le> b"
  defines "t \<equiv> for_up a b (\<lambda>i s. put s i (get s (i + d))) s"
  shows "ok t \<and> cap t = cap s \<and> (\<forall>j. lo \<le> j \<longrightarrow> j < lo + cap s \<longrightarrow>
      get t j = (if a \<le> j \<and> j < b then get s (j + d) else get s j))"
  unfolding t_def
  by (rule for_up_rule [where P = "\<lambda>i t. ok t \<and> cap t = cap s \<and> (\<forall>j. lo \<le> j \<longrightarrow> j < lo + cap s \<longrightarrow>
        get t j = (if a \<le> j \<and> j < i then get s (j + d) else get s j))"])
    (use assms in \<open>auto simp: get_put nrm_get ok_put cap_put\<close>)

text \<open>Moving them up by \<open>d\<close> works highest first.\<close>

lemma move_up:
  assumes "ok s" and "0 \<le> d" and "lo \<le> a" and "b + d \<le> lo + cap s" and "a \<le> b"
  defines "t \<equiv> for_down (b - 1) a (\<lambda>i s. put s (i + d) (get s i)) s"
  shows "ok t \<and> cap t = cap s \<and> (\<forall>j. lo \<le> j \<longrightarrow> j < lo + cap s \<longrightarrow>
      get t j = (if a + d \<le> j \<and> j < b + d then get s (j - d) else get s j))"
proof -
  have "(\<lambda>i t. ok t \<and> cap t = cap s \<and> (\<forall>j. lo \<le> j \<longrightarrow> j < lo + cap s \<longrightarrow>
        get t j = (if i + d < j \<and> j < b + d then get s (j - d) else get s j))) (a - 1) t"
    unfolding t_def
    by (rule for_down_rule) (use assms in \<open>auto simp: get_put nrm_get ok_put cap_put\<close>)
  then show ?thesis by auto
qed

text \<open>Writing a computed value at every index of a range.\<close>

lemma write_range:
  fixes v :: "int \<Rightarrow> 'a"
  assumes "ok s" and "lo \<le> a" and "b \<le> lo + cap s" and "a \<le> b"
  defines "t \<equiv> for_up a b (\<lambda>i s. put s i (v i)) s"
  shows "ok t \<and> cap t = cap s \<and> (\<forall>j. lo \<le> j \<longrightarrow> j < lo + cap s \<longrightarrow>
      get t j = (if a \<le> j \<and> j < b then nrm (v j) else get s j))"
  unfolding t_def
  by (rule for_up_rule [where P = "\<lambda>i t. ok t \<and> cap t = cap s \<and> (\<forall>j. lo \<le> j \<longrightarrow> j < lo + cap s \<longrightarrow>
        get t j = (if a \<le> j \<and> j < i then nrm (v j) else get s j))"])
    (use assms in \<open>auto simp: get_put nrm_get ok_put cap_put\<close>)

end

text \<open>The last \<open>n\<close> entries of a list, all of it when it is shorter.\<close>

definition keep_last :: "nat \<Rightarrow> 'a list \<Rightarrow> 'a list" where
  "keep_last n xs = drop (length xs - n) xs"

lemma keep_last_short: "length xs \<le> n \<Longrightarrow> keep_last n xs = xs"
  by (simp add: keep_last_def)

lemma keep_last_snoc:
  "length xs \<le> n \<Longrightarrow> 0 < n \<Longrightarrow>
    keep_last n (xs @ [v]) = (if length xs = n then tl xs else xs) @ [v]"
  by (cases xs) (auto simp: keep_last_def)

lemma keep_last_rev: "keep_last n xs = rev (take n (rev xs))"
  by (simp add: keep_last_def take_rev)

lemma keep_last_append: "keep_last n (keep_last n xs @ ys) = keep_last n (xs @ ys)"
  by (simp add: keep_last_rev take_append min_def)

text \<open>
  A bounded history: appending to a full one drops the oldest entry. The client's question is
  what a whole sequence of appends leaves, and the answer is the same for every provider.
\<close>

locale bounded_history =
  fixes push :: "'s \<Rightarrow> 'a \<Rightarrow> 's"
    and items :: "'s \<Rightarrow> 'a list"
    and capacity :: "'s \<Rightarrow> nat"
    and ok :: "'s \<Rightarrow> bool"
  assumes items_push: "ok s \<Longrightarrow> items (push s v) = keep_last (capacity s) (items s @ [v])"
    and ok_push: "ok s \<Longrightarrow> ok (push s v)"
    and capacity_push: "capacity (push s v) = capacity s"
    and items_le_capacity: "ok s \<Longrightarrow> length (items s) \<le> capacity s"
begin

lemma items_pushes:
  "ok s \<Longrightarrow> ok (fold (\<lambda>v s. push s v) vs s) \<and> items (fold (\<lambda>v s. push s v) vs s) =
    keep_last (capacity s) (items s @ vs)"
proof (induction vs arbitrary: s)
  case Nil
  then show ?case using items_le_capacity [of s] by (simp add: keep_last_short)
next
  case (Cons v vs)
  then show ?case
    using Cons.IH [OF ok_push [OF Cons.prems, of v]]
    by (simp add: items_push capacity_push keep_last_append)
qed

end

subsection \<open>Throwing\<close>

text \<open>
  A JavaScript statement that throws keeps every effect it had before. An outcome is therefore
  the state reached, with the exception when there is one; \<open>and_then\<close> is the semicolon.
\<close>

datatype js_error =
    TypeError
  | ReferenceError
  | PlainError  \<comment> \<open>thrown by the program itself\<close>

datatype 's outcome = Done 's | Throw js_error 's

fun outcome_state :: "'s outcome \<Rightarrow> 's" where
  "outcome_state (Done s) = s"
| "outcome_state (Throw e s) = s"

fun threw :: "'s outcome \<Rightarrow> bool" where
  "threw (Done s) = False"
| "threw (Throw e s) = True"

fun and_then :: "'s outcome \<Rightarrow> ('s \<Rightarrow> 's outcome) \<Rightarrow> 's outcome" where
  "and_then (Done s) f = f s"
| "and_then (Throw e s) f = Throw e s"

fun map_outcome_state :: "('s \<Rightarrow> 't) \<Rightarrow> 's outcome \<Rightarrow> 't outcome" where
  "map_outcome_state f (Done s) = Done (f s)"
| "map_outcome_state f (Throw e s) = Throw e (f s)"

lemma and_then_Done_iff: "and_then m f = Done t \<longleftrightarrow> (\<exists>s. m = Done s \<and> f s = Done t)"
  by (cases m) auto

lemma and_then_assoc: "and_then (and_then m f) g = and_then m (\<lambda>s. and_then (f s) g)"
  by (cases m) simp_all

text \<open>A loop whose body may throw, over the values its counter takes.\<close>

fun each :: "('a \<Rightarrow> 's \<Rightarrow> 's outcome) \<Rightarrow> 'a list \<Rightarrow> 's \<Rightarrow> 's outcome" where
  "each f [] s = Done s"
| "each f (x # xs) s = and_then (f x s) (each f xs)"

text \<open>Progress and preservation along a loop: a body that keeps an assertion and does not throw.\<close>

lemma each_Done:
  assumes "P s" and "\<And>x s. x \<in> set xs \<Longrightarrow> P s \<Longrightarrow> \<exists>s'. f x s = Done s' \<and> P s'"
  shows "\<exists>s'. each f xs s = Done s' \<and> P s'"
  using assms
proof (induction xs arbitrary: s)
  case (Cons x xs)
  then obtain s1 where "f x s = Done s1" "P s1" by (metis list.set_intros(1))
  with Cons show ?case by simp
qed simp

lemma each_append: "each f (xs @ ys) s = and_then (each f xs s) (each f ys)"
proof (induction xs arbitrary: s)
  case (Cons x xs)
  then show ?case by (cases "f x s") simp_all
qed simp

text \<open>String concatenation shows an undefined operand as the word.\<close>

definition js_str :: "string option \<Rightarrow> string" where
  "js_str v = (case v of None \<Rightarrow> ''undefined'' | Some s \<Rightarrow> s)"

text \<open>The \<open>join\<close> of an array of strings.\<close>

fun js_join :: "string \<Rightarrow> string list \<Rightarrow> string" where
  "js_join sep [] = []"
| "js_join sep [x] = x"
| "js_join sep (x # y # xs) = x @ sep @ js_join sep (y # xs)"

text \<open>
  A component that implements an abstract one: a relation between their states that every operation
  keeps is kept by every sequence of operations.
\<close>

locale simulation =
  fixes step :: "'op \<Rightarrow> 's \<Rightarrow> 's" and astep :: "'op \<Rightarrow> 'a \<Rightarrow> 'a" and rel :: "'s \<Rightarrow> 'a \<Rightarrow> bool"
  assumes step_rel: "rel s a \<Longrightarrow> rel (step op s) (astep op a)"
begin

lemma run_rel: "rel s a \<Longrightarrow> rel (fold step ops s) (fold astep ops a)"
  by (induction ops arbitrary: s a) (simp_all add: step_rel)

end

text \<open>Line ends, which a string literal of the logic cannot spell.\<close>

abbreviation nl :: string where "nl \<equiv> [CHR 0x0A]"
abbreviation crlf :: string where "crlf \<equiv> [CHR 0x0D, CHR 0x0A]"

end
