(* ===== verification/CircularList.thy ===== *)
theory CircularList
  imports JS_Prelude
begin

text \<open>
  The ring of lines behind the terminal's scrollback (\<open>xterm.js\<close>, module
  \<open>common/CircularList\<close>): a fixed array addressed through a start index that moves as old
  entries fall out. Every operation of the class is here, with its effect on the fields, its
  error branches and the amounts it announces on \<open>onTrim\<close>. The second half gives the
  list a ring stands for and shows each operation to be the list operation one expects.

  Lengths and indices are integers, as the code's counters are (\<open>pop\<close> on an empty list
  drives the length to \<open>- 1\<close>). \<open>% this._maxLength\<close> is \<open>NaN\<close> for an empty ring, which the
  terminal never makes; the well-formedness predicate asks for a positive maximum.
\<close>

subsection \<open>State and operations\<close>

record 'a circular_list =
  cl_maxLength :: int
  cl_array :: "int \<Rightarrow> 'a option"
  cl_startIndex :: int
  cl_length :: int

datatype cl_error =
    RecycleNotFull   \<comment> \<open>Can only recycle when the buffer is full\<close>
  | StartOutOfRange  \<comment> \<open>start argument out of range\<close>
  | ShiftBeyondZero  \<comment> \<open>Cannot shift elements in list beyond index 0\<close>

definition cl_new :: "int \<Rightarrow> 'a circular_list" where
  "cl_new m = \<lparr>cl_maxLength = m, cl_array = (\<lambda>_. None), cl_startIndex = 0, cl_length = 0\<rparr>"

definition cl_getCyclicIndex :: "'a circular_list \<Rightarrow> int \<Rightarrow> int" where
  "cl_getCyclicIndex c index = js_rem (cl_startIndex c + index) (cl_maxLength c)"

definition cl_get :: "'a circular_list \<Rightarrow> int \<Rightarrow> 'a option" where
  "cl_get c index = cl_array c (cl_getCyclicIndex c index)"

definition cl_set :: "'a circular_list \<Rightarrow> int \<Rightarrow> 'a option \<Rightarrow> 'a circular_list" where
  "cl_set c index v = c\<lparr>cl_array := (cl_array c)(cl_getCyclicIndex c index := v)\<rparr>"

definition cl_isFull :: "'a circular_list \<Rightarrow> bool" where
  "cl_isFull c \<longleftrightarrow> cl_length c = cl_maxLength c"

text \<open>The setter of \<open>maxLength\<close>: the entries move to a fresh array from index 0 on.\<close>

definition cl_setMaxLength :: "'a circular_list \<Rightarrow> int \<Rightarrow> 'a circular_list" where
  "cl_setMaxLength c newMaxLength =
     (if cl_maxLength c = newMaxLength then c
      else c\<lparr>cl_array := for_up 0 (min newMaxLength (cl_length c))
                (\<lambda>i newArray. newArray(i := cl_array c (cl_getCyclicIndex c i))) (\<lambda>_. None),
             cl_maxLength := newMaxLength, cl_startIndex := 0\<rparr>)"

text \<open>The setter of \<open>length\<close>: growing clears the array at the plain indices, not the cyclic ones.\<close>

definition cl_setLength :: "'a circular_list \<Rightarrow> int \<Rightarrow> 'a circular_list" where
  "cl_setLength c newLength =
     (let c1 = (if newLength > cl_length c
                then c\<lparr>cl_array := for_up (cl_length c) newLength (\<lambda>i a. a(i := None)) (cl_array c)\<rparr>
                else c)
      in c1\<lparr>cl_length := newLength\<rparr>)"

definition cl_push :: "'a circular_list \<Rightarrow> 'a option \<Rightarrow> 'a circular_list \<times> int list" where
  "cl_push c v =
     (let c1 = c\<lparr>cl_array := (cl_array c)(cl_getCyclicIndex c (cl_length c) := v)\<rparr>
      in if cl_length c1 = cl_maxLength c1
         then (c1\<lparr>cl_startIndex := js_rem (cl_startIndex c1 + 1) (cl_maxLength c1)\<rparr>, [1])
         else (c1\<lparr>cl_length := cl_length c1 + 1\<rparr>, []))"

definition cl_recycle :: "'a circular_list \<Rightarrow> cl_error + ('a circular_list \<times> int list \<times> 'a option)" where
  "cl_recycle c =
     (if cl_length c \<noteq> cl_maxLength c then Inl RecycleNotFull
      else let c1 = c\<lparr>cl_startIndex := js_rem (cl_startIndex c + 1) (cl_maxLength c)\<rparr>
           in Inr (c1, [1], cl_array c1 (cl_getCyclicIndex c1 (cl_length c1 - 1))))"

definition cl_pop :: "'a circular_list \<Rightarrow> 'a circular_list \<times> 'a option" where
  "cl_pop c = (c\<lparr>cl_length := cl_length c - 1\<rparr>, cl_array c (cl_getCyclicIndex c (cl_length c - 1)))"

text \<open>
  \<open>splice\<close> closes the gap, opens one for the new items from the top down, stores them, and
  drops from the front what no longer fits.
\<close>

definition cl_splice_delete :: "'a circular_list \<Rightarrow> int \<Rightarrow> int \<Rightarrow> 'a circular_list" where
  "cl_splice_delete c start deleteCount =
     (if deleteCount \<noteq> 0
      then (let c1 = for_up start (cl_length c - deleteCount)
                       (\<lambda>i c. cl_set c i (cl_get c (i + deleteCount))) c
            in c1\<lparr>cl_length := cl_length c1 - deleteCount\<rparr>)
      else c)"

definition cl_splice_insert :: "'a circular_list \<Rightarrow> int \<Rightarrow> 'a option list \<Rightarrow> 'a circular_list" where
  "cl_splice_insert c start items =
     (let n = int (length items);
          c1 = for_down (cl_length c - 1) start (\<lambda>i c. cl_set c (i + n) (cl_get c i)) c
      in for_up 0 n (\<lambda>i c. cl_set c (start + i) (items ! nat i)) c1)"

definition cl_splice ::
  "'a circular_list \<Rightarrow> int \<Rightarrow> int \<Rightarrow> 'a option list \<Rightarrow> 'a circular_list \<times> int list" where
  "cl_splice c start deleteCount items =
     (let n = int (length items);
          c1 = cl_splice_insert (cl_splice_delete c start deleteCount) start items
      in if cl_length c1 + n > cl_maxLength c1
         then (let countToTrim = cl_length c1 + n - cl_maxLength c1
               in (c1\<lparr>cl_startIndex := cl_startIndex c1 + countToTrim, cl_length := cl_maxLength c1\<rparr>,
                   [countToTrim]))
         else (c1\<lparr>cl_length := cl_length c1 + n\<rparr>, []))"

definition cl_trimStart :: "'a circular_list \<Rightarrow> int \<Rightarrow> 'a circular_list \<times> int list" where
  "cl_trimStart c count =
     (let count = (if count > cl_length c then cl_length c else count)
      in (c\<lparr>cl_startIndex := cl_startIndex c + count, cl_length := cl_length c - count\<rparr>, [count]))"

text \<open>The loop \<open>while (this._length > this._maxLength)\<close> of \<open>shiftElements\<close>, one \<open>onTrim\<close> a round.\<close>

function cl_dropOverflow :: "'a circular_list \<Rightarrow> 'a circular_list \<times> int list" where
  "cl_dropOverflow c =
     (if cl_length c > cl_maxLength c
      then (let (c1, trims) = cl_dropOverflow (c\<lparr>cl_length := cl_length c - 1,
                                                 cl_startIndex := cl_startIndex c + 1\<rparr>)
            in (c1, 1 # trims))
      else (c, []))"
  by pat_completeness auto
termination
  by (relation "measure (\<lambda>c. nat (cl_length c - cl_maxLength c))") auto

definition cl_shiftElements ::
  "'a circular_list \<Rightarrow> int \<Rightarrow> int \<Rightarrow> int \<Rightarrow> cl_error + ('a circular_list \<times> int list)" where
  "cl_shiftElements c start count offset =
     (if count \<le> 0 then Inr (c, [])
      else if start < 0 \<or> start \<ge> cl_length c then Inl StartOutOfRange
      else if start + offset < 0 then Inl ShiftBeyondZero
      else if offset > 0
      then (let c1 = for_down (count - 1) 0
                       (\<lambda>i c. cl_set c (start + i + offset) (cl_get c (start + i))) c;
                expandListBy = (start + count + offset) - cl_length c1
            in if expandListBy > 0
               then Inr (cl_dropOverflow (c1\<lparr>cl_length := cl_length c1 + expandListBy\<rparr>))
               else Inr (c1, []))
      else Inr (for_up 0 count (\<lambda>i c. cl_set c (start + i + offset) (cl_get c (start + i))) c, []))"

declare cl_dropOverflow.simps [simp del]

subsection \<open>The list a ring stands for, and its invariant\<close>

definition cl_list :: "'a circular_list \<Rightarrow> 'a option list" where
  "cl_list c = map (\<lambda>k. cl_get c (int k)) [0..<nat (cl_length c)]"

definition cl_wf :: "'a circular_list \<Rightarrow> bool" where
  "cl_wf c \<longleftrightarrow> 0 < cl_maxLength c \<and> 0 \<le> cl_startIndex c"

definition cl_inv :: "'a circular_list \<Rightarrow> bool" where
  "cl_inv c \<longleftrightarrow> cl_wf c \<and> 0 \<le> cl_length c \<and> cl_length c \<le> cl_maxLength c"

lemma length_cl_list [simp]: "length (cl_list c) = nat (cl_length c)"
  by (simp add: cl_list_def)

lemma cl_list_nth: "k < nat (cl_length c) \<Longrightarrow> cl_list c ! k = cl_get c (int k)"
  by (simp add: cl_list_def)

lemma cl_list_eqI:
  assumes "length xs = nat (cl_length c)"
    and "\<And>k. k < length xs \<Longrightarrow> cl_get c (int k) = xs ! k"
  shows "cl_list c = xs"
  using assms by (auto simp: cl_list_nth intro: nth_equalityI)

lemma cl_new_inv: "0 < m \<Longrightarrow> cl_inv (cl_new m)"
  by (simp add: cl_inv_def cl_wf_def cl_new_def)

lemma cl_new_list [simp]: "cl_list (cl_new m) = []"
  by (simp add: cl_list_def cl_new_def)

text \<open>The fields a cell write leaves alone, and the window in which it touches one entry only.\<close>

lemma cl_set_fields [simp]:
  "cl_maxLength (cl_set c i v) = cl_maxLength c"
  "cl_startIndex (cl_set c i v) = cl_startIndex c"
  "cl_length (cl_set c i v) = cl_length c"
  by (simp_all add: cl_set_def)

lemma cl_get_set:
  assumes "cl_wf c" and "0 \<le> i" and "0 \<le> j" and "\<bar>i - j\<bar> < cl_maxLength c"
  shows "cl_get (cl_set c i v) j = (if i = j then v else cl_get c j)"
  using assms mod_window_inj [of "cl_maxLength c" "cl_startIndex c + j" "cl_startIndex c + i"]
  by (auto simp: cl_get_def cl_set_def cl_getCyclicIndex_def cl_wf_def js_simps)

interpretation cl_cells: indexed_store cl_get cl_set "\<lambda>v. v" cl_wf cl_maxLength "int lo" for lo
  by unfold_locales (auto simp: cl_get_set, simp add: cl_wf_def)


text \<open>Moving the start or the length changes which cells are seen, never the cells.\<close>

lemma cl_get_upd_length [simp]: "cl_get (c\<lparr>cl_length := n\<rparr>) j = cl_get c j"
  by (simp add: cl_get_def cl_getCyclicIndex_def)

lemma cl_get_advance:
  "s = cl_startIndex c \<Longrightarrow> cl_get (c\<lparr>cl_startIndex := s + k\<rparr>) j = cl_get c (k + j)"
  by (simp add: cl_get_def cl_getCyclicIndex_def add.assoc)

lemma cl_get_rotate:
  assumes "cl_wf c" and "s = cl_startIndex c" and "m = cl_maxLength c" and "0 \<le> j"
  shows "cl_get (c\<lparr>cl_startIndex := js_rem (s + 1) m\<rparr>) j = cl_get c (1 + j)"
  using assms by (simp add: cl_get_def cl_getCyclicIndex_def cl_wf_def js_simps mod_add_left_eq add.assoc)

lemma cl_get_wrap: "cl_wf c \<Longrightarrow> 0 \<le> j \<Longrightarrow> cl_get c (cl_maxLength c + j) = cl_get c j"
  by (simp add: cl_get_def cl_getCyclicIndex_def cl_wf_def js_simps add.left_commute)

lemmas cl_view = cl_get_rotate cl_get_advance cl_get_upd_length

lemma cl_list_set:
  assumes "cl_inv c" and "0 \<le> i" and "i < cl_length c"
  shows "cl_list (cl_set c i v) = (cl_list c)[nat i := v]"
  by (rule cl_list_eqI) (use assms in \<open>auto simp: cl_get_set cl_inv_def cl_list_nth nth_list_update\<close>)

lemma cl_push_eq:
  "cl_push c v =
     (let c1 = cl_set c (cl_length c) v
      in if cl_isFull c
         then (c1\<lparr>cl_startIndex := js_rem (cl_startIndex c1 + 1) (cl_maxLength c1)\<rparr>, [1])
         else (c1\<lparr>cl_length := cl_length c1 + 1\<rparr>, []))"
  by (simp add: cl_push_def cl_set_def cl_isFull_def)

lemma cl_push_inv: "cl_inv c \<Longrightarrow> cl_inv (fst (cl_push c v))"
  by (auto simp: cl_push_eq cl_isFull_def cl_inv_def cl_wf_def js_simps Let_def)

lemma cl_push_list:
  assumes "cl_inv c"
  shows "cl_list (fst (cl_push c v)) =
    (if cl_isFull c then tl (cl_list c) else cl_list c) @ [v]"
proof (cases "cl_isFull c")
  case True
  show ?thesis
    using assms True
    by (intro cl_list_eqI)
      (auto simp: cl_push_eq cl_isFull_def cl_inv_def Let_def cl_view cl_wf_def nth_append nth_tl
        cl_list_nth cl_get_set)
next
  case False
  with assms show ?thesis
    by (intro cl_list_eqI)
      (auto simp: cl_push_eq cl_isFull_def cl_inv_def Let_def cl_view nth_append
        cl_list_nth cl_get_set)
qed

lemma cl_pop_spec:
  assumes "cl_inv c" and "0 < cl_length c"
  shows "cl_inv (fst (cl_pop c)) \<and> cl_list (fst (cl_pop c)) = butlast (cl_list c)
    \<and> snd (cl_pop c) = last (cl_list c)"
proof (intro conjI)
  have ne: "cl_list c \<noteq> []" using assms by (metis length_cl_list length_0_conv less_irrefl zero_less_nat_eq)
  show "cl_inv (fst (cl_pop c))" using assms by (simp add: cl_pop_def cl_inv_def cl_wf_def)
  show "cl_list (fst (cl_pop c)) = butlast (cl_list c)"
    by (rule cl_list_eqI) (use assms in \<open>auto simp: cl_pop_def nth_butlast cl_list_nth\<close>)
  show "snd (cl_pop c) = last (cl_list c)"
    using assms ne by (simp add: cl_pop_def last_conv_nth cl_list_nth cl_get_def of_nat_diff)
qed

lemma cl_recycle_full:
  assumes "cl_inv c" and "cl_isFull c"
  obtains c' where "cl_recycle c = Inr (c', [1], hd (cl_list c))" and "cl_inv c'"
    and "cl_list c' = tl (cl_list c) @ [hd (cl_list c)]"
proof -
  let ?c' = "c\<lparr>cl_startIndex := js_rem (cl_startIndex c + 1) (cl_maxLength c)\<rparr>"
  have wf: "cl_wf c" and pos: "0 < cl_maxLength c" and len: "cl_length c = cl_maxLength c"
    using assms by (simp_all add: cl_inv_def cl_isFull_def cl_wf_def)
  have ne: "cl_list c \<noteq> []" using pos len by (metis length_cl_list length_0_conv less_irrefl zero_less_nat_eq)
  have hd: "hd (cl_list c) = cl_get c 0"
    using ne pos len by (simp add: hd_conv_nth cl_list_nth)
  have wrap: "cl_get c (cl_maxLength c) = cl_get c 0"
    using cl_get_wrap [OF wf, of 0] by simp
  have "cl_get ?c' (cl_length c - 1) = hd (cl_list c)"
    using wf pos len hd wrap by (simp add: cl_view)
  then have "cl_recycle c = Inr (?c', [1], hd (cl_list c))"
    using len by (simp add: cl_recycle_def cl_get_def)
  moreover have "cl_inv ?c'"
    using assms by (simp add: cl_inv_def cl_wf_def js_simps)
  moreover have "cl_list ?c' = tl (cl_list c) @ [hd (cl_list c)]"
  proof (rule cl_list_eqI)
    fix k assume "k < length (tl (cl_list c) @ [hd (cl_list c)])"
    then have k: "k < nat (cl_maxLength c)" using len pos by auto
    show "cl_get ?c' (int k) = (tl (cl_list c) @ [hd (cl_list c)]) ! k"
    proof (cases "Suc k < nat (cl_maxLength c)")
      case True
      then show ?thesis using wf len by (auto simp: cl_view nth_append nth_tl cl_list_nth)
    next
      case False
      with k have "1 + int k = cl_maxLength c" by linarith
      with False k show ?thesis using wf len hd wrap by (auto simp: cl_view nth_append)
    qed
  qed (use len pos in simp)
  ultimately show ?thesis by (rule that)
qed

lemma cl_recycle_not_full: "\<not> cl_isFull c \<Longrightarrow> cl_recycle c = Inl RecycleNotFull"
  by (simp add: cl_recycle_def cl_isFull_def)

lemma cl_trimStart_spec:
  assumes "cl_inv c" and "0 \<le> count"
  shows "cl_inv (fst (cl_trimStart c count)) \<and>
    cl_list (fst (cl_trimStart c count)) = drop (nat count) (cl_list c) \<and>
    snd (cl_trimStart c count) = [min count (cl_length c)]"
proof (intro conjI)
  show "cl_inv (fst (cl_trimStart c count))"
    using assms by (simp add: cl_trimStart_def cl_inv_def cl_wf_def Let_def)
  show "cl_list (fst (cl_trimStart c count)) = drop (nat count) (cl_list c)"
    by (rule cl_list_eqI)
      (use assms in \<open>auto simp: cl_trimStart_def cl_view cl_list_nth cl_inv_def Let_def\<close>)
  show "snd (cl_trimStart c count) = [min count (cl_length c)]"
    by (simp add: cl_trimStart_def Let_def)
qed

lemma cl_setMaxLength_spec:
  assumes "cl_inv c" and "0 < m" and "cl_length c \<le> m"
  shows "cl_inv (cl_setMaxLength c m) \<and> cl_maxLength (cl_setMaxLength c m) = m
    \<and> cl_list (cl_setMaxLength c m) = cl_list c"
proof (cases "cl_maxLength c = m")
  case True
  then show ?thesis using assms by (simp add: cl_setMaxLength_def)
next
  case False
  have arr: "cl_array (cl_setMaxLength c m) =
      (\<lambda>k. if 0 \<le> k \<and> k < cl_length c then cl_get c k else None)"
    using False assms
    by (auto simp: cl_setMaxLength_def for_up_fun_upd cl_get_def cl_inv_def fun_eq_iff)
  show ?thesis
    using assms False
    by (intro conjI cl_list_eqI)
      (auto simp: arr cl_list_nth cl_inv_def cl_wf_def cl_get_def [of "cl_setMaxLength c m"]
        cl_getCyclicIndex_def [of "cl_setMaxLength c m"] js_simps, auto simp: cl_setMaxLength_def js_simps)
qed

lemma cl_splice_delete_list:
  assumes "cl_inv c" and "0 \<le> start" and "0 \<le> d" and "start + d \<le> cl_length c"
  shows "cl_inv (cl_splice_delete c start d) \<and>
    cl_maxLength (cl_splice_delete c start d) = cl_maxLength c \<and>
    cl_length (cl_splice_delete c start d) = cl_length c - d \<and>
    cl_list (cl_splice_delete c start d) = take (nat start) (cl_list c) @ drop (nat (start + d)) (cl_list c)"
proof (cases "d = 0")
  case True
  then show ?thesis using assms by (simp add: cl_splice_delete_def)
next
  case False
  let ?t = "for_up start (cl_length c - d) (\<lambda>i c. cl_set c i (cl_get c (i + d))) c"
  have fields: "cl_startIndex ?t = cl_startIndex c \<and> cl_length ?t = cl_length c"
    by (rule for_up_rule [where P = "\<lambda>_ t. cl_startIndex t = cl_startIndex c \<and> cl_length t = cl_length c"])
      (use assms in auto)
  have t: "cl_wf ?t \<and> cl_maxLength ?t = cl_maxLength c \<and> (\<forall>j\<ge>0. j < cl_maxLength c \<longrightarrow>
      cl_get ?t j = (if start \<le> j \<and> j < cl_length c - d then cl_get c (j + d) else cl_get c j))"
    using cl_cells.move_down [where lo = 0, of c d start "cl_length c - d"] assms
    by (simp add: cl_inv_def)
  have "cl_list (cl_splice_delete c start d) = take (nat start) (cl_list c) @ drop (nat (start + d)) (cl_list c)"
  proof (rule cl_list_eqI)
    fix k assume "k < length (take (nat start) (cl_list c) @ drop (nat (start + d)) (cl_list c))"
    then have "int k < cl_length c - d" using assms by (auto simp: min_def split: if_splits)
    then show "cl_get (cl_splice_delete c start d) (int k) =
        (take (nat start) (cl_list c) @ drop (nat (start + d)) (cl_list c)) ! k"
      using assms False t fields
      by (auto simp: cl_splice_delete_def Let_def nth_append cl_list_nth cl_inv_def nat_add_distrib
          min_def algebra_simps)
  qed (use assms False fields in \<open>auto simp: cl_splice_delete_def Let_def min_def\<close>)
  then show ?thesis
    using assms False fields t by (simp add: cl_splice_delete_def Let_def cl_inv_def cl_wf_def)
qed

lemma cl_splice_insert_cells:
  assumes "cl_inv c" and "0 \<le> start" and "start \<le> cl_length c"
    and "n = int (length items)" and "ovf = max 0 (cl_length c + n - cl_maxLength c)" and "ovf \<le> start"
  defines "t \<equiv> cl_splice_insert c start items"
  shows "cl_wf t \<and> cl_maxLength t = cl_maxLength c \<and> cl_startIndex t = cl_startIndex c \<and>
    cl_length t = cl_length c \<and>
    (\<forall>j. ovf \<le> j \<longrightarrow> j < cl_length c + n \<longrightarrow> cl_get t j =
      (if j < start then cl_get c j
       else if j < start + n then items ! nat (j - start) else cl_get c (j - n)))"
proof -
  let ?u = "for_down (cl_length c - 1) start (\<lambda>i c. cl_set c (i + n) (cl_get c i)) c"
  let ?w = "\<lambda>j. items ! nat (j - start)"
  have t_eq: "t = for_up start (start + n) (\<lambda>j c. cl_set c j (?w j)) ?u"
    using for_up_shift [of 0 n "\<lambda>j c. cl_set c j (?w j)" start ?u] assms(4)
    by (simp add: t_def cl_splice_insert_def Let_def)
  have lo: "int (nat ovf) = ovf" and win: "cl_length c + n \<le> ovf + cl_maxLength c"
    using assms(5) by simp_all
  have u: "cl_wf ?u \<and> cl_maxLength ?u = cl_maxLength c \<and> (\<forall>j\<ge>ovf. j < ovf + cl_maxLength c \<longrightarrow>
      cl_get ?u j = (if start + n \<le> j \<and> j < cl_length c + n then cl_get c (j - n) else cl_get c j))"
    using cl_cells.move_up [where lo = "nat ovf", of c n start "cl_length c"] assms win
    by (simp add: lo cl_inv_def)
  have v: "cl_wf t \<and> cl_maxLength t = cl_maxLength ?u \<and> (\<forall>j\<ge>ovf. j < ovf + cl_maxLength ?u \<longrightarrow>
      cl_get t j = (if start \<le> j \<and> j < start + n then ?w j else cl_get ?u j))"
    unfolding t_eq
    using cl_cells.write_range [where lo = "nat ovf", of ?u start "start + n" ?w] assms win u
    by (simp add: lo)
  have fu: "cl_startIndex ?u = cl_startIndex c \<and> cl_length ?u = cl_length c"
    by (rule for_down_rule [where P = "\<lambda>_ t. cl_startIndex t = cl_startIndex c \<and> cl_length t = cl_length c"])
      (use assms in auto)
  have ft: "cl_startIndex t = cl_startIndex ?u \<and> cl_length t = cl_length ?u"
    unfolding t_eq
    by (rule for_up_rule [where P = "\<lambda>_ t. cl_startIndex t = cl_startIndex ?u \<and> cl_length t = cl_length ?u"])
      (use assms(4) in auto)
  show ?thesis using u v fu ft win assms(4) by auto
qed

text \<open>The list a splice produces before the front is trimmed.\<close>

definition spliced :: "int \<Rightarrow> int \<Rightarrow> 'a list \<Rightarrow> 'a list \<Rightarrow> 'a list" where
  "spliced start d items xs = take (nat start) xs @ items @ drop (nat (start + d)) xs"

lemma spliced_nth:
  assumes "0 \<le> start" and "start \<le> int (length xs)"
    and "ys = take (nat start) xs @ drop (nat (start + d)) xs"
  shows "spliced start d items xs ! k = (if int k < start then ys ! k
      else if int k < start + int (length items) then items ! nat (int k - start)
      else ys ! (k - length items))"
proof -
  obtain s where s: "start = int s" using assms(1) nonneg_int_cases by blast
  have len: "length (take s xs) = s" using assms(2) s by simp
  have "spliced start d items xs ! k = (if k < s then take s xs ! k
      else if k < s + length items then items ! (k - s)
      else drop (nat (start + d)) xs ! (k - s - length items))"
    by (simp only: spliced_def s nat_int nth_append len) auto
  moreover have "ys ! i = (if i < s then take s xs ! i else drop (nat (start + d)) xs ! (i - s))" for i
    by (simp only: assms(3) s nat_int nth_append len)
  ultimately show ?thesis
    by (auto simp: s nat_minus_as_int algebra_simps)
qed

lemma cl_splice_spec:
  assumes "cl_inv c" and "0 \<le> start" and "0 \<le> d" and "start + d \<le> cl_length c"
    and "cl_length c - d + int (length items) - cl_maxLength c \<le> start"
  defines "xs \<equiv> spliced start d items (cl_list c)"
  shows "cl_inv (fst (cl_splice c start d items)) \<and>
    cl_list (fst (cl_splice c start d items)) = keep_last (nat (cl_maxLength c)) xs \<and>
    sum_list (snd (cl_splice c start d items)) = int (length xs - nat (cl_maxLength c))"
proof -
  let ?c1 = "cl_splice_delete c start d"
  let ?n = "int (length items)"
  let ?t = "cl_splice_insert ?c1 start items"
  let ?o = "max 0 (cl_length ?c1 + ?n - cl_maxLength ?c1)"
  have c1: "cl_inv ?c1" "cl_maxLength ?c1 = cl_maxLength c" "cl_length ?c1 = cl_length c - d"
    "cl_list ?c1 = take (nat start) (cl_list c) @ drop (nat (start + d)) (cl_list c)"
    using cl_splice_delete_list [OF assms(1-4)] by simp_all
  have t: "cl_wf ?t" "cl_maxLength ?t = cl_maxLength ?c1" "cl_startIndex ?t = cl_startIndex ?c1"
    "cl_length ?t = cl_length ?c1"
    "\<And>j. ?o \<le> j \<Longrightarrow> j < cl_length ?c1 + ?n \<Longrightarrow> cl_get ?t j =
      (if j < start then cl_get ?c1 j
       else if j < start + ?n then items ! nat (j - start) else cl_get ?c1 (j - ?n))"
    using cl_splice_insert_cells [of ?c1 start ?n items ?o] c1 assms by simp_all
  have len: "int (length xs) = cl_length ?c1 + ?n"
    using assms(1-4) by (auto simp: xs_def spliced_def c1 min_def cl_inv_def)
  have start: "start \<le> int (length (cl_list c))" using assms(1-4) by (simp add: cl_inv_def)
  have cell: "cl_get ?t (int k) = xs ! k" if "?o \<le> int k" "k < length xs" for k
    using t(5) [OF that(1)] that(2) len assms(2,3,4) c1(3)
      spliced_nth [OF assms(2) start c1(4), of items k, folded xs_def]
    by (auto simp: cl_list_nth of_nat_diff)
  show ?thesis
  proof (cases "cl_length ?t + ?n > cl_maxLength ?t")
    case True
    then have res: "cl_splice c start d items =
        (?t\<lparr>cl_startIndex := cl_startIndex ?t + ?o, cl_length := cl_maxLength ?t\<rparr>, [?o])"
      using t by (simp add: cl_splice_def Let_def)
    have "cl_list (fst (cl_splice c start d items)) = keep_last (nat (cl_maxLength c)) xs"
    proof (rule cl_list_eqI)
      fix k assume k: "k < length (keep_last (nat (cl_maxLength c)) xs)"
      have "?o + int k = int (length xs - nat (cl_maxLength c) + k)"
        using True t(2,4) c1(1,2) len by (simp add: cl_inv_def cl_wf_def)
      with k cell [of "length xs - nat (cl_maxLength c) + k"]
      show "cl_get (fst (cl_splice c start d items)) (int k) = keep_last (nat (cl_maxLength c)) xs ! k"
        by (simp add: res cl_view keep_last_def)
    qed (use True c1 t(2,4) len in \<open>simp add: res cl_inv_def cl_wf_def keep_last_def\<close>)
    then show ?thesis using True t(1-4) c1 len by (auto simp: res cl_inv_def cl_wf_def)
  next
    case False
    then have res: "cl_splice c start d items = (?t\<lparr>cl_length := cl_length ?t + ?n\<rparr>, [])"
      by (simp add: cl_splice_def Let_def)
    have "cl_list (fst (cl_splice c start d items)) = keep_last (nat (cl_maxLength c)) xs"
      by (rule cl_list_eqI) (use False c1 t(1-4) len cell in \<open>auto simp: res cl_view cl_inv_def keep_last_def\<close>)
    then show ?thesis using False t(1-4) c1 len by (auto simp: res cl_inv_def cl_wf_def)
  qed
qed

lemma cl_dropOverflow_eq:
  "cl_dropOverflow c =
    (c\<lparr>cl_startIndex := cl_startIndex c + max 0 (cl_length c - cl_maxLength c),
       cl_length := min (cl_length c) (cl_maxLength c)\<rparr>,
     replicate (nat (cl_length c - cl_maxLength c)) 1)"
proof (induction c rule: cl_dropOverflow.induct)
  case (1 c)
  show ?case
  proof (cases "cl_maxLength c < cl_length c")
    case True
    then have "nat (cl_length c - cl_maxLength c) = Suc (nat (cl_length c - 1 - cl_maxLength c))"
      by simp
    with True "1.IH" [OF True] show ?thesis
      by (subst cl_dropOverflow.simps) (simp add: min_def max_def)
  next
    case False
    then show ?thesis by (subst cl_dropOverflow.simps) simp
  qed
qed

text \<open>The list after moving \<open>count\<close> entries from \<open>start\<close> to \<open>start + offset\<close>.\<close>

definition shifted :: "int \<Rightarrow> int \<Rightarrow> int \<Rightarrow> 'a list \<Rightarrow> 'a list" where
  "shifted start count offset xs =
     take (nat (start + offset)) xs @ take (nat count) (drop (nat start) xs)
       @ drop (nat (start + offset + count)) xs"

lemma length_shifted:
  assumes "0 \<le> start" "0 \<le> count" "start + count \<le> int (length xs)"
    "0 \<le> start + offset" "start + offset \<le> int (length xs)"
  shows "int (length (shifted start count offset xs)) = max (int (length xs)) (start + offset + count)"
  using assms by (auto simp: shifted_def min_def max_def)

lemma shifted_nth:
  assumes "0 \<le> start" "0 \<le> count" "start + count \<le> int (length xs)"
    "0 \<le> start + offset" "start + offset \<le> int (length xs)"
    and "k < length (shifted start count offset xs)"
  shows "shifted start count offset xs ! k =
    (if start + offset \<le> int k \<and> int k < start + offset + count then xs ! nat (int k - offset) else xs ! k)"
proof -
  obtain s m p where s: "start = int s" and m: "count = int m" and p: "start + offset = int p"
    using assms nonneg_int_cases by metis
  have len: "length (take p xs) = p" "length (take m (drop s xs)) = m"
    using assms(3,5) s m p by auto
  have k: "k < max (length xs) (p + m)"
    using length_shifted [OF assms(1-5)] assms(6) by (simp add: p m)
  have "shifted start count offset xs = take p xs @ take m (drop s xs) @ drop (p + m) xs"
    using p m s by (simp add: shifted_def nat_add_distrib flip: of_nat_add)
  moreover have "nat (int k - offset) = s + (k - p)" if "p \<le> k"
    using that s p by linarith
  ultimately show ?thesis
    using k len by (auto simp: nth_append p m not_less)
qed

lemma cl_shiftElements_cells:
  assumes "cl_inv c" and "0 < count" and "0 \<le> start" and "start + count \<le> cl_length c"
    and "0 \<le> start + offset" and "start + offset \<le> cl_length c"
    and "ovf = max 0 (start + count + offset - cl_maxLength c)" and "ovf \<le> start"
  obtains t where "cl_wf t" and "cl_maxLength t = cl_maxLength c" and "cl_length t = cl_length c"
    and "\<And>j. ovf \<le> j \<Longrightarrow> j < ovf + cl_maxLength c \<Longrightarrow> cl_get t j =
      (if start + offset \<le> j \<and> j < start + offset + count then cl_get c (j - offset) else cl_get c j)"
    and "cl_shiftElements c start count offset =
      (let e = start + count + offset - cl_length c
       in if offset > 0 \<and> e > 0 then Inr (cl_dropOverflow (t\<lparr>cl_length := cl_length c + e\<rparr>)) else Inr (t, []))"
proof (cases "offset > 0")
  case True
  define t where "t = for_down (count - 1) 0 (\<lambda>i c. cl_set c (start + i + offset) (cl_get c (start + i))) c"
  have t_eq: "t = for_down (start + count - 1) start (\<lambda>i c. cl_set c (i + offset) (cl_get c i)) c"
    using for_down_shift [of "count - 1" 0 "\<lambda>i c. cl_set c (i + offset) (cl_get c i)" start c]
    by (simp add: t_def add_diff_eq)
  have len: "cl_length t = cl_length c"
    unfolding t_eq by (rule for_down_rule [where P = "\<lambda>_ t. cl_length t = cl_length c"]) (use assms in auto)
  have lo: "int (nat ovf) = ovf" using assms by simp
  have "cl_wf t \<and> cl_maxLength t = cl_maxLength c \<and> (\<forall>j\<ge>ovf. j < ovf + cl_maxLength c \<longrightarrow> cl_get t j =
      (if start + offset \<le> j \<and> j < start + count + offset then cl_get c (j - offset) else cl_get c j))"
    unfolding t_eq
    using cl_cells.move_up [where lo = "nat ovf", of c offset start "start + count"] assms True
    by (simp add: lo cl_inv_def)
  moreover have "start + count + offset = start + offset + count" by simp
  moreover have "cl_shiftElements c start count offset =
      (let e = start + count + offset - cl_length c
       in if offset > 0 \<and> e > 0 then Inr (cl_dropOverflow (t\<lparr>cl_length := cl_length c + e\<rparr>)) else Inr (t, []))"
    using len assms True by (simp add: cl_shiftElements_def t_def [symmetric] Let_def)
  ultimately show ?thesis using that [of t] len by simp
next
  case False
  define t where "t = for_up 0 count (\<lambda>i c. cl_set c (start + i + offset) (cl_get c (start + i))) c"
  have t_eq: "t = for_up (start + offset) (start + offset + count)
      (\<lambda>i c. cl_set c i (cl_get c (i + - offset))) c"
    using for_up_shift [of 0 count "\<lambda>i c. cl_set c i (cl_get c (i + - offset))" "start + offset" c]
    by (simp add: t_def algebra_simps)
  have len: "cl_length t = cl_length c"
    unfolding t_eq by (rule for_up_rule [where P = "\<lambda>_ t. cl_length t = cl_length c"]) (use assms in auto)
  have ovf: "ovf = 0" using assms False by (simp add: cl_inv_def)
  have "cl_wf t \<and> cl_maxLength t = cl_maxLength c \<and> (\<forall>j\<ge>0. j < cl_maxLength c \<longrightarrow> cl_get t j =
      (if start + offset \<le> j \<and> j < start + offset + count then cl_get c (j + - offset) else cl_get c j))"
    unfolding t_eq
    using cl_cells.move_down [where lo = 0, of c "- offset" "start + offset" "start + offset + count"] assms False
    by (simp add: cl_inv_def)
  then show ?thesis
    using that [of t] len assms False ovf
    by (auto simp: cl_shiftElements_def t_def [symmetric] Let_def)
qed

lemma cl_shiftElements_spec:
  assumes "cl_inv c" and "0 < count" and "0 \<le> start" and "start + count \<le> cl_length c"
    and "0 \<le> start + offset" and "start + offset \<le> cl_length c" and "count + offset \<le> cl_maxLength c"
  defines "xs \<equiv> shifted start count offset (cl_list c)"
  shows "\<exists>c' trims. cl_shiftElements c start count offset = Inr (c', trims) \<and> cl_inv c' \<and>
    cl_list c' = keep_last (nat (cl_maxLength c)) xs \<and>
    trims = replicate (length xs - nat (cl_maxLength c)) 1"
proof -
  define ovf where "ovf = max 0 (start + count + offset - cl_maxLength c)"
  obtain t where t: "cl_wf t" "cl_maxLength t = cl_maxLength c" "cl_length t = cl_length c"
    "\<And>j. ovf \<le> j \<Longrightarrow> j < ovf + cl_maxLength c \<Longrightarrow> cl_get t j =
      (if start + offset \<le> j \<and> j < start + offset + count then cl_get c (j - offset) else cl_get c j)"
    "cl_shiftElements c start count offset =
      (let e = start + count + offset - cl_length c
       in if offset > 0 \<and> e > 0 then Inr (cl_dropOverflow (t\<lparr>cl_length := cl_length c + e\<rparr>)) else Inr (t, []))"
    using cl_shiftElements_cells [OF assms(1-6) ovf_def] assms(3,7) by (auto simp: ovf_def)
  have pre: "0 \<le> count" "start + count \<le> int (length (cl_list c))" "start + offset \<le> int (length (cl_list c))"
    using assms by (auto simp: cl_inv_def)
  have len: "int (length xs) = max (cl_length c) (start + offset + count)"
    using length_shifted [OF assms(3) pre(1,2) assms(5) pre(3)] assms(1) by (simp add: xs_def cl_inv_def)
  have cell: "cl_get t (int k) = xs ! k" if "ovf \<le> int k" "k < length xs" for k
    using that t(4) [of "int k"] len assms(1,2,3,4,6,7)
      shifted_nth [OF assms(3) pre(1,2) assms(5) pre(3) that(2) [unfolded xs_def]]
    by (auto simp: xs_def [symmetric] cl_list_nth cl_inv_def ovf_def)
  let ?c' = "t\<lparr>cl_startIndex := cl_startIndex t + ovf, cl_length := int (length xs) - ovf\<rparr>"
  have ovf: "ovf = int (length xs - nat (cl_maxLength c))"
    using len assms(1) by (auto simp: ovf_def cl_inv_def cl_wf_def)
  have "cl_shiftElements c start count offset = Inr (?c', replicate (nat ovf) 1)"
    using t(2,3,5) len assms(1,4) by (auto simp: Let_def cl_dropOverflow_eq ovf_def cl_inv_def max_def min_def)
  moreover have "cl_inv ?c'"
    using t(1,2) len assms(1,2,3) by (auto simp: cl_inv_def cl_wf_def ovf_def)
  moreover have "cl_list ?c' = keep_last (nat (cl_maxLength c)) xs"
    by (rule cl_list_eqI) (use cell [of "nat ovf + _"] ovf in \<open>auto simp: cl_view of_nat_diff keep_last_def\<close>)
  ultimately show ?thesis using ovf by auto
qed

subsection \<open>The ring as a bounded history\<close>

interpretation cl_history: bounded_history
  "\<lambda>c v. fst (cl_push c v)" cl_list "\<lambda>c. nat (cl_maxLength c)" cl_inv
proof
  fix c :: "'a circular_list" and v
  assume inv: "cl_inv c"
  then have "cl_isFull c = (length (cl_list c) = nat (cl_maxLength c))"
    by (auto simp: cl_isFull_def cl_inv_def)
  with inv show "cl_list (fst (cl_push c v)) = keep_last (nat (cl_maxLength c)) (cl_list c @ [v])"
    by (subst keep_last_snoc) (auto simp: cl_push_list cl_inv_def cl_wf_def)
qed (simp_all add: cl_push_inv, auto simp: cl_push_eq Let_def cl_inv_def)

subsection \<open>Properties\<close>

text \<open>
  A sample ring used to exercise the properties: capacity 3, entries 1 to 4 pushed, so the
  start index has moved and the first entry has fallen out.
\<close>

definition sample_ring :: "nat circular_list" where
  "sample_ring = fold (\<lambda>v c. fst (cl_push c (Some v))) [1, 2, 3, 4] (cl_new 3)"

lemma sample_ring_inv: "cl_inv sample_ring"
  unfolding sample_ring_def by (simp add: cl_push_inv cl_new_inv)

lemma sample_ring_fields:
  "cl_list sample_ring = [Some 2, Some 3, Some 4]" "cl_length sample_ring = 3"
  "cl_maxLength sample_ring = 3" "cl_startIndex sample_ring = 1"
  by code_simp+

text \<open>
  C10. Whatever sequence of lines is pushed, the ring keeps its invariant and holds exactly the
  most recent \<open>maxLength\<close> entries, oldest first.
\<close>

theorem circular_list_history:
  assumes "cl_inv c"
  shows "cl_inv (fold (\<lambda>v c. fst (cl_push c v)) vs c) \<and>
    cl_list (fold (\<lambda>v c. fst (cl_push c v)) vs c) = keep_last (nat (cl_maxLength c)) (cl_list c @ vs)"
  using cl_history.items_pushes [OF assms] .

theorem circular_list_history_witness:
  "cl_list (fold (\<lambda>v c. fst (cl_push c v)) [Some 5, Some 6] sample_ring) = [Some 4, Some 5, Some 6]"
  using circular_list_history [OF sample_ring_inv, of "[Some 5, Some 6]"]
  by (simp add: sample_ring_fields keep_last_def)

text \<open>
  C11. \<open>splice\<close> replaces \<open>d\<close> entries from \<open>start\<close> by the given items and keeps the most recent
  \<open>maxLength\<close> entries of the result, announcing on \<open>onTrim\<close> how many it dropped, as long as
  it drops no entry at or after the splice position.
\<close>

theorem circular_list_splice:
  assumes "cl_inv c" and "0 \<le> start" and "0 \<le> d" and "start + d \<le> cl_length c"
    and "cl_length c - d + int (length items) - cl_maxLength c \<le> start"
  shows "cl_inv (fst (cl_splice c start d items)) \<and>
    cl_list (fst (cl_splice c start d items)) =
      keep_last (nat (cl_maxLength c)) (spliced start d items (cl_list c)) \<and>
    sum_list (snd (cl_splice c start d items)) =
      int (length (spliced start d items (cl_list c)) - nat (cl_maxLength c))"
  using cl_splice_spec [OF assms] .

theorem circular_list_splice_witness:
  "cl_list (fst (cl_splice sample_ring 1 1 [Some 8, Some 9])) = [Some 8, Some 9, Some 4]
    \<and> sum_list (snd (cl_splice sample_ring 1 1 [Some 8, Some 9])) = 1"
  using circular_list_splice [OF sample_ring_inv, of 1 1 "[Some 8, Some 9]"]
  by (simp add: sample_ring_fields spliced_def keep_last_def)

text \<open>
  The side condition of the splice is needed: inserting at the front of a full ring reads
  cells it has already overwritten, and loses the oldest entries it should have kept.
\<close>

theorem circular_list_splice_overwrites:
  "cl_inv sample_ring \<and> cl_list sample_ring = [Some 2, Some 3, Some 4] \<and>
   keep_last 3 (spliced 0 0 [Some 1] (cl_list sample_ring)) = [Some 2, Some 3, Some 4] \<and>
   cl_list (fst (cl_splice sample_ring 0 0 [Some 1])) = [Some 4, Some 3, Some 1]"
proof (intro conjI)
  show "cl_list (fst (cl_splice sample_ring 0 0 [Some 1])) = [Some 4, Some 3, Some 1]"
    by code_simp
qed (simp_all add: sample_ring_inv sample_ring_fields spliced_def keep_last_def)

text \<open>
  \<open>shiftElements\<close> in either direction moves a block of entries by the offset, grows the list
  when the block passes its end and then drops the oldest entries one \<open>onTrim\<close> at a time; it
  raises no error when the block lies in the list and the target does not start beyond its end.
\<close>

theorem circular_list_shiftElements:
  assumes "cl_inv c" and "0 < count" and "0 \<le> start" and "start + count \<le> cl_length c"
    and "0 \<le> start + offset" and "start + offset \<le> cl_length c" and "count + offset \<le> cl_maxLength c"
  shows "\<exists>c' trims. cl_shiftElements c start count offset = Inr (c', trims) \<and> cl_inv c' \<and>
    cl_list c' = keep_last (nat (cl_maxLength c)) (shifted start count offset (cl_list c)) \<and>
    trims = replicate (length (shifted start count offset (cl_list c)) - nat (cl_maxLength c)) 1"
  using cl_shiftElements_spec [OF assms] .

theorem circular_list_shiftElements_witness:
  "\<exists>c'. cl_shiftElements sample_ring 1 2 1 = Inr (c', [1]) \<and> cl_list c' = [Some 3, Some 3, Some 4]"
  using circular_list_shiftElements [OF sample_ring_inv, of 2 1 1]
  by (auto simp: sample_ring_fields shifted_def keep_last_def)

text \<open>
  \<open>recycle\<close> on a full ring returns the oldest entry and makes it the newest, announcing one
  trimmed entry; on any other ring it raises its error.
\<close>

theorem circular_list_recycle:
  assumes "cl_inv c"
  shows "if cl_isFull c
    then \<exists>c'. cl_recycle c = Inr (c', [1], hd (cl_list c)) \<and> cl_inv c'
           \<and> cl_list c' = tl (cl_list c) @ [hd (cl_list c)]
    else cl_recycle c = Inl RecycleNotFull"
  using assms by (auto simp: cl_recycle_not_full elim: cl_recycle_full)

theorem circular_list_recycle_witness:
  "\<exists>c'. cl_recycle sample_ring = Inr (c', [1], Some 2) \<and> cl_list c' = [Some 3, Some 4, Some 2]"
  using circular_list_recycle [OF sample_ring_inv]
  by (auto simp: cl_isFull_def sample_ring_fields)

end
