(* ===== verification/LessonPlayer.thy ===== *)
theory LessonPlayer
  imports JS_Prelude
begin

text \<open>
  Playing a lesson. Two objects each keep a position in the lesson: the page's controller
  (\<open>app.js\<close>: \<open>startLesson\<close>, \<open>nextStep\<close>, \<open>previousStep\<close>) and the terminal
  (\<open>xterm.js\<close>: \<open>startLesson\<close>, \<open>_renderCurrentStep\<close>, \<open>completeCurrentStep\<close>), which prints
  the step it believes to be current and announces the steps completed. The model keeps both
  positions, everything the terminal writes and every event it fires, and the exceptions
  property reads on \<open>undefined\<close> and \<open>null\<close> raise.

  A lesson is what the code reads of the object it is given: \<open>ID\<close>, \<open>Steps\<close> and, of a step,
  \<open>Content\<close> and \<open>Commands\<close>. A property the object lacks is \<open>None\<close>.
\<close>

subsection \<open>The terminal's side\<close>

record lesson_step =
  st_Content :: "string option"
  st_Commands :: "string list option"

record lesson =
  ls_ID :: "string option"
  ls_Steps :: "lesson_step list option"

record lesson_event =
  le_lessonId :: "string option"
  le_stepIndex :: int
  le_completed :: bool

record lesson_term =
  lt_currentLesson :: "lesson option"
  lt_currentStep :: int
  lt_written :: "string list"
  lt_onLessonStart :: "lesson list"
  lt_onLessonStep :: "lesson_event list"

definition lt_write :: "string \<Rightarrow> lesson_term \<Rightarrow> lesson_term" where
  "lt_write s t = t\<lparr>lt_written := lt_written t @ [s]\<rparr>"

text \<open>\<open>xs[i]\<close> on an array: \<open>undefined\<close> outside its range.\<close>

definition js_nth :: "'a list \<Rightarrow> int \<Rightarrow> 'a option" where
  "js_nth xs i = (if 0 \<le> i \<and> i < int (length xs) then Some (xs ! nat i) else None)"

text \<open>The two lines a step prints.\<close>

definition step_text :: "lesson_step \<Rightarrow> string list" where
  "step_text st =
     (crlf @ js_str (st_Content st) @ crlf) #
     (case st_Commands st of
        None \<Rightarrow> []
      | Some cs \<Rightarrow> if length cs > 0 then [''> '' @ js_join '' && '' cs @ crlf] else [])"

definition renderCurrentStep :: "lesson_term \<Rightarrow> lesson_term outcome" where
  "renderCurrentStep t =
     (case lt_currentLesson t of
        None \<Rightarrow> Done t
      | Some l \<Rightarrow>
          (case ls_Steps l of
             None \<Rightarrow> Throw TypeError t
           | Some steps \<Rightarrow>
               (case js_nth steps (lt_currentStep t) of
                  None \<Rightarrow> Throw TypeError t
                | Some st \<Rightarrow> Done (fold lt_write (step_text st) t))))"

definition term_startLesson :: "lesson \<Rightarrow> lesson_term \<Rightarrow> lesson_term outcome" where
  "term_startLesson l t =
     renderCurrentStep (t\<lparr>lt_currentLesson := Some l, lt_currentStep := 0,
                          lt_onLessonStart := lt_onLessonStart t @ [l]\<rparr>)"

definition completeCurrentStep :: "lesson_term \<Rightarrow> lesson_term outcome" where
  "completeCurrentStep t =
     (case lt_currentLesson t of
        None \<Rightarrow> Done t
      | Some l \<Rightarrow>
          (let t1 = t\<lparr>lt_onLessonStep := lt_onLessonStep t @
                        [\<lparr>le_lessonId = ls_ID l, le_stepIndex = lt_currentStep t, le_completed = True\<rparr>],
                      lt_currentStep := lt_currentStep t + 1\<rparr>
           in case ls_Steps l of
                None \<Rightarrow> Throw TypeError t1
              | Some steps \<Rightarrow>
                  if lt_currentStep t1 \<ge> int (length steps)
                  then Done (lt_write (crlf @ ''Lesson completed!'' @ crlf)
                               (t1\<lparr>lt_currentLesson := None, lt_currentStep := 0\<rparr>))
                  else renderCurrentStep t1))"

subsection \<open>The page's side\<close>

text \<open>
  \<open>pl_term\<close> is the terminal of the selected instance, when an instance is selected and has one.
  \<open>startLesson\<close> is the continuation that receives the lesson the server sent.
\<close>

record player =
  pl_currentLesson :: "lesson option"
  pl_currentStep :: int
  pl_stepCompleted :: bool
  pl_term :: "lesson_term option"

definition with_term :: "(lesson_term \<Rightarrow> lesson_term outcome) \<Rightarrow> player \<Rightarrow> player outcome" where
  "with_term f p =
     (case pl_term p of
        None \<Rightarrow> Done p
      | Some t \<Rightarrow> map_outcome_state (\<lambda>t'. p\<lparr>pl_term := Some t'\<rparr>) (f t))"

definition startLesson :: "lesson \<Rightarrow> player \<Rightarrow> player outcome" where
  "startLesson l p =
     with_term (term_startLesson l)
       (p\<lparr>pl_currentLesson := Some l, pl_currentStep := 0, pl_stepCompleted := False\<rparr>)"

text \<open>\<open>$scope.currentLesson.Steps.length\<close>, when both reads succeed.\<close>

definition steps_of :: "player \<Rightarrow> lesson_step list option" where
  "steps_of p = Option.bind (pl_currentLesson p) ls_Steps"

definition nextStep :: "player \<Rightarrow> player outcome" where
  "nextStep p =
     (case steps_of p of
        None \<Rightarrow> Throw TypeError p
      | Some steps \<Rightarrow>
          if pl_currentStep p < int (length steps) - 1
          then with_term renderCurrentStep
                 (p\<lparr>pl_currentStep := pl_currentStep p + 1, pl_stepCompleted := False\<rparr>)
          else Done p)"

definition previousStep :: "player \<Rightarrow> player outcome" where
  "previousStep p =
     (if pl_currentStep p > 0
      then with_term renderCurrentStep (p\<lparr>pl_currentStep := pl_currentStep p - 1\<rparr>)
      else Done p)"

subsection \<open>Rendering and completing\<close>

lemma fold_lt_write: "fold lt_write ss t = t\<lparr>lt_written := lt_written t @ ss\<rparr>"
  by (induction ss arbitrary: t) (simp_all add: lt_write_def)

lemma js_nth_Some: "0 \<le> i \<Longrightarrow> i < int (length xs) \<Longrightarrow> js_nth xs i = Some (xs ! nat i)"
  by (simp add: js_nth_def)

text \<open>A terminal that plays a lesson of the given steps, at a step that exists.\<close>

definition playing :: "lesson \<Rightarrow> lesson_step list \<Rightarrow> lesson_term \<Rightarrow> bool" where
  "playing l steps t \<longleftrightarrow> lt_currentLesson t = Some l \<and> ls_Steps l = Some steps
     \<and> 0 \<le> lt_currentStep t \<and> lt_currentStep t < int (length steps)"

lemma render_playing:
  "playing l steps t \<Longrightarrow> renderCurrentStep t =
     Done (t\<lparr>lt_written := lt_written t @ step_text (steps ! nat (lt_currentStep t))\<rparr>)"
  by (simp add: playing_def renderCurrentStep_def js_nth_Some fold_lt_write)

definition step_event :: "lesson \<Rightarrow> nat \<Rightarrow> lesson_event" where
  "step_event l k = \<lparr>le_lessonId = ls_ID l, le_stepIndex = int k, le_completed = True\<rparr>"

fun complete_times :: "nat \<Rightarrow> lesson_term \<Rightarrow> lesson_term outcome" where
  "complete_times 0 t = Done t"
| "complete_times (Suc n) t = and_then (complete_times n t) completeCurrentStep"

lemma complete_times_Suc: "complete_times (Suc n) = (\<lambda>t. and_then (complete_times n t) completeCurrentStep)"
  by (rule ext) simp

lemma complete_inner:
  assumes "playing l steps t" and "lt_currentStep t + 1 < int (length steps)"
  shows "completeCurrentStep t = Done (t\<lparr>lt_currentStep := lt_currentStep t + 1,
     lt_onLessonStep := lt_onLessonStep t @ [step_event l (nat (lt_currentStep t))],
     lt_written := lt_written t @ step_text (steps ! nat (lt_currentStep t + 1))\<rparr>)"
  using assms
  by (simp add: completeCurrentStep_def playing_def renderCurrentStep_def js_nth_Some fold_lt_write
      step_event_def Let_def)

lemma complete_last:
  assumes "playing l steps t" and "lt_currentStep t + 1 = int (length steps)"
  shows "completeCurrentStep t = Done (t\<lparr>lt_currentLesson := None, lt_currentStep := 0,
     lt_onLessonStep := lt_onLessonStep t @ [step_event l (nat (lt_currentStep t))],
     lt_written := lt_written t @ [crlf @ ''Lesson completed!'' @ crlf]\<rparr>)"
  using assms by (simp add: completeCurrentStep_def playing_def step_event_def lt_write_def Let_def)

lemma term_startLesson_playing:
  assumes "ls_Steps l = Some steps" and "steps \<noteq> []"
  shows "term_startLesson l t = Done (t\<lparr>lt_currentLesson := Some l, lt_currentStep := 0,
     lt_onLessonStart := lt_onLessonStart t @ [l], lt_written := lt_written t @ step_text (steps ! 0)\<rparr>)"
  using assms by (simp add: term_startLesson_def renderCurrentStep_def js_nth_Some fold_lt_write)

lemma complete_times_playing:
  assumes "ls_Steps l = Some steps" and "k < length steps"
  shows "and_then (term_startLesson l t) (complete_times k) = Done (t\<lparr>lt_currentLesson := Some l,
     lt_currentStep := int k, lt_onLessonStart := lt_onLessonStart t @ [l],
     lt_onLessonStep := lt_onLessonStep t @ map (step_event l) [0..<k],
     lt_written := lt_written t @ concat (map step_text (take (Suc k) steps))\<rparr>)"
  using assms(2)
proof (induction k)
  case 0
  then show ?case using assms(1) by (cases steps) (simp_all add: term_startLesson_playing)
next
  case (Suc k)
  then have IH: "and_then (term_startLesson l t) (complete_times k) = Done (t\<lparr>lt_currentLesson := Some l,
     lt_currentStep := int k, lt_onLessonStart := lt_onLessonStart t @ [l],
     lt_onLessonStep := lt_onLessonStep t @ map (step_event l) [0..<k],
     lt_written := lt_written t @ concat (map step_text (take (Suc k) steps))\<rparr>)" by simp
  show ?case
    using assms(1) Suc.prems
    by (simp only: complete_times_Suc and_then_assoc [symmetric] IH)
      (simp add: complete_inner [where l = l and steps = steps] playing_def take_Suc_conv_app_nth
        nat_add_distrib add.commute)
qed

subsection \<open>Runs of the player\<close>

datatype player_action = NextStep | PreviousStep | CompleteStep | StartLesson lesson

fun perform :: "player_action \<Rightarrow> player \<Rightarrow> player outcome" where
  "perform NextStep p = nextStep p"
| "perform PreviousStep p = previousStep p"
| "perform CompleteStep p = with_term completeCurrentStep p"
| "perform (StartLesson l) p = startLesson l p"

definition fresh_term :: lesson_term where
  "fresh_term = \<lparr>lt_currentLesson = None, lt_currentStep = 0, lt_written = [], lt_onLessonStart = [],
     lt_onLessonStep = []\<rparr>"

definition fresh_player :: player where
  "fresh_player = \<lparr>pl_currentLesson = None, pl_currentStep = 0, pl_stepCompleted = False,
     pl_term = Some fresh_term\<rparr>"


text \<open>A step inside the steps of a lesson, as far as the lesson has steps.\<close>

definition step_in :: "lesson option \<Rightarrow> int \<Rightarrow> bool" where
  "step_in lo k \<longleftrightarrow> (\<forall>l steps. lo = Some l \<and> ls_Steps l = Some steps \<and> steps \<noteq> [] \<longrightarrow> 0 \<le> k \<and> k < int (length steps))"




lemma step_in_start [simp]: "step_in lo 0" "step_in None k"
  by (auto simp: step_in_def)














subsection \<open>Properties\<close>

text \<open>A lesson of three steps for the witnesses.\<close>

definition sample_steps :: "lesson_step list" where
  "sample_steps =
     [\<lparr>st_Content = Some ''look'', st_Commands = Some [''pwd'', ''ls'']\<rparr>,
      \<lparr>st_Content = Some ''create'', st_Commands = None\<rparr>,
      \<lparr>st_Content = Some ''done'', st_Commands = Some []\<rparr>]"

definition sample_lesson :: lesson where
  "sample_lesson = \<lparr>ls_ID = Some ''l1'', ls_Steps = Some sample_steps\<rparr>"

text \<open>
  C8. Completing the steps of a lesson one after the other runs it to its end: the terminal never
  throws, prints the text of every step once and in order and then the closing line, announces
  the indices of all steps once and in order, and is left without a lesson.
\<close>

theorem lesson_runs_to_completion:
  assumes "ls_Steps l = Some steps" and "steps \<noteq> []"
  shows "\<exists>t'. and_then (term_startLesson l t) (complete_times (length steps)) = Done t' \<and>
    lt_currentLesson t' = None \<and> lt_currentStep t' = 0 \<and>
    lt_written t' = lt_written t @ concat (map step_text steps) @ [crlf @ ''Lesson completed!'' @ crlf] \<and>
    lt_onLessonStep t' = lt_onLessonStep t @ map (step_event l) [0..<length steps]"
proof -
  obtain k where k: "length steps = Suc k" using assms(2) by (cases steps) auto
  have "and_then (term_startLesson l t) (complete_times (length steps)) =
      and_then (and_then (term_startLesson l t) (complete_times k)) completeCurrentStep"
    by (simp only: k complete_times_Suc and_then_assoc)
  also have "\<dots> = completeCurrentStep (outcome_state (and_then (term_startLesson l t) (complete_times k)))"
    using complete_times_playing [OF assms(1), of k t] k by simp
  finally show ?thesis
    using assms(1) complete_times_playing [OF assms(1), of k t]
    by (simp add: k complete_last [where l = l and steps = steps] playing_def)
qed

theorem lesson_runs_to_completion_witness:
  "\<exists>t'. and_then (term_startLesson sample_lesson fresh_term) (complete_times 3) = Done t' \<and>
    lt_written t' = [crlf @ ''look'' @ crlf, ''> pwd && ls'' @ crlf, crlf @ ''create'' @ crlf,
      crlf @ ''done'' @ crlf, crlf @ ''Lesson completed!'' @ crlf] \<and>
    map le_stepIndex (lt_onLessonStep t') = [0, 1, 2]"
  using lesson_runs_to_completion [of sample_lesson sample_steps fresh_term]
  by (auto simp: sample_lesson_def sample_steps_def fresh_term_def step_text_def js_str_def step_event_def eval_nat_numeral)




text \<open>
  Paging never moves the terminal: it keeps printing the step the terminal is at.
\<close>

fun page_through :: "player_action list \<Rightarrow> player \<Rightarrow> player outcome" where
  "page_through [] p = Done p"
| "page_through (a # as) p = and_then (perform a p) (page_through as)"

lemma page_step:
  assumes "a \<in> {NextStep, PreviousStep}" and "steps_of p = Some ss"
    and "pl_term p = Some t" and "playing l steps t"
  shows "\<exists>q n. perform a p = Done q \<and> steps_of q = Some ss \<and> n \<le> 1 \<and> pl_term q = Some (t\<lparr>lt_written :=
    lt_written t @ concat (replicate n (step_text (steps ! nat (lt_currentStep t))))\<rparr>)"
proof -
  let ?t = "t\<lparr>lt_written := lt_written t @ step_text (steps ! nat (lt_currentStep t))\<rparr>"
  have shown: "with_term renderCurrentStep p1 = Done (p1\<lparr>pl_term := Some ?t\<rparr>)"
    if "pl_term p1 = Some t" for p1
    using assms(4) that by (simp add: with_term_def render_playing)
  have "\<exists>q. perform a p = Done q \<and> steps_of q = Some ss \<and> (pl_term q = Some t \<or> pl_term q = Some ?t)"
    using assms(1-3) by (auto simp: nextStep_def previousStep_def shown steps_of_def)
  then obtain q where q: "perform a p = Done q" "steps_of q = Some ss"
    and "pl_term q = Some t \<or> pl_term q = Some ?t" by blast
  from this(3) show ?thesis
  proof
    assume "pl_term q = Some t"
    with q show ?thesis by (intro exI [of _ q] exI [of _ "0::nat"]) simp
  next
    assume "pl_term q = Some ?t"
    with q show ?thesis by (intro exI [of _ q] exI [of _ "1::nat"]) simp
  qed
qed

lemma page_through_playing:
  assumes "set as \<subseteq> {NextStep, PreviousStep}" and "steps_of p = Some ss"
    and "pl_term p = Some t" and "playing l steps t"
  shows "\<exists>q n. page_through as p = Done q \<and> pl_term q = Some (t\<lparr>lt_written :=
    lt_written t @ concat (replicate n (step_text (steps ! nat (lt_currentStep t))))\<rparr>)"
  using assms
proof (induction as arbitrary: p t)
  case Nil
  then show ?case by (intro exI [of _ p] exI [of _ "0::nat"]) simp
next
  case (Cons a as)
  then obtain p1 m where p1: "perform a p = Done p1" "steps_of p1 = Some ss" and
    t1: "pl_term p1 = Some (t\<lparr>lt_written :=
      lt_written t @ concat (replicate m (step_text (steps ! nat (lt_currentStep t))))\<rparr>)"
    using page_step [of a p ss t l steps] by auto
  have "playing l steps (t\<lparr>lt_written := w\<rparr>)" for w using Cons.prems(4) by (simp add: playing_def)
  from Cons.IH [OF _ p1(2) t1 this] Cons.prems(1) p1 obtain q n where
    "page_through (a # as) p = Done q" and "pl_term q = Some (t\<lparr>lt_written := lt_written t @
      concat (replicate (m + n) (step_text (steps ! nat (lt_currentStep t))))\<rparr>)"
    by (auto simp: replicate_add)
  then show ?case by blast
qed

text \<open>
  The page and the terminal do not share their position: while the learner only pages through
  a lesson, the terminal stays at the first step and prints that step again for every move,
  whatever step the page shows.
\<close>

theorem paging_reprints_first_step:
  assumes "pl_term p = Some t" and "ls_Steps l = Some steps" and "steps \<noteq> []"
    and "set as \<subseteq> {NextStep, PreviousStep}"
  shows "\<exists>q t' n. and_then (startLesson l p) (page_through as) = Done q \<and> pl_term q = Some t' \<and>
    lt_currentStep t' = 0 \<and> lt_written t' = lt_written t @ concat (replicate n (step_text (steps ! 0)))"
proof -
  let ?t = "t\<lparr>lt_currentLesson := Some l, lt_currentStep := 0, lt_onLessonStart := lt_onLessonStart t @ [l],
    lt_written := lt_written t @ step_text (steps ! 0)\<rparr>"
  let ?p = "p\<lparr>pl_currentLesson := Some l, pl_currentStep := 0, pl_stepCompleted := False, pl_term := Some ?t\<rparr>"
  have st: "startLesson l p = Done ?p"
    using assms(1-3) by (simp add: startLesson_def with_term_def term_startLesson_playing)
  obtain q n where "page_through as ?p = Done q" and "pl_term q = Some (?t\<lparr>lt_written :=
      lt_written ?t @ concat (replicate n (step_text (steps ! nat (lt_currentStep ?t))))\<rparr>)"
    using page_through_playing [OF assms(4), of ?p steps ?t l steps] assms(2,3)
    by (auto simp: steps_of_def playing_def)
  then show ?thesis
    by (intro exI [of _ q] exI [of _ "?t\<lparr>lt_written :=
      lt_written ?t @ concat (replicate n (step_text (steps ! nat (lt_currentStep ?t))))\<rparr>"] exI [of _ "Suc n"])
      (simp add: st)
qed

theorem paging_reprints_first_step_witness:
  "\<exists>q t' n. and_then (startLesson sample_lesson fresh_player) (page_through [NextStep, NextStep]) = Done q \<and>
    pl_term q = Some t' \<and> lt_currentStep t' = 0 \<and> pl_currentStep q = 2 \<and>
    lt_written t' = concat (replicate n (step_text (sample_steps ! 0)))"
proof -
  have "\<exists>q t' n. and_then (startLesson sample_lesson fresh_player) (page_through [NextStep, NextStep]) = Done q \<and>
      pl_term q = Some t' \<and> lt_currentStep t' = 0 \<and>
      lt_written t' = lt_written fresh_term @ concat (replicate n (step_text (sample_steps ! 0)))"
    by (rule paging_reprints_first_step)
      (simp_all add: fresh_player_def sample_lesson_def sample_steps_def)
  moreover have "pl_currentStep (outcome_state
      (and_then (startLesson sample_lesson fresh_player) (page_through [NextStep, NextStep]))) = 2"
    by code_simp
  ultimately show ?thesis by (auto simp: fresh_term_def)
qed

text \<open>
  A lesson whose object has no \<open>Steps\<close> property, as the server's encoding spells it
  \<open>steps\<close>, cannot be played: starting it throws, with the page already showing the lesson, and
  moving on throws too.
\<close>

theorem lesson_without_Steps_throws:
  assumes "ls_Steps l = None" and "pl_term p = Some t"
  shows "\<exists>q. startLesson l p = Throw TypeError q \<and> pl_currentLesson q = Some l \<and> nextStep q = Throw TypeError q"
  using assms
  by (simp add: startLesson_def with_term_def term_startLesson_def renderCurrentStep_def nextStep_def steps_of_def)

theorem lesson_without_Steps_throws_witness:
  "\<exists>q. startLesson \<lparr>ls_ID = None, ls_Steps = None\<rparr> fresh_player = Throw TypeError q"
proof -
  have "\<exists>q. startLesson \<lparr>ls_ID = None, ls_Steps = None\<rparr> fresh_player = Throw TypeError q \<and>
      pl_currentLesson q = Some \<lparr>ls_ID = None, ls_Steps = None\<rparr> \<and> nextStep q = Throw TypeError q"
    by (rule lesson_without_Steps_throws [where t = fresh_term]) (simp_all add: fresh_player_def)
  then show ?thesis by blast
qed

end
