(* ===== verification/Settings.thy ===== *)
theory Settings
  imports JS_Prelude
begin

text \<open>
  The services behind the settings dialog (\<open>app.js\<close>): \<open>ThemeService\<close>, \<open>InstanceService\<close>,
  \<open>KeyboardShortcutService\<close> with the key handler that runs the shortcuts, \<open>TerminalService\<close>
  and \<open>SessionService\<close>. Their state is the browser's \<open>localStorage\<close>, the classes of the root
  element and the selected terminal.

  A terminal is seen through the calls made on it, in order, and the one option that is read
  back, \<open>fontSize\<close>. \<open>NaN\<close>, the only number the code produces that is not an integer, is \<open>None\<close>.
\<close>

subsection \<open>Numbers in strings\<close>

definition digit_char :: "nat \<Rightarrow> char" where
  "digit_char d = char_of (48 + d)"

fun nat_str :: "nat \<Rightarrow> string" where
  "nat_str n = (if n < 10 then [digit_char n] else nat_str (n div 10) @ [digit_char (n mod 10)])"

declare nat_str.simps [simp del]

definition num_str :: "int option \<Rightarrow> string" where
  "num_str v = (case v of None \<Rightarrow> ''NaN''
     | Some i \<Rightarrow> if i < 0 then ''-'' @ nat_str (nat (- i)) else nat_str (nat i))"

definition digit_val :: "char \<Rightarrow> nat option" where
  "digit_val c = (let k = (of_char c :: nat) in if 48 \<le> k \<and> k < 58 then Some (k - 48) else None)"

text \<open>\<open>parseInt\<close>: the longest run of digits at the front, after a sign; no digits is \<open>NaN\<close>.
  (The strings it is given here never start with white space or a radix prefix.)\<close>

fun parse_digits :: "nat \<Rightarrow> string \<Rightarrow> nat" where
  "parse_digits acc [] = acc"
| "parse_digits acc (c # cs) =
     (case digit_val c of None \<Rightarrow> acc | Some d \<Rightarrow> parse_digits (10 * acc + d) cs)"

definition starts_digit :: "string \<Rightarrow> bool" where
  "starts_digit s = (case s of [] \<Rightarrow> False | c # _ \<Rightarrow> digit_val c \<noteq> None)"

definition parseInt :: "string \<Rightarrow> int option" where
  "parseInt s =
     (if s \<noteq> [] \<and> hd s = CHR ''-''
      then (if starts_digit (tl s) then Some (- int (parse_digits 0 (tl s))) else None)
      else (if starts_digit s then Some (int (parse_digits 0 s)) else None))"

subsection \<open>ThemeService\<close>

type_synonym local_storage = "string \<rightharpoonup> string"

record theme_state =
  th_storage :: local_storage
  th_classes :: "string set"

definition getTheme :: "local_storage \<Rightarrow> string" where
  "getTheme st = (case st ''settings.theme'' of None \<Rightarrow> ''dark'' | Some theme \<Rightarrow> theme)"

definition setTheme :: "string option \<Rightarrow> theme_state \<Rightarrow> theme_state" where
  "setTheme theme s =
     (let s1 = (case theme of
                  None \<Rightarrow> s\<lparr>th_storage := (th_storage s)(''settings.theme'' := None)\<rparr>
                | Some v \<Rightarrow> s\<lparr>th_storage := (th_storage s)(''settings.theme'' \<mapsto> v)\<rparr>)
      in if theme = Some ''light''
         then s1\<lparr>th_classes := insert ''light-theme'' (th_classes s1 - {''dark-theme''})\<rparr>
         else s1\<lparr>th_classes := insert ''dark-theme'' (th_classes s1 - {''light-theme''})\<rparr>)"

text \<open>The run block that applies the stored theme when the page starts.\<close>

definition theme_init :: "theme_state \<Rightarrow> theme_state" where
  "theme_init s = setTheme (Some (getTheme (th_storage s))) s"

subsection \<open>InstanceService\<close>

definition getDesiredImage :: "local_storage \<Rightarrow> string list \<Rightarrow> string option" where
  "getDesiredImage st instanceImages =
     (case st ''settings.desiredImage'' of
        None \<Rightarrow> (case instanceImages of [] \<Rightarrow> None | img # _ \<Rightarrow> Some img)
      | Some img \<Rightarrow> Some img)"

definition setDesiredImage :: "string option \<Rightarrow> local_storage \<Rightarrow> local_storage" where
  "setDesiredImage img st =
     (case img of
        None \<Rightarrow> st(''settings.desiredImage'' := None)
      | Some v \<Rightarrow> st(''settings.desiredImage'' \<mapsto> v))"

subsection \<open>TerminalService\<close>

datatype term_call =
    TWrite string
  | TResize int int
  | TDisableStdin bool
  | TFontSize "int option"
  | TFit
  | TFocus
  | TClear
  | TToggleFullScreen

record term_handle =
  tm_fontSize :: "int option"
  tm_calls :: "term_call list"

definition tm_call :: "term_call \<Rightarrow> term_handle \<Rightarrow> term_handle" where
  "tm_call c t = t\<lparr>tm_calls := tm_calls t @ [c]\<rparr>"

definition getFontSizes :: "string list" where
  "getFontSizes = map (\<lambda>i. num_str (Some i) @ ''px'') [3..39]"

text \<open>
  The font size read from the selected instance. With an instance selected that has no terminal
  yet, the read of \<open>getOption\<close> throws; with none selected the page's style sheet answers
  (\<open>css\<close>).
\<close>

datatype selection = NoInstance | NoTerm | TermOf term_handle

definition getFontSize :: "string option \<Rightarrow> selection \<Rightarrow> js_error + string option" where
  "getFontSize css sel =
     (case sel of
        NoInstance \<Rightarrow> Inr css
      | NoTerm \<Rightarrow> Inl TypeError
      | TermOf t \<Rightarrow> Inr (Some (num_str (tm_fontSize t) @ ''px'')))"

text \<open>\<open>setFontSize\<close> with \<open>undefined\<close> parses the word, which is \<open>NaN\<close>.\<close>

definition set_term_font :: "string option \<Rightarrow> term_handle \<Rightarrow> term_handle" where
  "set_term_font value t =
     (let size = parseInt (js_str value)
      in tm_call TFit (tm_call (TResize 1 1) (tm_call (TFontSize size) (t\<lparr>tm_fontSize := size\<rparr>))))"

definition setFontSize :: "string option \<Rightarrow> selection \<Rightarrow> selection outcome" where
  "setFontSize value sel =
     (case sel of
        NoInstance \<Rightarrow> Throw TypeError sel
      | NoTerm \<Rightarrow> Throw TypeError sel
      | TermOf t \<Rightarrow> Done (TermOf (set_term_font value t)))"

text \<open>\<open>indexOf\<close>: the first position of a value, \<open>- 1\<close> when it does not occur.\<close>

definition js_indexOf :: "'a list \<Rightarrow> 'a \<Rightarrow> int" where
  "js_indexOf xs x =
     (if x \<in> set xs then int (length (takeWhile (\<lambda>y. y \<noteq> x) xs)) else - 1)"

definition js_at :: "'a list \<Rightarrow> int \<Rightarrow> 'a option" where
  "js_at xs i = (if 0 \<le> i \<and> i < int (length xs) then Some (xs ! nat i) else None)"

definition increaseFontSize :: "string option \<Rightarrow> selection \<Rightarrow> selection outcome" where
  "increaseFontSize css sel =
     (case getFontSize css sel of
        Inl e \<Rightarrow> Throw e sel
      | Inr sz \<Rightarrow>
          (let i = js_indexOf (map Some getFontSizes) sz
           in if i = - 1 then Done sel
              else if i + 1 > int (length getFontSizes) then Done sel
              else setFontSize (js_at getFontSizes (i + 1)) sel))"

definition decreaseFontSize :: "string option \<Rightarrow> selection \<Rightarrow> selection outcome" where
  "decreaseFontSize css sel =
     (case getFontSize css sel of
        Inl e \<Rightarrow> Throw e sel
      | Inr sz \<Rightarrow>
          (let i = js_indexOf (map Some getFontSizes) sz
           in if i = - 1 then Done sel
              else if i - 1 < 0 then Done sel
              else setFontSize (js_at getFontSizes (i - 1)) sel))"

text \<open>
  \<open>toggleFullScreen\<close> keeps the geometry it left in \<open>fullscreen\<close>, moves the terminal's element
  between its container and the body, and refits at once or a tenth of a second later.
\<close>

record fullscreen_state =
  fs_fullscreen :: "(int \<times> int) option"
  fs_term :: term_handle
  fs_in_body :: bool
  fs_container_saved :: bool
  fs_pending_refit :: nat

definition toggleFullScreen :: "(int \<times> int) option \<Rightarrow> fullscreen_state \<Rightarrow> fullscreen_state" where
  "toggleFullScreen geometry s =
     (if fs_fullscreen s \<noteq> None
      then s\<lparr>fs_term := tm_call TToggleFullScreen (fs_term s), fs_in_body := False,
             fs_pending_refit := fs_pending_refit s + 1, fs_fullscreen := None\<rparr>
      else s\<lparr>fs_container_saved := True, fs_in_body := True, fs_fullscreen := geometry,
             fs_term := tm_call TFocus (tm_call TFit (tm_call TToggleFullScreen (fs_term s)))\<rparr>)"

definition fullscreen_refit :: "fullscreen_state \<Rightarrow> fullscreen_state" where
  "fullscreen_refit s =
     (if fs_pending_refit s = 0 then s
      else s\<lparr>fs_pending_refit := fs_pending_refit s - 1,
             fs_term := tm_call TFocus (tm_call TFit (tm_call (TResize 1 1) (fs_term s)))\<rparr>)"


subsection \<open>KeyboardShortcutService and the terminal's key handler\<close>

text \<open>
  A preset's action is named; \<open>run_action\<close> below says what each does. A modifier a preset does
  not mention is \<open>None\<close>.
\<close>

datatype key_action = ToggleFullscreenAction | IncreaseFontAction | DecreaseFontAction | ClearAction

record key_preset =
  kp_description :: string
  kp_command :: string
  kp_keyCode :: int
  kp_metaKey :: "bool option"
  kp_ctrlKey :: "bool option"
  kp_altKey :: "bool option"
  kp_action :: key_action

record preset_group =
  pg_name :: string
  pg_presets :: "key_preset list"

definition preset ::
  "string \<Rightarrow> string \<Rightarrow> int \<Rightarrow> bool option \<Rightarrow> bool option \<Rightarrow> bool option \<Rightarrow> key_action \<Rightarrow> key_preset" where
  "preset d c k meta ctrl alt a = \<lparr>kp_description = d, kp_command = c, kp_keyCode = k, kp_metaKey = meta,
     kp_ctrlKey = ctrl, kp_altKey = alt, kp_action = a\<rparr>"

definition getAvailablePresets :: "preset_group list" where
  "getAvailablePresets =
     [\<lparr>pg_name = ''None'', pg_presets =
        [preset ''Toggle terminal fullscreen'' ''Alt+enter'' 13 None None (Some True) ToggleFullscreenAction,
         preset ''Increase Font Size'' ''Ctrl++'' 187 None (Some True) None IncreaseFontAction,
         preset ''Decrease Font Size'' ''Ctrl+-'' 189 None (Some True) None DecreaseFontAction]\<rparr>,
      \<lparr>pg_name = ''Mac OSX'', pg_presets =
        [preset ''Clear terminal'' ''Cmd+K'' 75 (Some True) None None ClearAction,
         preset ''Toggle terminal fullscreen'' ''Alt+enter'' 13 None None (Some True) ToggleFullscreenAction,
         preset ''Increase Font Size'' ''Cmd++'' 187 (Some True) None None IncreaseFontAction,
         preset ''Decrease Font Size'' ''Cmd+-'' 189 (Some True) None None DecreaseFontAction]\<rparr>]"

text \<open>\<open>platform_is_mac\<close> is the test \<open>platform.toUpperCase().indexOf('MAC') >= 0\<close> on the browser's platform name.\<close>

definition getDefaultShortcutPrefixName :: "bool \<Rightarrow> string" where
  "getDefaultShortcutPrefixName platform_is_mac = (if platform_is_mac then ''Mac OSX'' else ''None'')"

text \<open>The chosen group, and whether the missing group was reported on the console.\<close>

definition getCurrentShortcuts :: "bool \<Rightarrow> local_storage \<Rightarrow> preset_group option \<times> bool" where
  "getCurrentShortcuts platform_is_mac st =
     (let shortcuts = (case st ''shortcut-preset-name'' of
                         None \<Rightarrow> getDefaultShortcutPrefixName platform_is_mac
                       | Some name \<Rightarrow> name);
          found = filter (\<lambda>g. pg_name g = shortcuts) getAvailablePresets
      in (js_at found 0, found = []))"

definition setCurrentShortcuts :: "preset_group \<Rightarrow> local_storage \<Rightarrow> local_storage" where
  "setCurrentShortcuts config st = st(''shortcut-preset-name'' \<mapsto> pg_name config)"

record key_event =
  ke_keyCode :: int
  ke_metaKey :: bool
  ke_ctrlKey :: bool
  ke_altKey :: bool

definition modifier_matches :: "bool option \<Rightarrow> bool \<Rightarrow> bool" where
  "modifier_matches want is_down = ((want = None \<and> \<not> is_down) \<or> want = Some is_down)"

text \<open>The handler given to \<open>attachCustomKeyEventHandler\<close>: the actions it runs, in order.\<close>

definition handle_key :: "preset_group option \<Rightarrow> key_event \<Rightarrow> key_action list" where
  "handle_key selected e =
     (case selected of
        None \<Rightarrow> []
      | Some g \<Rightarrow>
          map kp_action
            (filter (\<lambda>p. modifier_matches (kp_altKey p) (ke_altKey e))
              (filter (\<lambda>p. modifier_matches (kp_ctrlKey p) (ke_ctrlKey e))
                (filter (\<lambda>p. modifier_matches (kp_metaKey p) (ke_metaKey e))
                  (filter (\<lambda>p. kp_keyCode p = ke_keyCode e) (pg_presets g))))))"

subsection \<open>SessionService\<close>

record setup_instance =
  si_hostname :: string
  si_is_swarm_manager :: bool
  si_is_swarm_worker :: bool

record session_template =
  te_title :: string
  te_icon :: string
  te_setup :: "setup_instance list"

definition manager :: "string \<Rightarrow> setup_instance" where
  "manager h = \<lparr>si_hostname = h, si_is_swarm_manager = True, si_is_swarm_worker = False\<rparr>"

definition worker :: "string \<Rightarrow> setup_instance" where
  "worker h = \<lparr>si_hostname = h, si_is_swarm_manager = False, si_is_swarm_worker = True\<rparr>"

definition getAvailableTemplates :: "session_template list" where
  "getAvailableTemplates =
     [\<lparr>te_title = ''3 Managers and 2 Workers'', te_icon = ''/assets/swarm.png'', te_setup =
        [manager ''manager1'', manager ''manager2'', manager ''manager3'', worker ''worker1'', worker ''worker2'']\<rparr>,
      \<lparr>te_title = ''5 Managers and no workers'', te_icon = ''/assets/swarm.png'', te_setup =
        [manager ''manager1'', manager ''manager2'', manager ''manager3'', manager ''manager4'', manager ''manager5'']\<rparr>,
      \<lparr>te_title = ''1 Manager and 1 Worker'', te_icon = ''/assets/swarm.png'', te_setup =
        [manager ''manager1'', worker ''worker1'']\<rparr>]"

text \<open>\<open>replace\<close> with a string pattern: the first occurrence only.\<close>

fun js_replace :: "string \<Rightarrow> string \<Rightarrow> string \<Rightarrow> string" where
  "js_replace pat new s =
     (if take (length pat) s = pat then new @ drop (length pat) s
      else case s of [] \<Rightarrow> [] | c # cs \<Rightarrow> c # js_replace pat new cs)"

declare js_replace.simps [simp del]

definition getCurrentSessionId :: "string \<Rightarrow> string" where
  "getCurrentSessionId pathname = js_replace ''/p/'' [] pathname"

text \<open>\<open>setup\<close>: the request, and what the callback receives when the answer arrives.\<close>

definition setup_url :: "string \<Rightarrow> string" where
  "setup_url pathname = ''/sessions/'' @ getCurrentSessionId pathname @ ''/setup''"

text \<open>The dialog that runs a template: \<open>None\<close> is the callback without an error.\<close>

record templates_dialog =
  td_building :: bool
  td_errorMessage :: "string option"
  td_open :: bool

definition td_setupSession :: "templates_dialog \<Rightarrow> templates_dialog" where
  "td_setupSession d = d\<lparr>td_building := True\<rparr>"

definition td_setup_done :: "string option \<Rightarrow> templates_dialog \<Rightarrow> templates_dialog" where
  "td_setup_done err d =
     (let d1 = d\<lparr>td_building := False\<rparr>
      in case err of
           Some e \<Rightarrow> if e \<noteq> [] then d1\<lparr>td_errorMessage := Some e\<rparr> else d1\<lparr>td_open := False\<rparr>
         | None \<Rightarrow> d1\<lparr>td_open := False\<rparr>)"

subsection \<open>Decimal strings read back\<close>

lemma digit_val_digit_char [simp]: "d < 10 \<Longrightarrow> digit_val (digit_char d) = Some d"
  by (simp add: digit_val_def digit_char_def of_char_of Let_def)

lemma nat_str_nonempty: "nat_str n \<noteq> []"
  by (subst nat_str.simps) simp

lemma nat_str_starts_digit: "starts_digit (nat_str n @ s)"
proof (induction n arbitrary: s rule: nat_str.induct)
  case (1 n)
  then show ?case by (subst nat_str.simps) (auto simp: starts_digit_def)
qed

lemma parse_digits_nat_str:
  "parse_digits acc (nat_str n @ s) = parse_digits (acc * 10 ^ length (nat_str n) + n) s"
proof (induction n arbitrary: acc s rule: nat_str.induct)
  case (1 n)
  show ?case
  proof (cases "n < 10")
    case True
    then show ?thesis by (simp add: nat_str.simps [of n] mult.commute)
  next
    case False
    then have "parse_digits acc (nat_str n @ s) =
        parse_digits (acc * 10 ^ length (nat_str (n div 10)) + n div 10) (digit_char (n mod 10) # s)"
      using 1 by (simp add: nat_str.simps [of n])
    also have "\<dots> = parse_digits (acc * 10 ^ length (nat_str n) + n) s"
      using False by (simp add: nat_str.simps [of n] algebra_simps)
    finally show ?thesis .
  qed
qed

lemma parseInt_px: "0 \<le> i \<Longrightarrow> parseInt (num_str (Some i) @ ''px'') = Some i"
proof -
  assume "0 \<le> i"
  have "digit_val (CHR ''p'') = None" and "digit_val (CHR ''-'') = None" by (simp_all add: digit_val_def)
  moreover have "hd (nat_str (nat i) @ s) \<noteq> CHR ''-''" for s
    using nat_str_starts_digit [of "nat i" s] \<open>digit_val (CHR ''-'') = None\<close>
    by (cases "nat_str (nat i) @ s") (auto simp: starts_digit_def)
  ultimately show ?thesis
    using \<open>0 \<le> i\<close> nat_str_starts_digit [of "nat i" "''px''"]
    by (simp add: parseInt_def num_str_def parse_digits_nat_str nat_str_nonempty)
qed

subsection \<open>The list of font sizes\<close>

lemma js_indexOf_nth:
  assumes "distinct xs" and "k < length xs"
  shows "js_indexOf xs (xs ! k) = int k"
proof -
  have "length (takeWhile (\<lambda>y. y \<noteq> xs ! k) xs) = k"
    using assms by (induction xs arbitrary: k) (auto simp: nth_Cons split: nat.splits)
  then show ?thesis using assms(2) by (simp add: js_indexOf_def)
qed

lemma map_upto_nth: "k < nat (b - a + 1) \<Longrightarrow> map f [a..b] ! k = f (a + int k)"
  by simp

lemma map_upto_distinct: "distinct (map f [a..b]) = inj_on f {a..b}"
  by (simp add: distinct_map)

lemma getFontSizes_length [simp]: "length getFontSizes = 37"
  by (simp add: getFontSizes_def)

lemma getFontSizes_nth: "k < 37 \<Longrightarrow> getFontSizes ! k = num_str (Some (3 + int k)) @ ''px''"
  unfolding getFontSizes_def by (rule map_upto_nth) simp

lemma getFontSizes_distinct: "distinct getFontSizes"
  unfolding getFontSizes_def map_upto_distinct
  by (rule inj_on_inverseI [where g = "\<lambda>s. the (parseInt s)"]) (simp add: parseInt_px)

lemma indexOf_font_size:
  assumes "3 \<le> i" and "i \<le> 39"
  shows "js_indexOf (map Some getFontSizes) (Some (num_str (Some i) @ ''px'')) = i - 3"
proof -
  have "map Some getFontSizes ! nat (i - 3) = Some (num_str (Some i) @ ''px'')"
    using assms by (simp add: getFontSizes_nth)
  moreover have "distinct (map Some getFontSizes)" by (simp add: distinct_map getFontSizes_distinct)
  ultimately show ?thesis
    using js_indexOf_nth [of "map Some getFontSizes" "nat (i - 3)"] assms by simp
qed

lemma js_at_font_size:
  "0 \<le> k \<Longrightarrow> k < 37 \<Longrightarrow> js_at getFontSizes k = Some (num_str (Some (3 + k)) @ ''px'')"
  by (simp add: js_at_def getFontSizes_nth)

lemma increaseFontSize_eq:
  assumes "tm_fontSize t = Some i" and "3 \<le> i" and "i \<le> 39"
  shows "increaseFontSize css (TermOf t) =
    Done (TermOf (set_term_font (if i < 39 then Some (num_str (Some (i + 1)) @ ''px'') else None) t))"
proof (cases "i < 39")
  case True
  then have "js_at getFontSizes (i - 3 + 1) = Some (num_str (Some (i + 1)) @ ''px'')"
    using assms(2) js_at_font_size [of "i - 3 + 1"] by (simp add: add.commute)
  with True assms show ?thesis
    by (simp add: increaseFontSize_def getFontSize_def indexOf_font_size setFontSize_def Let_def)
next
  case False
  with assms have "js_at getFontSizes (i - 3 + 1) = None" by (simp add: js_at_def)
  with False assms show ?thesis
    by (simp add: increaseFontSize_def getFontSize_def indexOf_font_size setFontSize_def Let_def)
qed

lemma decreaseFontSize_eq:
  assumes "tm_fontSize t = Some i" and "3 \<le> i" and "i \<le> 39"
  shows "decreaseFontSize css (TermOf t) =
    (if i = 3 then Done (TermOf t) else Done (TermOf (set_term_font (Some (num_str (Some (i - 1)) @ ''px'')) t)))"
proof -
  have "i \<noteq> 3 \<Longrightarrow> js_at getFontSizes (i - 3 - 1) = Some (num_str (Some (i - 1)) @ ''px'')"
    using assms js_at_font_size [of "i - 3 - 1"] by simp
  with assms show ?thesis
    by (auto simp: decreaseFontSize_def getFontSize_def indexOf_font_size setFontSize_def Let_def)
qed

lemma set_term_font_size [simp]:
  "tm_fontSize (set_term_font v t) = parseInt (js_str v)"
  by (simp add: set_term_font_def tm_call_def Let_def)

lemma parseInt_undefined: "parseInt ''undefined'' = None"
  by (simp add: parseInt_def starts_digit_def digit_val_def)

subsection \<open>Properties\<close>

text \<open>
  Within the offered sizes, 3 to 39 pixels, one step up followed by one step down restores
  the size for every size but the largest, and stepping down never leaves the range.
\<close>

theorem font_size_steps:
  assumes "tm_fontSize t = Some i" and "3 \<le> i" and "i < 39"
  shows "(\<exists>t1. increaseFontSize css (TermOf t) = Done (TermOf t1) \<and> tm_fontSize t1 = Some (i + 1) \<and>
      (\<exists>t2. decreaseFontSize css (TermOf t1) = Done (TermOf t2) \<and> tm_fontSize t2 = Some i)) \<and>
    (\<exists>t3. decreaseFontSize css (TermOf t) = Done (TermOf t3) \<and> tm_fontSize t3 = Some (max 3 (i - 1)))"
proof -
  let ?t1 = "set_term_font (Some (num_str (Some (i + 1)) @ ''px'')) t"
  have t1: "tm_fontSize ?t1 = Some (i + 1)" using assms by (simp add: js_str_def parseInt_px)
  then show ?thesis
    using assms decreaseFontSize_eq [OF t1, of css] decreaseFontSize_eq [OF assms(1), of css]
    by (auto simp: increaseFontSize_eq js_str_def parseInt_px)
qed

definition term13 :: term_handle where
  "term13 = \<lparr>tm_fontSize = Some 13, tm_calls = []\<rparr>"

theorem font_size_steps_witness:
  "\<exists>t1. increaseFontSize None (TermOf term13) = Done (TermOf t1) \<and> tm_fontSize t1 = Some 14"
  using font_size_steps [of term13 13 None] by (auto simp: term13_def)

text \<open>
  At the largest size the bound of \<open>increaseFontSize\<close> lets one more step through: it reads
  past the end of the list and sets the terminal's font size to \<open>NaN\<close>, from which no step leads
  back.
\<close>

theorem font_size_overrun:
  assumes "tm_fontSize t = Some 39"
  shows "\<exists>t1. increaseFontSize css (TermOf t) = Done (TermOf t1) \<and> tm_fontSize t1 = None \<and>
    TFontSize None \<in> set (tm_calls t1) \<and> decreaseFontSize css (TermOf t1) = Done (TermOf t1)"
proof -
  let ?t1 = "set_term_font None t"
  have nan: "tm_fontSize ?t1 = None" by (simp add: js_str_def parseInt_undefined)
  have "Some (num_str None @ ''px'') \<notin> set (map Some getFontSizes)" by code_simp
  then have "decreaseFontSize css (TermOf ?t1) = Done (TermOf ?t1)"
    using nan by (simp add: decreaseFontSize_def getFontSize_def js_indexOf_def Let_def)
  moreover have "TFontSize None \<in> set (tm_calls ?t1)"
    by (simp add: set_term_font_def tm_call_def js_str_def parseInt_undefined Let_def)
  ultimately show ?thesis using nan assms by (simp add: increaseFontSize_eq)
qed

theorem font_size_overrun_witness:
  "\<exists>t1. increaseFontSize None (TermOf \<lparr>tm_fontSize = Some 39, tm_calls = []\<rparr>) = Done (TermOf t1)
    \<and> tm_fontSize t1 = None"
  using font_size_overrun [of "\<lparr>tm_fontSize = Some 39, tm_calls = []\<rparr>" None] by auto

text \<open>
  With the shortcuts a platform gets by default, a key event runs the one action its key and
  exactly its modifiers name, and every other event runs none.
\<close>

theorem default_shortcuts:
  "handle_key (fst (getCurrentShortcuts mac (\<lambda>_. None))) e =
    (if mac then
       (if ke_keyCode e = 13 \<and> ke_altKey e \<and> \<not> ke_metaKey e \<and> \<not> ke_ctrlKey e then [ToggleFullscreenAction]
        else if ke_metaKey e \<and> \<not> ke_ctrlKey e \<and> \<not> ke_altKey e then
          (if ke_keyCode e = 75 then [ClearAction] else if ke_keyCode e = 187 then [IncreaseFontAction]
           else if ke_keyCode e = 189 then [DecreaseFontAction] else [])
        else [])
     else
       (if ke_keyCode e = 13 \<and> ke_altKey e \<and> \<not> ke_metaKey e \<and> \<not> ke_ctrlKey e then [ToggleFullscreenAction]
        else if ke_ctrlKey e \<and> \<not> ke_metaKey e \<and> \<not> ke_altKey e then
          (if ke_keyCode e = 187 then [IncreaseFontAction]
           else if ke_keyCode e = 189 then [DecreaseFontAction] else [])
        else []))"
  by (simp add: getCurrentShortcuts_def getDefaultShortcutPrefixName_def getAvailablePresets_def js_at_def
      handle_key_def modifier_matches_def preset_def)

text \<open>
  Settings survive the trip through \<open>localStorage\<close>: the theme read back is the one set
  (dark when it is cleared) and exactly its class is on the page, and a chosen shortcut group is
  the one found again, without a console error.
\<close>

theorem settings_roundtrip:
  "getTheme (th_storage (setTheme theme s)) = (case theme of None \<Rightarrow> ''dark'' | Some v \<Rightarrow> v) \<and>
   (''light-theme'' \<in> th_classes (setTheme theme s)) = (theme = Some ''light'') \<and>
   (''dark-theme'' \<in> th_classes (setTheme theme s)) = (theme \<noteq> Some ''light'') \<and>
   list_all (\<lambda>g. getCurrentShortcuts mac (setCurrentShortcuts g st) = (Some g, False)) getAvailablePresets"
proof (intro conjI)
  show "getTheme (th_storage (setTheme theme s)) = (case theme of None \<Rightarrow> ''dark'' | Some v \<Rightarrow> v)"
    by (simp add: getTheme_def setTheme_def Let_def split: option.split)
  show "(''light-theme'' \<in> th_classes (setTheme theme s)) = (theme = Some ''light'')"
    by (simp add: setTheme_def Let_def)
  show "(''dark-theme'' \<in> th_classes (setTheme theme s)) = (theme \<noteq> Some ''light'')"
    by (simp add: setTheme_def Let_def)
  show "list_all (\<lambda>g. getCurrentShortcuts mac (setCurrentShortcuts g st) = (Some g, False)) getAvailablePresets"
    by (simp add: getCurrentShortcuts_def setCurrentShortcuts_def getAvailablePresets_def js_at_def)
qed

lemma getCurrentSessionId_page: "getCurrentSessionId (''/p/'' @ sid) = sid"
  by (simp add: getCurrentSessionId_def js_replace.simps [of "''/p/''"])

lemma toggleFullScreen_twice:
  "fs_fullscreen s = None \<Longrightarrow> geometry \<noteq> None \<Longrightarrow>
    let s2 = toggleFullScreen g (toggleFullScreen geometry s)
    in fs_fullscreen s2 = None \<and> \<not> fs_in_body s2 \<and> fs_pending_refit s2 = fs_pending_refit s + 1"
  by (simp add: toggleFullScreen_def Let_def)

end
