(* ===== verification/Playground.thy ===== *)
theory Playground
  imports Settings
begin

text \<open>
  The controller of the session page (\<open>app.js\<close>, \<open>PlayController\<close>): the instances of the session
  and the indexes over them, the messages the server pushes over the web socket, the terminals
  and the input they collect, and the requests the buttons make.

  The instance objects are shared: the array \<open>instances\<close>, the two indexes and the selection all
  hold references to them, so the objects live in a store and everything else holds addresses.
  What happens later (a timeout, the answer to a request, a tick of an interval) is a definition
  of its own; the pending timeouts wait in \<open>pg_tasks\<close> in the order they were set.

  Of an instance object the model keeps the properties the page reads or writes. A property an
  object lacks is \<open>None\<close>. The page is modelled from the arrival of the session on, when the
  socket exists. The socket is a \<open>ReconnectingWebSocket\<close>, whose \<open>send\<close> throws unless the connection is
  open; \<open>pg_socket_open\<close> says whether it is. When a timeout runs the list of instances has been rendered: there
  is a container for a terminal exactly under the names of the listed instances.
\<close>

subsection \<open>State\<close>

type_synonym addr = nat

text \<open>A flag that is \<open>undefined\<close> until a status message sets it to a boolean or to \<open>null\<close>.\<close>

datatype flag = FUndefined | FNull | FBool bool

record instance_obj =
  in_name :: string
  in_hostname :: "string option"
  in_ip :: "string option"
  in_proxy_host :: "string option"
  in_session_id :: "string option"
  in_status :: "string option"
  in_buffer :: "string option"
  in_term :: "term_handle option"
  in_terminalBuffer :: "string option"
  in_terminalBufferInterval :: "nat option"
  in_mem :: "string option"
  in_cpu :: "string option"
  in_isManager :: flag
  in_isK8sManager :: flag
  in_ports :: "int list option"
  in_swarmPorts :: "int list option"

text \<open>What the server sends of an instance: the object before the page adds to it.\<close>

record instance_info =
  ii_name :: string
  ii_hostname :: "string option"
  ii_ip :: "string option"
  ii_proxy_host :: "string option"
  ii_session_id :: "string option"

datatype page_task =
    TaskCreateTerminal addr \<comment> \<open>the timeout of \<open>showInstance\<close>\<close>
  | TaskResize addr         \<comment> \<open>the timeout of \<open>createTerminal\<close>\<close>

datatype page_alert =
    AlertMaxInstances
  | AlertOutOfCapacity
  | AlertSessionEnd

datatype page_request =
    PostInstance string string "string option" \<comment> \<open>url, type, image\<close>
  | DeleteInstanceReq string

datatype emitted =
    EmitResize int int
  | EmitTerminalIn string string
  | EmitSessionClose

record page =
  pg_sessionId :: string
  pg_store :: "addr \<Rightarrow> instance_obj"
  pg_next :: addr
  pg_instances :: "addr list"
  pg_idx :: "string \<rightharpoonup> addr"
  pg_idxByHostname :: "string \<rightharpoonup> addr"
  pg_selected :: "addr option"
  pg_hash :: string
  pg_isAlive :: bool
  pg_connected :: bool
  pg_ready :: bool
  pg_builder_shown :: nat
  pg_builderTerminal :: "term_handle option"
  pg_newInstanceBtnText :: string
  pg_isInstanceBeingCreated :: bool
  pg_deleteInstanceBtnText :: string
  pg_isInstanceBeingDeleted :: bool
  pg_intervals :: "nat \<rightharpoonup> addr"
  pg_nextHandle :: nat
  pg_tasks :: "page_task list"
  pg_emitted :: "emitted list"
  pg_requests :: "page_request list"
  pg_alerts :: "page_alert list"
  pg_socket_open :: bool
  pg_resizeHandler :: bool

definition upd_obj :: "addr \<Rightarrow> (instance_obj \<Rightarrow> instance_obj) \<Rightarrow> page \<Rightarrow> page" where
  "upd_obj a f p = p\<lparr>pg_store := (pg_store p)(a := f (pg_store p a))\<rparr>"

definition new_obj :: "instance_info \<Rightarrow> instance_obj" where
  "new_obj i = \<lparr>in_name = ii_name i, in_hostname = ii_hostname i, in_ip = ii_ip i,
     in_proxy_host = ii_proxy_host i, in_session_id = ii_session_id i, in_status = None, in_buffer = None,
     in_term = None, in_terminalBuffer = None, in_terminalBufferInterval = None, in_mem = None,
     in_cpu = None, in_isManager = FUndefined, in_isK8sManager = FUndefined, in_ports = None,
     in_swarmPorts = None\<rparr>"

definition alloc :: "instance_obj \<Rightarrow> page \<Rightarrow> page \<times> addr" where
  "alloc ob p = (p\<lparr>pg_store := (pg_store p)(pg_next p := ob), pg_next := pg_next p + 1\<rparr>, pg_next p)"

subsection \<open>Instances\<close>

text \<open>\<open>Object.assign(target, info)\<close>: the properties \<open>info\<close> has replace those of the target.\<close>

definition keep :: "'a option \<Rightarrow> 'a option \<Rightarrow> 'a option" where
  "keep new old = (case new of None \<Rightarrow> old | Some v \<Rightarrow> Some v)"

definition object_assign :: "instance_info \<Rightarrow> instance_obj \<Rightarrow> instance_obj" where
  "object_assign i ob = ob\<lparr>in_name := ii_name i, in_hostname := keep (ii_hostname i) (in_hostname ob),
     in_ip := keep (ii_ip i) (in_ip ob), in_proxy_host := keep (ii_proxy_host i) (in_proxy_host ob),
     in_session_id := keep (ii_session_id i) (in_session_id ob)\<rparr>"

definition upsertInstance :: "instance_info \<Rightarrow> page \<Rightarrow> page \<times> addr" where
  "upsertInstance i p =
     (case pg_idx p (ii_name i) of
        None \<Rightarrow>
          (let (p1, a) = alloc ((new_obj i)\<lparr>in_buffer := Some []\<rparr>) p
           in (p1\<lparr>pg_instances := pg_instances p1 @ [a],
                  pg_idx := (pg_idx p1)(ii_name i \<mapsto> a),
                  pg_idxByHostname := (pg_idxByHostname p1)(js_str (ii_hostname i) \<mapsto> a)\<rparr>, a))
      | Some a \<Rightarrow> (upd_obj a (object_assign i) p, a))"

text \<open>A new object pushed by the answer to the session request: no \<open>buffer\<close> is set.\<close>

definition load_instance :: "instance_info \<Rightarrow> page \<Rightarrow> page" where
  "load_instance i p =
     (let (p1, a) = alloc (new_obj i) p
      in p1\<lparr>pg_instances := pg_instances p1 @ [a],
            pg_idx := (pg_idx p1)(ii_name i \<mapsto> a),
            pg_idxByHostname := (pg_idxByHostname p1)(js_str (ii_hostname i) \<mapsto> a)\<rparr>)"

definition term_of :: "page \<Rightarrow> addr \<Rightarrow> term_handle option" where
  "term_of p a = in_term (pg_store p a)"

definition call_term :: "term_call \<Rightarrow> addr \<Rightarrow> page \<Rightarrow> page" where
  "call_term c a p = upd_obj a (\<lambda>ob. ob\<lparr>in_term := map_option (tm_call c) (in_term ob)\<rparr>) p"

definition showInstance :: "addr \<Rightarrow> page \<Rightarrow> page" where
  "showInstance a p =
     (let p1 = p\<lparr>pg_selected := Some a, pg_hash := in_name (pg_store p a)\<rparr>
      in if term_of p1 a = None
         then p1\<lparr>pg_tasks := pg_tasks p1 @ [TaskCreateTerminal a]\<rparr>
         else call_term TFocus a p1)"

definition clearInterval :: "nat option \<Rightarrow> page \<Rightarrow> page" where
  "clearInterval h p =
     (case h of None \<Rightarrow> p | Some k \<Rightarrow> p\<lparr>pg_intervals := (pg_intervals p)(k := None)\<rparr>)"

definition removeInstance :: "string \<Rightarrow> page \<Rightarrow> page" where
  "removeInstance name p =
     (case pg_idx p name of
        None \<Rightarrow> p
      | Some a \<Rightarrow>
          (let p1 = clearInterval (in_terminalBufferInterval (pg_store p a)) p;
               p2 = p1\<lparr>pg_idx := (pg_idx p1)(name := None),
                       pg_instances := filter (\<lambda>b. in_name (pg_store p1 b) \<noteq> name) (pg_instances p1)\<rparr>
           in case pg_instances p2 of [] \<Rightarrow> p2 | b # _ \<Rightarrow> showInstance b p2))"

subsection \<open>Terminals and input\<close>

definition socket_emit :: "emitted \<Rightarrow> page \<Rightarrow> page outcome" where
  "socket_emit e p = (if pg_socket_open p then Done (p\<lparr>pg_emitted := pg_emitted p @ [e]\<rparr>) else Throw PlainError p)"

text \<open>What \<open>getElementById\<close> finds for the name of an object.\<close>

definition has_container :: "addr \<Rightarrow> page \<Rightarrow> bool" where
  "has_container a p \<longleftrightarrow> (\<exists>b\<in>set (pg_instances p). in_name (pg_store p b) = in_name (pg_store p a))"

text \<open>
  A fresh terminal has the default font size of 15 and no calls made on it. The data listener
  that collects input is \<open>term_data\<close>; the interval that ships it is \<open>interval_tick\<close>. Opening a terminal
  without a container throws, before the input buffer and the interval are set.
\<close>

definition createTerminal :: "addr \<Rightarrow> page \<Rightarrow> page outcome" where
  "createTerminal a p =
     (if term_of p a \<noteq> None then Done p
      else if \<not> has_container a p then Throw PlainError p
      else
        (let h = pg_nextHandle p;
             p1 = p\<lparr>pg_tasks := pg_tasks p @ [TaskResize a],
                    pg_intervals := (pg_intervals p)(h \<mapsto> a), pg_nextHandle := h + 1\<rparr>
         in Done (upd_obj a (\<lambda>ob. ob\<lparr>in_terminalBuffer := Some [], in_terminalBufferInterval := Some h,
              in_term := Some \<lparr>tm_fontSize = Some 15, tm_calls = []\<rparr>\<rparr>) p1)))"

definition term_data :: "string \<Rightarrow> addr \<Rightarrow> page \<Rightarrow> page" where
  "term_data d a p =
     upd_obj a (\<lambda>ob. ob\<lparr>in_terminalBuffer := Some (js_str (in_terminalBuffer ob) @ d)\<rparr>) p"

definition interval_tick :: "nat \<Rightarrow> page \<Rightarrow> page outcome" where
  "interval_tick h p =
     (case pg_intervals p h of
        None \<Rightarrow> Done p
      | Some a \<Rightarrow>
          (case in_terminalBuffer (pg_store p a) of
             None \<Rightarrow> Throw TypeError p
           | Some b \<Rightarrow>
               if length b > 0
               then and_then (socket_emit (EmitTerminalIn (in_name (pg_store p a)) b) p)
                      (\<lambda>p. Done (upd_obj a (\<lambda>ob. ob\<lparr>in_terminalBuffer := Some []\<rparr>) p))
               else Done p))"

definition resize :: "int \<Rightarrow> int \<Rightarrow> page \<Rightarrow> page outcome" where
  "resize cols rows p = socket_emit (EmitResize cols rows) p"

text \<open>The selection as \<open>TerminalService\<close> sees it, and the write-back of what it did to it.\<close>

definition sel_view :: "page \<Rightarrow> selection" where
  "sel_view p = (case pg_selected p of None \<Rightarrow> NoInstance
     | Some a \<Rightarrow> (case term_of p a of None \<Rightarrow> NoTerm | Some t \<Rightarrow> TermOf t))"

definition sel_store :: "page \<Rightarrow> selection \<Rightarrow> page" where
  "sel_store p sel = (case (pg_selected p, sel) of
     (Some a, TermOf t) \<Rightarrow> upd_obj a (\<lambda>ob. ob\<lparr>in_term := Some t\<rparr>) p | _ \<Rightarrow> p)"

text \<open>
  One pending timeout. \<open>geometry\<close> is what \<open>proposeGeometry\<close> measures; \<open>css\<close> the style sheet's
  font size. The body of \<open>showInstance\<close>'s timeout reads the font size of whatever instance is
  selected by then, and throws when that one has no terminal.
\<close>

definition run_task :: "int \<times> int \<Rightarrow> string option \<Rightarrow> page_task \<Rightarrow> page \<Rightarrow> page outcome" where
  "run_task geometry css task p =
     (case task of
        TaskResize a \<Rightarrow> resize (fst geometry) (snd geometry) p
      | TaskCreateTerminal a \<Rightarrow>
          and_then (createTerminal a p) (\<lambda>p1.
            case getFontSize css (sel_view p1) of
              Inl e \<Rightarrow> Throw e p1
            | Inr sz \<Rightarrow>
                and_then (map_outcome_state (sel_store p1) (setFontSize sz (sel_view p1)))
                  (\<lambda>p2. Done (call_term TFocus a p2))))"

definition run_next_task :: "int \<times> int \<Rightarrow> string option \<Rightarrow> page \<Rightarrow> page outcome" where
  "run_next_task geometry css p =
     (case pg_tasks p of [] \<Rightarrow> Done p
      | t # ts \<Rightarrow> run_task geometry css t (p\<lparr>pg_tasks := ts\<rparr>))"

subsection \<open>Messages of the server\<close>

definition setSessionState :: "bool \<Rightarrow> page \<Rightarrow> page" where
  "setSessionState state p =
     (let p1 = p\<lparr>pg_ready := state\<rparr>
      in if \<not> state then p1\<lparr>pg_builder_shown := pg_builder_shown p1 + 1\<rparr> else p1)"

definition createBuilderTerminal :: "page \<Rightarrow> page" where
  "createBuilderTerminal p = p\<lparr>pg_builderTerminal := Some \<lparr>tm_fontSize = Some 15, tm_calls = []\<rparr>\<rparr>"

text \<open>A handler that changes the instance of a name, when there is one.\<close>

definition on_idx :: "string \<Rightarrow> (instance_obj \<Rightarrow> instance_obj) \<Rightarrow> page \<Rightarrow> page" where
  "on_idx name f p = (case pg_idx p name of None \<Rightarrow> p | Some a \<Rightarrow> upd_obj a f p)"

definition on_terminal_status :: "string \<Rightarrow> string \<Rightarrow> page \<Rightarrow> page" where
  "on_terminal_status name status p = on_idx name (\<lambda>ob. ob\<lparr>in_status := Some status\<rparr>) p"

definition on_builder_out :: "string \<Rightarrow> page \<Rightarrow> page outcome" where
  "on_builder_out data p =
     (case pg_builderTerminal p of
        None \<Rightarrow> Throw TypeError p
      | Some t \<Rightarrow> Done (p\<lparr>pg_builderTerminal := Some (tm_call (TWrite data) t)\<rparr>))"

definition on_terminal_out :: "string \<Rightarrow> string \<Rightarrow> page \<Rightarrow> page" where
  "on_terminal_out name data p =
     on_idx name (\<lambda>ob. case in_term ob of
         None \<Rightarrow> ob\<lparr>in_buffer := Some (js_str (in_buffer ob) @ data)\<rparr>
       | Some t \<Rightarrow> ob\<lparr>in_term := Some (tm_call (TWrite data) t)\<rparr>) p"

definition on_session_end :: "page \<Rightarrow> page" where
  "on_session_end p = p\<lparr>pg_alerts := pg_alerts p @ [AlertSessionEnd], pg_isAlive := False, pg_socket_open := False\<rparr>"

definition on_instance_new :: "string \<Rightarrow> string \<Rightarrow> string \<Rightarrow> string \<Rightarrow> page \<Rightarrow> page" where
  "on_instance_new name ip hostname proxyHost p =
     (let (p1, a) = upsertInstance \<lparr>ii_name = name, ii_hostname = Some hostname, ii_ip = Some ip,
                      ii_proxy_host = Some proxyHost, ii_session_id = Some (pg_sessionId p)\<rparr> p
      in showInstance a p1)"

definition on_instance_delete :: "string \<Rightarrow> page \<Rightarrow> page" where
  "on_instance_delete name p = removeInstance name p"

definition flush_obj :: "int \<Rightarrow> int \<Rightarrow> instance_obj \<Rightarrow> instance_obj" where
  "flush_obj cols rows ob =
     (case in_term ob of
        None \<Rightarrow> ob
      | Some t \<Rightarrow>
          (let t1 = tm_call (TResize cols rows) t
           in case in_buffer ob of
                None \<Rightarrow> ob\<lparr>in_term := Some t1\<rparr>
              | Some b \<Rightarrow>
                  if b \<noteq> [] then ob\<lparr>in_term := Some (tm_call (TWrite b) t1), in_buffer := Some []\<rparr>
                  else ob\<lparr>in_term := Some t1\<rparr>))"

definition on_viewport_resize :: "int \<Rightarrow> int \<Rightarrow> page \<Rightarrow> page" where
  "on_viewport_resize cols rows p =
     (if cols = 0 \<or> rows = 0 then p
      else fold (\<lambda>a p. upd_obj a (flush_obj cols rows) p) (pg_instances p) p)"

definition on_stats :: "string \<Rightarrow> string \<Rightarrow> string \<Rightarrow> page \<Rightarrow> page" where
  "on_stats name mem cpu p = on_idx name (\<lambda>ob. ob\<lparr>in_mem := Some mem, in_cpu := Some cpu\<rparr>) p"

definition role_flag :: "bool \<Rightarrow> bool \<Rightarrow> flag" where
  "role_flag is_manager is_worker =
     (if is_manager then FBool True else if is_worker then FBool False else FNull)"

definition on_swarm_status :: "string \<Rightarrow> bool \<Rightarrow> bool \<Rightarrow> page \<Rightarrow> page" where
  "on_swarm_status name is_manager is_worker p =
     on_idx name (\<lambda>ob. ob\<lparr>in_isManager := role_flag is_manager is_worker\<rparr>) p"

definition on_k8s_status :: "string \<Rightarrow> bool \<Rightarrow> bool \<Rightarrow> page \<Rightarrow> page" where
  "on_k8s_status name is_manager is_worker p =
     on_idx name (\<lambda>ob. ob\<lparr>in_isK8sManager := role_flag is_manager is_worker\<rparr>) p"

definition on_docker_ports :: "string \<Rightarrow> int list \<Rightarrow> page \<Rightarrow> page" where
  "on_docker_ports name ports p = on_idx name (\<lambda>ob. ob\<lparr>in_ports := Some ports\<rparr>) p"

definition on_swarm_ports :: "string list \<Rightarrow> int list \<Rightarrow> page \<Rightarrow> page" where
  "on_swarm_ports hosts ports p =
     fold (\<lambda>h p. case pg_idxByHostname p h of None \<Rightarrow> p
             | Some a \<Rightarrow> upd_obj a (\<lambda>ob. ob\<lparr>in_swarmPorts := Some ports\<rparr>) p) hosts p"

text \<open>The socket opening and closing.\<close>

definition set_stdin :: "bool \<Rightarrow> page \<Rightarrow> page" where
  "set_stdin disabled p = fold (call_term (TDisableStdin disabled)) (pg_instances p) p"

definition on_socket_open :: "page \<Rightarrow> page" where
  "on_socket_open p = set_stdin False (p\<lparr>pg_connected := True, pg_socket_open := True\<rparr>)"

definition on_socket_close :: "page \<Rightarrow> page" where
  "on_socket_close p = set_stdin True (p\<lparr>pg_connected := False, pg_socket_open := False\<rparr>)"


text \<open>The listener table of the socket: registering, and delivering a message to the listeners of its name.\<close>

type_synonym ('m, 's) listeners = "string \<rightharpoonup> ('m \<Rightarrow> 's \<Rightarrow> 's) list"

definition socket_on ::
  "string \<Rightarrow> ('m \<Rightarrow> 's \<Rightarrow> 's) \<Rightarrow> ('m, 's) listeners \<Rightarrow> ('m, 's) listeners" where
  "socket_on name cb ls =
     (let ls1 = (if ls name = None then ls(name \<mapsto> []) else ls)
      in ls1(name \<mapsto> the (ls1 name) @ [cb]))"

definition socket_message :: "('m, 's) listeners \<Rightarrow> string \<Rightarrow> 'm \<Rightarrow> 's \<Rightarrow> 's" where
  "socket_message ls name args s =
     (case ls name of None \<Rightarrow> s | Some cbs \<Rightarrow> fold (\<lambda>cb s. cb args s) cbs s)"

subsection \<open>The session's arrival\<close>

definition ws_url :: "string \<Rightarrow> string \<Rightarrow> string \<Rightarrow> string \<Rightarrow> string" where
  "ws_url protocol host port sessionId =
     (let base = (if protocol = ''http:'' then ''ws://'' else ''wss://'') @ host;
          base = (if port \<noteq> [] then base @ '':'' @ port else base)
      in base @ ''/sessions/'' @ sessionId @ ''/ws/'')"

definition session_loaded :: "bool \<Rightarrow> instance_info list \<Rightarrow> page \<Rightarrow> page" where
  "session_loaded is_ready infos p =
     (let p1 = fold load_instance infos (setSessionState is_ready p)
      in case pg_idx p1 (pg_hash p1) of
           Some a \<Rightarrow> showInstance a p1
         | None \<Rightarrow> (case pg_instances p1 of [] \<Rightarrow> p1 | a # _ \<Rightarrow> showInstance a p1))"

subsection \<open>Buttons and requests\<close>

definition updateNewInstanceBtnState :: "bool \<Rightarrow> page \<Rightarrow> page" where
  "updateNewInstanceBtnState b p =
     (if b then p\<lparr>pg_newInstanceBtnText := ''+ Creating...'', pg_isInstanceBeingCreated := True\<rparr>
      else p\<lparr>pg_newInstanceBtnText := ''+ Add new instance'', pg_isInstanceBeingCreated := False\<rparr>)"

definition updateDeleteInstanceBtnState :: "bool \<Rightarrow> page \<Rightarrow> page" where
  "updateDeleteInstanceBtnState b p =
     (if b then p\<lparr>pg_deleteInstanceBtnText := ''Deleting...'', pg_isInstanceBeingDeleted := True\<rparr>
      else p\<lparr>pg_deleteInstanceBtnText := ''Delete'', pg_isInstanceBeingDeleted := False\<rparr>)"

definition newInstance :: "bool \<Rightarrow> string option \<Rightarrow> page \<Rightarrow> page" where
  "newInstance windows desiredImage p =
     (let p1 = updateNewInstanceBtnState True p
      in p1\<lparr>pg_requests := pg_requests p1 @ [PostInstance (''/sessions/'' @ pg_sessionId p1 @ ''/instances'')
             (if windows then ''windows'' else ''linux'') desiredImage]\<rparr>)"

datatype create_answer = Created instance_info | CreateFailed int "string option"

definition newInstance_answer :: "create_answer \<Rightarrow> page \<Rightarrow> page" where
  "newInstance_answer ans p =
     updateNewInstanceBtnState False
       (case ans of
          Created i \<Rightarrow> fst (upsertInstance i p)
        | CreateFailed status err \<Rightarrow>
            if status = 409 then p\<lparr>pg_alerts := pg_alerts p @ [AlertMaxInstances]\<rparr>
            else if status = 503 \<and> err = Some ''out_of_capacity''
            then p\<lparr>pg_alerts := pg_alerts p @ [AlertOutOfCapacity]\<rparr>
            else p)"

definition deleteInstance :: "addr \<Rightarrow> page \<Rightarrow> page" where
  "deleteInstance a p =
     (let p1 = updateDeleteInstanceBtnState True p
      in p1\<lparr>pg_requests := pg_requests p1 @ [DeleteInstanceReq
             (''/sessions/'' @ pg_sessionId p1 @ ''/instances/'' @ in_name (pg_store p1 a))]\<rparr>)"

definition deleteInstance_answer :: "addr \<Rightarrow> bool \<Rightarrow> page \<Rightarrow> page" where
  "deleteInstance_answer a ok p =
     updateDeleteInstanceBtnState False (if ok then removeInstance (in_name (pg_store p a)) p else p)"

definition closeSession :: "page \<Rightarrow> page outcome" where
  "closeSession p = socket_emit EmitSessionClose p"

definition clearTerminal :: "addr \<Rightarrow> page \<Rightarrow> page" where
  "clearTerminal a p = call_term TClear a p"

definition getProxyUrl :: "string \<Rightarrow> instance_obj \<Rightarrow> string \<Rightarrow> string" where
  "getProxyUrl host ob port =
     ''http://'' @ js_str (in_proxy_host ob) @ ''-'' @ port @ ''.direct.'' @ host"

text \<open>The window's resize event, and the timeout it sets at most one of.\<close>

definition window_resize :: "page \<Rightarrow> page" where
  "window_resize p = (if pg_selected p \<noteq> None \<and> \<not> pg_resizeHandler p then p\<lparr>pg_resizeHandler := True\<rparr> else p)"

definition resize_timeout :: "int \<times> int \<Rightarrow> page \<Rightarrow> page outcome" where
  "resize_timeout geometry p =
     (if \<not> pg_resizeHandler p then Done p
      else
        (let p1 = p\<lparr>pg_resizeHandler := False\<rparr>
         in case pg_selected p1 of
              None \<Rightarrow> Throw TypeError p1
            | Some a \<Rightarrow> (case term_of p1 a of None \<Rightarrow> Throw TypeError p1
                        | Some t \<Rightarrow> resize (fst geometry) (snd geometry) p1)))"

subsection \<open>Uploads\<close>

record uploader =
  up_files :: "string list"
  up_total :: nat
  up_message :: string
  up_progress :: "int option"
  up_posted :: "(string \<times> string) list"

text \<open>\<open>url\<close> is the upload address of the instance selected when the transfer starts.\<close>

definition upload_url :: "string \<Rightarrow> string \<Rightarrow> string" where
  "upload_url sessionId name = ''/sessions/'' @ sessionId @ ''/instances/'' @ name @ ''/uploads''"

definition uploadFile :: "string \<Rightarrow> uploader \<Rightarrow> uploader" where
  "uploadFile url u =
     (case up_files u of
        [] \<Rightarrow> u\<lparr>up_message := [], up_progress := Some 0\<rparr>
      | file # files \<Rightarrow>
          u\<lparr>up_files := files,
            up_message := ''Uploading file(s) '' @ num_str (Some (int (up_total u) - int (length files)))
              @ ''/'' @ num_str (Some (int (up_total u))) @ '' : '' @ file,
            up_posted := up_posted u @ [(url, file)]\<rparr>)"

definition uploadFiles :: "string \<Rightarrow> string list \<Rightarrow> uploader \<Rightarrow> uploader" where
  "uploadFiles url files u = uploadFile url (u\<lparr>up_files := files, up_total := length files\<rparr>)"

text \<open>A progress event; with a total of 0 the quotient is \<open>NaN\<close> or infinite and parses to \<open>NaN\<close>.\<close>

definition upload_progress :: "nat \<Rightarrow> nat \<Rightarrow> uploader \<Rightarrow> uploader" where
  "upload_progress loaded tot u =
     u\<lparr>up_progress := (if tot = 0 then None else Some (int (100 * loaded div tot)))\<rparr>"

text \<open>\<open>upload.finally(uploadFile)\<close>: the end of a transfer, good or bad, starts the next.\<close>

definition upload_finished :: "string \<Rightarrow> uploader \<Rightarrow> uploader" where
  "upload_finished url u = uploadFile url u"

end
