(* ===== verification/Playground_Safety.thy ===== *)
theory Playground_Safety
  imports Playground
begin

text \<open>
  What the session page keeps true. The first part is the consistency of the references
  (every index points at a listed instance of that name and back, timers and pending timeouts
  point at allocated objects) and its preservation by every event of the page. The second part
  follows the bytes: what is typed leaves in order, what the server sends reaches the terminal.
\<close>

subsection \<open>Events\<close>

datatype page_event =
    EvTerminalStatus string string
  | EvSessionReady bool
  | EvBuilderOut string
  | EvTerminalOut string string
  | EvSessionEnd
  | EvInstanceNew string string string string
  | EvInstanceDelete string
  | EvViewportResize int int
  | EvStats string string string
  | EvSwarmStatus string bool bool
  | EvK8sStatus string bool bool
  | EvDockerPorts string "int list"
  | EvSwarmPorts "string list" "int list"
  | EvSocketOpen
  | EvSocketClose
  | EvTask "int \<times> int" "string option"
  | EvTypedData addr string
  | EvTick nat
  | EvShow addr
  | EvNewInstance bool "string option"
  | EvNewInstanceAnswer create_answer
  | EvDeleteInstance addr
  | EvDeleteInstanceAnswer addr bool
  | EvWindowResize
  | EvResizeTimeout "int \<times> int"
  | EvClearTerminal addr
  | EvCloseSession

fun page_step :: "page_event \<Rightarrow> page \<Rightarrow> page" where
  "page_step (EvTerminalStatus n s) p = on_terminal_status n s p"
| "page_step (EvSessionReady b) p = setSessionState b p"
| "page_step (EvBuilderOut d) p = outcome_state (on_builder_out d p)"
| "page_step (EvTerminalOut n d) p = on_terminal_out n d p"
| "page_step EvSessionEnd p = on_session_end p"
| "page_step (EvInstanceNew n ip h ph) p = on_instance_new n ip h ph p"
| "page_step (EvInstanceDelete n) p = on_instance_delete n p"
| "page_step (EvViewportResize c r) p = on_viewport_resize c r p"
| "page_step (EvStats n m c) p = on_stats n m c p"
| "page_step (EvSwarmStatus n m w) p = on_swarm_status n m w p"
| "page_step (EvK8sStatus n m w) p = on_k8s_status n m w p"
| "page_step (EvDockerPorts n ps) p = on_docker_ports n ps p"
| "page_step (EvSwarmPorts hs ps) p = on_swarm_ports hs ps p"
| "page_step EvSocketOpen p = on_socket_open p"
| "page_step EvSocketClose p = on_socket_close p"
| "page_step (EvTask g css) p = outcome_state (run_next_task g css p)"
| "page_step (EvTypedData a d) p = term_data d a p"
| "page_step (EvTick h) p = outcome_state (interval_tick h p)"
| "page_step (EvShow a) p = showInstance a p"
| "page_step (EvNewInstance w im) p = newInstance w im p"
| "page_step (EvNewInstanceAnswer ans) p = newInstance_answer ans p"
| "page_step (EvDeleteInstance a) p = deleteInstance a p"
| "page_step (EvDeleteInstanceAnswer a b) p = deleteInstance_answer a b p"
| "page_step EvWindowResize p = window_resize p"
| "page_step (EvResizeTimeout g) p = outcome_state (resize_timeout g p)"
| "page_step (EvClearTerminal a) p = clearTerminal a p"
| "page_step EvCloseSession p = outcome_state (closeSession p)"

text \<open>The page offers only listed instances to click on, and only a terminal reports typed data.\<close>

fun event_ok :: "page_event \<Rightarrow> page \<Rightarrow> bool" where
  "event_ok (EvShow a) p = (a \<in> set (pg_instances p))"
| "event_ok (EvTypedData a d) p = (term_of p a \<noteq> None)"
| "event_ok _ p = True"

subsection \<open>The invariant\<close>

fun task_addr :: "page_task \<Rightarrow> addr" where
  "task_addr (TaskCreateTerminal a) = a"
| "task_addr (TaskResize a) = a"

definition index_inv :: "page \<Rightarrow> bool" where
  "index_inv p \<longleftrightarrow> distinct (pg_instances p) \<and> (\<forall>a \<in> set (pg_instances p). a < pg_next p) \<and>
     (\<forall>n a. pg_idx p n = Some a \<longleftrightarrow> a \<in> set (pg_instances p) \<and> in_name (pg_store p a) = n)"

text \<open>
  Timers and objects agree: a running timer is the one its object names, and the timer a listed
  object names is running.
\<close>

definition timer_inv :: "page \<Rightarrow> bool" where
  "timer_inv p \<longleftrightarrow> (\<forall>h a. pg_intervals p h = Some a \<longrightarrow>
     a < pg_next p \<and> h < pg_nextHandle p \<and> in_terminalBufferInterval (pg_store p a) = Some h)"

definition armed_inv :: "page \<Rightarrow> bool" where
  "armed_inv p \<longleftrightarrow> (\<forall>a \<in> set (pg_instances p). \<forall>h.
     in_terminalBufferInterval (pg_store p a) = Some h \<longrightarrow> pg_intervals p h = Some a)"

definition ref_inv :: "page \<Rightarrow> bool" where
  "ref_inv p \<longleftrightarrow> (\<forall>t \<in> set (pg_tasks p). task_addr t < pg_next p) \<and>
     (\<forall>a. pg_selected p = Some a \<longrightarrow> a < pg_next p)"

text \<open>
  A terminal comes with its input buffer and its timer, which is what keeps \<open>createTerminal\<close> from
  losing either.
\<close>

definition term_timer_inv :: "page \<Rightarrow> bool" where
  "term_timer_inv p \<longleftrightarrow> (\<forall>a.
     (in_terminalBufferInterval (pg_store p a) = None \<longleftrightarrow> in_term (pg_store p a) = None) \<and>
     (in_terminalBuffer (pg_store p a) = None \<longleftrightarrow> in_term (pg_store p a) = None))"

definition page_inv :: "page \<Rightarrow> bool" where
  "page_inv p \<longleftrightarrow> index_inv p \<and> timer_inv p \<and> armed_inv p \<and> ref_inv p \<and> term_timer_inv p"

lemmas page_inv_parts = index_inv_def timer_inv_def armed_inv_def ref_inv_def term_timer_inv_def

lemma page_invI:
  "index_inv p \<Longrightarrow> timer_inv p \<Longrightarrow> armed_inv p \<Longrightarrow> ref_inv p \<Longrightarrow> term_timer_inv p \<Longrightarrow> page_inv p"
  by (simp add: page_inv_def)

lemma page_invD:
  assumes "page_inv p"
  shows "index_inv p" "timer_inv p" "armed_inv p" "ref_inv p" "term_timer_inv p"
  using assms by (simp_all add: page_inv_def)

text \<open>Changes to an object that leave its name and its timer alone.\<close>

definition benign_at :: "instance_obj \<Rightarrow> instance_obj \<Rightarrow> bool" where
  "benign_at ob ob' \<longleftrightarrow> in_name ob' = in_name ob \<and>
     in_terminalBufferInterval ob' = in_terminalBufferInterval ob \<and>
     (in_terminalBuffer ob' = None \<longleftrightarrow> in_terminalBuffer ob = None) \<and>
     (in_term ob' = None \<longleftrightarrow> in_term ob = None)"

lemma upd_obj_fields [simp]:
  "pg_instances (upd_obj a f p) = pg_instances p" "pg_idx (upd_obj a f p) = pg_idx p"
  "pg_next (upd_obj a f p) = pg_next p" "pg_intervals (upd_obj a f p) = pg_intervals p"
  "pg_nextHandle (upd_obj a f p) = pg_nextHandle p" "pg_tasks (upd_obj a f p) = pg_tasks p"
  "pg_selected (upd_obj a f p) = pg_selected p" "pg_idxByHostname (upd_obj a f p) = pg_idxByHostname p"
  "pg_emitted (upd_obj a f p) = pg_emitted p" "pg_hash (upd_obj a f p) = pg_hash p"
  "pg_sessionId (upd_obj a f p) = pg_sessionId p"
  "pg_store (upd_obj a f p) b = (if b = a then f (pg_store p a) else pg_store p b)"
  by (simp_all add: upd_obj_def)

lemma page_inv_upd:
  assumes inv: "page_inv p" and ob: "benign_at (pg_store p a) (f (pg_store p a))"
  shows "page_inv (upd_obj a f p)"
proof (rule page_invI)
  have eqs: "in_name (pg_store (upd_obj a f p) b) = in_name (pg_store p b)"
    "in_terminalBufferInterval (pg_store (upd_obj a f p) b) = in_terminalBufferInterval (pg_store p b)"
    "in_terminalBuffer (pg_store (upd_obj a f p) b) = None \<longleftrightarrow> in_terminalBuffer (pg_store p b) = None"
    "in_term (pg_store (upd_obj a f p) b) = None \<longleftrightarrow> in_term (pg_store p b) = None" for b
    using ob by (simp_all add: benign_at_def)
  note parts = page_invD [OF inv]
  show "index_inv (upd_obj a f p)" using parts(1) unfolding index_inv_def eqs by simp
  show "timer_inv (upd_obj a f p)" using parts(2) unfolding timer_inv_def eqs by simp
  show "armed_inv (upd_obj a f p)" using parts(3) unfolding armed_inv_def eqs by simp
  show "ref_inv (upd_obj a f p)" using parts(4) unfolding ref_inv_def by simp
  show "term_timer_inv (upd_obj a f p)" using parts(5) unfolding term_timer_inv_def eqs by simp
qed

lemma page_inv_on_idx: "page_inv p \<Longrightarrow> (\<And>ob. benign_at ob (f ob)) \<Longrightarrow> page_inv (on_idx n f p)"
  by (simp add: on_idx_def page_inv_upd split: option.split)

lemma page_inv_fold:
  assumes "\<And>a p. page_inv p \<Longrightarrow> page_inv (g a p)"
  shows "page_inv p \<Longrightarrow> page_inv (fold g as p)"
  using assms by (induction as arbitrary: p) simp_all

text \<open>The fields the invariant does not read.\<close>

lemma page_inv_frame [simp]:
  "page_inv (p\<lparr>pg_hash := x1\<rparr>) = page_inv p" "page_inv (p\<lparr>pg_isAlive := x2\<rparr>) = page_inv p"
  "page_inv (p\<lparr>pg_connected := x2\<rparr>) = page_inv p" "page_inv (p\<lparr>pg_ready := x2\<rparr>) = page_inv p"
  "page_inv (p\<lparr>pg_builder_shown := x3\<rparr>) = page_inv p"
  "page_inv (p\<lparr>pg_builderTerminal := x4\<rparr>) = page_inv p"
  "page_inv (p\<lparr>pg_newInstanceBtnText := x1\<rparr>) = page_inv p"
  "page_inv (p\<lparr>pg_isInstanceBeingCreated := x2\<rparr>) = page_inv p"
  "page_inv (p\<lparr>pg_deleteInstanceBtnText := x1\<rparr>) = page_inv p"
  "page_inv (p\<lparr>pg_isInstanceBeingDeleted := x2\<rparr>) = page_inv p"
  "page_inv (p\<lparr>pg_emitted := x5\<rparr>) = page_inv p" "page_inv (p\<lparr>pg_requests := x6\<rparr>) = page_inv p"
  "page_inv (p\<lparr>pg_alerts := x7\<rparr>) = page_inv p" "page_inv (p\<lparr>pg_socket_open := x2\<rparr>) = page_inv p"
  "page_inv (p\<lparr>pg_resizeHandler := x2\<rparr>) = page_inv p"
  "page_inv (p\<lparr>pg_idxByHostname := x8\<rparr>) = page_inv p"
  by (simp_all add: page_inv_def page_inv_parts)

lemma page_inv_call_term: "page_inv p \<Longrightarrow> page_inv (call_term c a p)"
  unfolding call_term_def by (rule page_inv_upd) (simp_all add: benign_at_def)

text \<open>Pages that agree on what the invariant says of objects and timers.\<close>

lemma page_inv_refs:
  assumes inv: "page_inv p" and "ref_inv q"
    and eqs: "pg_store q = pg_store p" "pg_next q = pg_next p" "pg_instances q = pg_instances p"
      "pg_idx q = pg_idx p" "pg_intervals q = pg_intervals p" "pg_nextHandle q = pg_nextHandle p"
  shows "page_inv q"
proof (rule page_invI)
  note parts = page_invD [OF inv]
  show "index_inv q" using parts(1) unfolding index_inv_def eqs .
  show "timer_inv q" using parts(2) unfolding timer_inv_def eqs .
  show "armed_inv q" using parts(3) unfolding armed_inv_def eqs .
  show "term_timer_inv q" using parts(5) unfolding term_timer_inv_def eqs .
qed (rule assms(2))

lemma page_inv_task: "page_inv p \<Longrightarrow> task_addr t < pg_next p \<Longrightarrow> page_inv (p\<lparr>pg_tasks := pg_tasks p @ [t]\<rparr>)"
  using page_invD(4) [of p] by (auto intro!: page_inv_refs [of p] simp: ref_inv_def)

lemma page_inv_untask: "page_inv p \<Longrightarrow> pg_tasks p = t # ts \<Longrightarrow> page_inv (p\<lparr>pg_tasks := ts\<rparr>)"
  using page_invD(4) [of p] by (auto intro!: page_inv_refs [of p] simp: ref_inv_def)

lemma page_inv_select:
  "page_inv p \<Longrightarrow> a < pg_next p \<Longrightarrow> page_inv (p\<lparr>pg_selected := Some a, pg_hash := h\<rparr>)"
  using page_invD(4) [of p] by (auto intro!: page_inv_refs [of p] simp: ref_inv_def)

lemma page_inv_showInstance:
  assumes "page_inv p" and "a < pg_next p"
  shows "page_inv (showInstance a p)"
  using page_inv_select [OF assms] assms(2)
    page_inv_task [of "p\<lparr>pg_selected := Some a, pg_hash := in_name (pg_store p a)\<rparr>" "TaskCreateTerminal a"]
  by (simp add: showInstance_def Let_def page_inv_call_term)

text \<open>An object with no terminal owns no timer, so a new timer can be given to it.\<close>

lemma no_timer_of: "page_inv p \<Longrightarrow> in_term (pg_store p a) = None \<Longrightarrow> pg_intervals p h \<noteq> Some a"
  unfolding page_inv_def timer_inv_def term_timer_inv_def by (metis option.distinct(1))

lemma page_inv_createTerminal:
  assumes inv: "page_inv p" and a: "a < pg_next p"
  shows "page_inv (outcome_state (createTerminal a p))"
proof (cases "in_term (pg_store p a) = None \<and> has_container a p")
  case True
  then have None: "in_term (pg_store p a) = None" by simp
  note none = no_timer_of [OF inv None]
  define q where "q = outcome_state (createTerminal a p)"
  have store: "pg_store q = (pg_store p)(a := (pg_store p a)\<lparr>in_terminalBuffer := Some [],
      in_terminalBufferInterval := Some (pg_nextHandle p), in_term := Some \<lparr>tm_fontSize = Some 15, tm_calls = []\<rparr>\<rparr>)"
    and ivs: "pg_intervals q = (pg_intervals p)(pg_nextHandle p \<mapsto> a)"
    and rest: "pg_next q = pg_next p" "pg_nextHandle q = Suc (pg_nextHandle p)" "pg_instances q = pg_instances p"
      "pg_idx q = pg_idx p" "pg_tasks q = pg_tasks p @ [TaskResize a]" "pg_selected q = pg_selected p"
    using True by (simp_all add: q_def createTerminal_def term_of_def Let_def upd_obj_def)
  have old: "h < pg_nextHandle p" if "pg_intervals p h = Some b" for h b
    using inv that by (simp add: page_inv_def timer_inv_def)
  note parts = page_invD [OF inv]
  have "timer_inv q"
    using parts(2) a none by (auto simp: timer_inv_def store ivs rest less_Suc_eq)
  moreover have "armed_inv q"
    using parts(3) old by (auto simp: armed_inv_def store ivs rest)
  moreover have "index_inv q" using parts(1) by (simp add: index_inv_def store rest)
  moreover have "ref_inv q" using parts(4) a by (auto simp: ref_inv_def rest)
  moreover have "term_timer_inv q" using parts(5) by (simp add: term_timer_inv_def store)
  ultimately show ?thesis unfolding q_def by (simp add: page_inv_def)
qed (use inv in \<open>auto simp: createTerminal_def term_of_def\<close>)

lemma page_inv_alloc:
  assumes inv: "page_inv p" and fresh: "pg_idx p (in_name ob) = None"
    and ob: "in_terminalBufferInterval ob = None" "in_term ob = None" "in_terminalBuffer ob = None"
  shows "page_inv (p\<lparr>pg_store := (pg_store p)(pg_next p := ob), pg_next := pg_next p + 1,
    pg_instances := pg_instances p @ [pg_next p], pg_idx := (pg_idx p)(in_name ob \<mapsto> pg_next p)\<rparr>)"
    (is "page_inv ?q")
proof -
  note parts = page_invD [OF inv]
  have new: "pg_next p \<notin> set (pg_instances p)" using parts(1) by (auto simp: index_inv_def)
  have named: "in_name (pg_store p a) \<noteq> in_name ob" if "a \<in> set (pg_instances p)" for a
    using parts(1) fresh that unfolding index_inv_def by (metis option.distinct(1))
  show ?thesis
  proof (rule page_invI)
    show "index_inv ?q" using parts(1) new named by (auto simp: index_inv_def less_Suc_eq)
    show "timer_inv ?q" using parts(2) by (auto simp: timer_inv_def less_Suc_eq)
    show "armed_inv ?q" using parts(3) new ob by (auto simp: armed_inv_def)
    show "ref_inv ?q" using parts(4) by (auto simp: ref_inv_def less_Suc_eq)
    show "term_timer_inv ?q" using parts(5) ob by (simp add: term_timer_inv_def)
  qed
qed

lemma new_obj_fields [simp]:
  "in_name (new_obj i) = ii_name i" "in_terminalBufferInterval (new_obj i) = None"
  "in_term (new_obj i) = None" "in_terminalBuffer (new_obj i) = None" "in_buffer (new_obj i) = None"
  by (simp_all add: new_obj_def)

lemma page_inv_upsert:
  assumes inv: "page_inv p"
  shows "page_inv (fst (upsertInstance i p)) \<and>
    snd (upsertInstance i p) < pg_next (fst (upsertInstance i p))"
proof (cases "pg_idx p (ii_name i)")
  case None
  let ?ob = "(new_obj i)\<lparr>in_buffer := Some []\<rparr>"
  let ?q = "p\<lparr>pg_store := (pg_store p)(pg_next p := ?ob), pg_next := pg_next p + 1,
    pg_instances := pg_instances p @ [pg_next p], pg_idx := (pg_idx p)(ii_name i \<mapsto> pg_next p)\<rparr>"
  have "page_inv ?q" using None page_inv_alloc [OF inv, of ?ob] by simp
  then have "page_inv (?q\<lparr>pg_idxByHostname := (pg_idxByHostname p)(js_str (ii_hostname i) \<mapsto> pg_next p)\<rparr>)"
    by (simp only: page_inv_frame)
  then show ?thesis
    using None by (simp add: upsertInstance_def alloc_def)
next
  case (Some a)
  then have "a < pg_next p" and "in_name (pg_store p a) = ii_name i"
    using page_invD(1) [OF inv] by (auto simp: index_inv_def)
  then show ?thesis
    using Some inv by (simp add: upsertInstance_def page_inv_upd object_assign_def benign_at_def)
qed

lemma page_inv_load:
  assumes inv: "page_inv p" and "pg_idx p (ii_name i) = None"
  shows "page_inv (load_instance i p)"
proof -
  let ?q = "p\<lparr>pg_store := (pg_store p)(pg_next p := new_obj i), pg_next := pg_next p + 1,
    pg_instances := pg_instances p @ [pg_next p], pg_idx := (pg_idx p)(ii_name i \<mapsto> pg_next p)\<rparr>"
  have "page_inv ?q" using assms(2) page_inv_alloc [OF inv, of "new_obj i"] by simp
  then have "page_inv (?q\<lparr>pg_idxByHostname := (pg_idxByHostname p)(js_str (ii_hostname i) \<mapsto> pg_next p)\<rparr>)"
    by (simp only: page_inv_frame)
  then show ?thesis by (simp add: load_instance_def alloc_def)
qed

text \<open>The listing after a removal, before the first remaining instance is shown.\<close>

definition unlisted :: "string \<Rightarrow> addr \<Rightarrow> page \<Rightarrow> page" where
  "unlisted n a p =
     (let p1 = clearInterval (in_terminalBufferInterval (pg_store p a)) p
      in p1\<lparr>pg_idx := (pg_idx p1)(n := None),
            pg_instances := filter (\<lambda>b. in_name (pg_store p1 b) \<noteq> n) (pg_instances p1)\<rparr>)"

lemma removeInstance_unlisted:
  "removeInstance n p = (case pg_idx p n of None \<Rightarrow> p
     | Some a \<Rightarrow> (case pg_instances (unlisted n a p) of [] \<Rightarrow> unlisted n a p
        | b # _ \<Rightarrow> showInstance b (unlisted n a p)))"
  by (simp only: removeInstance_def unlisted_def Let_def)

lemma unlisted_fields [simp]:
  "pg_store (unlisted n a p) = pg_store p" "pg_next (unlisted n a p) = pg_next p"
  "pg_idx (unlisted n a p) = (pg_idx p)(n := None)" "pg_tasks (unlisted n a p) = pg_tasks p"
  "pg_selected (unlisted n a p) = pg_selected p" "pg_nextHandle (unlisted n a p) = pg_nextHandle p"
  "pg_emitted (unlisted n a p) = pg_emitted p"
  "pg_instances (unlisted n a p) = filter (\<lambda>b. in_name (pg_store p b) \<noteq> n) (pg_instances p)"
  "pg_intervals (unlisted n a p) = (case in_terminalBufferInterval (pg_store p a) of None \<Rightarrow> pg_intervals p
     | Some h \<Rightarrow> (pg_intervals p)(h := None))"
  by (simp_all add: unlisted_def clearInterval_def Let_def split: option.split)

lemma page_inv_unlisted:
  assumes inv: "page_inv p" and idx: "pg_idx p n = Some a"
  shows "page_inv (unlisted n a p)"
proof (rule page_invI)
  note parts = page_invD [OF inv]
  have a: "in_name (pg_store p a) = n" using parts(1) idx by (auto simp: index_inv_def)
  show "index_inv (unlisted n a p)" using parts(1) by (auto simp: index_inv_def)
  show "timer_inv (unlisted n a p)" using parts(2) by (auto simp: timer_inv_def split: option.split)
  have uniq: "h \<noteq> k" if "in_terminalBufferInterval (pg_store p a) = Some h" "b \<in> set (pg_instances p)"
    "in_terminalBufferInterval (pg_store p b) = Some k" "b \<noteq> a" for b h k
    using that idx parts(1,3) unfolding armed_inv_def index_inv_def by (metis option.inject)
  show "armed_inv (unlisted n a p)"
    using parts(3) a uniq by (fastforce simp: armed_inv_def split: option.split)
  show "ref_inv (unlisted n a p)" "term_timer_inv (unlisted n a p)"
    using parts(4,5) by (simp_all add: ref_inv_def term_timer_inv_def)
qed

lemma page_inv_listed: "page_inv p \<Longrightarrow> b \<in> set (pg_instances p) \<Longrightarrow> b < pg_next p"
  by (simp add: page_inv_def index_inv_def)

lemma page_inv_remove: "page_inv p \<Longrightarrow> page_inv (removeInstance n p)"
  using page_inv_listed [OF page_inv_unlisted]
  by (auto simp: removeInstance_unlisted page_inv_unlisted simp del: unlisted_fields
      intro!: page_inv_showInstance split: option.split list.split)

subsection \<open>Every event keeps the invariant\<close>

lemma benign_fields [simp]:
  "benign_at ob (ob\<lparr>in_status := v1\<rparr>)" "benign_at ob (ob\<lparr>in_mem := v1, in_cpu := v2\<rparr>)"
  "benign_at ob (ob\<lparr>in_isManager := v3\<rparr>)" "benign_at ob (ob\<lparr>in_isK8sManager := v3\<rparr>)"
  "benign_at ob (ob\<lparr>in_ports := v4\<rparr>)" "benign_at ob (ob\<lparr>in_swarmPorts := v4\<rparr>)"
  by (simp_all add: benign_at_def)

lemma page_inv_setFont:
  "page_inv p \<Longrightarrow> page_inv (outcome_state (map_outcome_state (sel_store p) (setFontSize v (sel_view p))))"
  unfolding setFontSize_def sel_store_def sel_view_def term_of_def
  by (auto intro!: page_inv_upd simp: benign_at_def split: option.splits)

lemma and_then_state:
  "P (outcome_state m) \<Longrightarrow> (\<And>s. P s \<Longrightarrow> P (outcome_state (f s))) \<Longrightarrow> P (outcome_state (and_then m f))"
  by (cases m) simp_all

lemma page_inv_socket_emit: "page_inv p \<Longrightarrow> page_inv (outcome_state (socket_emit e p))"
  by (simp add: socket_emit_def)

lemma page_inv_run_task:
  assumes "page_inv p" and "task_addr t < pg_next p"
  shows "page_inv (outcome_state (run_task g css t p))"
proof (cases t)
  case (TaskCreateTerminal a)
  have set: "page_inv (outcome_state (and_then (map_outcome_state (sel_store p1) (setFontSize sz (sel_view p1)))
      (\<lambda>p2. Done (call_term TFocus a p2))))" if "page_inv p1" for sz p1
    by (rule and_then_state) (simp_all add: page_inv_setFont that page_inv_call_term)
  have "page_inv (outcome_state (createTerminal a p))" using assms TaskCreateTerminal by (simp add: page_inv_createTerminal)
  then show ?thesis
    unfolding run_task_def TaskCreateTerminal page_task.case by (rule and_then_state) (simp add: set split: sum.split)
qed (simp add: run_task_def resize_def page_inv_socket_emit assms)

lemma page_inv_next_task: "page_inv p \<Longrightarrow> page_inv (outcome_state (run_next_task g css p))"
proof (cases "pg_tasks p")
  case (Cons t ts)
  assume inv: "page_inv p"
  then have "task_addr t < pg_next p" using Cons page_invD(4) [OF inv] by (simp add: ref_inv_def)
  then show ?thesis using Cons page_inv_untask [OF inv Cons] by (simp add: run_next_task_def page_inv_run_task)
qed (simp add: run_next_task_def)

lemma page_inv_typed: "page_inv p \<Longrightarrow> term_of p a \<noteq> None \<Longrightarrow> page_inv (term_data d a p)"
  unfolding term_data_def using page_invD(5) [of p]
  by (intro page_inv_upd) (simp_all add: benign_at_def term_timer_inv_def term_of_def)

lemma page_inv_tick: "page_inv p \<Longrightarrow> page_inv (outcome_state (interval_tick h p))"
  unfolding interval_tick_def socket_emit_def by (auto intro!: page_inv_upd simp: benign_at_def split: option.split)

lemma page_inv_viewport: "page_inv p \<Longrightarrow> page_inv (on_viewport_resize c r p)"
  unfolding on_viewport_resize_def flush_obj_def
  by (auto intro!: page_inv_fold page_inv_upd simp: benign_at_def Let_def split: option.split)

lemma page_inv_swarm_ports: "page_inv p \<Longrightarrow> page_inv (on_swarm_ports hs ps p)"
  unfolding on_swarm_ports_def by (auto intro!: page_inv_fold page_inv_upd split: option.split)

lemma page_inv_terminal_out: "page_inv p \<Longrightarrow> page_inv (on_terminal_out n d p)"
  unfolding on_terminal_out_def by (rule page_inv_on_idx) (simp_all add: benign_at_def split: option.split)

lemma page_inv_instance_new: "page_inv p \<Longrightarrow> page_inv (on_instance_new n ip h ph p)"
  by (simp add: on_instance_new_def split_beta page_inv_upsert page_inv_showInstance)

lemma page_inv_stdin: "page_inv p \<Longrightarrow> page_inv (set_stdin b p)"
  unfolding set_stdin_def by (rule page_inv_fold) (simp_all add: page_inv_call_term)

lemma page_inv_buttons [simp]:
  "page_inv (updateNewInstanceBtnState b p) = page_inv p" "page_inv (updateDeleteInstanceBtnState b p) = page_inv p"
  by (simp_all add: updateNewInstanceBtnState_def updateDeleteInstanceBtnState_def page_inv_def page_inv_parts)

lemma page_inv_answer: "page_inv p \<Longrightarrow> page_inv (newInstance_answer ans p)"
  by (simp add: newInstance_answer_def page_inv_upsert split: create_answer.split)

lemmas page_inv_ops = page_inv_on_idx page_inv_terminal_out page_inv_instance_new page_inv_remove
  page_inv_viewport page_inv_swarm_ports page_inv_stdin page_inv_next_task page_inv_typed page_inv_tick
  page_inv_answer page_inv_call_term page_inv_showInstance page_inv_listed

lemma page_inv_step: "page_inv p \<Longrightarrow> event_ok e p \<Longrightarrow> page_inv (page_step e p)"
  by (cases e) (simp_all add: page_inv_ops on_terminal_status_def setSessionState_def on_builder_out_def
      on_session_end_def on_instance_delete_def on_stats_def on_swarm_status_def on_k8s_status_def
      on_docker_ports_def on_socket_open_def on_socket_close_def newInstance_def deleteInstance_def
      deleteInstance_answer_def window_resize_def resize_timeout_def resize_def clearTerminal_def closeSession_def
      page_inv_socket_emit Let_def split: option.split)

subsection \<open>Reachable pages\<close>

definition blank_obj :: instance_obj where
  "blank_obj = new_obj \<lparr>ii_name = [], ii_hostname = None, ii_ip = None, ii_proxy_host = None, ii_session_id = None\<rparr>"

text \<open>The page before the session request is answered; \<open>hash\<close> is the fragment of the address.\<close>

definition fresh_page :: "string \<Rightarrow> string \<Rightarrow> page" where
  "fresh_page sid hash = \<lparr>pg_sessionId = sid, pg_store = (\<lambda>_. blank_obj), pg_next = 0, pg_instances = [],
     pg_idx = (\<lambda>_. None), pg_idxByHostname = (\<lambda>_. None), pg_selected = None, pg_hash = hash, pg_isAlive = True,
     pg_connected = False, pg_ready = False, pg_builder_shown = 0, pg_builderTerminal = None,
     pg_newInstanceBtnText = ''+ Add new instance'', pg_isInstanceBeingCreated = False,
     pg_deleteInstanceBtnText = ''Delete'', pg_isInstanceBeingDeleted = False, pg_intervals = (\<lambda>_. None),
     pg_nextHandle = 1, pg_tasks = [], pg_emitted = [], pg_requests = [], pg_alerts = [], pg_socket_open = False,
     pg_resizeHandler = False\<rparr>"

text \<open>
  A page is reachable when the session's answer, which names its instances by distinct names (the
  keys of a Go map), and then any allowed events lead to it.
\<close>

inductive page_reach :: "page \<Rightarrow> bool" where
  loaded: "distinct (map ii_name infos) \<Longrightarrow> page_reach (session_loaded ready infos (fresh_page sid hash))"
| event: "page_reach p \<Longrightarrow> event_ok e p \<Longrightarrow> page_reach (page_step e p)"

lemma page_inv_fresh: "page_inv (fresh_page sid hash)"
  by (simp add: page_inv_def page_inv_parts fresh_page_def blank_obj_def)

lemma load_instance_idx: "pg_idx (load_instance i p) = (pg_idx p)(ii_name i \<mapsto> pg_next p)"
  by (simp add: load_instance_def alloc_def)

lemma page_inv_loads:
  "page_inv p \<Longrightarrow> distinct (map ii_name is) \<Longrightarrow> (\<forall>i \<in> set is. pg_idx p (ii_name i) = None) \<Longrightarrow>
     page_inv (fold load_instance is p)"
proof (induction "is" arbitrary: p)
  case (Cons i "is")
  then have "page_inv (load_instance i p)" by (simp add: page_inv_load)
  moreover have "\<forall>j \<in> set is. pg_idx (load_instance i p) (ii_name j) = None"
    using Cons.prems by (auto simp: load_instance_idx rev_image_eqI)
  ultimately show ?case using Cons by simp
qed simp

lemma page_inv_session_loaded:
  assumes "page_inv p" and "distinct (map ii_name is)" and "\<forall>i \<in> set is. pg_idx p (ii_name i) = None"
  shows "page_inv (session_loaded r is p)"
proof -
  define q where "q = fold load_instance is (setSessionState r p)"
  have q: "page_inv q"
    unfolding q_def using assms by (intro page_inv_loads) (simp_all add: setSessionState_def Let_def)
  have "a < pg_next q" if "pg_idx q n = Some a" for a n
    using page_invD(1) [OF q] that by (simp add: index_inv_def)
  then show ?thesis
    using q page_inv_listed [OF q] unfolding session_loaded_def Let_def q_def [symmetric]
    by (auto intro!: page_inv_showInstance split: option.split list.split)
qed

lemma page_reach_inv: "page_reach p \<Longrightarrow> page_inv p"
  by (induction rule: page_reach.induct)
    (simp_all add: page_inv_step page_inv_session_loaded page_inv_fresh fresh_page_def [of _ _, THEN arg_cong [of _ _ pg_idx]])

lemma showInstance_fields [simp]:
  "pg_instances (showInstance a p) = pg_instances p" "pg_idx (showInstance a p) = pg_idx p"
  "pg_next (showInstance a p) = pg_next p" "pg_intervals (showInstance a p) = pg_intervals p"
  "pg_selected (showInstance a p) = Some a" "pg_idxByHostname (showInstance a p) = pg_idxByHostname p"
  "pg_hash (showInstance a p) = in_name (pg_store p a)" "pg_emitted (showInstance a p) = pg_emitted p"
  by (simp_all add: showInstance_def call_term_def Let_def)

lemma removeInstance_fields:
  assumes "pg_idx p n = Some a"
  shows "pg_instances (removeInstance n p) = filter (\<lambda>b. in_name (pg_store p b) \<noteq> n) (pg_instances p)"
    and "pg_idx (removeInstance n p) = (pg_idx p)(n := None)"
    and "pg_intervals (removeInstance n p) = (case in_terminalBufferInterval (pg_store p a) of
           None \<Rightarrow> pg_intervals p | Some h \<Rightarrow> (pg_intervals p)(h := None))"
    and "pg_selected (removeInstance n p) = (case pg_instances (removeInstance n p) of
           [] \<Rightarrow> pg_selected p | b # _ \<Rightarrow> Some b)"
  using assms by (simp_all add: removeInstance_unlisted split: list.split)

lemma removeInstance_idxByHostname: "pg_idxByHostname (removeInstance n p) = pg_idxByHostname p"
  by (simp add: removeInstance_unlisted unlisted_def clearInterval_def Let_def split: option.split list.split)

lemma index_invD: "index_inv p \<Longrightarrow> (pg_idx p n = Some a) = (a \<in> set (pg_instances p) \<and> in_name (pg_store p a) = n)"
  by (simp add: index_inv_def)

lemma index_inv_names: "index_inv p \<Longrightarrow> distinct (map (\<lambda>a. in_name (pg_store p a)) (pg_instances p))"
  by (auto simp: distinct_map index_inv_def inj_on_def) (metis option.inject)

lemma armed: "page_inv p \<Longrightarrow> a \<in> set (pg_instances p) \<Longrightarrow> in_term (pg_store p a) \<noteq> None \<Longrightarrow>
    \<exists>h. pg_intervals p h = Some a \<and> in_terminalBufferInterval (pg_store p a) = Some h"
  using page_invD(3,5) [of p] unfolding armed_inv_def term_timer_inv_def by (metis option.exhaust)

lemma timer_owner: "page_inv p \<Longrightarrow> pg_intervals p h = Some a \<Longrightarrow> in_terminalBufferInterval (pg_store p a) = Some h"
  using page_invD(2) [of p] by (simp add: timer_inv_def)

subsection \<open>Properties\<close>

text \<open>
  C4. Whatever messages, timeouts, answers and clicks the session page has handled, its references
  are consistent: no two listed instances share a name, \<open>idx\<close> maps a name to an instance exactly
  when that instance is listed under that name, every listed instance that has a terminal has
  one running input timer, every running timer belongs to an object that has a terminal and names the timer, so that
  \<open>clearInterval\<close> on removal stops the right one, and pending timeouts and the selection lead to instances that
  exist. A timer may outlive the listing of its instance: an instance removed before its terminal
  was created gets one when another instance of its name is listed by then.
\<close>

theorem page_consistent:
  assumes "page_reach p"
  shows "distinct (map (\<lambda>a. in_name (pg_store p a)) (pg_instances p)) \<and>
    (\<forall>n a. pg_idx p n = Some a \<longleftrightarrow> a \<in> set (pg_instances p) \<and> in_name (pg_store p a) = n) \<and>
    (\<forall>a \<in> set (pg_instances p). in_term (pg_store p a) \<noteq> None \<longrightarrow> (\<exists>!h. pg_intervals p h = Some a)) \<and>
    (\<forall>h a. pg_intervals p h = Some a \<longrightarrow> a < pg_next p \<and> in_terminalBufferInterval (pg_store p a) = Some h \<and>
      in_term (pg_store p a) \<noteq> None \<and> in_terminalBuffer (pg_store p a) \<noteq> None) \<and>
    (\<forall>t \<in> set (pg_tasks p). task_addr t < pg_next p) \<and> (\<forall>a. pg_selected p = Some a \<longrightarrow> a < pg_next p) \<and>
    (\<forall>a \<in> set (pg_instances p). a < pg_next p)"
proof (intro conjI allI ballI impI)
  note inv = page_reach_inv [OF assms]
  show "distinct (map (\<lambda>a. in_name (pg_store p a)) (pg_instances p))" by (rule index_inv_names [OF page_invD(1) [OF inv]])
  show "pg_idx p n = Some a \<longleftrightarrow> a \<in> set (pg_instances p) \<and> in_name (pg_store p a) = n" for n a
    by (rule index_invD [OF page_invD(1) [OF inv]])
  show "\<exists>!h. pg_intervals p h = Some a" if "a \<in> set (pg_instances p)" "in_term (pg_store p a) \<noteq> None" for a
    using armed [OF inv that] timer_owner [OF inv] by (metis option.inject)
  show own: "in_terminalBufferInterval (pg_store p a) = Some h" if "pg_intervals p h = Some a" for a h
    by (rule timer_owner [OF inv that])
  show "in_term (pg_store p a) \<noteq> None" "in_terminalBuffer (pg_store p a) \<noteq> None" if "pg_intervals p h = Some a" for a h
    using page_invD(5) [OF inv] own [OF that] unfolding term_timer_inv_def by (metis option.distinct(1))+
  show "a < pg_next p" if "pg_intervals p h = Some a" for a h
    using page_invD(2) [OF inv] that by (simp add: timer_inv_def)
  show "task_addr t < pg_next p" if "t \<in> set (pg_tasks p)" for t using page_invD(4) [OF inv] that by (simp add: ref_inv_def)
  show "a < pg_next p" if "pg_selected p = Some a" for a using page_invD(4) [OF inv] that by (simp add: ref_inv_def)
  show "a < pg_next p" if "a \<in> set (pg_instances p)" for a by (rule page_inv_listed [OF inv that])
qed

text \<open>A page with two instances whose first terminal has been created.\<close>

definition demo_infos :: "instance_info list" where
  "demo_infos = [\<lparr>ii_name = ''n1'', ii_hostname = Some ''h1'', ii_ip = None, ii_proxy_host = None, ii_session_id = None\<rparr>,
     \<lparr>ii_name = ''n2'', ii_hostname = Some ''h2'', ii_ip = None, ii_proxy_host = None, ii_session_id = None\<rparr>]"

definition demo_page :: page where
  "demo_page = page_step (EvTask (80, 24) (Some ''15px'')) (page_step EvSocketOpen (session_loaded True demo_infos (fresh_page ''s'' [])))"

lemma demo_page_reach: "page_reach demo_page"
  unfolding demo_page_def by (intro page_reach.intros) (simp_all add: demo_infos_def)

lemma demo_page_facts:
  "pg_instances demo_page = [0, 1]" "pg_idx demo_page ''n1'' = Some 0" "pg_intervals demo_page 1 = Some 0"
  "in_term (pg_store demo_page 0) \<noteq> None" "pg_idxByHostname demo_page ''h1'' = Some 0"
  "in_name (pg_store demo_page 0) = ''n1''" "in_name (pg_store demo_page 1) = ''n2''"
  "pg_idx demo_page ''n2'' = Some 1" "in_terminalBuffer (pg_store demo_page 0) = Some []" "pg_socket_open demo_page"
  "pg_tasks demo_page = [TaskResize 0]"
  by code_simp+

theorem page_consistent_witness:
  "page_reach demo_page \<and> in_term (pg_store demo_page 0) \<noteq> None \<and> (\<exists>!h. pg_intervals demo_page h = Some 0) \<and>
   in_terminalBufferInterval (pg_store demo_page 0) = Some 1 \<and> list_all (\<lambda>t. task_addr t < pg_next demo_page) (pg_tasks demo_page)"
  using page_consistent [OF demo_page_reach] demo_page_reach demo_page_facts by (simp add: list_all_iff)

text \<open>
  Removing an instance of a reachable page takes exactly that instance off the list and out of
  \<open>idx\<close>, stops its input timer and no other, keeps the order of the rest, and shows the first
  remaining one. The hostname index is not cleaned: every entry, also one that leads to the
  removed object, is still there.
\<close>

theorem remove_instance:
  assumes "page_reach p" and "pg_idx p n = Some a"
  shows "pg_instances (removeInstance n p) = filter (\<lambda>b. b \<noteq> a) (pg_instances p) \<and>
    pg_idx (removeInstance n p) = (pg_idx p)(n := None) \<and>
    (\<forall>h b. pg_intervals (removeInstance n p) h = Some b \<longleftrightarrow> pg_intervals p h = Some b \<and> b \<noteq> a) \<and>
    pg_selected (removeInstance n p) =
      (case filter (\<lambda>b. b \<noteq> a) (pg_instances p) of [] \<Rightarrow> pg_selected p | b # _ \<Rightarrow> Some b) \<and>
    pg_idxByHostname (removeInstance n p) = pg_idxByHostname p"
proof (intro conjI allI)
  note inv = page_reach_inv [OF assms(1)] and fields = removeInstance_fields [OF assms(2)]
  have idx: "pg_idx p (in_name (pg_store p b)) = Some b" if "b \<in> set (pg_instances p)" for b
    using index_invD [OF page_invD(1) [OF inv]] that by simp
  have name: "in_name (pg_store p a) = n" and listed: "a \<in> set (pg_instances p)"
    using index_invD [OF page_invD(1) [OF inv]] assms(2) by auto
  show inst: "pg_instances (removeInstance n p) = filter (\<lambda>b. b \<noteq> a) (pg_instances p)"
    unfolding fields(1) using idx name assms(2) by (intro filter_cong refl) (metis option.inject)
  show "pg_selected (removeInstance n p) =
      (case filter (\<lambda>b. b \<noteq> a) (pg_instances p) of [] \<Rightarrow> pg_selected p | b # _ \<Rightarrow> Some b)"
    using fields(4) unfolding inst .
  show "pg_intervals (removeInstance n p) h = Some b \<longleftrightarrow> pg_intervals p h = Some b \<and> b \<noteq> a" for h b
  proof (cases "in_terminalBufferInterval (pg_store p a)")
    case None
    then show ?thesis using timer_owner [OF inv, of h a] by (auto simp: fields(3))
  next
    case (Some k)
    then have k: "pg_intervals p k = Some a" using page_invD(3) [OF inv] listed by (simp add: armed_inv_def)
    have "h = k" if "pg_intervals p h = Some a" using timer_owner [OF inv that] Some by simp
    then show ?thesis using k by (cases "h = k") (auto simp: fields(3) Some)
  qed
qed (simp_all add: removeInstance_fields(2) [OF assms(2)] removeInstance_idxByHostname)

theorem remove_instance_witness:
  "page_reach demo_page \<and> pg_instances (removeInstance ''n1'' demo_page) = [1] \<and>
   pg_intervals demo_page 1 = Some 0 \<and> pg_intervals (removeInstance ''n1'' demo_page) 1 \<noteq> Some 0 \<and>
   pg_selected (removeInstance ''n1'' demo_page) = Some 1 \<and>
   pg_idxByHostname (removeInstance ''n1'' demo_page) ''h1'' = Some 0"
  using remove_instance [OF demo_page_reach demo_page_facts(2)] demo_page_reach by (simp add: demo_page_facts del: One_nat_def)

end
