(* ===== verification/Playground_Streams.thy ===== *)
theory Playground_Streams
  imports Playground_Safety "HOL-Library.Multiset"
begin

text \<open>
  The two byte streams of the session page. What is typed into a terminal collects in the
  \<open>terminalBuffer\<close> of its instance and leaves with the instance's timer; what the server sends
  goes to the terminal or, before there is one, waits in the \<open>buffer\<close> of the instance for the next
  viewport resize. The theorems follow both through arbitrary sequences of page events.
\<close>

subsection \<open>Views of the streams\<close>

fun sent_by :: "string \<Rightarrow> emitted list \<Rightarrow> string" where
  "sent_by n [] = []"
| "sent_by n (EmitTerminalIn m d # es) = (if m = n then d else []) @ sent_by n es"
| "sent_by n (_ # es) = sent_by n es"

fun written :: "term_call list \<Rightarrow> string" where
  "written [] = []"
| "written (TWrite d # cs) = d @ written cs"
| "written (_ # cs) = written cs"

definition in_stream :: "instance_obj \<Rightarrow> string" where
  "in_stream ob = (case in_terminalBuffer ob of None \<Rightarrow> [] | Some b \<Rightarrow> b)"

definition shown :: "instance_obj \<Rightarrow> string" where
  "shown ob = (case in_term ob of None \<Rightarrow> [] | Some t \<Rightarrow> written (tm_calls t))"

definition waiting :: "instance_obj \<Rightarrow> string" where
  "waiting ob = (case in_buffer ob of None \<Rightarrow> [] | Some b \<Rightarrow> b)"

lemmas stream_defs = in_stream_def shown_def waiting_def

lemma sent_by_append [simp]: "sent_by n (es @ fs) = sent_by n es @ sent_by n fs"
  by (induction n es rule: sent_by.induct) simp_all

lemma written_append [simp]: "written (cs @ ds) = written cs @ written ds"
  by (induction cs rule: written.induct) simp_all

text \<open>What a sequence of events types into the terminal of an object, and sends to a name.\<close>

fun typed_into :: "addr \<Rightarrow> page_event list \<Rightarrow> string" where
  "typed_into a [] = []"
| "typed_into a (EvTypedData b d # es) = (if b = a then d else []) @ typed_into a es"
| "typed_into a (_ # es) = typed_into a es"

fun output_for :: "string \<Rightarrow> page_event list \<Rightarrow> string" where
  "output_for n [] = []"
| "output_for n (EvTerminalOut m d # es) = (if m = n then d else []) @ output_for n es"
| "output_for n (_ # es) = output_for n es"

text \<open>Events that may happen in turn and do not remove the instance named \<open>n\<close>.\<close>

fun removes :: "string \<Rightarrow> page_event \<Rightarrow> page \<Rightarrow> bool" where
  "removes n (EvInstanceDelete m) p = (m = n)"
| "removes n (EvDeleteInstanceAnswer b ok) p = (ok \<and> in_name (pg_store p b) = n)"
| "removes n _ p = False"

fun keeps :: "string \<Rightarrow> page_event list \<Rightarrow> page \<Rightarrow> bool" where
  "keeps n [] p = True"
| "keeps n (e # es) p = (event_ok e p \<and> \<not> removes n e p \<and> keeps n es (page_step e p))"

definition run_events :: "page_event list \<Rightarrow> page \<Rightarrow> page" where
  "run_events es p = fold page_step es p"

text \<open>
  An object is the only one that ships input under its name: it is listed, and no other object
  of the name has a timer or is about to get one. (An instance deleted between the click that
  shows it and the timeout that creates its terminal leaves such an object behind.)
\<close>

definition sole :: "addr \<Rightarrow> page \<Rightarrow> bool" where
  "sole a p \<longleftrightarrow> pg_idx p (in_name (pg_store p a)) = Some a \<and>
     (\<forall>b. b \<noteq> a \<and> in_name (pg_store p b) = in_name (pg_store p a) \<longrightarrow>
        (\<forall>h. pg_intervals p h \<noteq> Some b) \<and> TaskCreateTerminal b \<notin> set (pg_tasks p))"

subsection \<open>Steps that leave the streams alone\<close>

definition same_text :: "instance_obj \<Rightarrow> instance_obj \<Rightarrow> bool" where
  "same_text ob ob' \<longleftrightarrow> in_name ob' = in_name ob \<and> in_stream ob' = in_stream ob \<and>
     shown ob' = shown ob \<and> in_buffer ob' = in_buffer ob \<and> (in_term ob \<noteq> None \<longrightarrow> in_term ob' \<noteq> None)"

text \<open>\<open>calm p p'\<close>: no allocated object changes its name or its streams, nothing is shipped.\<close>

definition calm :: "page \<Rightarrow> page \<Rightarrow> bool" where
  "calm p p' \<longleftrightarrow> (\<forall>a < pg_next p. same_text (pg_store p a) (pg_store p' a)) \<and> pg_next p \<le> pg_next p' \<and>
     (\<forall>n. sent_by n (pg_emitted p') = sent_by n (pg_emitted p))"

lemma same_text_refl [simp]: "same_text ob ob" by (simp add: same_text_def)

lemma calm_refl [simp]: "calm p p" by (simp add: calm_def)

lemma calm_trans: "calm p q \<Longrightarrow> calm q r \<Longrightarrow> calm p r"
  by (auto simp: calm_def same_text_def)

lemma calm_upd: "calm p (upd_obj a f p)" if "same_text (pg_store p a) (f (pg_store p a))"
  using that by (simp add: calm_def)

lemma calm_on_idx: "(\<And>ob. same_text ob (f ob)) \<Longrightarrow> calm p (on_idx n f p)"
  by (simp add: on_idx_def calm_upd split: option.split)

lemma calm_fold: "(\<And>a q. calm q (g a q)) \<Longrightarrow> calm p (fold g as p)"
  by (induction as arbitrary: p) (auto intro: calm_trans)

lemma tm_call_written [simp]: "tm_calls (tm_call c t) = tm_calls t @ [c]"
  by (simp add: tm_call_def)

lemma calm_call_term: "calm p (call_term c a p)" if "written [c] = []"
  unfolding call_term_def
  by (rule calm_upd) (use that in \<open>simp add: same_text_def stream_defs split: option.split\<close>)

lemma calm_fields:
  assumes "pg_store q = pg_store p" and "pg_next q = pg_next p" and "pg_emitted q = pg_emitted p"
  shows "calm p q"
  using assms by (simp add: calm_def)

lemma calm_showInstance: "calm p (showInstance a p)"
proof -
  let ?p = "p\<lparr>pg_selected := Some a, pg_hash := in_name (pg_store p a)\<rparr>"
  have "calm p ?p" and "calm p (?p\<lparr>pg_tasks := pg_tasks ?p @ [TaskCreateTerminal a]\<rparr>)"
    by (rule calm_fields; simp)+
  moreover have "calm p (call_term TFocus a ?p)"
    by (rule calm_trans [of _ ?p]) (simp_all add: \<open>calm p ?p\<close> calm_call_term)
  ultimately show ?thesis by (simp add: showInstance_def Let_def)
qed

lemma calm_createTerminal:
  assumes "page_inv p"
  shows "calm p (outcome_state (createTerminal a p))"
proof -
  have "in_terminalBuffer (pg_store p a) = None" if "in_term (pg_store p a) = None"
    using page_invD(5) [OF assms] that by (simp add: term_timer_inv_def)
  then show ?thesis
    by (simp add: calm_def createTerminal_def term_of_def same_text_def stream_defs Let_def)
qed

lemma calm_setFont: "calm p (outcome_state (map_outcome_state (sel_store p) (setFontSize v (sel_view p))))"
  unfolding setFontSize_def sel_store_def sel_view_def term_of_def set_term_font_def
  by (auto intro!: calm_upd simp: same_text_def stream_defs Let_def tm_call_def split: option.splits)

lemma calm_upsert: "page_inv p \<Longrightarrow> calm p (fst (upsertInstance i p))"
proof (cases "pg_idx p (ii_name i)")
  case (Some a)
  assume "page_inv p"
  then have "in_name (pg_store p a) = ii_name i"
    using Some page_invD(1) [of p] by (simp add: index_inv_def)
  then show ?thesis using Some
    by (simp add: upsertInstance_def calm_upd same_text_def object_assign_def stream_defs)
qed (simp add: upsertInstance_def alloc_def calm_def)

lemma calm_remove: "calm p (removeInstance n p)"
proof -
  have "calm p (unlisted n a p)" for a by (rule calm_fields) simp_all
  then show ?thesis
    by (auto simp: removeInstance_unlisted intro: calm_trans calm_showInstance simp del: unlisted_fields
        split: option.split list.split)
qed

lemma calm_then_call: "calm p q \<Longrightarrow> written [c] = [] \<Longrightarrow> calm p (call_term c a q)"
  by (rule calm_trans [OF _ calm_call_term])

lemma calm_emit:
  "calm p (outcome_state (socket_emit (EmitResize c r) p))" "calm p (outcome_state (socket_emit EmitSessionClose p))"
  by (simp_all add: calm_def socket_emit_def)

lemma calm_run_task:
  assumes "page_inv p"
  shows "calm p (outcome_state (run_task g css t p))"
proof (cases t)
  case (TaskCreateTerminal a)
  have set: "calm p (outcome_state (and_then (map_outcome_state (sel_store p1) (setFontSize sz (sel_view p1)))
      (\<lambda>p2. Done (call_term TFocus a p2))))" if "calm p p1" for sz p1
    by (rule and_then_state) (simp_all add: calm_then_call calm_trans [OF that calm_setFont])
  from calm_createTerminal [OF assms] show ?thesis
    unfolding run_task_def TaskCreateTerminal page_task.case by (rule and_then_state) (simp add: set split: sum.split)
qed (simp add: run_task_def resize_def calm_emit)

lemma calm_next_task: "page_inv p \<Longrightarrow> calm p (outcome_state (run_next_task g css p))"
proof (cases "pg_tasks p")
  case (Cons t ts)
  assume "page_inv p"
  note inv = page_inv_untask [OF this Cons]
  have "calm p (p\<lparr>pg_tasks := ts\<rparr>)" by (rule calm_fields) simp_all
  then show ?thesis using Cons calm_trans [OF _ calm_run_task [OF inv]] by (simp add: run_next_task_def)
qed (simp add: run_next_task_def)

lemma same_text_fields [simp]:
  "same_text ob (ob\<lparr>in_status := v1\<rparr>)" "same_text ob (ob\<lparr>in_mem := v1, in_cpu := v2\<rparr>)"
  "same_text ob (ob\<lparr>in_isManager := v3\<rparr>)" "same_text ob (ob\<lparr>in_isK8sManager := v3\<rparr>)"
  "same_text ob (ob\<lparr>in_ports := v4\<rparr>)" "same_text ob (ob\<lparr>in_swarmPorts := v4\<rparr>)"
  by (simp_all add: same_text_def stream_defs)

lemma calm_swarm_ports: "calm p (on_swarm_ports hs ps p)"
  unfolding on_swarm_ports_def by (rule calm_fold) (simp add: calm_upd split: option.split)

lemma calm_stdin: "calm p (set_stdin b p)"
  unfolding set_stdin_def by (rule calm_fold) (simp add: calm_call_term)

lemma calm_instance_new: "page_inv p \<Longrightarrow> calm p (on_instance_new n ip h ph p)"
  by (auto simp: on_instance_new_def split_beta intro: calm_trans [OF calm_upsert calm_showInstance])

lemma calm_iff_fields:
  "pg_store q = pg_store r \<Longrightarrow> pg_next q = pg_next r \<Longrightarrow> pg_emitted q = pg_emitted r \<Longrightarrow> calm p q = calm p r"
  by (simp add: calm_def)

lemma calm_frame [simp]:
  "calm p (q\<lparr>pg_isAlive := x2\<rparr>) = calm p q" "calm p (q\<lparr>pg_ready := x2\<rparr>) = calm p q"
  "calm p (q\<lparr>pg_builder_shown := x3\<rparr>) = calm p q" "calm p (q\<lparr>pg_builderTerminal := x4\<rparr>) = calm p q"
  "calm p (q\<lparr>pg_requests := x6\<rparr>) = calm p q" "calm p (q\<lparr>pg_alerts := x7\<rparr>) = calm p q"
  "calm p (q\<lparr>pg_resizeHandler := x2\<rparr>) = calm p q" "calm p (q\<lparr>pg_socket_open := x2\<rparr>) = calm p q"
  "calm p (updateNewInstanceBtnState x2 q) = calm p q" "calm p (updateDeleteInstanceBtnState x2 q) = calm p q"
  by (rule calm_iff_fields; simp add: updateNewInstanceBtnState_def updateDeleteInstanceBtnState_def)+

lemma calm_connected: "calm p (set_stdin b (p\<lparr>pg_connected := c, pg_socket_open := c'\<rparr>))"
  by (rule calm_trans [OF calm_fields calm_stdin]) simp_all

lemma calm_answer: "page_inv p \<Longrightarrow> calm p (newInstance_answer ans p)"
  by (simp add: newInstance_answer_def calm_upsert split: create_answer.split)

lemma calm_resize_timeout: "calm p (outcome_state (resize_timeout g p))"
proof -
  have "calm p (p\<lparr>pg_resizeHandler := False\<rparr>)" by simp
  from calm_trans [OF this calm_emit(1)] this show ?thesis
    by (auto simp: resize_timeout_def resize_def Let_def split: option.split)
qed

text \<open>The four events that move text.\<close>

fun moves_text :: "page_event \<Rightarrow> bool" where
  "moves_text (EvTypedData a d) = True"
| "moves_text (EvTick h) = True"
| "moves_text (EvTerminalOut n d) = True"
| "moves_text (EvViewportResize c r) = True"
| "moves_text _ = False"

lemma calm_step: "page_inv p \<Longrightarrow> \<not> moves_text e \<Longrightarrow> calm p (page_step e p)"
  by (cases e) (simp_all add: calm_on_idx calm_instance_new calm_remove calm_swarm_ports calm_connected
      calm_next_task calm_answer calm_call_term calm_showInstance calm_emit calm_resize_timeout
      on_terminal_status_def setSessionState_def on_builder_out_def
      on_session_end_def on_instance_delete_def on_stats_def on_swarm_status_def on_k8s_status_def
      on_docker_ports_def on_socket_open_def on_socket_close_def newInstance_def deleteInstance_def
      deleteInstance_answer_def window_resize_def clearTerminal_def closeSession_def
      Let_def split: option.split)

subsection \<open>Steps that leave the ownership of a name alone\<close>

definition same_refs :: "page \<Rightarrow> page \<Rightarrow> bool" where
  "same_refs p q \<longleftrightarrow> pg_idx q = pg_idx p \<and> pg_intervals q = pg_intervals p \<and> pg_tasks q = pg_tasks p \<and>
     pg_instances q = pg_instances p \<and> (\<forall>b. in_name (pg_store q b) = in_name (pg_store p b))"

definition steady :: "string \<Rightarrow> page \<Rightarrow> page \<Rightarrow> bool" where
  "steady n p q \<longleftrightarrow> pg_idx q n = pg_idx p n \<and>
     (\<forall>b. in_name (pg_store q b) = n \<longrightarrow> in_name (pg_store p b) = n) \<and>
     (\<forall>b < pg_next p. in_name (pg_store p b) = n \<longrightarrow> in_name (pg_store q b) = n) \<and>
     (\<forall>h b. pg_intervals q h = Some b \<longrightarrow> pg_intervals p h = Some b \<or> TaskCreateTerminal b \<in> set (pg_tasks p)) \<and>
     (\<forall>b. TaskCreateTerminal b \<in> set (pg_tasks q) \<longrightarrow>
        TaskCreateTerminal b \<in> set (pg_tasks p) \<or> b \<in> set (pg_instances q))"

lemma same_refs_refl [simp]: "same_refs p p" by (simp add: same_refs_def)

lemma same_refs_trans: "same_refs p q \<Longrightarrow> same_refs q r \<Longrightarrow> same_refs p r"
  by (simp add: same_refs_def)

lemma steady_refl [simp]: "steady n p p" by (simp add: steady_def)

lemma steady_then: "steady n p q \<Longrightarrow> same_refs q r \<Longrightarrow> steady n p r"
  by (simp add: steady_def same_refs_def)

lemma steady_of_refs: "same_refs p q \<Longrightarrow> steady n p q"
  by (rule steady_then [OF steady_refl])

lemma steadyD:
  assumes "steady n p q"
  shows "pg_idx q n = pg_idx p n"
    and "in_name (pg_store q b) = n \<Longrightarrow> in_name (pg_store p b) = n"
    and "b < pg_next p \<Longrightarrow> in_name (pg_store p b) = n \<Longrightarrow> in_name (pg_store q b) = n"
    and "pg_intervals q h = Some b \<Longrightarrow> pg_intervals p h = Some b \<or> TaskCreateTerminal b \<in> set (pg_tasks p)"
    and "TaskCreateTerminal b \<in> set (pg_tasks q) \<Longrightarrow>
      TaskCreateTerminal b \<in> set (pg_tasks p) \<or> b \<in> set (pg_instances q)"
  using assms unfolding steady_def by blast+

lemma steady_sole:
  assumes sole: "sole a p" and a: "a < pg_next p" and st: "steady (in_name (pg_store p a)) p q" and inv: "page_inv q"
  shows "sole a q"
proof -
  let ?n = "in_name (pg_store p a)"
  have n: "in_name (pg_store q a) = ?n" by (rule steadyD(3) [OF st a refl])
  have idx: "pg_idx q ?n = Some a" unfolding steadyD(1) [OF st] using sole by (simp add: sole_def)
  have owner: "b = a" if "b \<in> set (pg_instances q)" "in_name (pg_store q b) = ?n" for b
    using index_invD [OF page_invD(1) [OF inv], of ?n b] that idx by simp
  show ?thesis
    unfolding sole_def n
  proof (intro conjI allI impI idx)
    fix b assume b: "b \<noteq> a \<and> in_name (pg_store q b) = ?n"
    then have "in_name (pg_store p b) = ?n" by (intro steadyD(2) [OF st]) simp
    then have old: "pg_intervals p h \<noteq> Some b" "TaskCreateTerminal b \<notin> set (pg_tasks p)" for h
      using b sole unfolding sole_def by blast+
    show "pg_intervals q h \<noteq> Some b" for h using steadyD(4) [OF st, of h b] old by blast
    show "TaskCreateTerminal b \<notin> set (pg_tasks q)" using steadyD(5) [OF st, of b] old(2) owner b by blast
  qed
qed

lemma refs_upd: "in_name (f (pg_store p a)) = in_name (pg_store p a) \<Longrightarrow> same_refs p (upd_obj a f p)"
  by (simp add: same_refs_def)

lemma refs_on_idx: "(\<And>ob. in_name (f ob) = in_name ob) \<Longrightarrow> same_refs p (on_idx n f p)"
  by (simp add: on_idx_def refs_upd split: option.split)

lemma refs_fold: "(\<And>a q. same_refs q (g a q)) \<Longrightarrow> same_refs p (fold g as p)"
  by (induction as arbitrary: p) (auto intro: same_refs_trans)

lemma refs_call_term [simp]: "same_refs p (call_term c a p)"
  unfolding call_term_def by (rule refs_upd) simp

lemma refs_setFont: "same_refs p (outcome_state (map_outcome_state (sel_store p) (setFontSize v (sel_view p))))"
  unfolding setFontSize_def sel_store_def sel_view_def term_of_def
  by (auto intro!: refs_upd split: option.splits)

lemma steady_show: "steady n p q \<Longrightarrow> a \<in> set (pg_instances q) \<Longrightarrow> steady n p (showInstance a q)"
  by (simp add: showInstance_def call_term_def Let_def steady_def)

lemma steady_then_call: "steady n p q \<Longrightarrow> steady n p (call_term c a q)"
  by (rule steady_then [OF _ refs_call_term])

lemma steady_create:
  assumes "pg_tasks p = TaskCreateTerminal a # ts"
  shows "steady n p (outcome_state (createTerminal a (p\<lparr>pg_tasks := ts\<rparr>)))"
  using assms by (simp add: createTerminal_def Let_def steady_def)

lemma steady_run_task:
  assumes p: "pg_tasks p = t # ts"
  shows "steady n p (outcome_state (run_task g css t (p\<lparr>pg_tasks := ts\<rparr>)))"
proof (cases t)
  case (TaskCreateTerminal a)
  have set: "steady n p (outcome_state (and_then (map_outcome_state (sel_store p1) (setFontSize sz (sel_view p1)))
      (\<lambda>p2. Done (call_term TFocus a p2))))" if "steady n p p1" for sz p1
    by (rule and_then_state) (simp_all add: steady_then [OF that refs_setFont] steady_then_call)
  from steady_create [OF p [unfolded TaskCreateTerminal]] show ?thesis
    unfolding run_task_def TaskCreateTerminal page_task.case by (rule and_then_state) (simp add: set split: sum.split)
qed (use p in \<open>simp add: run_task_def resize_def socket_emit_def steady_def\<close>)

lemma steady_next_task: "steady n p (outcome_state (run_next_task g css p))"
  by (cases "pg_tasks p") (simp_all add: run_next_task_def steady_run_task)

lemma steady_upsert:
  assumes inv: "page_inv p" and idx: "pg_idx p n = Some a"
  shows "steady n p (fst (upsertInstance i p)) \<and> snd (upsertInstance i p) \<in> set (pg_instances (fst (upsertInstance i p)))"
proof (cases "pg_idx p (ii_name i)")
  case None
  with idx have "ii_name i \<noteq> n" by auto
  then show ?thesis using None by (simp add: upsertInstance_def alloc_def steady_def)
next
  case (Some b)
  then have "in_name (pg_store p b) = ii_name i" and "b \<in> set (pg_instances p)"
    using page_invD(1) [OF inv] by (simp_all add: index_inv_def)
  then show ?thesis
    using Some by (simp add: upsertInstance_def object_assign_def steady_of_refs refs_upd)
qed

lemma steady_remove: "m \<noteq> n \<Longrightarrow> steady n p (removeInstance m p)"
proof -
  assume "m \<noteq> n"
  then have u: "steady n p (unlisted m a p)" for a by (simp add: steady_def split: option.split)
  then have "steady n p (showInstance b (unlisted m a p))" if "pg_instances (unlisted m a p) = b # bs" for a b bs
    using that by (simp add: steady_show del: unlisted_fields)
  with u show ?thesis
    by (simp add: removeInstance_unlisted del: unlisted_fields split: option.split list.split)
qed

lemma imp_steady_remove: "(b \<longrightarrow> m \<noteq> n) \<Longrightarrow> b \<longrightarrow> steady n p (removeInstance m p)"
  using steady_remove by blast

lemma refs_fields:
  "pg_idx q = pg_idx p \<Longrightarrow> pg_intervals q = pg_intervals p \<Longrightarrow> pg_tasks q = pg_tasks p \<Longrightarrow>
   pg_instances q = pg_instances p \<Longrightarrow> pg_store q = pg_store p \<Longrightarrow> same_refs p q"
  by (simp add: same_refs_def)

lemma steady_iff_fields:
  "pg_idx q = pg_idx p \<Longrightarrow> pg_intervals q = pg_intervals p \<Longrightarrow> pg_tasks q = pg_tasks p \<Longrightarrow>
   pg_instances q = pg_instances p \<Longrightarrow> pg_store q = pg_store p \<Longrightarrow> steady n r q = steady n r p"
  by (simp add: steady_def)

lemma steady_frame [simp]:
  "steady n r (p\<lparr>pg_isAlive := x2\<rparr>) = steady n r p" "steady n r (p\<lparr>pg_ready := x2\<rparr>) = steady n r p"
  "steady n r (p\<lparr>pg_builder_shown := x3\<rparr>) = steady n r p" "steady n r (p\<lparr>pg_builderTerminal := x4\<rparr>) = steady n r p"
  "steady n r (p\<lparr>pg_requests := x6\<rparr>) = steady n r p" "steady n r (p\<lparr>pg_alerts := x7\<rparr>) = steady n r p"
  "steady n r (p\<lparr>pg_resizeHandler := x2\<rparr>) = steady n r p" "steady n r (p\<lparr>pg_socket_open := x2\<rparr>) = steady n r p"
  "steady n r (p\<lparr>pg_emitted := x5\<rparr>) = steady n r p"
  "steady n r (updateNewInstanceBtnState x2 p) = steady n r p"
  "steady n r (updateDeleteInstanceBtnState x2 p) = steady n r p"
  by (rule steady_iff_fields; simp add: updateNewInstanceBtnState_def updateDeleteInstanceBtnState_def)+

lemma steady_stdin: "steady n p (set_stdin b (p\<lparr>pg_connected := c, pg_socket_open := c'\<rparr>))"
  unfolding set_stdin_def
  by (rule steady_of_refs, rule same_refs_trans [OF refs_fields refs_fold]) simp_all

lemma steady_viewport: "steady n p (on_viewport_resize c r p)"
  unfolding on_viewport_resize_def
  by (auto intro!: steady_of_refs refs_fold refs_upd simp: flush_obj_def Let_def split: option.split)

lemma steady_swarm_ports: "steady n p (on_swarm_ports hs ps p)"
  unfolding on_swarm_ports_def
  by (auto intro!: steady_of_refs refs_fold refs_upd split: option.split)

lemma steady_answer: "page_inv p \<Longrightarrow> pg_idx p n = Some a \<Longrightarrow> steady n p (newInstance_answer ans p)"
  using steady_upsert [of p n a] by (simp add: newInstance_answer_def split: create_answer.split)

lemma steady_tick: "steady n p (outcome_state (interval_tick h p))"
  unfolding interval_tick_def socket_emit_def
  by (auto intro!: steady_of_refs simp: same_refs_def split: option.split)

lemma steady_out: "steady n p (on_terminal_out m d p)"
  unfolding on_terminal_out_def by (rule steady_of_refs, rule refs_on_idx) (simp split: option.split)

lemma steady_new: "page_inv p \<Longrightarrow> pg_idx p n = Some a \<Longrightarrow> steady n p (on_instance_new m ip h ph p)"
  using steady_upsert [of p n a] by (simp add: on_instance_new_def split_beta steady_show)

lemma steady_step:
  assumes "page_inv p" and "pg_idx p n = Some a" and "event_ok e p" and "\<not> removes n e p"
  shows "steady n p (page_step e p)"
proof -
  have idx: "steady n p (on_idx m f p)" if "\<And>ob. in_name (f ob) = in_name ob" for m f
    using that by (intro steady_of_refs refs_on_idx)
  have typed: "steady n p (term_data d b p)" for d b
    unfolding term_data_def by (intro steady_of_refs refs_upd) simp
  show ?thesis
    using assms
    by (cases e) (simp_all add: steady_new steady_remove imp_steady_remove steady_swarm_ports steady_stdin steady_viewport steady_tick
      steady_next_task steady_answer steady_show steady_out idx typed steady_of_refs [OF refs_call_term]
      on_terminal_status_def setSessionState_def on_builder_out_def
      on_session_end_def on_instance_delete_def on_stats_def on_swarm_status_def on_k8s_status_def
      on_docker_ports_def on_socket_open_def on_socket_close_def newInstance_def deleteInstance_def
      deleteInstance_answer_def window_resize_def resize_timeout_def resize_def clearTerminal_def closeSession_def
      socket_emit_def Let_def split: option.split)
qed

subsection \<open>The events that move text\<close>

text \<open>A viewport resize moves the waiting output to the terminal, and touches nothing else of the streams.\<close>

definition flushed :: "instance_obj \<Rightarrow> instance_obj \<Rightarrow> bool" where
  "flushed ob ob' \<longleftrightarrow> in_name ob' = in_name ob \<and> in_stream ob' = in_stream ob \<and>
     shown ob' @ waiting ob' = shown ob @ waiting ob \<and>
     (in_buffer ob' = None \<longleftrightarrow> in_buffer ob = None) \<and> (in_term ob' = None \<longleftrightarrow> in_term ob = None)"

lemma flushed_flush: "flushed ob (flush_obj c r ob)"
  by (simp add: flushed_def flush_obj_def stream_defs Let_def split: option.split)

lemma flushed_fold: "flushed (pg_store p a) (pg_store (fold (\<lambda>b p. upd_obj b (flush_obj c r) p) bs p) a)"
proof (induction bs arbitrary: p)
  case (Cons b bs)
  have "flushed (pg_store p a) (pg_store (upd_obj b (flush_obj c r) p) a)"
    by (simp add: flushed_flush) (simp add: flushed_def)
  with Cons [of "upd_obj b (flush_obj c r) p"] show ?case by (simp add: flushed_def)
qed (simp add: flushed_def)

lemma flushed_viewport: "flushed (pg_store p a) (pg_store (on_viewport_resize c r p) a)"
  by (simp add: on_viewport_resize_def flushed_fold) (simp add: flushed_def)

lemma emitted_fold: "(\<And>a p. pg_emitted (g a p) = pg_emitted p) \<Longrightarrow> pg_emitted (fold g as p) = pg_emitted p"
  by (induction as arbitrary: p) simp_all

lemma emitted_viewport [simp]: "pg_emitted (on_viewport_resize c r p) = pg_emitted p"
  by (simp add: on_viewport_resize_def emitted_fold)

lemma emitted_out [simp]: "pg_emitted (on_terminal_out n d p) = pg_emitted p"
  by (simp add: on_terminal_out_def on_idx_def split: option.split)

lemma instances_out [simp]: "pg_instances (on_terminal_out n d p) = pg_instances p"
  by (simp add: on_terminal_out_def on_idx_def split: option.split)

lemma in_stream_out [simp]: "in_stream (pg_store (on_terminal_out n d p) a) = in_stream (pg_store p a)"
  by (simp add: on_terminal_out_def on_idx_def in_stream_def split: option.split)

text \<open>One step of the input stream.\<close>

definition input_total :: "addr \<Rightarrow> page \<Rightarrow> string" where
  "input_total a p = sent_by (in_name (pg_store p a)) (pg_emitted p) @ in_stream (pg_store p a)"

lemma input_typed:
  assumes "page_inv p" and "term_of p b \<noteq> None"
  shows "input_total a (term_data d b p) = input_total a p @ (if b = a then d else [])"
proof -
  have "in_terminalBuffer (pg_store p b) \<noteq> None"
    using page_invD(5) [OF assms(1)] assms(2) by (simp add: term_timer_inv_def term_of_def)
  then show ?thesis by (auto simp: input_total_def term_data_def in_stream_def js_str_def)
qed

lemma input_tick: "sole a p \<Longrightarrow> input_total a (outcome_state (interval_tick h p)) = input_total a p"
  by (auto simp: input_total_def interval_tick_def socket_emit_def in_stream_def sole_def split: option.split)

lemma input_step:
  assumes inv: "page_inv p" and sole: "sole a p" and ok: "event_ok e p"
  shows "input_total a (page_step e p) = input_total a p @ typed_into a [e]"
proof (cases "moves_text e")
  case False
  have "a < pg_next p" using sole page_invD(1) [OF inv] by (auto simp: sole_def index_inv_def)
  then have "input_total a (page_step e p) = input_total a p"
    using calm_step [OF inv False] by (simp add: input_total_def calm_def same_text_def)
  moreover have "typed_into a [e] = []" using False by (cases e) simp_all
  ultimately show ?thesis by simp
next
  case True
  have name: "in_name (pg_store (on_terminal_out n d p) a) = in_name (pg_store p a)" for n d
    by (simp add: on_terminal_out_def on_idx_def split: option.split)
  from True show ?thesis
    using ok flushed_viewport [of p a]
    by (cases e) (simp_all add: input_typed [OF inv] input_tick [OF sole], simp_all add: input_total_def name flushed_def)
qed

lemma sole_step:
  assumes "page_inv p" and "sole a p" and "event_ok e p" and "\<not> removes (in_name (pg_store p a)) e p"
  shows "sole a (page_step e p) \<and> in_name (pg_store (page_step e p) a) = in_name (pg_store p a)"
proof -
  have a: "a < pg_next p" using assms(2) page_invD(1) [OF assms(1)] by (auto simp: sole_def index_inv_def)
  have idx: "pg_idx p (in_name (pg_store p a)) = Some a" using assms(2) by (simp add: sole_def)
  note st = steady_step [OF assms(1) idx assms(3,4)]
  show ?thesis
    using steady_sole [OF assms(2) a st page_inv_step [OF assms(1,3)]] steadyD(3) [OF st a refl] by simp
qed

lemma typed_into_Cons: "typed_into a (e # es) = typed_into a [e] @ typed_into a es"
  by (cases e) simp_all

lemma input_run:
  "page_inv p \<Longrightarrow> sole a p \<Longrightarrow> keeps (in_name (pg_store p a)) es p \<Longrightarrow>
   input_total a (run_events es p) = input_total a p @ typed_into a es \<and>
   in_name (pg_store (run_events es p) a) = in_name (pg_store p a)"
proof (induction es arbitrary: p)
  case (Cons e es)
  let ?q = "page_step e p"
  have "page_inv ?q" "sole a ?q" "in_name (pg_store ?q a) = in_name (pg_store p a)"
    using Cons.prems sole_step [of p a e] page_inv_step by auto
  with Cons.IH [of ?q] Cons.prems input_step [of p a e] typed_into_Cons [of a e es] show ?case
    by (simp add: run_events_def)
qed (simp add: run_events_def)

text \<open>One step of the output stream.\<close>

lemma out_store:
  "pg_idx p n = Some a \<Longrightarrow> pg_store (on_terminal_out n d p) a =
     (case in_term (pg_store p a) of
        None \<Rightarrow> (pg_store p a)\<lparr>in_buffer := Some (js_str (in_buffer (pg_store p a)) @ d)\<rparr>
      | Some t \<Rightarrow> (pg_store p a)\<lparr>in_term := Some (tm_call (TWrite d) t)\<rparr>)"
  by (simp add: on_terminal_out_def on_idx_def)

lemma out_store_other: "pg_idx p n \<noteq> Some a \<Longrightarrow> pg_store (on_terminal_out n d p) a = pg_store p a"
  by (auto simp: on_terminal_out_def on_idx_def split: option.split)

lemma idx_unique: "page_inv p \<Longrightarrow> pg_idx p n = Some a \<Longrightarrow> (pg_idx p m = Some a) = (m = n)"
  using page_invD(1) [of p] by (auto simp: index_inv_def)

text \<open>Steps that at most move waiting output to the terminal.\<close>

definition settled :: "instance_obj \<Rightarrow> instance_obj \<Rightarrow> bool" where
  "settled ob ob' \<longleftrightarrow> shown ob' @ waiting ob' = shown ob @ waiting ob \<and>
     (waiting ob = [] \<longrightarrow> waiting ob' = []) \<and> (in_buffer ob' = None \<longleftrightarrow> in_buffer ob = None) \<and>
     (in_term ob \<noteq> None \<longrightarrow> in_term ob' \<noteq> None)"

lemma same_text_settled: "same_text ob ob' \<Longrightarrow> settled ob ob'"
  by (simp add: same_text_def settled_def waiting_def)

lemma flush_obj_settled: "settled ob (flush_obj c r ob)"
  by (simp add: settled_def flush_obj_def stream_defs Let_def split: option.split)

lemma settled_trans: "settled x y \<Longrightarrow> settled y z \<Longrightarrow> settled x z"
  by (auto simp: settled_def)

lemma settled_refl [simp]: "settled x x" by (simp add: settled_def)

lemma settled_viewport: "settled (pg_store p a) (pg_store (on_viewport_resize c r p) a)"
proof -
  have "settled (pg_store p a) (pg_store (fold (\<lambda>b p. upd_obj b (flush_obj c r) p) bs p) a)" for bs
  proof (induction bs arbitrary: p)
    case (Cons b bs)
    have "settled (pg_store p a) (pg_store (upd_obj b (flush_obj c r) p) a)" by (simp add: flush_obj_settled)
    from settled_trans [OF this Cons [of "upd_obj b (flush_obj c r) p"]] show ?case by simp
  qed simp
  then show ?thesis by (simp add: on_viewport_resize_def)
qed

lemma settled_typed: "settled (pg_store p a) (pg_store (term_data d b p) a)"
  by (simp add: term_data_def settled_def stream_defs)

lemma settled_tick: "settled (pg_store p a) (pg_store (outcome_state (interval_tick h p)) a)"
  by (simp add: interval_tick_def socket_emit_def settled_def stream_defs split: option.split)

text \<open>A step either delivers output to the object, or at most settles it.\<close>

lemma output_step:
  assumes inv: "page_inv p" and idx: "pg_idx p n = Some a"
  shows "(\<exists>d. e = EvTerminalOut n d) \<or>
    output_for n [e] = [] \<and> settled (pg_store p a) (pg_store (page_step e p) a)"
proof (cases "moves_text e")
  case False
  have "a < pg_next p" using idx page_invD(1) [OF inv] by (auto simp: index_inv_def)
  then have "settled (pg_store p a) (pg_store (page_step e p) a)"
    using calm_step [OF inv False] by (simp add: calm_def same_text_settled)
  moreover have "output_for n [e] = []" using False by (cases e) simp_all
  ultimately show ?thesis by simp
next
  case True
  have "pg_store (on_terminal_out m d p) a = pg_store p a" if "m \<noteq> n" for m d
    using that idx_unique [OF inv idx, of m] by (intro out_store_other) simp
  with True show ?thesis by (cases e) (simp_all add: settled_viewport settled_typed settled_tick)
qed

lemma output_for_Cons: "output_for n (e # es) = output_for n [e] @ output_for n es"
  by (cases e) simp_all

lemma idx_kept:
  assumes "page_inv p" "pg_idx p n = Some a" "event_ok e p" "\<not> removes n e p"
  shows "pg_idx (page_step e p) n = Some a"
  using steadyD(1) [OF steady_step [OF assms]] assms(2) by simp

lemma output_run:
  "page_inv p \<Longrightarrow> pg_idx p n = Some a \<Longrightarrow> keeps n es p \<Longrightarrow>
   in_buffer (pg_store p a) \<noteq> None \<or> in_term (pg_store p a) \<noteq> None \<Longrightarrow>
   mset (shown (pg_store (run_events es p) a) @ waiting (pg_store (run_events es p) a)) =
   mset (shown (pg_store p a) @ waiting (pg_store p a) @ output_for n es)"
proof (induction es arbitrary: p)
  case (Cons e es)
  let ?q = "page_step e p"
  have "(in_buffer (pg_store ?q a) \<noteq> None \<or> in_term (pg_store ?q a) \<noteq> None) \<and> mset (shown (pg_store ?q a) @ waiting (pg_store ?q a)) =
    mset (shown (pg_store p a) @ waiting (pg_store p a) @ output_for n [e])"
    using output_step [OF Cons.prems(1,2), of e]
  proof
    assume "\<exists>d. e = EvTerminalOut n d"
    then show ?thesis
      using Cons.prems by (cases "in_term (pg_store p a)") (auto simp: out_store stream_defs js_str_def)
  next
    assume "output_for n [e] = [] \<and> settled (pg_store p a) (pg_store ?q a)"
    then show ?thesis using Cons.prems(4) by (auto simp: settled_def simp flip: mset_append)
  qed
  moreover have "page_inv ?q" and "pg_idx ?q n = Some a"
    using Cons.prems page_inv_step idx_kept by auto
  ultimately show ?case
    using Cons.IH [of ?q] Cons.prems(3) output_for_Cons [of n e es] by (simp add: run_events_def)
qed (simp add: run_events_def)

lemma output_run_ordered:
  "page_inv p \<Longrightarrow> pg_idx p n = Some a \<Longrightarrow> keeps n es p \<Longrightarrow> in_term (pg_store p a) \<noteq> None \<Longrightarrow>
   waiting (pg_store p a) = [] \<Longrightarrow>
   shown (pg_store (run_events es p) a) = shown (pg_store p a) @ output_for n es"
proof (induction es arbitrary: p)
  case (Cons e es)
  let ?q = "page_step e p"
  have "in_term (pg_store ?q a) \<noteq> None \<and> waiting (pg_store ?q a) = [] \<and>
    shown (pg_store ?q a) = shown (pg_store p a) @ output_for n [e]"
    using output_step [OF Cons.prems(1,2), of e]
  proof
    assume "\<exists>d. e = EvTerminalOut n d"
    then show ?thesis using Cons.prems by (auto simp: out_store stream_defs)
  next
    assume "output_for n [e] = [] \<and> settled (pg_store p a) (pg_store ?q a)"
    then show ?thesis using Cons.prems(4,5) by (auto simp: settled_def)
  qed
  moreover have "page_inv ?q" and "pg_idx ?q n = Some a"
    using Cons.prems page_inv_step idx_kept by auto
  ultimately show ?case
    using Cons.IH [of ?q] Cons.prems(3) output_for_Cons [of n e es] by (simp add: run_events_def)
qed (simp add: run_events_def)

subsection \<open>Properties\<close>

lemma setFont_intervals [simp]:
  "pg_intervals (outcome_state (map_outcome_state (sel_store p) (setFontSize v (sel_view p)))) = pg_intervals p"
  "pg_tasks (outcome_state (map_outcome_state (sel_store p) (setFontSize v (sel_view p)))) = pg_tasks p"
  using refs_setFont [of p v] by (simp_all add: same_refs_def)

lemma demo_timers: "pg_intervals demo_page = (\<lambda>_. None)(1 \<mapsto> 0)" "pg_tasks demo_page = [TaskResize 0]"
  unfolding demo_page_def
  by (simp_all add: run_next_task_def run_task_def demo_infos_def session_loaded_def load_instance_def alloc_def
   on_socket_open_def set_stdin_def has_container_def
   fresh_page_def setSessionState_def createTerminal_def showInstance_def term_of_def sel_view_def getFontSize_def
   setFontSize_def sel_store_def call_term_def Let_def upd_obj_def blank_obj_def)

lemma tick_ships:
  assumes "pg_intervals q h = Some a" and "pg_socket_open q"
  shows "sent_by (in_name (pg_store q a)) (pg_emitted (outcome_state (interval_tick h q))) =
    sent_by (in_name (pg_store q a)) (pg_emitted q) @ in_stream (pg_store q a)"
  using assms by (simp add: interval_tick_def socket_emit_def in_stream_def split: option.split)

text \<open>
  C5. Typed input is shipped exactly once and in order. Through any sequence of page events that
  does not remove the instance, what has been emitted under its name followed by what its
  \<open>terminalBuffer\<close> still holds grows by exactly the characters typed into its terminal, also while the connection is
  broken and sending throws; and a tick of its timer on an open connection then ships all of it.
\<close>

theorem typed_input_shipped:
  assumes "page_reach p" and "sole a p" and "in_name (pg_store p a) = n" and "keeps n es p"
  shows "sent_by n (pg_emitted (run_events es p)) @ in_stream (pg_store (run_events es p) a) =
      sent_by n (pg_emitted p) @ in_stream (pg_store p a) @ typed_into a es \<and>
    (\<forall>h. pg_intervals (run_events es p) h = Some a \<and> pg_socket_open (run_events es p) \<longrightarrow>
      sent_by n (pg_emitted (outcome_state (interval_tick h (run_events es p)))) =
      sent_by n (pg_emitted p) @ in_stream (pg_store p a) @ typed_into a es)"
proof -
  let ?q = "run_events es p"
  have all: "sent_by n (pg_emitted ?q) @ in_stream (pg_store ?q a) =
      sent_by n (pg_emitted p) @ in_stream (pg_store p a) @ typed_into a es"
    and name: "in_name (pg_store ?q a) = n"
    using input_run [OF page_reach_inv [OF assms(1)] assms(2), of es] assms(3,4) by (auto simp: input_total_def)
  with tick_ships [of ?q _ a] show ?thesis by simp
qed

lemma demo_sole: "sole 0 demo_page"
  by (simp add: sole_def demo_page_facts demo_timers)

definition demo_typing :: "page_event list" where
  "demo_typing = [EvTypedData 0 ''l'', EvTick 1, EvSocketClose, EvTypedData 0 ''s'', EvTick 1, EvSocketOpen, EvTypedData 0 '' -l'']"

lemma demo_typing_keeps: "keeps ''n1'' demo_typing demo_page" by code_simp

theorem typed_input_shipped_witness:
  "keeps ''n1'' demo_typing demo_page \<and>
   sent_by ''n1'' (pg_emitted (run_events demo_typing demo_page)) @
     in_stream (pg_store (run_events demo_typing demo_page) 0) = ''ls -l''"
proof -
  have "sent_by ''n1'' (pg_emitted demo_page) = [] \<and> in_stream (pg_store demo_page 0) = []" by code_simp
  then show ?thesis
    using typed_input_shipped [OF demo_page_reach demo_sole demo_page_facts(6) demo_typing_keeps] demo_typing_keeps
    by (simp add: demo_typing_def)
qed

text \<open>
  C6. Once an instance has its terminal and no output is waiting, everything the server sends for
  it is written to that terminal once and in the order it arrived, whatever other events the page
  handles in between (viewport resizes, font changes, reconnects, other instances coming and going).
\<close>

theorem output_in_order:
  assumes "page_reach p" and "pg_idx p n = Some a" and "keeps n es p" and "in_term (pg_store p a) \<noteq> None"
    and "waiting (pg_store p a) = []"
  shows "shown (pg_store (run_events es p) a) = shown (pg_store p a) @ output_for n es"
  by (rule output_run_ordered [OF page_reach_inv [OF assms(1)] assms(2-5)])

definition demo_output :: "page_event list" where
  "demo_output = [EvTerminalOut ''n1'' ''a'', EvViewportResize 80 24, EvInstanceDelete ''n2'', EvTerminalOut ''n1'' ''b'']"

theorem output_in_order_witness:
  "keeps ''n1'' demo_output demo_page \<and> shown (pg_store (run_events demo_output demo_page) 0) = ''ab''"
proof -
  have keeps: "keeps ''n1'' demo_output demo_page" by code_simp
  have view: "waiting (pg_store demo_page 0) = []" "shown (pg_store demo_page 0) = []" by code_simp+
  show ?thesis
    using output_in_order [OF demo_page_reach demo_page_facts(2) keeps demo_page_facts(4) view(1)] keeps view(2)
    by (simp add: demo_output_def)
qed

text \<open>
  C7. No output is lost or duplicated even before that: for an instance that was announced by the server
  (whose \<open>buffer\<close> is then set) or already has its terminal, what the terminal shows together with what is waiting is, up to order,
  what it was before plus everything sent for it. An instance loaded with the session that has no terminal yet is
  left out: it has no \<open>buffer\<close>, and what is kept for it starts with the word \<open>undefined\<close>.
\<close>

theorem output_not_lost:
  assumes "page_reach p" and "pg_idx p n = Some a" and "keeps n es p"
    and "in_buffer (pg_store p a) \<noteq> None \<or> in_term (pg_store p a) \<noteq> None"
  shows "mset (shown (pg_store (run_events es p) a) @ waiting (pg_store (run_events es p) a)) =
    mset (shown (pg_store p a) @ waiting (pg_store p a) @ output_for n es)"
  by (rule output_run [OF page_reach_inv [OF assms(1)] assms(2-4)])

definition demo_announced :: page where
  "demo_announced = page_step (EvInstanceNew ''n3'' ''10.0.0.3'' ''h3'' ''p3'') demo_page"

lemma demo_announced_reach: "page_reach demo_announced"
  unfolding demo_announced_def by (rule page_reach.event [OF demo_page_reach]) simp

lemma demo_announced_facts:
  "pg_idx demo_announced ''n3'' = Some 2" "in_buffer (pg_store demo_announced 2) \<noteq> None"
  "waiting (pg_store demo_announced 2) = []" "shown (pg_store demo_announced 2) = []"
  by code_simp+

definition demo_early :: "page_event list" where
  "demo_early = [EvTerminalOut ''n3'' ''1'', EvTask (80, 24) None, EvTask (80, 24) None,
     EvTerminalOut ''n3'' ''2'', EvViewportResize 80 24]"

theorem output_not_lost_witness:
  "keeps ''n3'' demo_early demo_announced \<and>
   mset (shown (pg_store (run_events demo_early demo_announced) 2) @
     waiting (pg_store (run_events demo_early demo_announced) 2)) = mset ''12''"
proof -
  have keeps: "keeps ''n3'' demo_early demo_announced" by code_simp
  show ?thesis
    using output_not_lost [OF demo_announced_reach demo_announced_facts(1) keeps disjI1 [OF demo_announced_facts(2)]] keeps
    by (simp add: demo_announced_facts demo_early_def)
qed

text \<open>
  C40. The order can change: output that arrives after the terminal is created and before the next
  viewport resize is written before the output that was already waiting.
\<close>

theorem early_output_overtaken:
  assumes "page_reach p" and "pg_idx p n = Some a" and "in_term (pg_store p a) = Some t"
    and "in_buffer (pg_store p a) = Some b" and "b \<noteq> []" and "cols \<noteq> 0" and "rows \<noteq> 0"
  shows "shown (pg_store (on_viewport_resize cols rows (on_terminal_out n d p)) a) = shown (pg_store p a) @ d @ b"
proof -
  let ?q = "on_terminal_out n d p"
  note inv = page_reach_inv [OF assms(1)]
  have listed: "a \<in> set (pg_instances ?q)" and dist: "distinct (pg_instances ?q)"
    using page_invD(1) [OF inv] assms(2) by (auto simp: index_inv_def)
  have other: "pg_store (fold (\<lambda>b p. upd_obj b (flush_obj cols rows) p) bs r) a = pg_store r a" if "a \<notin> set bs" for bs r
    using that by (induction bs arbitrary: r) auto
  have once: "pg_store (fold (\<lambda>b p. upd_obj b (flush_obj cols rows) p) bs r) a = flush_obj cols rows (pg_store r a)"
    if "a \<in> set bs" "distinct bs" for bs r
    using that by (induction bs arbitrary: r) (auto simp: other)
  show ?thesis
    using assms once [OF listed dist] by (simp add: on_viewport_resize_def out_store flush_obj_def shown_def)
qed

theorem early_output_overtaken_witness:
  "shown (pg_store (run_events demo_early demo_announced) 2) = ''21''"
proof -
  define p where "p = run_events (take 3 demo_early) demo_announced"
  have reach: "page_reach p"
    unfolding p_def run_events_def demo_early_def
    by (simp del: page_step.simps) (intro page_reach.event demo_announced_reach; simp)
  obtain t where facts: "pg_idx p ''n3'' = Some 2" "in_term (pg_store p 2) = Some t"
    "in_buffer (pg_store p 2) = Some ''1''" "shown (pg_store p 2) = []"
  proof -
    have "pg_idx p ''n3'' = Some 2 \<and> in_term (pg_store p 2) \<noteq> None \<and> in_buffer (pg_store p 2) = Some ''1'' \<and>
      shown (pg_store p 2) = []"
      unfolding p_def by code_simp
    then show ?thesis using that by auto
  qed
  show ?thesis
    using early_output_overtaken [OF reach facts(1-3), of 80 24 "''2''"] facts(4)
    by (simp add: p_def run_events_def demo_early_def)
qed

text \<open>
  Instances of the session's own answer have no \<open>buffer\<close> property, so the first output that
  arrives before their terminal exists is appended to \<open>undefined\<close>, which the terminal later shows.
\<close>

theorem loaded_instance_output_undefined:
  "in_buffer (pg_store (on_terminal_out (ii_name i) d (load_instance i p)) (pg_next p)) = Some (''undefined'' @ d)"
  by (simp add: out_store load_instance_def alloc_def js_str_def)

end
