(* ===== verification/Playground_Controls.thy ===== *)
theory Playground_Controls
  imports Playground_Safety
begin

text \<open>
  The buttons of the session page: uploads, creating and deleting instances, the window's resize
  event and the address of the web socket.
\<close>

subsection \<open>Uploads\<close>

text \<open>
  \<open>transfers urls u\<close>: one transfer after the other ends, the upload address being the one of the
  instance selected at that moment.
\<close>

definition transfers :: "string list \<Rightarrow> uploader \<Rightarrow> uploader" where
  "transfers urls u = fold upload_finished urls u"

lemma transfers_run:
  "length urls \<le> length (up_files u) \<Longrightarrow>
   up_posted (transfers urls u) = up_posted u @ zip urls (up_files u) \<and>
   up_files (transfers urls u) = drop (length urls) (up_files u) \<and> up_total (transfers urls u) = up_total u"
proof (induction urls arbitrary: u)
  case (Cons url urls)
  then obtain f fs where files: "up_files u = f # fs" by (cases "up_files u") auto
  let ?v = "uploadFile url u"
  have v: "up_files ?v = fs" "up_posted ?v = up_posted u @ [(url, f)]" "up_total ?v = up_total u"
    using files by (simp_all add: uploadFile_def)
  have "length urls \<le> length (up_files ?v)" using Cons.prems files v(1) by simp
  from Cons.IH [OF this] show ?case by (simp add: transfers_def upload_finished_def files v)
qed (simp add: transfers_def)

lemma transfers_append: "transfers (xs @ ys) u = transfers ys (transfers xs u)"
  by (simp add: transfers_def)

lemma uploadFiles_transfers:
  "uploadFiles url files u = transfers [url] (u\<lparr>up_files := files, up_total := length files\<rparr>)"
  by (simp add: transfers_def uploadFiles_def upload_finished_def)

text \<open>
  A dropped list of files is uploaded file by file and in order: after the drop and \<open>k\<close> ended
  transfers exactly the first \<open>k + 1\<close> files have been posted, each to the address of the instance
  selected when its turn came; and once the last of them has ended, with nothing more to send, the
  message is empty and the progress bar back at 0.
\<close>

theorem uploads_in_order:
  assumes "length urls < length files"
  shows "up_posted (transfers urls (uploadFiles url files u)) = up_posted u @ zip (url # urls) files \<and>
    (Suc (length urls) = length files \<longrightarrow>
      (let v = upload_finished last_url (transfers urls (uploadFiles url files u))
       in up_posted v = up_posted u @ zip (url # urls) files \<and> up_message v = [] \<and> up_progress v = Some 0))"
proof -
  let ?w = "transfers urls (uploadFiles url files u)"
  have "?w = transfers (url # urls) (u\<lparr>up_files := files, up_total := length files\<rparr>)"
    by (simp add: uploadFiles_transfers flip: transfers_append)
  then have w: "up_posted ?w = up_posted u @ zip (url # urls) files" "up_files ?w = drop (Suc (length urls)) files"
    using transfers_run [of "url # urls" "u\<lparr>up_files := files, up_total := length files\<rparr>"] assms by simp_all
  then show ?thesis by (simp add: upload_finished_def uploadFile_def)
qed

theorem uploads_in_order_witness:
  "let v = upload_finished ''/c'' (transfers [''/b''] (uploadFiles ''/a'' [''x'', ''y'']
      \<lparr>up_files = [], up_total = 0, up_message = [], up_progress = None, up_posted = []\<rparr>))
   in up_posted v = [(''/a'', ''x''), (''/b'', ''y'')] \<and> up_message v = [] \<and> up_progress v = Some 0"
  using uploads_in_order [of "[''/b'']" "[''x'', ''y'']" "''/a''"
      "\<lparr>up_files = [], up_total = 0, up_message = [], up_progress = None, up_posted = []\<rparr>" "''/c''"]
  by (simp add: Let_def)

subsection \<open>Instance buttons\<close>

text \<open>
  The create button is a bracket: \<open>newInstance\<close> posts one request to the session's instances
  with the type and the image chosen and disables the button, and whatever the answer, success,
  409, 503 or any other failure, the button is enabled again with its label restored. A 409 and
  an exhausted capacity raise their own alert, other failures none.
\<close>

theorem create_button_restored:
  "pg_requests (newInstance windows img p) = pg_requests p @
     [PostInstance (''/sessions/'' @ pg_sessionId p @ ''/instances'') (if windows then ''windows'' else ''linux'') img] \<and>
   pg_isInstanceBeingCreated (newInstance windows img p) \<and>
   \<not> pg_isInstanceBeingCreated (newInstance_answer ans q) \<and>
   pg_newInstanceBtnText (newInstance_answer ans q) = ''+ Add new instance'' \<and>
   pg_alerts (newInstance_answer ans q) = pg_alerts q @ (case ans of Created i \<Rightarrow> []
     | CreateFailed status err \<Rightarrow> if status = 409 then [AlertMaxInstances]
         else if status = 503 \<and> err = Some ''out_of_capacity'' then [AlertOutOfCapacity] else [])"
  by (simp add: newInstance_def newInstance_answer_def updateNewInstanceBtnState_def upsertInstance_def alloc_def
      upd_obj_def split: create_answer.split option.split)

text \<open>
  At most one resize timeout is pending: resize events of the window while one is pending change
  nothing, the timeout clears the flag on every path, and with a terminal selected it reports the
  measured geometry once on an open connection.
\<close>

theorem window_resize_debounced:
  "window_resize (window_resize p) = window_resize p \<and>
   (pg_resizeHandler p \<longrightarrow> window_resize p = p) \<and>
   \<not> pg_resizeHandler (outcome_state (resize_timeout g p)) \<and>
   pg_emitted (outcome_state (resize_timeout g (window_resize p))) = pg_emitted p @
     (if (pg_selected p \<noteq> None \<or> pg_resizeHandler p) \<and> (case pg_selected p of None \<Rightarrow> False | Some a \<Rightarrow> term_of p a \<noteq> None) \<and>
         pg_socket_open p
      then [EmitResize (fst g) (snd g)] else [])"
  by (auto simp: window_resize_def resize_timeout_def resize_def socket_emit_def Let_def term_of_def split: option.split)

theorem window_resize_debounced_witness:
  "let p = (fresh_page ''s'' [])\<lparr>pg_resizeHandler := True\<rparr> in pg_resizeHandler p \<and> window_resize p = p"
  using window_resize_debounced [of "(fresh_page ''s'' [])\<lparr>pg_resizeHandler := True\<rparr>"] by simp

subsection \<open>The address of the socket\<close>

text \<open>
  \<open>window.location.host\<close> carries the port whenever the address has one, and the page appends
  it again: for a page served from a non-default port the socket's address names the port twice.
\<close>

theorem ws_url_repeats_port:
  assumes "port \<noteq> []"
  shows "ws_url protocol (hostname @ '':'' @ port) port sid =
    (if protocol = ''http:'' then ''ws://'' else ''wss://'') @ hostname @ '':'' @ port @ '':'' @ port @
    ''/sessions/'' @ sid @ ''/ws/''"
  using assms by (simp add: ws_url_def Let_def)

theorem ws_url_repeats_port_witness:
  "ws_url ''http:'' ''localhost:3000'' ''3000'' ''s1'' = ''ws://localhost:3000:3000/sessions/s1/ws/''"
  using ws_url_repeats_port [of "''3000''" "''http:''" "''localhost''" "''s1''"] by simp

end
