(* ===== verification/LessonMarkdown.thy ===== *)
theory LessonMarkdown
  imports Settings
begin

text \<open>
  The markdown form of a lesson, both ways: \<open>lessonToMarkdown\<close> of the lesson editor
  (\<open>lesson-editor.js\<close>), which prints a lesson for editing, and the server's parser
  (\<open>lesson/simple_parser.go\<close>), which reads the edited text back. The two meet in a round-trip
  theorem, and in two theorems on what does not survive the trip.

  Characters are the code points below 256. A regular expression is written out as the search it
  performs. Step identifiers, timeouts and the fields the parser never sets are left out.
\<close>

subsection \<open>Lessons as the editor sees them\<close>

text \<open>\<open>sd_commands\<close> is \<open>None\<close> when the server sends \<open>null\<close>; an empty string is falsy.\<close>

record step_doc =
  sd_content :: string
  sd_commands :: "string list option"
  sd_expected :: string
  sd_question :: string

record lesson_doc =
  ld_title :: string
  ld_description :: string
  ld_steps :: "step_doc list"

abbreviation fence :: string where "fence \<equiv> ''```''"

definition block :: "string \<Rightarrow> string \<Rightarrow> string" where
  "block kind body = fence @ kind @ nl @ body @ nl @ fence @ nl @ nl"

definition step_to_markdown :: "nat \<Rightarrow> step_doc \<Rightarrow> string" where
  "step_to_markdown index step =
     ''## Step '' @ num_str (Some (int index + 1)) @ nl @ nl @ sd_content step @ nl @ nl @
     (case sd_commands step of None \<Rightarrow> []
      | Some cs \<Rightarrow> if length cs > 0 then block ''docker'' (js_join nl cs) else []) @
     (if sd_expected step \<noteq> [] then block ''expect'' (sd_expected step) else []) @
     (if sd_question step \<noteq> [] then block ''question'' (sd_question step) else [])"

fun steps_to_markdown :: "nat \<Rightarrow> step_doc list \<Rightarrow> string" where
  "steps_to_markdown i [] = []"
| "steps_to_markdown i (s # ss) = step_to_markdown i s @ steps_to_markdown (Suc i) ss"

definition lessonToMarkdown :: "lesson_doc \<Rightarrow> string" where
  "lessonToMarkdown lesson =
     ''# '' @ ld_title lesson @ nl @ nl @ ld_description lesson @ nl @ nl @
     steps_to_markdown 0 (ld_steps lesson)"

subsection \<open>The server's parser\<close>

text \<open>The first occurrence of a pattern: the text before it and the text after it.\<close>

fun split_at :: "string \<Rightarrow> string \<Rightarrow> (string \<times> string) option" where
  "split_at pat [] = (if pat = [] then Some ([], []) else None)"
| "split_at pat (c # cs) =
     (if take (length pat) (c # cs) = pat then Some ([], drop (length pat) (c # cs))
      else map_option (\<lambda>(a, b). (c # a, b)) (split_at pat cs))"

lemma split_at_sound: "split_at pat s = Some (a, b) \<Longrightarrow> s = a @ pat @ b"
proof (induction pat s arbitrary: a rule: split_at.induct)
  case (2 pat c cs)
  then show ?case
    by (auto split: if_splits) (metis append_take_drop_id)
qed (simp split: if_splits)

text \<open>
  \<open>split_lines\<close> cuts at line feeds, a final one ending no further line; \<open>bufio.Scanner\<close> also
  strips one carriage return before the line feed and gives up for good at a line that does not
  fit its buffer of 64 KiB.
\<close>

fun split_lines :: "string \<Rightarrow> string list" where
  "split_lines [] = []"
| "split_lines (c # cs) =
     (if c = CHR 0x0A then [] # split_lines cs
      else (case split_lines cs of
              [] \<Rightarrow> [[c]]
            | l # ls \<Rightarrow> (c # l) # ls))"

definition strip_cr :: "string \<Rightarrow> string" where
  "strip_cr l = (if l \<noteq> [] \<and> last l = CHR 0x0D then butlast l else l)"

text \<open>The characters of a text are code points below 256; those from 128 on take two bytes.\<close>

definition go_len :: "string \<Rightarrow> nat" where
  "go_len s = sum_list (map (\<lambda>c. if of_char c < (128::nat) then 1 else 2) s)"

lemma go_len_simps [simp]: "go_len [] = 0" "go_len (c # cs) = (if of_char c < (128::nat) then 1 else 2) + go_len cs"
  by (simp_all add: go_len_def)

definition scan_lines :: "string \<Rightarrow> string list" where
  "scan_lines s = map strip_cr (takeWhile (\<lambda>l. go_len l < 65536) (split_lines s))"

text \<open>\<open>strings.TrimSpace\<close>.\<close>

definition is_space :: "char \<Rightarrow> bool" where
  "is_space c = (c \<in> {CHR 0x09, CHR 0x0A, CHR 0x0B, CHR 0x0C, CHR 0x0D, CHR 0x20, CHR 0x85, CHR 0xA0})"

definition trim_space :: "string \<Rightarrow> string" where
  "trim_space s = rev (dropWhile is_space (rev (dropWhile is_space s)))"

text \<open>
  \<open>^#\s+(.+)$\<close> on one line: the longest run of blanks after the hash that leaves at least one
  character; the class \<open>\s\<close> of Go's \<open>regexp\<close> has five members.
\<close>

definition re_space :: "char \<Rightarrow> bool" where
  "re_space c = (c \<in> {CHR 0x09, CHR 0x0A, CHR 0x0C, CHR 0x0D, CHR 0x20})"

definition title_match :: "string \<Rightarrow> string option" where
  "title_match line =
     (case line of
        [] \<Rightarrow> None
      | c # rest \<Rightarrow>
          if c = CHR ''#'' \<and> length rest \<ge> 2 \<and> re_space (hd rest)
          then Some (case dropWhile re_space rest of [] \<Rightarrow> [last rest] | t \<Rightarrow> t)
          else None)"

text \<open>The loop over the lines: \<open>title\<close> is \<open>None\<close> until it is found, \<open>desc\<close> the lines collected so far.\<close>

fun scan_head :: "string list \<Rightarrow> string option \<Rightarrow> string list \<Rightarrow> string option \<times> string list" where
  "scan_head [] title desc = (title, desc)"
| "scan_head (line # lines) title desc =
     (case title of
        None \<Rightarrow> scan_head lines (title_match line) desc
      | Some t \<Rightarrow>
          if desc = [] \<and> trim_space line \<noteq> [] then scan_head lines title (desc @ [line])
          else if desc \<noteq> [] \<and> trim_space line \<noteq> [] \<and> take 1 line \<noteq> ''#'' \<and> take 3 line \<noteq> fence
          then scan_head lines title (desc @ [line])
          else if desc \<noteq> [] then (title, desc)
          else scan_head lines title desc)"

text \<open>
  All matches of the expression for a fenced block: a fence, one of the three kinds, a line feed,
  the shortest text up to a line feed and a fence.
\<close>

definition kinds :: "string list" where "kinds = [''docker'', ''expect'', ''question'']"

definition strip_prefix :: "string \<Rightarrow> string \<Rightarrow> string option" where
  "strip_prefix p s = (if take (length p) s = p then Some (drop (length p) s) else None)"

fun match_kind :: "string list \<Rightarrow> string \<Rightarrow> (string \<times> string \<times> string) option" where
  "match_kind [] s = None"
| "match_kind (k # ks) s =
     (case strip_prefix (fence @ k @ nl) s of
        None \<Rightarrow> match_kind ks s
      | Some rest \<Rightarrow> map_option (\<lambda>(body, after). (k, body, after)) (split_at (nl @ fence) rest))"

lemma match_kind_shorter: "match_kind ks s = Some (k, body, after) \<Longrightarrow> length after < length s"
  by (induction ks s rule: match_kind.induct)
    (auto simp: strip_prefix_def split: if_splits dest!: split_at_sound arg_cong [where f = length])

function find_blocks :: "string \<Rightarrow> (string \<times> string) list" where
  "find_blocks [] = []"
| "find_blocks (c # cs) =
     (case match_kind kinds (c # cs) of
        Some (k, body, after) \<Rightarrow> (k, body) # find_blocks after
      | None \<Rightarrow> find_blocks cs)"
  by pat_completeness auto
termination
  by (relation "measure length") (auto dest!: match_kind_shorter)

definition parseCommands :: "string \<Rightarrow> string list" where
  "parseCommands content = filter (\<lambda>cmd. cmd \<noteq> []) (map trim_space (scan_lines content))"

text \<open>A Go slice that was only declared is \<open>null\<close> in JSON until something is appended to it.\<close>

definition go_slice :: "'a list \<Rightarrow> 'a list option" where
  "go_slice xs = (if xs = [] then None else Some xs)"

definition slice_elems :: "'a list option \<Rightarrow> 'a list" where
  "slice_elems xs = (case xs of None \<Rightarrow> [] | Some ys \<Rightarrow> ys)"

definition upd_last :: "('a \<Rightarrow> 'a) \<Rightarrow> 'a list \<Rightarrow> 'a list" where
  "upd_last f xs = (if xs = [] then [] else butlast xs @ [f (last xs)])"

text \<open>
  One block. The flag says whether \<open>currentStep\<close> is set; when it is, it points at the last step.
\<close>

definition process_block :: "string \<times> string \<Rightarrow> step_doc list \<times> bool \<Rightarrow> step_doc list \<times> bool" where
  "process_block m st =
     (case (m, st) of ((blockType, blockContent), (steps, cur)) \<Rightarrow>
        if blockType = ''docker'' then
          (let commands = parseCommands blockContent
           in if cur \<and> sd_expected (last steps) = [] \<and> sd_question (last steps) = []
              then (upd_last (\<lambda>s. s\<lparr>sd_commands := go_slice (slice_elems (sd_commands s) @ commands)\<rparr>) steps, cur)
              else (steps @ [\<lparr>sd_content = [], sd_commands = go_slice commands, sd_expected = [], sd_question = []\<rparr>], True))
        else if blockType = ''expect'' then
          (if cur then (upd_last (\<lambda>s. s\<lparr>sd_expected := trim_space blockContent\<rparr>) steps, False) else st)
        else if blockType = ''question'' then
          (if cur then (upd_last (\<lambda>s. s\<lparr>sd_question := trim_space blockContent\<rparr>) steps, False) else st)
        else st)"

definition parse_lesson :: "string \<Rightarrow> lesson_doc" where
  "parse_lesson content =
     (let (title, desc) = scan_head (scan_lines content) None []
      in \<lparr>ld_title = (case title of None \<Rightarrow> [] | Some t \<Rightarrow> t),
          ld_description = js_join '' '' desc,
          ld_steps = fst (fold process_block (find_blocks content) ([], False))\<rparr>)"

subsection \<open>Finding the blocks again\<close>

definition no_sub :: "string \<Rightarrow> string \<Rightarrow> bool" where
  "no_sub pat s \<longleftrightarrow> split_at pat s = None"

lemma no_sub_Cons: "no_sub pat (c # cs) \<Longrightarrow> take (length pat) (c # cs) \<noteq> pat \<and> no_sub pat cs"
  by (simp add: no_sub_def split: if_splits)

text \<open>A closing fence cannot begin inside the body: its line feed would have to be a backtick.\<close>

lemma split_at_body:
  "no_sub (nl @ fence) body \<Longrightarrow> split_at (nl @ fence) (body @ nl @ fence @ rest) = Some (body, rest)"
proof (induction body)
  case (Cons c cs)
  have "take 4 (c # cs @ nl @ fence @ rest) \<noteq> nl @ fence"
    using no_sub_Cons [OF Cons.prems]
    by (cases cs; cases "tl cs"; cases "tl (tl cs)") (auto simp: numeral_eq_Suc)
  with Cons no_sub_Cons [OF Cons.prems] show ?case by (simp add: numeral_eq_Suc)
qed (simp add: numeral_eq_Suc)

lemma match_kind_no_fence: "take 3 s \<noteq> fence \<Longrightarrow> match_kind ks s = None"
proof (induction ks)
  case (Cons k ks)
  have "take (length (fence @ k @ nl)) s \<noteq> fence @ k @ nl"
  proof
    assume "take (length (fence @ k @ nl)) s = fence @ k @ nl"
    then have "take 3 (take (length (fence @ k @ nl)) s) = fence" by simp
    then show False using Cons.prems by (simp add: min_def)
  qed
  with Cons show ?case by (simp add: strip_prefix_def del: append.simps)
qed simp

lemma find_blocks_skip: "take 3 (c # cs) \<noteq> fence \<Longrightarrow> find_blocks (c # cs) = find_blocks cs"
  using match_kind_no_fence [of "c # cs" kinds] by simp

declare find_blocks.simps(2) [simp del]

lemma find_blocks_text: "no_sub fence t \<Longrightarrow> find_blocks (t @ nl @ rest) = find_blocks rest"
proof (induction t)
  case Nil
  show ?case using find_blocks_skip [of "CHR 0x0A" rest] by simp
next
  case (Cons c cs)
  have "take 3 (c # cs @ nl @ rest) \<noteq> fence"
    using no_sub_Cons [OF Cons.prems] by (cases cs; cases "tl cs") (auto simp: numeral_eq_Suc)
  with Cons no_sub_Cons [OF Cons.prems] find_blocks_skip [of c "cs @ nl @ rest"] show ?case by simp
qed

lemma find_blocks_nl [simp]: "find_blocks (CHR 0x0A # rest) = find_blocks rest"
  using find_blocks_text [of "[]" rest] by (simp add: no_sub_def)

lemma find_blocks_block:
  assumes "k \<in> set kinds" and "no_sub (nl @ fence) body"
  shows "find_blocks (block k body @ rest) = (k, body) # find_blocks rest"
proof -
  have "match_kind kinds (block k body @ rest) = Some (k, body, nl @ nl @ rest)"
    using assms(1) split_at_body [OF assms(2), of "nl @ nl @ rest"]
    by (auto simp: kinds_def strip_prefix_def block_def)
  then show ?thesis by (simp add: block_def find_blocks.simps(2) [of "CHR 0x60"])
qed

lemma find_blocks_plain: "CHR 0x60 \<notin> set t \<Longrightarrow> find_blocks (t @ rest) = find_blocks rest"
proof (induction t)
  case (Cons c cs)
  then have "take 3 (c # cs @ rest) \<noteq> fence" by (auto simp: numeral_eq_Suc)
  with Cons show ?case by (simp add: find_blocks_skip)
qed simp

lemma nat_str_digits: "set (nat_str n) \<subseteq> char_of ` {48..57::nat}"
proof (induction n rule: nat_str.induct)
  case (1 n)
  show ?case
  proof (cases "n < 10")
    case True
    then show ?thesis by (auto simp: nat_str.simps [of n] digit_char_def)
  next
    case False
    then show ?thesis using 1 by (auto simp: nat_str.simps [of n] digit_char_def)
  qed
qed

lemma num_str_no_backtick: "CHR 0x60 \<notin> set (num_str (Some i))"
proof -
  have "CHR 0x60 \<notin> char_of ` {48..57::nat}"
  proof
    assume "CHR 0x60 \<in> char_of ` {48..57::nat}"
    then obtain k :: nat where "k \<in> {48..57}" "CHR 0x60 = char_of k" by auto
    then have "of_char (CHR 0x60) = k mod 256" by (metis of_char_of)
    with \<open>k \<in> {48..57}\<close> show False by simp
  qed
  then show ?thesis using nat_str_digits by (auto simp: num_str_def)
qed

subsection \<open>Reading the lines again\<close>

text \<open>A line that survives the scanner and the trimming as it is.\<close>

definition clean_line :: "string \<Rightarrow> bool" where
  "clean_line l \<longleftrightarrow> l \<noteq> [] \<and> trim_space l = l \<and> CHR 0x0A \<notin> set l \<and> go_len l < 65000"

lemma split_lines_nl: "CHR 0x0A \<notin> set l \<Longrightarrow> split_lines (l @ nl @ rest) = l # split_lines rest"
  by (induction l) auto

lemma split_lines_single: "CHR 0x0A \<notin> set l \<Longrightarrow> l \<noteq> [] \<Longrightarrow> split_lines l = [l]"
proof (induction l)
  case (Cons c cs)
  then show ?case by (cases cs) auto
qed simp

lemma split_lines_join:
  "\<forall>l \<in> set ls. CHR 0x0A \<notin> set l \<and> l \<noteq> [] \<Longrightarrow> split_lines (js_join nl ls) = ls"
proof (induction nl ls rule: js_join.induct)
  case (3 x y xs)
  then show ?case using split_lines_nl [of x "js_join nl (y # xs)"] by simp
qed (simp_all add: split_lines_single)

lemma trim_ends:
  assumes "trim_space l = l" and "l \<noteq> []"
  shows "\<not> is_space (hd l)" and "\<not> is_space (last l)"
proof -
  define d where "d = dropWhile is_space l"
  have l: "l = rev (dropWhile is_space (rev d))" using assms(1) by (simp add: trim_space_def d_def)
  then have rl: "rev l = dropWhile is_space (rev d)" by simp
  show "\<not> is_space (last l)" using hd_dropWhile [of is_space "rev d"] rl assms(2) by (metis hd_rev rev_is_Nil_conv)
  have "d = rev (takeWhile is_space (rev d) @ dropWhile is_space (rev d))" by simp
  then have "d = l @ rev (takeWhile is_space (rev d))" using l by (metis rev_append)
  then have "hd d = hd l" and "d \<noteq> []" using assms(2) by (metis hd_append, auto)
  then show "\<not> is_space (hd l)" using hd_dropWhile [of is_space l] by (simp add: d_def)
qed

lemma strip_cr_clean: "clean_line l \<Longrightarrow> strip_cr l = l"
  using trim_ends(2) [of l] by (auto simp: clean_line_def strip_cr_def is_space_def)

lemma parseCommands_join:
  assumes "\<forall>l \<in> set cs. clean_line l"
  shows "parseCommands (js_join nl cs) = cs"
proof -
  have "split_lines (js_join nl cs) = cs" using assms by (intro split_lines_join) (auto simp: clean_line_def)
  moreover have "takeWhile (\<lambda>l. go_len l < 65536) cs = cs"
    using assms by (intro takeWhile_eq_all_conv [THEN iffD2]) (auto simp: clean_line_def)
  moreover have "map strip_cr cs = cs" using assms by (simp add: map_idI strip_cr_clean)
  moreover have "map trim_space cs = cs" using assms by (simp add: map_idI clean_line_def)
  moreover have "filter (\<lambda>c. c \<noteq> []) cs = cs" using assms by (simp add: clean_line_def)
  ultimately show ?thesis by (simp add: parseCommands_def scan_lines_def del: map_map takeWhile_eq_all_conv)
qed

subsection \<open>Round trip\<close>

text \<open>
  A step the text can carry: commands that are clean lines, trimmed answers, and no fence inside
  the content, the commands or the answers. It can be told apart from the next when it ends in
  exactly one of an expected output and a question.
\<close>

definition writable_step :: "step_doc \<Rightarrow> bool" where
  "writable_step s \<longleftrightarrow>
     list_all clean_line (slice_elems (sd_commands s)) \<and>
     no_sub (nl @ fence) (js_join nl (slice_elems (sd_commands s))) \<and>
     trim_space (sd_expected s) = sd_expected s \<and> no_sub (nl @ fence) (sd_expected s) \<and>
     trim_space (sd_question s) = sd_question s \<and> no_sub (nl @ fence) (sd_question s) \<and>
     no_sub fence (sd_content s)"

definition portable_step :: "step_doc \<Rightarrow> bool" where
  "portable_step s \<longleftrightarrow> writable_step s \<and> slice_elems (sd_commands s) \<noteq> [] \<and>
     (sd_expected s = [] \<longleftrightarrow> sd_question s \<noteq> [])"

definition portable_head :: "lesson_doc \<Rightarrow> bool" where
  "portable_head l \<longleftrightarrow> clean_line (ld_title l) \<and> no_sub fence (ld_title l) \<and>
     clean_line (ld_description l) \<and> no_sub fence (ld_description l)"

definition portable_lesson :: "lesson_doc \<Rightarrow> bool" where
  "portable_lesson l \<longleftrightarrow> portable_head l \<and> list_all portable_step (ld_steps l)"

definition without_content :: "step_doc \<Rightarrow> step_doc" where
  "without_content s = s\<lparr>sd_content := []\<rparr>"

text \<open>The blocks a printed step is read back as.\<close>

definition step_blocks :: "step_doc \<Rightarrow> (string \<times> string) list" where
  "step_blocks s =
     (if slice_elems (sd_commands s) \<noteq> [] then [(''docker'', js_join nl (slice_elems (sd_commands s)))] else []) @
     (if sd_expected s \<noteq> [] then [(''expect'', sd_expected s)] else []) @
     (if sd_question s \<noteq> [] then [(''question'', sd_question s)] else [])"

lemma find_blocks_step:
  assumes "writable_step s"
  shows "find_blocks (step_to_markdown i s @ rest) = step_blocks s @ find_blocks rest"
proof -
  have plain: "find_blocks (''## Step '' @ num_str (Some (int i + 1)) @ nl @ nl @ sd_content s @ nl @ nl @ t) = find_blocks t" for t
  proof -
    have "find_blocks ((''## Step '' @ num_str (Some (int i + 1))) @ nl @ nl @ sd_content s @ nl @ nl @ t) =
      find_blocks (nl @ nl @ sd_content s @ nl @ nl @ t)"
      using num_str_no_backtick by (intro find_blocks_plain) simp
    also have "\<dots> = find_blocks t"
      using find_blocks_text [of "sd_content s" "nl @ t"] assms by (simp add: writable_step_def)
    finally show ?thesis by simp
  qed
  have kinds: "''docker'' \<in> set kinds" "''expect'' \<in> set kinds" "''question'' \<in> set kinds" by (simp_all add: kinds_def)
  show ?thesis
    using assms unfolding step_to_markdown_def writable_step_def append_assoc plain
    by (cases "sd_commands s") (simp_all add: step_blocks_def slice_elems_def find_blocks_block kinds)
qed

lemma find_blocks_steps:
  "list_all writable_step ss \<Longrightarrow> find_blocks (steps_to_markdown i ss) = concat (map step_blocks ss)"
  by (induction ss arbitrary: i) (simp_all add: find_blocks_step)

lemma process_step:
  assumes "portable_step s"
  shows "fold process_block (step_blocks s) (done, False) = (done @ [without_content s], False)"
proof -
  obtain cs where cs: "sd_commands s = Some cs" "cs \<noteq> []"
    using assms by (auto simp: portable_step_def slice_elems_def split: option.splits)
  have "parseCommands (js_join nl cs) = cs"
    using assms cs by (intro parseCommands_join) (simp add: portable_step_def writable_step_def slice_elems_def list_all_iff)
  then show ?thesis
    using assms cs
    by (auto simp: step_blocks_def process_block_def portable_step_def writable_step_def slice_elems_def go_slice_def
        upd_last_def without_content_def)
qed

lemma process_steps:
  "list_all portable_step ss \<Longrightarrow>
   fold process_block (concat (map step_blocks ss)) (done, False) = (done @ map without_content ss, False)"
  by (induction ss arbitrary: "done") (simp_all add: process_step)

lemma scan_lines_head:
  assumes "clean_line t" and "clean_line d"
  shows "\<exists>ls. scan_lines (''# '' @ t @ nl @ nl @ d @ nl @ nl @ rest) = [''# '' @ t, [], d, []] @ ls"
proof -
  have "split_lines ((''# '' @ t) @ nl @ nl @ d @ nl @ nl @ rest) = [''# '' @ t, [], d, []] @ split_lines rest"
    using assms split_lines_nl [of "''# '' @ t" "nl @ d @ nl @ nl @ rest"] split_lines_nl [of d "nl @ rest"]
    by (simp add: clean_line_def)
  moreover have "strip_cr (''# '' @ t) = ''# '' @ t" "strip_cr d = d" "strip_cr [] = []"
    using assms strip_cr_clean [of t] strip_cr_clean [of d]
    by (auto simp: strip_cr_def clean_line_def split: if_splits)
  ultimately show ?thesis using assms by (simp add: scan_lines_def clean_line_def)
qed

lemma title_match_clean:
  assumes "clean_line t"
  shows "title_match (''# '' @ t) = Some t"
proof -
  have "\<not> re_space (hd t)" using trim_ends(1) [of t] assms by (auto simp: clean_line_def is_space_def re_space_def)
  moreover obtain c cs where "t = c # cs" using assms by (cases t) (auto simp: clean_line_def)
  ultimately show ?thesis by (simp add: title_match_def re_space_def)
qed

lemma scan_head_clean:
  assumes "clean_line t" and "clean_line d"
  shows "scan_head ([''# '' @ t, [], d, []] @ ls) None [] = (Some t, [d])"
proof -
  have "trim_space d \<noteq> []" and "trim_space [] = []" using assms by (auto simp: clean_line_def trim_space_def)
  then show ?thesis using title_match_clean [OF assms(1)] by simp
qed

text \<open>What the parser makes of a printed lesson: the head as it was, the steps from their blocks.\<close>

lemma parse_printed:
  assumes "portable_head l" and steps: "list_all writable_step (ld_steps l)"
  shows "parse_lesson (lessonToMarkdown l) =
    l\<lparr>ld_steps := fst (fold process_block (concat (map step_blocks (ld_steps l))) ([], False))\<rparr>"
proof -
  let ?rest = "steps_to_markdown 0 (ld_steps l)"
  have clean: "clean_line (ld_title l)" "clean_line (ld_description l)"
    and nofence: "no_sub fence (ld_title l)" "no_sub fence (ld_description l)"
    using assms by (auto simp: portable_head_def)
  obtain ls where lines: "scan_lines (lessonToMarkdown l) = [''# '' @ ld_title l, [], ld_description l, []] @ ls"
    using scan_lines_head [OF clean, of ?rest] by (auto simp: lessonToMarkdown_def)
  have "find_blocks (lessonToMarkdown l) = find_blocks ?rest"
    using find_blocks_plain [of "''# ''" "ld_title l @ nl @ nl @ ld_description l @ nl @ nl @ ?rest"]
      find_blocks_text [OF nofence(1)] find_blocks_text [OF nofence(2)]
    by (simp add: lessonToMarkdown_def)
  moreover have "scan_head (scan_lines (lessonToMarkdown l)) None [] = (Some (ld_title l), [ld_description l])"
    unfolding lines by (rule scan_head_clean [OF clean])
  ultimately show ?thesis using find_blocks_steps [OF steps] by (simp add: parse_lesson_def)
qed

text \<open>
  C32. Opening a lesson in the editor and saving it unchanged: the server's parser reads back from
  the printed markdown the same title, the same description and, step by step, the same commands,
  expected outputs and questions, for every lesson whose texts contain no fences, whose lines are
  trimmed and whose steps end in exactly one expected output or question. The explanatory content
  of each step is the one thing that does not come back: it is printed, but the parser never reads it.
\<close>

theorem lesson_markdown_roundtrip:
  assumes "portable_lesson l"
  shows "parse_lesson (lessonToMarkdown l) = l\<lparr>ld_steps := map without_content (ld_steps l)\<rparr>"
proof -
  have "list_all writable_step (ld_steps l)"
    using assms by (auto simp: portable_lesson_def portable_step_def list_all_iff)
  then show ?thesis
    using assms parse_printed [of l] process_steps [of "ld_steps l" "[]"] by (simp add: portable_lesson_def)
qed

definition demo_lesson :: lesson_doc where
  "demo_lesson = \<lparr>ld_title = ''Git'', ld_description = ''Basics of Git'', ld_steps =
     [\<lparr>sd_content = ''Create a `repo`'', sd_commands = Some [''mkdir d'', ''git init d''], sd_expected = ''done'', sd_question = []\<rparr>,
      \<lparr>sd_content = ''Look'', sd_commands = Some [''git log''], sd_expected = [], sd_question = ''What now?''\<rparr>]\<rparr>"

theorem lesson_markdown_roundtrip_witness:
  "portable_lesson demo_lesson \<and>
   parse_lesson (lessonToMarkdown demo_lesson) = demo_lesson\<lparr>ld_steps := map without_content (ld_steps demo_lesson)\<rparr>"
proof -
  have "portable_lesson demo_lesson"
    by (simp add: portable_lesson_def portable_head_def demo_lesson_def portable_step_def writable_step_def slice_elems_def clean_line_def trim_space_def
        is_space_def no_sub_def)
  then show ?thesis using lesson_markdown_roundtrip [of demo_lesson] by simp
qed

text \<open>
  A step with neither an expected output nor a question does not survive as a step: after the
  round trip its commands stand before those of the next step, and the two have become one.
\<close>

theorem open_step_merges:
  assumes "portable_head l" and "ld_steps l = [s, t]" and "writable_step s" and "sd_commands s = Some (c # cs)"
    and "sd_expected s = []" and "sd_question s = []" and "portable_step t"
  shows "ld_steps (parse_lesson (lessonToMarkdown l)) =
    [(without_content t)\<lparr>sd_commands := Some (c # cs @ slice_elems (sd_commands t))\<rparr>]"
proof -
  obtain ds where ds: "sd_commands t = Some ds" "ds \<noteq> []"
    using assms(7) by (auto simp: portable_step_def slice_elems_def split: option.splits)
  have "parseCommands (js_join nl (c # cs)) = c # cs" "parseCommands (js_join nl ds) = ds"
    using assms(3,4,7) ds by (intro parseCommands_join, simp add: portable_step_def writable_step_def slice_elems_def list_all_iff)+
  then have "fst (fold process_block (step_blocks s @ step_blocks t) ([], False)) =
    [(without_content t)\<lparr>sd_commands := Some (c # cs @ slice_elems (sd_commands t))\<rparr>]"
    using assms ds
    by (auto simp: step_blocks_def process_block_def portable_step_def writable_step_def slice_elems_def go_slice_def
        upd_last_def without_content_def)
  then show ?thesis
    using parse_printed [OF assms(1)] assms(2,3,7) by (simp add: portable_step_def)
qed

theorem open_step_merges_witness:
  "let s = \<lparr>sd_content = ''Look'', sd_commands = Some [''ls''], sd_expected = [], sd_question = []\<rparr>;
       l = demo_lesson\<lparr>ld_steps := [s, ld_steps demo_lesson ! 1]\<rparr>
   in ld_steps (parse_lesson (lessonToMarkdown l)) =
     [\<lparr>sd_content = [], sd_commands = Some [''ls'', ''git log''], sd_expected = [], sd_question = ''What now?''\<rparr>]"
  using open_step_merges [of "demo_lesson\<lparr>ld_steps := [\<lparr>sd_content = ''Look'', sd_commands = Some [''ls''], sd_expected = [],
      sd_question = []\<rparr>, ld_steps demo_lesson ! 1]\<rparr>" "\<lparr>sd_content = ''Look'', sd_commands = Some [''ls''], sd_expected = [],
      sd_question = []\<rparr>" "ld_steps demo_lesson ! 1" "''ls''" "[]"]
  by (simp add: portable_head_def demo_lesson_def portable_step_def writable_step_def slice_elems_def clean_line_def
      trim_space_def is_space_def no_sub_def without_content_def)

end
