(* ===== verification/LessonEditor.thy ===== *)
theory LessonEditor
  imports LessonMarkdown
begin

text \<open>
  The lesson editor (\<open>lesson-editor.js\<close>): the controller with its requests and their answers, the
  preview's markdown-to-HTML conversion, the templates, and the service the file registers; and
  the lesson browser of \<open>app.js\<close> that opens it.

  A promise chain is split where it waits: the part up to a request is one definition, what its
  answer does the next. Dialogs, alerts and requests are recorded in the state in the order made;
  what the user answers to a \<open>confirm\<close> is an argument.
\<close>

subsection \<open>State\<close>

datatype editor_request =
    ReqGetLesson string
  | ReqParse string
  | ReqValidate lesson_doc
  | ReqPut string lesson_doc bool \<comment> \<open>id, lesson, \<open>isDraft\<close>\<close>
  | ReqPost lesson_doc bool

record preview_step =
  ps_content :: string
  ps_commands :: "string list"
  ps_expected :: string
  ps_question :: string

record editor =
  ed_lesson :: lesson_doc
  ed_markdown :: string
  ed_preview :: "preview_step list"
  ed_errors :: "string list"
  ed_isEditing :: bool
  ed_editingId :: "string option"
  ed_isDraft :: bool
  ed_requests :: "editor_request list"
  ed_alerts :: "string list"
  ed_dialog :: "string list" \<comment> \<open>calls on \<open>$mdDialog\<close>: \<open>show\<close>, \<open>hide\<close>, \<open>cancel\<close>\<close>
  ed_cursor :: "(nat \<times> nat) option"

definition empty_lesson :: lesson_doc where
  "empty_lesson = \<lparr>ld_title = [], ld_description = [], ld_steps = []\<rparr>"

definition new_editor :: editor where
  "new_editor = \<lparr>ed_lesson = empty_lesson, ed_markdown = [], ed_preview = [], ed_errors = [], ed_isEditing = False,
     ed_editingId = None, ed_isDraft = False, ed_requests = [], ed_alerts = [], ed_dialog = [], ed_cursor = None\<rparr>"

definition send :: "editor_request \<Rightarrow> editor \<Rightarrow> editor" where
  "send r ed = ed\<lparr>ed_requests := ed_requests ed @ [r]\<rparr>"

definition alert :: "string \<Rightarrow> editor \<Rightarrow> editor" where
  "alert msg ed = ed\<lparr>ed_alerts := ed_alerts ed @ [msg]\<rparr>"

definition dialog :: "string \<Rightarrow> editor \<Rightarrow> editor" where
  "dialog what ed = ed\<lparr>ed_dialog := ed_dialog ed @ [what]\<rparr>"

subsection \<open>Preview\<close>

text \<open>The line terminators of a JavaScript expression, as far as the characters go.\<close>

definition line_end :: "char \<Rightarrow> bool" where
  "line_end c = (c = CHR 0x0A \<or> c = CHR 0x0D)"

text \<open>\<open>replace(/^P(.*?)$/gm, ...)\<close>: every maximal stretch without a line terminator that starts with \<open>P\<close>.\<close>

definition header_line :: "string \<Rightarrow> string \<Rightarrow> string \<Rightarrow> string" where
  "header_line prefix tag l =
     (case strip_prefix prefix l of None \<Rightarrow> l
      | Some rest \<Rightarrow> ''<'' @ tag @ ''>'' @ rest @ ''</'' @ tag @ ''>'')"

function on_lines :: "(string \<Rightarrow> string) \<Rightarrow> string \<Rightarrow> string" where
  "on_lines f s =
     (let l = takeWhile (\<lambda>c. \<not> line_end c) s
      in case dropWhile (\<lambda>c. \<not> line_end c) s of
           [] \<Rightarrow> f l
         | c # rest \<Rightarrow> f l @ [c] @ on_lines f rest)"
  by pat_completeness auto
termination
proof (relation "measure (\<lambda>(f, s). length s)")
  fix f :: "string \<Rightarrow> string" and s x c rest
  assume "dropWhile (\<lambda>c. \<not> line_end c) s = c # rest"
  then have "length (c # rest) \<le> length s" by (metis length_dropWhile_le)
  then show "((f, rest), f, s) \<in> measure (\<lambda>(f, s). length s)" by simp
qed simp

declare on_lines.simps [simp del]

text \<open>\<open>split\<close> on a non-empty separator.\<close>

function js_split :: "string \<Rightarrow> string \<Rightarrow> string list" where
  "js_split sep s =
     (case split_at sep s of
        None \<Rightarrow> [s]
      | Some (a, b) \<Rightarrow> if sep = [] then [s] else a # js_split sep b)"
  by pat_completeness auto
termination
  by (relation "measure (\<lambda>(sep, s). length s)") (auto dest!: split_at_sound)

declare js_split.simps [simp del]

text \<open>
  \<open>replace(/D(.*?)D/g, '<tag>$1</tag>')\<close>: an opening delimiter pairs with the next one on its line.
\<close>

function replace_pairs :: "string \<Rightarrow> string \<Rightarrow> string \<Rightarrow> string" where
  "replace_pairs delim tag [] = []"
| "replace_pairs delim tag (c # cs) =
     (case strip_prefix delim (c # cs) of
        Some rest \<Rightarrow>
          (case split_at delim rest of
             Some (inner, after) \<Rightarrow>
               if delim \<noteq> [] \<and> list_all (\<lambda>c. \<not> line_end c) inner
               then ''<'' @ tag @ ''>'' @ inner @ ''</'' @ tag @ ''>'' @ replace_pairs delim tag after
               else c # replace_pairs delim tag cs
           | None \<Rightarrow> c # replace_pairs delim tag cs)
      | None \<Rightarrow> c # replace_pairs delim tag cs)"
  by pat_completeness auto
termination
  by (relation "measure (\<lambda>(d, t, s). length s)")
    (auto simp: strip_prefix_def neq_Nil_conv split: if_splits dest!: split_at_sound arg_cong [where f = length])

declare replace_pairs.simps(2) [simp del]

definition markdownToHtml :: "string \<Rightarrow> string" where
  "markdownToHtml markdown =
     (if markdown = [] then []
      else
        (let html = on_lines (header_line ''### '' ''h3'') (on_lines (header_line ''## '' ''h2'')
                      (on_lines (header_line ''# '' ''h1'') markdown));
             html = concat (map (\<lambda>p. if take 2 p \<noteq> ''<h'' then ''<p>'' @ p @ ''</p>'' else p) (js_split (nl @ nl) html));
             html = replace_pairs ''`'' ''code'' html;
             html = replace_pairs ''**'' ''strong'' html
         in replace_pairs ''*'' ''em'' html))"

subsection \<open>Requests and answers\<close>

text \<open>\<open>parseMarkdown\<close>: on any failure the promise resolves with an empty lesson.\<close>

datatype parse_answer = Parsed lesson_doc | ParseFailed

definition parseMarkdown_answer :: "parse_answer \<Rightarrow> lesson_doc" where
  "parseMarkdown_answer ans = (case ans of Parsed l \<Rightarrow> l | ParseFailed \<Rightarrow> empty_lesson)"

definition parseMarkdown :: "editor \<Rightarrow> editor" where
  "parseMarkdown ed = send (ReqParse (ed_markdown ed)) ed"

text \<open>An error answer: its body may carry details or a message; an empty one counts as absent.\<close>

record http_error =
  he_details :: "string option"
  he_message :: "string option"

definition truthy :: "string option \<Rightarrow> bool" where
  "truthy v = (case v of None \<Rightarrow> False | Some s \<Rightarrow> s \<noteq> [])"

definition error_text :: "http_error \<Rightarrow> string option" where
  "error_text e = (if truthy (he_details e) then he_details e else if truthy (he_message e) then he_message e else None)"

definition validateContent :: "editor \<Rightarrow> editor" where
  "validateContent ed = parseMarkdown ed"

definition validate_parsed :: "parse_answer \<Rightarrow> editor \<Rightarrow> editor" where
  "validate_parsed ans ed = send (ReqValidate (parseMarkdown_answer ans)) ed"

definition validate_answer :: "bool \<Rightarrow> http_error option \<Rightarrow> editor \<Rightarrow> editor" where
  "validate_answer showSuccess err ed =
     (case err of
        None \<Rightarrow>
          (let ed1 = ed\<lparr>ed_errors := []\<rparr>
           in if showSuccess then alert ''Lesson content is valid!'' ed1 else ed1)
      | Some e \<Rightarrow> ed\<lparr>ed_errors := [case error_text e of Some t \<Rightarrow> t
                                 | None \<Rightarrow> ''An unknown error occurred during validation.'']\<rparr>)"

definition updatePreview :: "editor \<Rightarrow> editor" where
  "updatePreview ed = parseMarkdown ed"

definition preview_of :: "step_doc \<Rightarrow> preview_step" where
  "preview_of s = \<lparr>ps_content = markdownToHtml (sd_content s), ps_commands = slice_elems (sd_commands s),
     ps_expected = sd_expected s, ps_question = sd_question s\<rparr>"

definition preview_answer :: "parse_answer \<Rightarrow> editor \<Rightarrow> editor" where
  "preview_answer ans ed =
     (let lesson = parseMarkdown_answer ans;
          l = ed_lesson ed;
          l1 = l\<lparr>ld_title := (if ld_title lesson \<noteq> [] then ld_title lesson else ld_title l),
                 ld_description := (if ld_description lesson \<noteq> [] then ld_description lesson else ld_description l)\<rparr>
      in validateContent (ed\<lparr>ed_lesson := l1, ed_preview := map preview_of (ld_steps lesson)\<rparr>))"

text \<open>
  A service by the names of its methods, a method as the request it makes, by method and address. Calling a
  method the injected service does not have throws.
\<close>

type_synonym service = "string \<Rightarrow> (string list \<Rightarrow> string \<times> string) option"

definition initWithLesson :: "service \<Rightarrow> string option \<Rightarrow> editor \<Rightarrow> editor outcome" where
  "initWithLesson svc lessonId ed =
     (if \<not> truthy lessonId then Done ed
      else
        (let ed1 = ed\<lparr>ed_isEditing := True, ed_editingId := lessonId\<rparr>
         in if svc ''getLesson'' = None then Throw TypeError ed1 else Done (send (ReqGetLesson (the lessonId)) ed1)))"

definition init_answer :: "lesson_doc \<Rightarrow> bool option \<Rightarrow> editor \<Rightarrow> editor" where
  "init_answer lesson isDraft ed =
     updatePreview (ed\<lparr>ed_lesson := lesson, ed_isDraft := (isDraft = Some True),
       ed_markdown := lessonToMarkdown lesson\<rparr>)"

subsection \<open>Editing\<close>

definition block_template :: "string \<Rightarrow> string" where
  "block_template blockType =
     (if blockType = ''docker'' then fence @ ''docker'' @ nl @ ''# Enter your commands here'' @ nl @ fence @ nl @ nl
      else if blockType = ''expect'' then fence @ ''expect'' @ nl @ ''# Expected output here'' @ nl @ fence @ nl @ nl
      else if blockType = ''question'' then fence @ ''question'' @ nl @ ''# Your question here'' @ nl @ fence @ nl @ nl
      else [])"

definition insertBlock :: "string \<Rightarrow> nat \<Rightarrow> nat \<Rightarrow> editor \<Rightarrow> editor" where
  "insertBlock blockType selStart selEnd ed =
     updatePreview (ed\<lparr>ed_markdown := take selStart (ed_markdown ed) @ block_template blockType @ drop selEnd (ed_markdown ed)\<rparr>)"

text \<open>The timeout that selects the placeholder; it throws when the template has no second line.\<close>

definition insertBlock_select :: "string \<Rightarrow> nat \<Rightarrow> editor \<Rightarrow> editor outcome" where
  "insertBlock_select blockType selStart ed =
     (let t = block_template blockType; parts = js_split nl t
      in if length parts < 2 then Throw TypeError ed
         else
           (let newCursorPos = int selStart + js_indexOf t (CHR ''#'')
            in Done (ed\<lparr>ed_cursor := Some (nat newCursorPos, nat newCursorPos + length (parts ! 1))\<rparr>)))"

text \<open>\<open>trim\<close> of a JavaScript string.\<close>

definition js_space :: "char \<Rightarrow> bool" where
  "js_space c = (c \<in> {CHR 0x09, CHR 0x0A, CHR 0x0B, CHR 0x0C, CHR 0x0D, CHR 0x20, CHR 0xA0})"

definition js_trim :: "string \<Rightarrow> string" where
  "js_trim s = rev (dropWhile js_space (rev (dropWhile js_space s)))"

definition loadTemplate :: "editor \<Rightarrow> editor" where
  "loadTemplate ed = dialog ''show'' ed"

definition template_chosen :: "string option \<Rightarrow> bool \<Rightarrow> editor \<Rightarrow> editor" where
  "template_chosen content confirmed ed =
     (case content of
        None \<Rightarrow> ed
      | Some c \<Rightarrow>
          if js_trim (ed_markdown ed) \<noteq> [] \<and> \<not> confirmed then ed
          else updatePreview (ed\<lparr>ed_markdown := c\<rparr>))"

definition editor_cancel :: "bool \<Rightarrow> editor \<Rightarrow> editor" where
  "editor_cancel confirmed ed =
     (if js_trim (ed_markdown ed) \<noteq> [] \<and> \<not> confirmed then ed else dialog ''cancel'' ed)"

subsection \<open>Saving\<close>

definition saveLesson :: "editor \<Rightarrow> editor" where
  "saveLesson ed = parseMarkdown ed"

definition save_parsed :: "bool \<Rightarrow> parse_answer \<Rightarrow> editor \<Rightarrow> editor" where
  "save_parsed isDraft ans ed =
     (let lesson = parseMarkdown_answer ans
      in if ed_isEditing ed then send (ReqPut (''/api/lessons/'' @ js_str (ed_editingId ed)) lesson isDraft) ed
         else send (ReqPost lesson isDraft) ed)"

definition save_answer :: "bool \<Rightarrow> http_error option \<Rightarrow> editor \<Rightarrow> editor" where
  "save_answer isDraft err ed =
     (case err of
        None \<Rightarrow> dialog ''hide'' (alert (if isDraft then ''Lesson saved as draft!'' else ''Lesson published successfully!'') ed)
      | Some e \<Rightarrow> alert (case error_text e of Some t \<Rightarrow> ''Error: '' @ t
                         | None \<Rightarrow> ''An unknown error occurred while saving the lesson.'') ed)"

definition saveAsDraft :: "editor \<Rightarrow> editor" where "saveAsDraft ed = saveLesson ed"
definition saveAndPublish :: "editor \<Rightarrow> editor" where "saveAndPublish ed = saveLesson ed"

subsection \<open>Templates\<close>

record lesson_template =
  lt_name :: string
  lt_description :: string
  lt_content :: string

definition linux_template :: lesson_template where
  "linux_template =
     \<lparr>lt_name = ''Basic Linux Commands'', lt_description = ''A simple lesson introducing basic Linux commands'',
      lt_content = js_join nl [
       ''# Introduction to Linux Commands'',
       [],
       ''This lesson introduces basic Linux commands for navigating the file system and working with files.'',
       [],
       ''## Step 1: Navigating the File System'',
       [],
       ''Let'' @ [CHR 0x27] @ ''s start by exploring the file system. The '' @ ''`'' @ ''pwd'' @ ''`'' @ '' command shows your current directory:'',
       [],
       fence @ ''docker'',
       ''pwd'',
       fence,
       [],
       fence @ ''expect'',
       ''/home/user'',
       fence,
       [],
       ''Now let'' @ [CHR 0x27] @ ''s list the files in the current directory:'',
       [],
       fence @ ''docker'',
       ''ls -la'',
       fence,
       [],
       ''## Step 2: Creating Files'',
       [],
       ''Let'' @ [CHR 0x27] @ ''s create a new file:'',
       [],
       fence @ ''docker'',
       ''echo '' @ [CHR 0x22] @ ''Hello, World!'' @ [CHR 0x22] @ '' > hello.txt'',
       ''cat hello.txt'',
       fence,
       [],
       fence @ ''expect'',
       ''Hello, World!'',
       fence,
       [],
       fence @ ''question'',
       ''What command would you use to create a directory?'',
       fence,
       []]\<rparr>"

definition docker_template :: lesson_template where
  "docker_template =
     \<lparr>lt_name = ''Docker Basics'', lt_description = ''Introduction to Docker commands and concepts'',
      lt_content = js_join nl [
       ''# Docker Basics'',
       [],
       ''This lesson introduces basic Docker commands and concepts.'',
       [],
       ''## Step 1: Checking Docker Version'',
       [],
       ''Let'' @ [CHR 0x27] @ ''s start by checking the Docker version:'',
       [],
       fence @ ''docker'',
       ''docker --version'',
       fence,
       [],
       ''## Step 2: Running a Container'',
       [],
       ''Now let'' @ [CHR 0x27] @ ''s run a simple container:'',
       [],
       fence @ ''docker'',
       ''docker run --rm hello-world'',
       fence,
       [],
       ''## Step 3: Listing Containers'',
       [],
       ''Let'' @ [CHR 0x27] @ ''s list all running containers:'',
       [],
       fence @ ''docker'',
       ''docker ps'',
       fence,
       [],
       fence @ ''question'',
       ''What command would you use to stop a running container?'',
       fence,
       []]\<rparr>"

definition git_template :: lesson_template where
  "git_template =
     \<lparr>lt_name = ''Git Basics'', lt_description = ''Introduction to Git version control'',
      lt_content = js_join nl [
       ''# Git Basics'',
       [],
       ''This lesson introduces basic Git commands for version control.'',
       [],
       ''## Step 1: Initializing a Repository'',
       [],
       ''Let'' @ [CHR 0x27] @ ''s start by creating a new directory and initializing a Git repository:'',
       [],
       fence @ ''docker'',
       ''mkdir git-demo'',
       ''cd git-demo'',
       ''git init'',
       fence,
       [],
       ''## Step 2: Making Changes'',
       [],
       ''Now let'' @ [CHR 0x27] @ ''s create a file and make our first commit:'',
       [],
       fence @ ''docker'',
       ''echo '' @ [CHR 0x22] @ ''# Git Demo'' @ [CHR 0x22] @ '' > README.md'',
       ''git add README.md'',
       ''git config --global user.email '' @ [CHR 0x22] @ ''user@example.com'' @ [CHR 0x22],
       ''git config --global user.name '' @ [CHR 0x22] @ ''Example User'' @ [CHR 0x22],
       ''git commit -m '' @ [CHR 0x22] @ ''Initial commit'' @ [CHR 0x22],
       fence,
       [],
       ''## Step 3: Viewing History'',
       [],
       ''Let'' @ [CHR 0x27] @ ''s check the commit history:'',
       [],
       fence @ ''docker'',
       ''git log --oneline'',
       fence,
       [],
       fence @ ''question'',
       ''What command would you use to create a new branch in Git?'',
       fence,
       []]\<rparr>"

definition templates :: "lesson_template list" where
  "templates = [linux_template, docker_template, git_template]"

definition selectTemplate :: "lesson_template \<Rightarrow> bool \<Rightarrow> editor \<Rightarrow> editor" where
  "selectTemplate t confirmed ed = template_chosen (Some (lt_content t)) confirmed (dialog ''hide'' ed)"

definition template_cancel :: "editor \<Rightarrow> editor" where
  "template_cancel ed = dialog ''cancel'' ed"

subsection \<open>The service and the browser\<close>

text \<open>
  \<open>app.js\<close> registers \<open>LessonService\<close> with three
  methods; \<open>lesson-editor.js\<close>, loaded after it, registers a service of the same name, and the
  later registration replaces the earlier.
\<close>

definition app_LessonService :: service where
  "app_LessonService = (\<lambda>_. None)(
     ''getAvailableLessons'' := Some (\<lambda>_. (''GET'', ''/api/lessons'')),
     ''getLesson'' := Some (\<lambda>args. (''GET'', ''/api/lessons/'' @ args ! 0)),
     ''validateStep'' := Some (\<lambda>args. (''POST'', ''/api/lessons/'' @ args ! 0 @ ''/steps/'' @ args ! 1 @ ''/validate'')))"

definition editor_LessonService :: service where
  "editor_LessonService = (\<lambda>_. None)(
     ''parseMarkdown'' := Some (\<lambda>_. (''POST'', ''/api/lessons/parse'')),
     ''validateLesson'' := Some (\<lambda>_. (''POST'', ''/api/lessons/validate'')))"

definition register :: "string \<Rightarrow> service \<Rightarrow> (string \<rightharpoonup> service) \<Rightarrow> (string \<rightharpoonup> service)" where
  "register name svc services = services(name \<mapsto> svc)"

text \<open>Both scripts of the page in their order.\<close>

definition injector :: "string \<rightharpoonup> service" where
  "injector = register ''LessonService'' editor_LessonService (register ''LessonService'' app_LessonService (\<lambda>_. None))"

text \<open>The lesson browser: its list, the dialogs it opens and the requests it makes.\<close>

record browser =
  lb_lessons :: "lesson_doc list"
  lb_requests :: nat \<comment> \<open>calls of \<open>getAvailableLessons\<close>\<close>
  lb_dialog :: "string list"

definition loadLessons :: "service \<Rightarrow> browser \<Rightarrow> browser outcome" where
  "loadLessons svc b =
     (if svc ''getAvailableLessons'' = None then Throw TypeError b else Done (b\<lparr>lb_requests := lb_requests b + 1\<rparr>))"

definition lessons_answer :: "lesson_doc list \<Rightarrow> browser \<Rightarrow> browser" where
  "lessons_answer ls b = b\<lparr>lb_lessons := ls\<rparr>"

definition selectLesson :: "browser \<Rightarrow> browser" where
  "selectLesson b = b\<lparr>lb_dialog := lb_dialog b @ [''hide'']\<rparr>"

definition createNewLesson :: "browser \<Rightarrow> browser" where
  "createNewLesson b = b\<lparr>lb_dialog := lb_dialog b @ [''show'']\<rparr>"

definition editLesson :: "browser \<Rightarrow> browser" where
  "editLesson b = b\<lparr>lb_dialog := lb_dialog b @ [''show'']\<rparr>"

text \<open>Either dialog closed with a result reloads the list.\<close>

definition editor_closed :: "service \<Rightarrow> browser \<Rightarrow> browser outcome" where
  "editor_closed svc b = loadLessons svc b"

definition browser_cancel :: "browser \<Rightarrow> browser" where
  "browser_cancel b = b\<lparr>lb_dialog := lb_dialog b @ [''cancel'']\<rparr>"

subsection \<open>Properties\<close>

lemmas editor_simps = updatePreview_def validateContent_def parseMarkdown_def saveLesson_def send_def alert_def dialog_def

text \<open>
  Editing an existing lesson and saving it without a change, where the service can load it and the lesson is
  portable (each step ends with an expected output or a question). The editor prints the lesson, the
  server parses the text, and the editor puts the parse result back under the lesson's address:
  title, description, commands, expected outputs and questions as they were, and every step's
  content replaced by the empty string.
\<close>

theorem save_unchanged_drops_content:
  assumes "portable_lesson l" and "ed_isEditing ed" and "ed_editingId ed = Some i"
  shows "last (ed_requests (save_parsed draft (Parsed (parse_lesson (ed_markdown (init_answer l d ed)))) (init_answer l d ed))) =
    ReqPut (''/api/lessons/'' @ i) (l\<lparr>ld_steps := map (\<lambda>s. s\<lparr>sd_content := []\<rparr>) (ld_steps l)\<rparr>) draft"
proof -
  have "list_all writable_step (ld_steps l)" and "portable_head l"
    using assms(1) by (auto simp: portable_lesson_def portable_step_def list_all_iff)
  then have "parse_lesson (lessonToMarkdown l) = l\<lparr>ld_steps := map without_content (ld_steps l)\<rparr>"
    using assms(1) parse_printed [of l] process_steps [of "ld_steps l" "[]"] by (simp add: portable_lesson_def)
  moreover have "without_content = (\<lambda>s. s\<lparr>sd_content := []\<rparr>)" by (simp add: without_content_def fun_eq_iff)
  ultimately show ?thesis
    using assms(2,3) by (simp add: save_parsed_def init_answer_def editor_simps parseMarkdown_answer_def js_str_def)
qed

theorem save_unchanged_drops_content_witness:
  "let ed = init_answer demo_lesson None (outcome_state (initWithLesson app_LessonService (Some ''7'') new_editor))
   in last (ed_requests (save_parsed False (Parsed (parse_lesson (ed_markdown ed))) ed)) =
     ReqPut ''/api/lessons/7'' (demo_lesson\<lparr>ld_steps := map (\<lambda>s. s\<lparr>sd_content := []\<rparr>) (ld_steps demo_lesson)\<rparr>) False"
proof -
  have "portable_lesson demo_lesson"
    by (simp add: portable_lesson_def portable_head_def demo_lesson_def portable_step_def writable_step_def slice_elems_def
        clean_line_def trim_space_def is_space_def no_sub_def)
  then show ?thesis
    using save_unchanged_drops_content [of demo_lesson "outcome_state (initWithLesson app_LessonService (Some ''7'') new_editor)" "''7''" False None]
    by (simp add: Let_def initWithLesson_def truthy_def new_editor_def send_def app_LessonService_def)
qed

text \<open>
  A failed parse is not reported: when the server cannot parse the text, or cannot be reached,
  saving sends an empty lesson; with an existing lesson open it is put over that lesson.
\<close>

theorem save_after_failed_parse:
  "ed_requests (save_parsed draft ParseFailed ed) = ed_requests ed @
     [if ed_isEditing ed then ReqPut (''/api/lessons/'' @ js_str (ed_editingId ed)) empty_lesson draft
      else ReqPost empty_lesson draft] \<and>
   ed_alerts (save_parsed draft ParseFailed ed) = ed_alerts ed"
  by (simp add: save_parsed_def parseMarkdown_answer_def send_def)

text \<open>The placeholder line of a block template.\<close>

definition placeholder :: "string \<Rightarrow> string" where
  "placeholder k = (if k = ''docker'' then ''# Enter your commands here''
     else if k = ''expect'' then ''# Expected output here'' else ''# Your question here'')"

lemma js_split_line: "CHR 0x0A \<notin> set a \<Longrightarrow> js_split nl (a @ nl @ b) = a # js_split nl b"
proof -
  assume "CHR 0x0A \<notin> set a"
  then have "split_at nl (a @ nl @ b) = Some (a, b)" by (induction a) auto
  then show ?thesis by (subst js_split.simps) simp
qed

lemma block_template_parts:
  assumes "k \<in> set kinds"
  shows "block_template k = (fence @ k) @ nl @ placeholder k @ nl @ fence @ nl @ nl"
    and "js_split nl (block_template k) ! 1 = placeholder k" and "length (js_split nl (block_template k)) \<ge> 2"
    and "js_indexOf (block_template k) (CHR ''#'') = int (length fence + length k + 1)"
proof -
  show t: "block_template k = (fence @ k) @ nl @ placeholder k @ nl @ fence @ nl @ nl"
    using assms by (auto simp: kinds_def block_template_def placeholder_def)
  have "CHR 0x0A \<notin> set (fence @ k)" "CHR 0x0A \<notin> set (placeholder k)"
    using assms by (auto simp: kinds_def placeholder_def)
  then have s: "js_split nl (block_template k) = (fence @ k) # placeholder k # js_split nl (fence @ nl @ nl)"
    using js_split_line [of "fence @ k" "placeholder k @ nl @ fence @ nl @ nl"]
      js_split_line [of "placeholder k" "fence @ nl @ nl"] by (simp add: t)
  show "js_split nl (block_template k) ! 1 = placeholder k" "length (js_split nl (block_template k)) \<ge> 2"
    by (simp_all add: s)
  show "js_indexOf (block_template k) (CHR ''#'') = int (length fence + length k + 1)"
    using assms by (auto simp: kinds_def block_template_def js_indexOf_def)
qed

text \<open>
  Inserting a block replaces the selected text and nothing else, and the selection it then
  makes covers exactly the placeholder line of the inserted block, whatever stands before it.
\<close>

theorem insert_block_selects_placeholder:
  assumes "k \<in> set kinds" and "a \<le> b" and "b \<le> length (ed_markdown ed)"
  shows "ed_markdown (insertBlock k a b ed) = take a (ed_markdown ed) @ block_template k @ drop b (ed_markdown ed) \<and>
    (\<exists>i j ed'. insertBlock_select k a ed = Done ed' \<and> ed_cursor ed' = Some (i, j) \<and>
      take (j - i) (drop i (ed_markdown (insertBlock k a b ed))) = placeholder k)"
proof -
  note parts = block_template_parts [OF assms(1)]
  let ?i = "a + length fence + length k + 1"
  have "insertBlock_select k a ed = Done (ed\<lparr>ed_cursor := Some (?i, ?i + length (placeholder k))\<rparr>)"
    using parts(2-4) by (simp add: insertBlock_select_def Let_def nat_add_distrib nat_int_add)
  moreover have "take (length (placeholder k)) (drop ?i (take a (ed_markdown ed) @ block_template k @ drop b (ed_markdown ed))) =
      placeholder k"
  proof -
    let ?pre = "take a (ed_markdown ed) @ (fence @ k) @ nl"
    have "length ?pre = ?i" using assms(2,3) by simp
    then have "drop ?i (?pre @ placeholder k @ t) = placeholder k @ t" for t by (metis append_eq_conv_conj)
    from this [of "nl @ fence @ nl @ nl @ drop b (ed_markdown ed)"] show ?thesis
      unfolding parts(1) by (simp del: drop_append)
  qed
  ultimately show ?thesis by (simp add: insertBlock_def editor_simps)
qed

theorem insert_block_selects_placeholder_witness:
  "\<exists>i j ed'. insertBlock_select ''docker'' 2 (new_editor\<lparr>ed_markdown := ''abcd''\<rparr>) = Done ed' \<and> ed_cursor ed' = Some (i, j) \<and>
     take (j - i) (drop i (ed_markdown (insertBlock ''docker'' 2 3 (new_editor\<lparr>ed_markdown := ''abcd''\<rparr>)))) =
     ''# Enter your commands here''"
  using insert_block_selects_placeholder [of "''docker''" 2 3 "new_editor\<lparr>ed_markdown := ''abcd''\<rparr>", THEN conjunct2]
  by (simp add: kinds_def placeholder_def)

text \<open>
  Text is not thrown away unasked: with anything but blanks in the editor, a template choice or
  a cancel that the user does not confirm changes nothing.
\<close>

theorem unconfirmed_keeps_text:
  assumes "js_trim (ed_markdown ed) \<noteq> []"
  shows "template_chosen content False ed = ed \<and> editor_cancel False ed = ed"
  using assms by (simp add: template_chosen_def editor_cancel_def split: option.split)

theorem unconfirmed_keeps_text_witness:
  "template_chosen (Some (lt_content git_template)) False (new_editor\<lparr>ed_markdown := ''# x''\<rparr>) = new_editor\<lparr>ed_markdown := ''# x''\<rparr>"
  using unconfirmed_keeps_text [of "new_editor\<lparr>ed_markdown := ''# x''\<rparr>" "Some (lt_content git_template)"]
  by (simp add: js_trim_def js_space_def)

text \<open>
  After both scripts have run the injected \<open>LessonService\<close> has neither \<open>getLesson\<close> nor
  \<open>getAvailableLessons\<close> nor \<open>validateStep\<close>: the methods every other part of the page calls.
\<close>

theorem lesson_service_replaced:
  "injector ''LessonService'' = Some editor_LessonService \<and>
   (\<forall>m. app_LessonService m \<noteq> None \<longrightarrow> editor_LessonService m = None)"
  by (simp add: injector_def register_def app_LessonService_def editor_LessonService_def)

theorem lesson_service_replaced_witness:
  "app_LessonService ''getLesson'' \<noteq> None \<and> editor_LessonService ''getLesson'' = None"
  using lesson_service_replaced by (simp add: app_LessonService_def)

text \<open>
  So with both scripts on a page opening a lesson to edit it never loads it: the call throws with the editor
  already in editing mode, and saving then puts what the empty editor holds over the lesson.
\<close>

theorem editing_overwrites_lesson:
  assumes "i \<noteq> []"
  shows "\<exists>ed. initWithLesson (the (injector ''LessonService'')) (Some i) new_editor = Throw TypeError ed \<and> ed_markdown ed = [] \<and>
    ed_requests (save_parsed draft (Parsed (parse_lesson (ed_markdown ed))) (saveLesson ed)) =
      [ReqParse [], ReqPut (''/api/lessons/'' @ i) empty_lesson draft]"
proof -
  have "parse_lesson [] = empty_lesson" by (simp add: parse_lesson_def scan_lines_def empty_lesson_def)
  with assms show ?thesis
    by (simp add: injector_def register_def editor_LessonService_def initWithLesson_def truthy_def new_editor_def
        save_parsed_def parseMarkdown_answer_def editor_simps js_str_def)
qed

theorem editing_overwrites_lesson_witness:
  "\<exists>ed. initWithLesson (the (injector ''LessonService'')) (Some ''7'') new_editor = Throw TypeError ed"
  using editing_overwrites_lesson [of "''7''" False] by auto

end
