(* ===== verification/Attach.thy ===== *)
theory Attach
  imports JS_Prelude
begin

text \<open>
  The add-on that attaches a terminal to a socket (\<open>attach.js\<close>): messages are written to the
  terminal at once or collected and written by a timeout, typed data goes to the socket.
\<close>

subsection \<open>State and operations\<close>

record attached =
  at_socket :: bool              \<comment> \<open>\<open>term.socket\<close> is set\<close>
  at_onMessage :: bool           \<comment> \<open>\<open>_getMessage\<close> listens on the socket\<close>
  at_onData :: bool              \<comment> \<open>\<open>_sendData\<close> listens on the terminal\<close>
  at_buffered :: bool
  at_buffer :: "string option"   \<comment> \<open>\<open>_attachSocketBuffer\<close>, \<open>None\<close> for \<open>null\<close> or \<open>undefined\<close>\<close>
  at_timers :: nat               \<comment> \<open>pending timeouts of \<open>_flushBuffer\<close>\<close>
  at_written :: "string option list" \<comment> \<open>calls of \<open>term.write\<close>\<close>
  at_sent :: "string list"       \<comment> \<open>calls of \<open>socket.send\<close>\<close>

definition attach :: "bool option \<Rightarrow> bool \<Rightarrow> attached \<Rightarrow> attached" where
  "attach bidirectional buffered t =
     (let bidirectional = (case bidirectional of None \<Rightarrow> True | Some b \<Rightarrow> b);
          t1 = t\<lparr>at_socket := True, at_buffered := buffered, at_onMessage := True\<rparr>
      in if bidirectional then t1\<lparr>at_onData := True\<rparr> else t1)"

text \<open>
  The timer's handle is never stored, so \<open>clearTimeout\<close> clears nothing; the timeout that runs the
  function is used up.
\<close>

definition flushBuffer :: "attached \<Rightarrow> attached" where
  "flushBuffer t = t\<lparr>at_written := at_written t @ [at_buffer t], at_buffer := None\<rparr>"

definition flush_timeout :: "attached \<Rightarrow> attached" where
  "flush_timeout t = (if at_timers t = 0 then t else flushBuffer (t\<lparr>at_timers := at_timers t - 1\<rparr>))"

definition pushToBuffer :: "string \<Rightarrow> attached \<Rightarrow> attached" where
  "pushToBuffer data t =
     (case at_buffer t of
        Some b \<Rightarrow>
          if b \<noteq> [] then t\<lparr>at_buffer := Some (b @ data)\<rparr>
          else t\<lparr>at_buffer := Some data, at_timers := at_timers t + 1\<rparr>
      | None \<Rightarrow> t\<lparr>at_buffer := Some data, at_timers := at_timers t + 1\<rparr>)"

definition getMessage :: "string \<Rightarrow> attached \<Rightarrow> attached" where
  "getMessage data t =
     (if \<not> at_onMessage t then t
      else if at_buffered t then pushToBuffer data t else t\<lparr>at_written := at_written t @ [Some data]\<rparr>)"

definition sendData :: "string \<Rightarrow> attached \<Rightarrow> attached" where
  "sendData data t = (if at_onData t then t\<lparr>at_sent := at_sent t @ [data]\<rparr> else t)"

text \<open>Called with the socket by its \<open>close\<close> and \<open>error\<close> events.\<close>

definition detach :: "attached \<Rightarrow> attached" where
  "detach t = t\<lparr>at_onData := False, at_onMessage := False, at_socket := False\<rparr>"

subsection \<open>Runs\<close>

datatype attach_event = Message string | FlushTimeout | TypedData string | SocketClosed

fun attach_step :: "attach_event \<Rightarrow> attached \<Rightarrow> attached" where
  "attach_step (Message d) t = getMessage d t"
| "attach_step FlushTimeout t = flush_timeout t"
| "attach_step (TypedData d) t = sendData d t"
| "attach_step SocketClosed t = detach t"

fun messages :: "attach_event list \<Rightarrow> string" where
  "messages [] = []"
| "messages (Message d # es) = d @ messages es"
| "messages (_ # es) = messages es"

definition text_of :: "string option \<Rightarrow> string" where
  "text_of v = (case v of None \<Rightarrow> [] | Some s \<Rightarrow> s)"

definition received :: "attached \<Rightarrow> string" where
  "received t = concat (map text_of (at_written t)) @ text_of (at_buffer t)"

definition new_attached :: attached where
  "new_attached = \<lparr>at_socket = False, at_onMessage = False, at_onData = False, at_buffered = False, at_buffer = None,
     at_timers = 0, at_written = [], at_sent = []\<rparr>"

text \<open>What a run with non-empty messages keeps: one timeout exactly while something is collected.\<close>

definition attach_inv :: "attached \<Rightarrow> bool" where
  "attach_inv t \<longleftrightarrow> at_onMessage t \<and> None \<notin> set (at_written t) \<and> at_buffer t \<noteq> Some [] \<and>
     (at_buffered t \<longrightarrow> at_timers t = (if at_buffer t = None then 0 else 1)) \<and>
     (\<not> at_buffered t \<longrightarrow> at_timers t = 0 \<and> at_buffer t = None)"

lemma attach_step_inv:
  "attach_inv t \<Longrightarrow> e \<noteq> SocketClosed \<Longrightarrow> e \<noteq> Message [] \<Longrightarrow>
   attach_inv (attach_step e t) \<and> received (attach_step e t) = received t @ messages [e]"
  by (cases e)
    (auto simp: attach_inv_def getMessage_def pushToBuffer_def flush_timeout_def flushBuffer_def sendData_def received_def
      text_of_def split: option.splits if_splits)

lemma messages_Cons: "messages (e # es) = messages [e] @ messages es"
  by (cases e) simp_all

lemma attach_run_inv:
  "attach_inv t \<Longrightarrow> SocketClosed \<notin> set es \<Longrightarrow> Message [] \<notin> set es \<Longrightarrow>
   attach_inv (fold attach_step es t) \<and> received (fold attach_step es t) = received t @ messages es"
proof (induction es arbitrary: t)
  case (Cons e es)
  then have "attach_inv (attach_step e t)" "received (attach_step e t) = received t @ messages [e]"
    using attach_step_inv [of t e] by auto
  with Cons show ?case using messages_Cons [of e es] by simp
qed simp

subsection \<open>Properties\<close>

text \<open>
  C34. While the socket is attached and its messages are not empty, the terminal receives every
  message once and in order, buffered or not: what has been written followed by what is collected
  is the concatenation of the messages, nothing is written that is not text, at most one timeout is
  pending, and when it fires everything received has been written.
\<close>

theorem attached_messages_in_order:
  assumes "SocketClosed \<notin> set es" and "Message [] \<notin> set es"
  shows "let t = fold attach_step es (attach bidir buffered new_attached)
    in received t = messages es \<and> None \<notin> set (at_written t) \<and> at_timers t \<le> 1 \<and>
       concat (map text_of (at_written (flush_timeout t))) = messages es"
proof -
  let ?t = "fold attach_step es (attach bidir buffered new_attached)"
  have "attach_inv (attach bidir buffered new_attached)" "received (attach bidir buffered new_attached) = []"
    by (auto simp: attach_inv_def attach_def new_attached_def received_def text_of_def Let_def)
  then have inv: "attach_inv ?t" and rec: "received ?t = messages es"
    using attach_run_inv [OF _ assms, of "attach bidir buffered new_attached"] by auto
  have "concat (map text_of (at_written (flush_timeout ?t))) = received ?t"
    using inv by (cases "at_buffered ?t"; cases "at_buffer ?t")
      (auto simp: attach_inv_def flush_timeout_def flushBuffer_def received_def text_of_def)
  then show ?thesis using inv rec by (auto simp: attach_inv_def Let_def split: if_splits)
qed

theorem attached_messages_in_order_witness:
  "concat (map text_of (at_written (flush_timeout
     (fold attach_step [Message ''a'', TypedData ''x'', Message ''b''] (attach None True new_attached))))) = ''ab''"
  using attached_messages_in_order [of "[Message ''a'', TypedData ''x'', Message ''b'']" None True]
  by (simp add: Let_def)

text \<open>
  An empty message breaks this in buffered mode: the empty string does not count as a collected
  text, so the next message sets a second timeout, and the later of the two writes \<open>null\<close>.
\<close>

theorem empty_message_writes_null:
  assumes "d \<noteq> []"
  shows "at_written (fold attach_step [Message [], Message d, FlushTimeout, FlushTimeout] (attach bidir True new_attached)) =
    [Some d, None]"
  using assms
  by (simp add: attach_def new_attached_def getMessage_def pushToBuffer_def flush_timeout_def flushBuffer_def Let_def)

theorem empty_message_writes_null_witness:
  "at_written (fold attach_step [Message [], Message ''a'', FlushTimeout, FlushTimeout] (attach None True new_attached)) =
    [Some ''a'', None]"
  using empty_message_writes_null [of "''a''"] by simp

end
