(* ===== verification/TextDecoder.thy ===== *)
theory TextDecoder
  imports JS_Prelude "HOL-Library.Word"
begin

text \<open>
  The input decoders of the terminal (\<open>core/input/TextDecoder\<close> in \<open>xterm.js\<close>): UTF-16 code units and
  UTF-8 bytes to code points, in chunks. Code units, bytes and code points are natural numbers; a
  decoder's call returns its new interim state and the code points in the order it writes them to its target,
  whose number is what the source returns. The target is a typed array of fixed length, which drops writes beyond its
  end; reading there gives \<open>undefined\<close>.
\<close>

unbundle bit_operations_syntax

text \<open>A string as the list of its code units.\<close>

type_synonym units = "nat list"

text \<open>
  \<open>undefined\<close> in the place of a code point is a number that is none. Comparisons with it are false, and
  where an integer or a code unit is needed it is 0.
\<close>

abbreviation undefined_code :: nat where "undefined_code \<equiv> 0x100000000"

definition stored :: "nat \<Rightarrow> nat list \<Rightarrow> nat list" where
  "stored room points = take room points @ replicate (length points - room) undefined_code"

lemma stored_fits [simp]: "length points \<le> room \<Longrightarrow> stored room points = points"
  by (simp add: stored_def)

subsection \<open>Code points to UTF-16\<close>

definition stringFromCodePoint :: "nat \<Rightarrow> nat list" where
  "stringFromCodePoint codePoint =
     (if codePoint = undefined_code then [0]
      else if codePoint > 0xFFFF
      then [drop_bit 10 (codePoint - 0x10000) + 0xD800, (codePoint - 0x10000) mod 0x400 + 0xDC00]
      else [codePoint])"

text \<open>The loop body of \<open>utf32ToString\<close> is \<open>stringFromCodePoint\<close> written out again.\<close>

definition utf32ToString :: "nat list \<Rightarrow> nat \<Rightarrow> nat \<Rightarrow> nat list" where
  "utf32ToString data start stop =
     for_up (int start) (int stop) (\<lambda>i result.
       (let codepoint = data ! nat i
        in result @ (if codepoint = undefined_code then [0]
                     else if codepoint > 0xFFFF
                     then [drop_bit 10 (codepoint - 0x10000) + 0xD800, (codepoint - 0x10000) mod 0x400 + 0xDC00]
                     else [codepoint]))) []"

subsection \<open>UTF-16 to code points\<close>

definition is_high :: "nat \<Rightarrow> bool" where "is_high c = (0xD800 \<le> c \<and> c \<le> 0xDBFF)"
definition is_low :: "nat \<Rightarrow> bool" where "is_low c = (0xDC00 \<le> c \<and> c \<le> 0xDFFF)"

definition combine :: "nat \<Rightarrow> nat \<Rightarrow> nat" where
  "combine c second = (c - 0xD800) * 0x400 + second - 0xDC00 + 0x10000"

text \<open>The main loop: the interim state it leaves and what it stores.\<close>

fun s32_loop :: "nat list \<Rightarrow> nat \<times> nat list" where
  "s32_loop [] = (0, [])"
| "s32_loop (code # rest) =
     (if is_high code then
        (case rest of
           [] \<Rightarrow> (code, [])
         | second # rest' \<Rightarrow>
             (let (interim, out) = s32_loop rest'
              in (interim, (if is_low second then [combine code second] else [code, second]) @ out)))
      else (let (interim, out) = s32_loop rest in (interim, code # out)))"

definition s32_decode :: "nat \<Rightarrow> nat list \<Rightarrow> nat \<times> nat list" where
  "s32_decode interim input =
     (case input of
        [] \<Rightarrow> (interim, [])
      | second # rest \<Rightarrow>
          if interim \<noteq> 0 then
            (let (interim', out) = s32_loop rest
             in (interim', (if is_low second then [combine interim second] else [interim, second]) @ out))
          else s32_loop input)"

definition s32_clear :: "nat \<Rightarrow> nat" where "s32_clear interim = 0"

subsection \<open>UTF-8 to code points\<close>

definition is_cont :: "nat \<Rightarrow> bool" where "is_cont b = (b AND 0xC0 = 0x80)"

text \<open>The code points of two, three and four bytes.\<close>

definition u8_cp2 :: "nat \<Rightarrow> nat \<Rightarrow> nat" where
  "u8_cp2 byte1 byte2 = push_bit 6 (byte1 AND 0x1F) OR (byte2 AND 0x3F)"

definition u8_cp3 :: "nat \<Rightarrow> nat \<Rightarrow> nat \<Rightarrow> nat" where
  "u8_cp3 byte1 byte2 byte3 =
     (push_bit 12 (byte1 AND 0x0F) OR push_bit 6 (byte2 AND 0x3F)) OR (byte3 AND 0x3F)"

definition u8_cp4 :: "nat \<Rightarrow> nat \<Rightarrow> nat \<Rightarrow> nat \<Rightarrow> nat" where
  "u8_cp4 byte1 byte2 byte3 byte4 =
     ((push_bit 18 (byte1 AND 0x07) OR push_bit 12 (byte2 AND 0x3F)) OR push_bit 6 (byte3 AND 0x3F)) OR (byte4 AND 0x3F)"

text \<open>
  The main loop on the bytes left, with the interim bytes it leaves. The first clause is the fast
  path: four ASCII bytes with at least one more byte behind them.
\<close>

function u8_loop :: "nat list \<Rightarrow> nat list \<times> nat list" and u8_slow :: "nat list \<Rightarrow> nat list \<times> nat list" where
  "u8_loop bytes =
     (case bytes of
        b1 # b2 # b3 # b4 # b5 # rest \<Rightarrow>
          if b1 AND 0x80 = 0 \<and> b2 AND 0x80 = 0 \<and> b3 AND 0x80 = 0 \<and> b4 AND 0x80 = 0
          then (let (interim, out) = u8_loop (b5 # rest) in (interim, [b1, b2, b3, b4] @ out))
          else u8_slow bytes
      | _ \<Rightarrow> u8_slow bytes)"
| "u8_slow bytes =
     (case bytes of
        [] \<Rightarrow> ([0, 0, 0], [])
      | byte1 # r1 \<Rightarrow>
          if byte1 < 0x80 then (let (interim, out) = u8_loop r1 in (interim, byte1 # out))
          else if byte1 AND 0xE0 = 0xC0 then
            (case r1 of
               [] \<Rightarrow> ([byte1, 0, 0], [])
             | byte2 # r2 \<Rightarrow>
                 if \<not> is_cont byte2 then u8_loop r1
                 else
                   (let codepoint = u8_cp2 byte1 byte2
                    in if codepoint < 0x80 then u8_loop r1
                       else (let (interim, out) = u8_loop r2 in (interim, codepoint # out))))
          else if byte1 AND 0xF0 = 0xE0 then
            (case r1 of
               [] \<Rightarrow> ([byte1, 0, 0], [])
             | byte2 # r2 \<Rightarrow>
                 if \<not> is_cont byte2 then u8_loop r1
                 else
                   (case r2 of
                      [] \<Rightarrow> ([byte1, byte2, 0], [])
                    | byte3 # r3 \<Rightarrow>
                        if \<not> is_cont byte3 then u8_loop r2
                        else
                          (let codepoint = u8_cp3 byte1 byte2 byte3
                           in if codepoint < 0x0800 \<or> (codepoint \<ge> 0xD800 \<and> codepoint \<le> 0xDFFF) then u8_loop r3
                              else (let (interim, out) = u8_loop r3 in (interim, codepoint # out)))))
          else if byte1 AND 0xF8 = 0xF0 then
            (case r1 of
               [] \<Rightarrow> ([byte1, 0, 0], [])
             | byte2 # r2 \<Rightarrow>
                 if \<not> is_cont byte2 then u8_loop r1
                 else
                   (case r2 of
                      [] \<Rightarrow> ([byte1, byte2, 0], [])
                    | byte3 # r3 \<Rightarrow>
                        if \<not> is_cont byte3 then u8_loop r2
                        else
                          (case r3 of
                             [] \<Rightarrow> ([byte1, byte2, byte3], [])
                           | byte4 # r4 \<Rightarrow>
                               if \<not> is_cont byte4 then u8_loop r3
                               else
                                 (let codepoint = u8_cp4 byte1 byte2 byte3 byte4
                                  in if codepoint < 0x010000 \<or> codepoint > 0x10FFFF then u8_loop r4
                                     else (let (interim, out) = u8_loop r4 in (interim, codepoint # out))))))
          else u8_loop r1)"
  by pat_completeness auto
termination
  by (relation "measure (\<lambda>v. case v of Inl bs \<Rightarrow> 2 * length bs + 1 | Inr bs \<Rightarrow> 2 * length bs)") auto

declare u8_loop.simps [simp del] u8_slow.simps [simp del]

text \<open>
  The interim bytes kept from the last chunk. The first loop reads them back, stopping at the first
  whose low six bits are 0; the typed array has three cells, and a read behind them is 0.
\<close>

definition u8_cell :: "nat list \<Rightarrow> nat \<Rightarrow> nat" where
  "u8_cell xs i = (if i < length xs then xs ! i else 0)"

definition set_cell :: "nat list \<Rightarrow> nat \<Rightarrow> nat \<Rightarrow> nat list" where
  "set_cell xs i v = (if i < length xs then xs[i := v] else xs)"

definition lead_type :: "nat \<Rightarrow> nat" where
  "lead_type b = (if b AND 0xE0 = 0xC0 then 2 else if b AND 0xF0 = 0xE0 then 3 else 4)"

definition lead_bits :: "nat \<Rightarrow> nat" where
  "lead_bits cp = cp AND (if cp AND 0xE0 = 0xC0 then 0x1F else if cp AND 0xF0 = 0xE0 then 0x0F else 0x07)"

text \<open>\<open>pos\<close> is the position already reached; the loop looks at the next.\<close>

function u8_collect :: "nat list \<Rightarrow> nat \<Rightarrow> nat \<Rightarrow> nat \<times> nat" where
  "u8_collect interim pos cp =
     (let tmp = u8_cell interim (pos + 1) AND 0x3F
      in if tmp \<noteq> 0 \<and> pos + 1 < 4 then u8_collect interim (pos + 1) (push_bit 6 cp OR tmp) else (pos + 1, cp))"
  by pat_completeness auto
termination
  by (relation "measure (\<lambda>(interim, pos, cp). 4 - pos)") auto

declare u8_collect.simps [simp del]

datatype u8_resume =
    NeedMore "nat list"           \<comment> \<open>the chunk ended first: the interim bytes so far\<close>
  | Discard "nat list"            \<comment> \<open>a byte that does not continue: the bytes from it on\<close>
  | Complete nat "nat list"       \<comment> \<open>the code point and the bytes behind it\<close>

text \<open>\<open>need\<close> continuation bytes are missing.\<close>

fun u8_missing :: "nat \<Rightarrow> nat list \<Rightarrow> nat \<Rightarrow> nat \<Rightarrow> nat list \<Rightarrow> u8_resume" where
  "u8_missing 0 interim pos cp input = Complete cp input"
| "u8_missing (Suc need) interim pos cp input =
     (case input of
        [] \<Rightarrow> NeedMore interim
      | tmp # rest \<Rightarrow>
          if \<not> is_cont tmp then Discard input
          else u8_missing need (set_cell interim pos tmp) (pos + 1) (push_bit 6 cp OR (tmp AND 0x3F)) rest)"

text \<open>
  What is stored for a completed interim sequence and where the main loop starts. The four-byte
  case tests \<open>codepoint\<close>, which is still 0 at this point. Stepping back by one for an overlong
  two-byte sequence re-reads the last byte.
\<close>

definition u8_emit :: "nat \<Rightarrow> nat \<Rightarrow> nat list \<Rightarrow> nat list \<Rightarrow> nat list \<times> nat list" where
  "u8_emit type cp input rest =
     (let codepoint = (0::nat)
      in if type = 2 then
           (if cp < 0x80 then ([], drop (length input - length rest - 1) input) else ([cp], rest))
         else if type = 3 then
           (if cp < 0x0800 \<or> (cp \<ge> 0xD800 \<and> cp \<le> 0xDFFF) then ([], rest) else ([cp], rest))
         else (if codepoint < 0x010000 \<or> codepoint > 0x10FFFF then ([], rest) else ([cp], rest)))"

definition u8_decode :: "nat list \<Rightarrow> nat list \<Rightarrow> nat list \<times> nat list" where
  "u8_decode interim input =
     (if input = [] then (interim, [])
      else if u8_cell interim 0 = 0 then u8_loop input
      else
        (let (pos, cp) = u8_collect interim 0 (lead_bits (u8_cell interim 0));
             type = lead_type (u8_cell interim 0)
         in case u8_missing (type - pos) interim pos cp input of
              NeedMore interim' \<Rightarrow> (interim', [])
            | Discard rest \<Rightarrow> u8_loop rest
            | Complete cp' rest \<Rightarrow>
                (let (out, rest') = u8_emit type cp' input rest; (interim', out') = u8_loop rest'
                 in (interim', out @ out'))))"

definition u8_clear :: "nat list \<Rightarrow> nat list" where "u8_clear interim = [0, 0, 0]"

subsection \<open>UTF-16: one unit at a time\<close>

text \<open>The reference: a decoder that looks at one unit and carries at most one high surrogate.\<close>

definition unit_step :: "nat \<times> nat list \<Rightarrow> nat \<Rightarrow> nat \<times> nat list" where
  "unit_step st c = (case st of (interim, out) \<Rightarrow>
     if interim \<noteq> 0 then (0, out @ (if is_low c then [combine interim c] else [interim, c]))
     else if is_high c then (c, out) else (0, out @ [c]))"

lemma unit_step_pair [simp]:
  "unit_step (interim, out) c =
     (if interim \<noteq> 0 then (0, out @ (if is_low c then [combine interim c] else [interim, c]))
      else if is_high c then (c, out) else (0, out @ [c]))"
  by (simp add: unit_step_def)

lemma is_high_pos: "is_high c \<Longrightarrow> c \<noteq> 0" by (simp add: is_high_def)

lemma unit_steps_out: "foldl unit_step (i, out) cs = (fst (foldl unit_step (i, []) cs), out @ snd (foldl unit_step (i, []) cs))"
proof (induction cs arbitrary: i out)
  case (Cons c cs)
  obtain j o' where st: "unit_step (i, []) c = (j, o')" by fastforce
  have "unit_step (i, out) c = (j, out @ o')" using st by (auto split: if_splits)
  then show ?case using st Cons [of j "out @ o'"] Cons [of j o'] by simp
qed simp

lemma s32_loop_units: "s32_loop cs = foldl unit_step (0, []) cs"
proof (induction cs rule: s32_loop.induct)
  case (2 code rest)
  show ?case
  proof (cases "is_high code")
    case high: True
    show ?thesis
    proof (cases rest)
      case (Cons second rest')
      then show ?thesis
        using 2(1) [OF high Cons] high is_high_pos [OF high]
          unit_steps_out [of 0 "if is_low second then [combine code second] else [code, second]" rest']
        by (simp add: split_beta)
    qed (use high in \<open>simp\<close>)
  next
    case False
    then show ?thesis using 2(2) unit_steps_out [of 0 "[code]" rest] by (simp add: split_beta)
  qed
qed simp

lemma s32_decode_units: "s32_decode interim input = foldl unit_step (interim, []) input"
proof (cases input)
  case (Cons second rest)
  then show ?thesis
    using unit_steps_out [of 0 "if is_low second then [combine interim second] else [interim, second]" rest]
    by (auto simp: s32_decode_def s32_loop_units split_beta)
qed (simp add: s32_decode_def)

text \<open>Decoding a list of chunks, the interim state carried from one to the next.\<close>

fun s32_chunks :: "nat \<Rightarrow> nat list list \<Rightarrow> nat \<times> nat list" where
  "s32_chunks interim [] = (interim, [])"
| "s32_chunks interim (c # cs) =
     (let (i1, out1) = s32_decode interim c; (i2, out2) = s32_chunks i1 cs in (i2, out1 @ out2))"

text \<open>
  The UTF-16 decoder is insensitive to how its input is cut: decoding any sequence of chunks one
  after the other stores the same code points, and leaves the same interim state, as decoding
  their concatenation at once, also when a cut separates a surrogate pair.
\<close>

theorem utf16_chunks:
  "s32_chunks interim chunks = s32_decode interim (concat chunks)"
proof (induction chunks arbitrary: interim)
  case (Cons c cs)
  obtain i1 out1 where first: "s32_decode interim c = (i1, out1)" by fastforce
  have "s32_decode interim (c @ concat cs) = foldl unit_step (i1, out1) (concat cs)"
    using first by (simp add: s32_decode_units)
  also have "\<dots> = (fst (s32_decode i1 (concat cs)), out1 @ snd (s32_decode i1 (concat cs)))"
    by (simp add: s32_decode_units unit_steps_out [of i1 out1])
  finally show ?case using first Cons by (simp add: split_beta)
qed (simp add: s32_decode_def)

definition scalar :: "nat \<Rightarrow> bool" where
  "scalar cp \<longleftrightarrow> cp < 0xD800 \<or> 0xDFFF < cp \<and> cp \<le> 0x10FFFF"

lemma decode_one:
  assumes "scalar cp"
  shows "foldl unit_step (0, out) (stringFromCodePoint cp) = (0, out @ [cp])"
proof (cases "cp > 0xFFFF")
  case True
  define k where "k = cp - 0x10000"
  have k: "k < 0x100000" "cp = k + 0x10000" using assms True by (auto simp: scalar_def k_def)
  have "drop_bit 10 k + 0xD800 \<le> 0xDBFF" using k(1) by (simp add: drop_bit_eq_div less_mult_imp_div_less)
  then have "is_high (drop_bit 10 k + 0xD800)" by (simp add: is_high_def)
  moreover have "is_low (k mod 0x400 + 0xDC00)" by (simp add: is_low_def)
  moreover have "combine (drop_bit 10 k + 0xD800) (k mod 0x400 + 0xDC00) = cp"
    using k(2) by (simp add: combine_def drop_bit_eq_div)
  moreover have "cp \<noteq> undefined_code" using assms by (auto simp: scalar_def)
  ultimately show ?thesis using True by (simp add: stringFromCodePoint_def flip: k_def)
next
  case False
  then show ?thesis using assms by (auto simp: stringFromCodePoint_def scalar_def is_high_def)
qed

lemma utf32ToString_concat:
  assumes "start \<le> stop" and "stop \<le> length data"
  shows "utf32ToString data start stop = concat (map stringFromCodePoint (take (stop - start) (drop start data)))"
proof -
  let ?P = "\<lambda>i r. r = concat (map stringFromCodePoint (take (nat i - start) (drop start data)))"
  have "?P (int stop) (utf32ToString data start stop)"
    unfolding utf32ToString_def
  proof (rule for_up_rule [where P = ?P])
    fix i r assume i: "int start \<le> i" "i < int stop" and r: "?P i r"
    have "take (nat (i + 1) - start) (drop start data) = take (nat i - start) (drop start data) @ [data ! nat i]"
      using i assms by (simp add: nat_add_distrib Suc_diff_le take_Suc_conv_app_nth)
    then show "?P (i + 1) (let codepoint = data ! nat i in r @ (if codepoint = undefined_code then [0] else if codepoint > 0xFFFF
          then [drop_bit 10 (codepoint - 0x10000) + 0xD800, (codepoint - 0x10000) mod 0x400 + 0xDC00] else [codepoint]))"
      using r by (simp add: stringFromCodePoint_def Let_def)
  qed (use assms in simp_all)
  then show ?thesis by simp
qed

lemma decode_all: "list_all scalar cps \<Longrightarrow>
    foldl unit_step (0, out) (concat (map stringFromCodePoint cps)) = (0, out @ cps)"
  by (induction cps arbitrary: out) (simp_all add: decode_one)

text \<open>
  C31. Code points survive the way through UTF-16: for all Unicode scalar values, what
  \<open>utf32ToString\<close> prints decodes to the same code points, with nothing left over.
\<close>

theorem utf16_roundtrip:
  assumes "list_all scalar cps"
  shows "s32_decode 0 (utf32ToString cps 0 (length cps)) = (0, cps)"
  using assms by (simp add: s32_decode_units utf32ToString_concat decode_all)

theorem utf16_roundtrip_witness:
  "s32_decode 0 (utf32ToString [0x61, 0x1F600, 0xE9] 0 3) = (0, [0x61, 0x1F600, 0xE9])"
  using utf16_roundtrip [of "[0x61, 0x1F600, 0xE9]"] by (simp add: scalar_def numeral_3_eq_3)

subsection \<open>UTF-8\<close>

text \<open>The reference encoding.\<close>

definition utf8_encode :: "nat \<Rightarrow> nat list" where
  "utf8_encode cp =
     (if cp < 0x80 then [cp]
      else if cp < 0x800 then [0xC0 + cp div 64, 0x80 + cp mod 64]
      else if cp < 0x10000 then [0xE0 + cp div 4096, 0x80 + cp div 64 mod 64, 0x80 + cp mod 64]
      else [0xF0 + cp div 262144, 0x80 + cp div 4096 mod 64, 0x80 + cp div 64 mod 64, 0x80 + cp mod 64])"

text \<open>A mask of the top bits of a byte reads off a quotient.\<close>

lemma and_top:
  assumes "(b::nat) < 2 ^ (n + k)"
  shows "b AND push_bit n (mask k) = 2 ^ n * (b div 2 ^ n)"
proof -
  have "take_bit (n + k) b = b" using assms by (simp add: take_bit_nat_eq_self_iff)
  then have high: "i < n + k" if "bit b i" for i using that by (metis bit_take_bit_iff)
  have "b AND push_bit n (mask k) = push_bit n (drop_bit n b)"
    by (rule bit_eqI) (auto simp: bit_and_iff bit_push_bit_iff bit_mask_iff bit_drop_bit_eq dest: high)
  then show ?thesis by (simp add: push_bit_eq_mult drop_bit_eq_div mult.commute)
qed

lemma quotient_range:
  assumes "0 < (m::nat)"
  shows "m * (b div m) = m * c \<longleftrightarrow> m * c \<le> b \<and> b < m * c + m"
proof
  assume "m * (b div m) = m * c"
  then show "m * c \<le> b \<and> b < m * c + m"
    using assms mult_div_mod_eq [of m b] mod_less_divisor [OF assms, of b] by linarith
next
  assume "m * c \<le> b \<and> b < m * c + m"
  then have "b div m = c" by (intro div_nat_eqI) (simp_all add: mult.commute)
  then show "m * (b div m) = m * c" by simp
qed

lemma byte_masks:
  assumes "(b::nat) < 256"
  shows "(b AND 0xE0 = 0xC0) = (192 \<le> b \<and> b < 224)" "(b AND 0xF0 = 0xE0) = (224 \<le> b \<and> b < 240)"
    "(b AND 0xF8 = 0xF0) = (240 \<le> b \<and> b < 248)" "is_cont b = (128 \<le> b \<and> b < 192)" "(b AND 0x80 = 0) = (b < 128)"
proof -
  have eqs: "b AND 0xE0 = 32 * (b div 32)" "b AND 0xF0 = 16 * (b div 16)" "b AND 0xF8 = 8 * (b div 8)"
    "b AND 0xC0 = 64 * (b div 64)" "b AND 0x80 = 128 * (b div 128)"
    using and_top [of b 5 3] and_top [of b 4 4] and_top [of b 3 5] and_top [of b 6 2] and_top [of b 7 1] assms
    by (simp_all add: mask_eq_exp_minus_1 push_bit_eq_mult)
  show "(b AND 0xE0 = 0xC0) = (192 \<le> b \<and> b < 224)" "(b AND 0xF0 = 0xE0) = (224 \<le> b \<and> b < 240)"
    "(b AND 0xF8 = 0xF0) = (240 \<le> b \<and> b < 248)" "is_cont b = (128 \<le> b \<and> b < 192)" "(b AND 0x80 = 0) = (b < 128)"
    unfolding is_cont_def eqs
    using quotient_range [of 32 b 6] quotient_range [of 16 b 14] quotient_range [of 8 b 30] quotient_range [of 64 b 2]
      quotient_range [of 128 b 0]
    by simp_all
qed

lemma low_masks: "(b::nat) AND 0x3F = b mod 64" "b AND 0x1F = b mod 32" "b AND 0x0F = b mod 16" "b AND 0x07 = b mod 8"
  using take_bit_eq_mask [of 6 b] take_bit_eq_mask [of 5 b] take_bit_eq_mask [of 4 b] take_bit_eq_mask [of 3 b]
  by (simp_all add: take_bit_eq_mod mask_eq_exp_minus_1)

lemma join_bits: "push_bit n (a::nat) OR take_bit n b = a * 2 ^ n + take_bit n b"
proof -
  have "push_bit n a AND take_bit n b = 0"
    by (rule bit_eqI) (simp add: bit_and_iff bit_push_bit_iff bit_take_bit_iff)
  then show ?thesis by (metis disjunctive_add_eq_or push_bit_eq_mult)
qed

lemma join2: "push_bit 6 (a::nat) OR (b AND 0x3F) = a * 64 + b mod 64"
  using join_bits [of 6 a b] by (simp add: low_masks take_bit_eq_mod)

lemma push_twice: "push_bit 12 (a::nat) = push_bit 6 (push_bit 6 a)" "push_bit 18 a = push_bit 6 (push_bit 12 a)"
  by simp_all

lemma u8_cp2_eq: "u8_cp2 b1 b2 = (b1 mod 32) * 64 + b2 mod 64"
  by (simp only: u8_cp2_def join2 low_masks(2))

lemma u8_cp3_eq: "u8_cp3 b1 b2 b3 = ((b1 mod 16) * 64 + b2 mod 64) * 64 + b3 mod 64"
  by (simp only: u8_cp3_def push_twice push_bit_or [symmetric] join2 low_masks(3))

lemma u8_cp4_eq: "u8_cp4 b1 b2 b3 b4 = (((b1 mod 8) * 64 + b2 mod 64) * 64 + b3 mod 64) * 64 + b4 mod 64"
  by (simp only: u8_cp4_def push_twice push_bit_or [symmetric] join2 low_masks(4))

abbreviation bytes :: "nat list \<Rightarrow> bool" where "bytes bs \<equiv> list_all (\<lambda>b. b < 256) bs"

text \<open>What a call stores with one more code point in front.\<close>

definition emit :: "nat \<Rightarrow> 'a \<times> nat list \<Rightarrow> 'a \<times> nat list" where
  "emit cp r = (fst r, cp # snd r)"

lemma u8_slow_ascii: "b < 0x80 \<Longrightarrow> u8_slow (b # rest) = emit b (u8_loop rest)"
  by (simp add: u8_slow.simps [of "b # rest"] emit_def split_beta)

text \<open>The fast path stores what the slow path would.\<close>

lemma u8_fast_path: "bytes bs \<Longrightarrow> u8_loop bs = u8_slow bs"
proof (induction "length bs" arbitrary: bs rule: less_induct)
  case less
  show ?case
  proof (cases "\<exists>b1 b2 b3 b4 b5 rest. bs = b1 # b2 # b3 # b4 # b5 # rest \<and> b1 < 128 \<and> b2 < 128 \<and> b3 < 128 \<and> b4 < 128")
    case True
    then obtain b1 b2 b3 b4 b5 rest where bs: "bs = b1 # b2 # b3 # b4 # b5 # rest"
      and ascii: "b1 < 128" "b2 < 128" "b3 < 128" "b4 < 128" by blast
    have "u8_loop bs = emit b1 (emit b2 (emit b3 (emit b4 (u8_loop (b5 # rest)))))"
      using ascii less.prems by (simp add: bs u8_loop.simps [of "b1 # b2 # b3 # b4 # b5 # rest"] byte_masks emit_def split_beta)
    also have "\<dots> = u8_slow bs"
      using ascii less.prems less.hyps [of "b2 # b3 # b4 # b5 # rest"] less.hyps [of "b3 # b4 # b5 # rest"]
        less.hyps [of "b4 # b5 # rest"]
      by (simp add: bs u8_slow_ascii)
    finally show ?thesis .
  next
    case False
    then show ?thesis using less.prems
      by (auto simp: u8_loop.simps [of bs] byte_masks split: list.splits)
  qed
qed

lemma u8_two:
  assumes "192 \<le> b1" "b1 < 224" "128 \<le> b2" "b2 < 192" "(b1 mod 32) * 64 + b2 mod 64 \<ge> 0x80"
  shows "u8_slow (b1 # b2 # rest) = emit ((b1 mod 32) * 64 + b2 mod 64) (u8_loop rest)"
  using assms by (simp add: u8_slow.simps [of "b1 # b2 # rest"] byte_masks u8_cp2_eq emit_def split_beta Let_def)

lemma u8_three:
  assumes "224 \<le> b1" "b1 < 240" "128 \<le> b2" "b2 < 192" "128 \<le> b3" "b3 < 192"
    "cp = ((b1 mod 16) * 64 + b2 mod 64) * 64 + b3 mod 64" "cp \<ge> 0x800" "cp < 0xD800 \<or> 0xDFFF < cp"
  shows "u8_slow (b1 # b2 # b3 # rest) = emit cp (u8_loop rest)"
  using assms(1-6,8,9) unfolding assms(7)
  by (auto simp add: u8_slow.simps [of "b1 # b2 # b3 # rest"] byte_masks u8_cp3_eq emit_def split_beta Let_def)

lemma u8_four:
  assumes "240 \<le> b1" "b1 < 248" "128 \<le> b2" "b2 < 192" "128 \<le> b3" "b3 < 192" "128 \<le> b4" "b4 < 192"
    "cp = (((b1 mod 8) * 64 + b2 mod 64) * 64 + b3 mod 64) * 64 + b4 mod 64" "cp \<ge> 0x10000" "cp \<le> 0x10FFFF"
  shows "u8_slow (b1 # b2 # b3 # b4 # rest) = emit cp (u8_loop rest)"
  using assms(1-8,10,11) unfolding assms(9)
  by (simp add: u8_slow.simps [of "b1 # b2 # b3 # b4 # rest"] byte_masks u8_cp4_eq emit_def split_beta Let_def)

lemma lead_mods: "(x::nat) < 32 \<Longrightarrow> (0xC0 + x) mod 32 = x" "x < 16 \<Longrightarrow> (0xE0 + x) mod 16 = x" "x < 8 \<Longrightarrow> (0xF0 + x) mod 8 = x"
  using mod_mult_self2 [of x 32 6] mod_mult_self2 [of x 16 14] mod_mult_self2 [of x 8 30] by (simp_all add: add.commute)

lemma cont_mod: "(0x80 + x) mod 64 = (x::nat) mod 64"
  using mod_mult_self2 [of x 64 2] by (simp add: add.commute)

lemma sextets: "(cp::nat) div 4096 * 64 + cp div 64 mod 64 = cp div 64" "cp div 262144 * 64 + cp div 4096 mod 64 = cp div 4096"
  "cp div 64 * 64 + cp mod 64 = cp"
  using div_mult2_eq [of cp 64 64] div_mult2_eq [of cp 4096 64] div_mult_mod_eq [of "cp div 64" 64]
    div_mult_mod_eq [of "cp div 4096" 64]
  by simp_all

lemma lead_ranges: "(cp::nat) < 0x800 \<Longrightarrow> cp div 64 < 32" "cp < 0x10000 \<Longrightarrow> cp div 4096 < 16" "cp \<le> 0x10FFFF \<Longrightarrow> cp div 262144 < 8"
  by (simp_all add: less_mult_imp_div_less)

lemma utf8_encode_bytes:
  assumes "cp \<le> 0x10FFFF"
  shows "bytes (utf8_encode cp)"
proof -
  have c: "0x80 + m mod 64 < 256" for m :: nat using mod_less_divisor [of 64 m] by linarith
  show ?thesis
    using lead_ranges [of cp] assms by (auto simp: utf8_encode_def c)
qed

lemma u8_loop_encode:
  assumes cp: "scalar cp" and rest: "bytes rest"
  shows "u8_loop (utf8_encode cp @ rest) = emit cp (u8_loop rest)"
proof -
  have max: "cp \<le> 0x10FFFF" using cp by (auto simp: scalar_def)
  have slow: "u8_loop (utf8_encode cp @ rest) = u8_slow (utf8_encode cp @ rest)"
    by (rule u8_fast_path) (use utf8_encode_bytes [OF max] rest in simp)
  consider "cp < 0x80" | "0x80 \<le> cp" "cp < 0x800" | "0x800 \<le> cp" "cp < 0x10000" | "0x10000 \<le> cp" by linarith
  then have "u8_slow (utf8_encode cp @ rest) = emit cp (u8_loop rest)"
  proof cases
    case 1
    then show ?thesis by (simp add: utf8_encode_def u8_slow_ascii)
  next
    case 2
    have d: "cp div 64 < 32" using 2 by (simp add: less_mult_imp_div_less)
    have "(0xC0 + cp div 64) mod 32 * 64 + (0x80 + cp mod 64) mod 64 = cp"
      using lead_mods(1) [OF d] by (simp only: cont_mod mod_mod_trivial sextets)
    then show ?thesis using 2 d u8_two [of "0xC0 + cp div 64" "0x80 + cp mod 64" rest] by (simp add: utf8_encode_def)
  next
    case 3
    have d: "cp div 4096 < 16" using 3 by (simp add: less_mult_imp_div_less)
    have "cp = ((0xE0 + cp div 4096) mod 16 * 64 + (0x80 + cp div 64 mod 64) mod 64) * 64 + (0x80 + cp mod 64) mod 64"
      by (simp only: lead_mods(2) [OF d] cont_mod mod_mod_trivial sextets)
    then show ?thesis
      using 3 d cp u8_three [of "0xE0 + cp div 4096" "0x80 + cp div 64 mod 64" "0x80 + cp mod 64" cp rest]
      by (simp add: utf8_encode_def scalar_def)
  next
    case 4
    have d: "cp div 262144 < 8" using max by (simp add: less_mult_imp_div_less)
    have "cp = (((0xF0 + cp div 262144) mod 8 * 64 + (0x80 + cp div 4096 mod 64) mod 64) * 64 +
        (0x80 + cp div 64 mod 64) mod 64) * 64 + (0x80 + cp mod 64) mod 64"
      by (simp only: lead_mods(3) [OF d] cont_mod mod_mod_trivial sextets)
    then show ?thesis
      using 4 d max u8_four [of "0xF0 + cp div 262144" "0x80 + cp div 4096 mod 64" "0x80 + cp div 64 mod 64"
          "0x80 + cp mod 64" cp rest]
      by (simp add: utf8_encode_def)
  qed
  with slow show ?thesis by simp
qed

lemma u8_loop_Nil: "u8_loop [] = ([0, 0, 0], [])"
  by (simp add: u8_loop.simps [of "[]"] u8_slow.simps [of "[]"])

lemma u8_decode_fresh: "u8_decode [0, 0, 0] input = u8_loop input"
  by (simp add: u8_decode_def u8_cell_def u8_loop_Nil)

lemma scalar_max: "scalar cp \<Longrightarrow> cp \<le> 0x10FFFF"
  by (auto simp: scalar_def)

lemma u8_loop_encodes: "list_all scalar cps \<Longrightarrow> u8_loop (concat (map utf8_encode cps)) = ([0, 0, 0], cps)"
proof (induction cps)
  case (Cons cp cps)
  have "bytes (concat (map utf8_encode cps))"
    using Cons.prems by (auto simp: list_all_iff dest!: scalar_max utf8_encode_bytes)
  then show ?case using Cons by (simp add: u8_loop_encode emit_def)
qed (simp add: u8_loop_Nil)

text \<open>
  C30. The UTF-8 decoder inverts UTF-8: a chunk that holds the encodings of any Unicode scalar values
  decodes to exactly those values, through the fast path for runs of ASCII or not, and leaves no
  interim bytes.
\<close>

theorem utf8_roundtrip:
  assumes "list_all scalar cps"
  shows "u8_decode [0, 0, 0] (concat (map utf8_encode cps)) = ([0, 0, 0], cps)"
  using assms by (simp add: u8_decode_fresh u8_loop_encodes)

theorem utf8_roundtrip_witness:
  "u8_decode [0, 0, 0] [0x61, 0xC3, 0xA9, 0xF0, 0x9F, 0x98, 0x80] = ([0, 0, 0], [0x61, 0xE9, 0x1F600])"
  using utf8_roundtrip [of "[0x61, 0xE9, 0x1F600]"] by (simp add: scalar_def utf8_encode_def)

lemma u8_loop_lead: "240 \<le> b \<Longrightarrow> b < 248 \<Longrightarrow> u8_loop [b] = ([b, 0, 0], [])"
  by (simp add: u8_loop.simps [of "[b]"] u8_slow.simps [of "[b]"] byte_masks)

text \<open>
  Not so across chunks: a four-byte sequence whose first byte ends one chunk and whose other three
  are the next is dropped. Its interim branch tests a variable that is still 0 where it should test
  the code point it has just assembled.
\<close>

theorem utf8_split_four_bytes_lost:
  assumes "0x10000 \<le> cp" and "cp \<le> 0x10FFFF"
  shows "(let (i1, out1) = u8_decode [0, 0, 0] (take 1 (utf8_encode cp)); (i2, out2) = u8_decode i1 (drop 1 (utf8_encode cp))
    in (i2, out1 @ out2)) = ([0, 0, 0], [])"
proof -
  let ?b1 = "0xF0 + cp div 262144" and ?b2 = "0x80 + cp div 4096 mod 64" and ?b3 = "0x80 + cp div 64 mod 64"
    and ?b4 = "0x80 + cp mod 64"
  have enc: "utf8_encode cp = [?b1, ?b2, ?b3, ?b4]" using assms by (simp add: utf8_encode_def)
  have b1: "240 \<le> ?b1" "?b1 < 248" using lead_ranges(3) [OF assms(2)] by simp_all
  have cont: "is_cont (0x80 + m mod 64)" for m
    using mod_less_divisor [of 64 m] by (subst byte_masks(4)) linarith+
  have first: "u8_decode [0, 0, 0] [?b1] = ([?b1, 0, 0], [])"
    using u8_loop_lead [OF b1] by (simp add: u8_decode_def u8_cell_def)
  have type: "lead_type ?b1 = 4" using b1 by (simp add: lead_type_def byte_masks)
  have "u8_collect [?b1, 0, 0] 0 v = (1, v)" for v
    by (simp add: u8_collect.simps [of "[?b1, 0, 0]" 0] u8_cell_def)
  then have "u8_decode [?b1, 0, 0] [?b2, ?b3, ?b4] = ([0, 0, 0], [])"
    using type by (simp add: u8_decode_def u8_cell_def cont u8_emit_def u8_loop_Nil numeral_3_eq_3)
  with first enc show ?thesis by simp
qed

theorem utf8_split_four_bytes_lost_witness:
  "(let (i1, out1) = u8_decode [0, 0, 0] [0xF0]; (i2, out2) = u8_decode i1 [0x9F, 0x98, 0x80]
    in (i2, out1 @ out2)) = ([0, 0, 0], [])"
  using utf8_split_four_bytes_lost [of "0x1F600"] by (simp add: utf8_encode_def)

end
