(* ===== verification/CharWidth.thy ===== *)
theory CharWidth
  imports TextDecoder
begin

text \<open>
  Character widths (\<open>CharWidth\<close> in \<open>xterm.js\<close>): the tables of zero-width ranges, the binary search in
  them, the table of the basic plane that is filled once, and the width of a string; with
  \<open>TypedArrayUtils\<close>, whose \<open>fill\<close> builds the table.
\<close>

subsection \<open>Filling arrays\<close>

text \<open>\<open>array.fill(value, start, end)\<close> of the language: negative positions count from the end and are clamped.\<close>

definition clamp_index :: "nat \<Rightarrow> int \<Rightarrow> nat" where
  "clamp_index len i = (if i < 0 then nat (max 0 (int len + i)) else min (nat i) len)"

definition js_fill :: "'a \<Rightarrow> int \<Rightarrow> int \<Rightarrow> 'a list \<Rightarrow> 'a list" where
  "js_fill v start stop xs =
     (let a = clamp_index (length xs) start; b = clamp_index (length xs) stop
      in take a xs @ replicate (b - a) v @ drop (max a b) xs)"

text \<open>The replacement for engines without it; an absent argument is \<open>None\<close>.\<close>

definition fillFallback :: "'a \<Rightarrow> int option \<Rightarrow> int option \<Rightarrow> 'a list \<Rightarrow> 'a list" where
  "fillFallback v start stop xs =
     (let len = int (length xs);
          start = (case start of None \<Rightarrow> 0 | Some s \<Rightarrow> s);
          stop = (case stop of None \<Rightarrow> len | Some e \<Rightarrow> e)
      in if start \<ge> len then xs
         else
           (let start = js_rem (len + start) len;
                stop = (if stop \<ge> len then len else js_rem (len + stop) len)
            in for_up start stop (\<lambda>i xs. xs[nat i := v]) xs))"

definition typed_concat :: "'a list \<Rightarrow> 'a list \<Rightarrow> 'a list" where
  "typed_concat a b = a @ b"

subsection \<open>Tables\<close>

definition COMBINING_BMP :: "(nat \<times> nat) list" where
  "COMBINING_BMP = [
      (0x0300, 0x036F), (0x0483, 0x0486), (0x0488, 0x0489), (0x0591, 0x05BD), (0x05BF, 0x05BF),
      (0x05C1, 0x05C2), (0x05C4, 0x05C5), (0x05C7, 0x05C7), (0x0600, 0x0603), (0x0610, 0x0615),
      (0x064B, 0x065E), (0x0670, 0x0670), (0x06D6, 0x06E4), (0x06E7, 0x06E8), (0x06EA, 0x06ED),
      (0x070F, 0x070F), (0x0711, 0x0711), (0x0730, 0x074A), (0x07A6, 0x07B0), (0x07EB, 0x07F3),
      (0x0901, 0x0902), (0x093C, 0x093C), (0x0941, 0x0948), (0x094D, 0x094D), (0x0951, 0x0954),
      (0x0962, 0x0963), (0x0981, 0x0981), (0x09BC, 0x09BC), (0x09C1, 0x09C4), (0x09CD, 0x09CD),
      (0x09E2, 0x09E3), (0x0A01, 0x0A02), (0x0A3C, 0x0A3C), (0x0A41, 0x0A42), (0x0A47, 0x0A48),
      (0x0A4B, 0x0A4D), (0x0A70, 0x0A71), (0x0A81, 0x0A82), (0x0ABC, 0x0ABC), (0x0AC1, 0x0AC5),
      (0x0AC7, 0x0AC8), (0x0ACD, 0x0ACD), (0x0AE2, 0x0AE3), (0x0B01, 0x0B01), (0x0B3C, 0x0B3C),
      (0x0B3F, 0x0B3F), (0x0B41, 0x0B43), (0x0B4D, 0x0B4D), (0x0B56, 0x0B56), (0x0B82, 0x0B82),
      (0x0BC0, 0x0BC0), (0x0BCD, 0x0BCD), (0x0C3E, 0x0C40), (0x0C46, 0x0C48), (0x0C4A, 0x0C4D),
      (0x0C55, 0x0C56), (0x0CBC, 0x0CBC), (0x0CBF, 0x0CBF), (0x0CC6, 0x0CC6), (0x0CCC, 0x0CCD),
      (0x0CE2, 0x0CE3), (0x0D41, 0x0D43), (0x0D4D, 0x0D4D), (0x0DCA, 0x0DCA), (0x0DD2, 0x0DD4),
      (0x0DD6, 0x0DD6), (0x0E31, 0x0E31), (0x0E34, 0x0E3A), (0x0E47, 0x0E4E), (0x0EB1, 0x0EB1),
      (0x0EB4, 0x0EB9), (0x0EBB, 0x0EBC), (0x0EC8, 0x0ECD), (0x0F18, 0x0F19), (0x0F35, 0x0F35),
      (0x0F37, 0x0F37), (0x0F39, 0x0F39), (0x0F71, 0x0F7E), (0x0F80, 0x0F84), (0x0F86, 0x0F87),
      (0x0F90, 0x0F97), (0x0F99, 0x0FBC), (0x0FC6, 0x0FC6), (0x102D, 0x1030), (0x1032, 0x1032),
      (0x1036, 0x1037), (0x1039, 0x1039), (0x1058, 0x1059), (0x1160, 0x11FF), (0x135F, 0x135F),
      (0x1712, 0x1714), (0x1732, 0x1734), (0x1752, 0x1753), (0x1772, 0x1773), (0x17B4, 0x17B5),
      (0x17B7, 0x17BD), (0x17C6, 0x17C6), (0x17C9, 0x17D3), (0x17DD, 0x17DD), (0x180B, 0x180D),
      (0x18A9, 0x18A9), (0x1920, 0x1922), (0x1927, 0x1928), (0x1932, 0x1932), (0x1939, 0x193B),
      (0x1A17, 0x1A18), (0x1B00, 0x1B03), (0x1B34, 0x1B34), (0x1B36, 0x1B3A), (0x1B3C, 0x1B3C),
      (0x1B42, 0x1B42), (0x1B6B, 0x1B73), (0x1DC0, 0x1DCA), (0x1DFE, 0x1DFF), (0x200B, 0x200F),
      (0x202A, 0x202E), (0x2060, 0x2063), (0x206A, 0x206F), (0x20D0, 0x20EF), (0x302A, 0x302F),
      (0x3099, 0x309A), (0xA806, 0xA806), (0xA80B, 0xA80B), (0xA825, 0xA826), (0xFB1E, 0xFB1E),
      (0xFE00, 0xFE0F), (0xFE20, 0xFE23), (0xFEFF, 0xFEFF), (0xFFF9, 0xFFFB)]"

definition COMBINING_HIGH :: "(nat \<times> nat) list" where
  "COMBINING_HIGH = [
      (0x10A01, 0x10A03), (0x10A05, 0x10A06), (0x10A0C, 0x10A0F), (0x10A38, 0x10A3A), (0x10A3F, 0x10A3F),
      (0x1D167, 0x1D169), (0x1D173, 0x1D182), (0x1D185, 0x1D18B), (0x1D1AA, 0x1D1AD), (0x1D242, 0x1D244),
      (0xE0001, 0xE0001), (0xE0020, 0xE007F), (0xE0100, 0xE01EF)]"

function bisearch_loop :: "nat \<Rightarrow> (nat \<times> nat) list \<Rightarrow> int \<Rightarrow> int \<Rightarrow> bool" where
  "bisearch_loop ucs data lo hi =
     (if hi \<ge> lo then
        (let mid = (lo + hi) div 2
         in if ucs > snd (data ! nat mid) then bisearch_loop ucs data (mid + 1) hi
            else if ucs < fst (data ! nat mid) then bisearch_loop ucs data lo (mid - 1)
            else True)
      else False)"
  by pat_completeness auto
termination
  by (relation "measure (\<lambda>(ucs, data, lo, hi). nat (hi - lo + 1))") auto

declare bisearch_loop.simps [simp del]

text \<open>For \<open>undefined\<close> no comparison holds, and the first round of the loop answers true.\<close>

definition bisearch :: "nat \<Rightarrow> (nat \<times> nat) list \<Rightarrow> bool" where
  "bisearch ucs data =
     (let hi = length data - 1
      in if ucs = undefined_code then True
         else if ucs < fst (data ! 0) \<or> ucs > snd (data ! hi) then False
         else bisearch_loop ucs data 0 (int hi))"

definition wcwidthHigh :: "nat \<Rightarrow> nat" where
  "wcwidthHigh ucs =
     (if bisearch ucs COMBINING_HIGH then 0
      else if (ucs \<ge> 0x20000 \<and> ucs \<le> 0x2fffd) \<or> (ucs \<ge> 0x30000 \<and> ucs \<le> 0x3fffd) then 2
      else 1)"

text \<open>
  The table of the basic plane, as a function of the position; both options of the only caller are
  0. The assignments are in the order of the source: later ones win.
\<close>

definition fill_table :: "nat \<Rightarrow> nat \<Rightarrow> nat \<Rightarrow> (nat \<Rightarrow> nat) \<Rightarrow> nat \<Rightarrow> nat" where
  "fill_table v a b t = (\<lambda>i. if a \<le> i \<and> i < b then v else t i)"

definition base_table :: "nat \<Rightarrow> nat" where
  "base_table =
     fill_table 2 0xffe0 0xffe7 (fill_table 2 0xff00 0xff61 (fill_table 2 0xfe30 0xfe70 (fill_table 2 0xfe10 0xfe1a
     (fill_table 2 0xf900 0xfb00 (fill_table 2 0xac00 0xd7a4 ((fill_table 2 0x2e80 0xa4d0
     ((((fill_table 2 0x1100 0x1160 (fill_table 0 0x7f 0xa0 (fill_table 0 1 32 ((\<lambda>_. 1)(0 := 0)))))(0x2329 := 2))(0x232a := 2))))(0x303f := 1)))))))"

definition width_table :: "nat \<Rightarrow> nat" where
  "width_table = fold (\<lambda>r t. fill_table 0 (fst r) (snd r + 1) t) COMBINING_BMP base_table"

definition wcwidth :: "nat \<Rightarrow> nat" where
  "wcwidth num =
     (if num < 32 then 0
      else if num < 127 then 1
      else if num < 65536 then width_table num
      else wcwidthHigh num)"

fun getStringCellWidth_loop :: "nat list \<Rightarrow> nat \<Rightarrow> nat" where
  "getStringCellWidth_loop [] result = result"
| "getStringCellWidth_loop (code # rest) result =
     (if is_high code then
        (case rest of
           [] \<Rightarrow> result + wcwidth code
         | second # rest' \<Rightarrow>
             if is_low second
             then getStringCellWidth_loop rest' (result + wcwidth ((code - 0xD800) * 0x400 + second - 0xDC00 + 0x10000))
             else getStringCellWidth_loop rest' (result + wcwidth second + wcwidth code))
      else getStringCellWidth_loop rest (result + wcwidth code))"

definition getStringCellWidth :: "nat list \<Rightarrow> nat" where
  "getStringCellWidth s = getStringCellWidth_loop s 0"

subsection \<open>Correctness\<close>

lemma fillFallback_loop:
  assumes "0 \<le> a" and "a \<le> b" and "b \<le> int (length xs)"
  shows "for_up a b (\<lambda>i xs. xs[nat i := v]) xs = take (nat a) xs @ replicate (nat b - nat a) v @ drop (nat b) xs"
proof (rule for_up_rule [where P = "\<lambda>i ys. ys = take (nat a) xs @ replicate (nat i - nat a) v @ drop (nat i) xs"])
  fix i ys
  assume i: "a \<le> i" "i < b" and ys: "ys = take (nat a) xs @ replicate (nat i - nat a) v @ drop (nat i) xs"
  have "drop (nat i) xs = xs ! nat i # drop (nat (i + 1)) xs"
    using i assms by (simp add: Cons_nth_drop_Suc nat_add_distrib)
  moreover have "nat (i + 1) - nat a = Suc (nat i - nat a)" using i assms by (simp add: nat_add_distrib Suc_diff_le)
  moreover have "nat i = length (take (nat a) xs @ replicate (nat i - nat a) v)" using i assms by simp
  then have "((take (nat a) xs @ replicate (nat i - nat a) v) @ x # zs)[nat i := v] =
      (take (nat a) xs @ replicate (nat i - nat a) v) @ v # zs" for x zs
    by (metis list_update_length)
  ultimately show "ys[nat i := v] = take (nat a) xs @ replicate (nat (i + 1) - nat a) v @ drop (nat (i + 1)) xs"
    unfolding ys by (simp add: replicate_app_Cons_same)
qed (use assms in simp_all)

text \<open>
  The replacement for \<open>fill\<close> agrees with the language's \<open>fill\<close> on every range that does not count
  back beyond the front of the array.
\<close>

theorem fillFallback_is_fill:
  assumes "- int (length xs) \<le> a" and "- int (length xs) \<le> b"
  shows "fillFallback v (Some a) (Some b) xs = js_fill v a b xs"
proof (cases "a \<ge> int (length xs)")
  case True
  then have "nat a \<ge> length xs" by linarith
  with True show ?thesis by (simp add: fillFallback_def js_fill_def clamp_index_def Let_def nat_le_iff)
next
  case False
  let ?n = "int (length xs)"
  have pos: "0 < ?n" using False assms by linarith
  have rem: "js_rem (?n + i) ?n = int (clamp_index (length xs) i)" if "- ?n \<le> i" "i < ?n" for i
  proof (cases "i < 0")
    case True
    then have "(?n + i) mod ?n = ?n + i" using that by (intro mod_pos_pos_trivial) auto
    then show ?thesis using True that pos by (simp add: js_rem_def clamp_index_def del: mod_add_self1)
  next
    case False
    then show ?thesis using that pos by (simp add: js_rem_def clamp_index_def)
  qed
  have stop: "(if b \<ge> ?n then ?n else js_rem (?n + b) ?n) = int (clamp_index (length xs) b)"
    using rem [of b] assms(2) by (auto simp: clamp_index_def)
  let ?a = "clamp_index (length xs) a" and ?b = "clamp_index (length xs) b"
  have le: "?b \<le> length xs" by (simp add: clamp_index_def nat_le_iff)
  have "fillFallback v (Some a) (Some b) xs = for_up (int ?a) (int ?b) (\<lambda>i xs. xs[nat i := v]) xs"
    using False rem [of a] assms(1) stop by (simp add: fillFallback_def Let_def)
  also have "\<dots> = js_fill v a b xs"
    using fillFallback_loop [of "int ?a" "int ?b" xs v] le
    by (cases "?a \<le> ?b") (simp_all add: js_fill_def Let_def max_def)
  finally show ?thesis .
qed

theorem fillFallback_is_fill_witness:
  "fillFallback (7::nat) (Some (- 3)) (Some 4) [1, 2, 3, 4, 5] = js_fill 7 (- 3) 4 [1, 2, 3, 4, 5] \<and>
   js_fill (7::nat) (- 3) 4 [1, 2, 3, 4, 5] = [1, 2, 7, 7, 5]"
  using fillFallback_is_fill [of "[1, 2, 3, 4, 5::nat]" "- 3" 4 7]
  by (simp add: js_fill_def clamp_index_def numeral_eq_Suc)

definition in_ranges :: "nat \<Rightarrow> (nat \<times> nat) list \<Rightarrow> bool" where
  "in_ranges ucs data \<longleftrightarrow> (\<exists>r \<in> set data. fst r \<le> ucs \<and> ucs \<le> snd r)"

text \<open>Ranges in ascending order that do not touch each other's members.\<close>

fun ascending :: "(nat \<times> nat) list \<Rightarrow> bool" where
  "ascending [] = True"
| "ascending [r] = (fst r \<le> snd r)"
| "ascending (r # s # rs) = (fst r \<le> snd r \<and> snd r < fst s \<and> ascending (s # rs))"

lemma ascending_nth: "ascending data \<Longrightarrow> i < j \<Longrightarrow> j < length data \<Longrightarrow> snd (data ! i) < fst (data ! j)"
proof (induction data arbitrary: i j rule: ascending.induct)
  case (3 r s rs)
  have le: "fst ((s # rs) ! k) \<ge> fst s" if "k < length (s # rs)" for k
  proof (cases k)
    case (Suc k')
    then have "snd ((s # rs) ! 0) < fst ((s # rs) ! k)" using 3 that by (intro "3.IH") simp_all
    moreover have "fst s \<le> snd s" using 3(2) by (cases rs) auto
    ultimately show ?thesis by simp
  qed simp
  show ?case
  proof (cases i)
    case 0
    then obtain k where "j = Suc k" "k < length (s # rs)" using 3 by (cases j) auto
    with 0 le [of k] 3(2) show ?thesis by simp
  next
    case (Suc i')
    then show ?thesis using 3 by (cases j) auto
  qed
qed auto

lemma ascending_range: "ascending data \<Longrightarrow> i < length data \<Longrightarrow> fst (data ! i) \<le> snd (data ! i)"
proof (induction data arbitrary: i rule: ascending.induct)
  case (3 r s rs)
  then show ?case by (cases i) auto
qed auto

text \<open>The ranges of a window that contain the code point.\<close>

definition hit :: "nat \<Rightarrow> (nat \<times> nat) list \<Rightarrow> int \<Rightarrow> int \<Rightarrow> nat \<Rightarrow> bool" where
  "hit ucs data lo hi k \<longleftrightarrow> lo \<le> int k \<and> int k \<le> hi \<and> fst (data ! k) \<le> ucs \<and> ucs \<le> snd (data ! k)"

lemma hit_right:
  assumes "ascending data" and "hi < int (length data)" and "ucs > snd (data ! nat mid)" and "lo \<le> mid" and "0 \<le> lo" and "mid \<le> hi"
  shows "hit ucs data lo hi k \<longleftrightarrow> hit ucs data (mid + 1) hi k"
proof -
  have "mid < int k" if "hit ucs data lo hi k"
  proof (rule ccontr)
    assume k: "\<not> mid < int k"
    then have "k = nat mid \<or> k < nat mid" using assms by auto
    then have "snd (data ! k) \<le> snd (data ! nat mid)"
      using ascending_nth [OF assms(1), of k "nat mid"] ascending_range [OF assms(1), of "nat mid"] assms by fastforce
    with that assms(3) show False by (simp add: hit_def)
  qed
  then show ?thesis using assms(4) by (auto simp: hit_def)
qed

lemma hit_left:
  assumes "ascending data" and "hi < int (length data)" and "ucs < fst (data ! nat mid)" and "lo \<le> mid" and "0 \<le> lo" and "mid \<le> hi"
  shows "hit ucs data lo hi k \<longleftrightarrow> hit ucs data lo (mid - 1) k"
proof -
  have "int k < mid" if "hit ucs data lo hi k"
  proof (rule ccontr)
    assume k: "\<not> int k < mid"
    then have "k = nat mid \<or> nat mid < k" using assms by auto
    then have "fst (data ! nat mid) \<le> fst (data ! k)"
      using ascending_nth [OF assms(1), of "nat mid" k] ascending_range [OF assms(1), of "nat mid"] assms that
      by (fastforce simp: hit_def)
    with that assms(3) show False by (simp add: hit_def)
  qed
  then show ?thesis using assms(6) by (auto simp: hit_def)
qed

lemma bisearch_loop_correct:
  assumes "ascending data" and "0 \<le> lo" and "hi < int (length data)"
  shows "bisearch_loop ucs data lo hi \<longleftrightarrow> (\<exists>k. hit ucs data lo hi k)"
  using assms
proof (induction ucs data lo hi rule: bisearch_loop.induct)
  case (1 ucs data lo hi)
  show ?case
  proof (cases "hi \<ge> lo")
    case True
    define mid where "mid = (lo + hi) div 2"
    have m: "lo \<le> mid" "mid \<le> hi" using True by (auto simp: mid_def)
    note step = bisearch_loop.simps [of ucs data lo hi]
    consider (right) "ucs > snd (data ! nat mid)" | (left) "\<not> ucs > snd (data ! nat mid)" "ucs < fst (data ! nat mid)"
      | (found) "\<not> ucs > snd (data ! nat mid)" "\<not> ucs < fst (data ! nat mid)" by blast
    then show ?thesis
    proof cases
      case right
      have "bisearch_loop ucs data lo hi = bisearch_loop ucs data (mid + 1) hi"
        using True right by (simp add: step flip: mid_def)
      then show ?thesis
        using 1(1) [OF True mid_def right] 1(3-5) m hit_right [OF 1(3) 1(5) right] by simp
    next
      case left
      have "bisearch_loop ucs data lo hi = bisearch_loop ucs data lo (mid - 1)"
        using True left by (simp add: step flip: mid_def)
      then show ?thesis
        using 1(2) [OF True mid_def left] 1(3-5) m hit_left [OF 1(3) 1(5) left(2)] by simp
    next
      case found
      then have "hit ucs data lo hi (nat mid)" using m 1(4) by (simp add: hit_def)
      moreover have "bisearch_loop ucs data lo hi" using True found by (simp add: step flip: mid_def)
      ultimately show ?thesis by blast
    qed
  next
    case False
    then show ?thesis by (auto simp: bisearch_loop.simps [of ucs data lo hi] hit_def)
  qed
qed

lemma in_ranges_nth: "in_ranges ucs data \<longleftrightarrow> (\<exists>k < length data. fst (data ! k) \<le> ucs \<and> ucs \<le> snd (data ! k))"
  unfolding in_ranges_def set_conv_nth by blast

lemma bisearch_correct:
  assumes "ascending data" and "data \<noteq> []" and "ucs \<noteq> undefined_code"
  shows "bisearch ucs data \<longleftrightarrow> in_ranges ucs data"
proof -
  let ?hi = "length data - 1"
  have "bisearch_loop ucs data 0 (int ?hi) \<longleftrightarrow> in_ranges ucs data"
  proof -
    have "bisearch_loop ucs data 0 (int ?hi) \<longleftrightarrow> (\<exists>k. hit ucs data 0 (int ?hi) k)"
      using assms by (intro bisearch_loop_correct) (cases data, auto)
    also have "\<dots> \<longleftrightarrow> (\<exists>k < length data. fst (data ! k) \<le> ucs \<and> ucs \<le> snd (data ! k))"
      using assms(2) by (cases data) (auto simp: hit_def less_Suc_eq_le)
    finally show ?thesis by (simp add: in_ranges_nth)
  qed
  moreover have "\<not> in_ranges ucs data" if "ucs < fst (data ! 0)"
  proof
    assume "in_ranges ucs data"
    then obtain k where k: "k < length data" "fst (data ! k) \<le> ucs" by (auto simp: in_ranges_nth)
    then have "fst (data ! 0) \<le> fst (data ! k)"
      using ascending_nth [OF assms(1), of 0 k] ascending_range [OF assms(1), of 0] by (cases k) force+
    with k that show False by simp
  qed
  moreover have "\<not> in_ranges ucs data" if "ucs > snd (data ! ?hi)"
  proof
    assume "in_ranges ucs data"
    then obtain k where k: "k < length data" "ucs \<le> snd (data ! k)" by (auto simp: in_ranges_nth)
    then have "k = ?hi \<or> k < ?hi" by auto
    then have "snd (data ! k) \<le> snd (data ! ?hi)"
      using ascending_nth [OF assms(1), of k ?hi] ascending_range [OF assms(1), of ?hi] k by fastforce
    with k that show False by simp
  qed
  ultimately show ?thesis using assms(3) by (auto simp: bisearch_def Let_def)
qed

lemma COMBINING_HIGH_ascending: "ascending COMBINING_HIGH" by (simp add: COMBINING_HIGH_def)

text \<open>The table after the last loop: 0 in the zero-width ranges, the base table elsewhere.\<close>

lemma fill_ranges:
  "fold (\<lambda>r t. fill_table 0 (fst r) (snd r + 1) t) rs t i = (if in_ranges i rs then 0 else t i)"
proof (induction rs arbitrary: t)
  case (Cons r rs)
  show ?case unfolding fold_Cons comp_def Cons by (auto simp: in_ranges_def fill_table_def less_Suc_eq_le)
qed (simp add: in_ranges_def)

text \<open>The wide ranges of the basic plane and of the supplementary ideographic planes.\<close>

definition wide :: "nat \<Rightarrow> bool" where
  "wide u \<longleftrightarrow> in_ranges u [(0x1100, 0x115f), (0x2329, 0x232a), (0x2e80, 0x303e), (0x3040, 0xa4cf), (0xac00, 0xd7a3),
     (0xf900, 0xfaff), (0xfe10, 0xfe19), (0xfe30, 0xfe6f), (0xff00, 0xff60), (0xffe0, 0xffe6),
     (0x20000, 0x2fffd), (0x30000, 0x3fffd)]"

definition control_char :: "nat \<Rightarrow> bool" where
  "control_char u \<longleftrightarrow> u < 32 \<or> 0x7f \<le> u \<and> u < 0xa0"

lemma base_table_spec: "u < 65536 \<Longrightarrow> base_table u = (if control_char u then 0 else if wide u then 2 else 1)"
  unfolding base_table_def fill_table_def control_char_def wide_def in_ranges_def
  by (simp split: if_split)

lemma wcwidth_spec_lemma:
  assumes "u \<noteq> undefined_code"
  shows "wcwidth u = (if control_char u \<or> in_ranges u COMBINING_BMP \<or> in_ranges u COMBINING_HIGH then 0 else if wide u then 2 else 1)"
proof -
  have bmp: "128 \<le> u \<and> u < 65536" if "in_ranges u COMBINING_BMP"
    using that unfolding in_ranges_def COMBINING_BMP_def by (simp; linarith)
  have high: "65536 \<le> u" if "in_ranges u COMBINING_HIGH"
    using that unfolding in_ranges_def COMBINING_HIGH_def by (simp; linarith)
  have ascii: "\<not> wide u" if "u < 127" using that by (simp add: wide_def in_ranges_def)
  have wide_high: "wide u \<longleftrightarrow> u \<ge> 0x20000 \<and> u \<le> 0x2fffd \<or> u \<ge> 0x30000 \<and> u \<le> 0x3fffd" if "65536 \<le> u"
    using that unfolding wide_def in_ranges_def by auto
  have bs: "bisearch u COMBINING_HIGH = in_ranges u COMBINING_HIGH"
    by (rule bisearch_correct [OF COMBINING_HIGH_ascending _ assms]) (simp add: COMBINING_HIGH_def)
  consider "u < 32" | "32 \<le> u" "u < 127" | "127 \<le> u" "u < 65536" | "65536 \<le> u" by linarith
  then show ?thesis
  proof cases
    case 1
    then show ?thesis by (simp add: wcwidth_def control_char_def)
  next
    case 2
    then show ?thesis using bmp high ascii by (auto simp: wcwidth_def control_char_def)
  next
    case 3
    have "width_table u = (if in_ranges u COMBINING_BMP then 0 else base_table u)"
      unfolding width_table_def by (rule fill_ranges)
    with 3 show ?thesis using high base_table_spec [of u] by (auto simp: wcwidth_def)
  next
    case 4
    then show ?thesis using bmp wide_high bs by (auto simp: wcwidth_def wcwidthHigh_def control_char_def)
  qed
qed

text \<open>
  The width function is its specification: control characters and every code point in one of the
  zero-width ranges have width 0, the East Asian wide ranges width 2, everything else width 1. The
  binary search finds exactly the members of the ranges, the order of the table's assignments is
  right, and the shortcuts for ASCII agree with the table.
\<close>

theorem wcwidth_specification:
  assumes "u \<noteq> undefined_code"
  shows "wcwidth u =
     (if u < 32 \<or> 0x7f \<le> u \<and> u < 0xa0 \<or> (\<exists>(a, b) \<in> set (COMBINING_BMP @ COMBINING_HIGH). a \<le> u \<and> u \<le> b) then 0
      else if wide u then 2 else 1)"
proof -
  have "(\<exists>(a, b) \<in> set (COMBINING_BMP @ COMBINING_HIGH). a \<le> u \<and> u \<le> b) \<longleftrightarrow>
    in_ranges u COMBINING_BMP \<or> in_ranges u COMBINING_HIGH"
    by (simp add: in_ranges_def split_beta bex_Un)
  then show ?thesis by (simp add: wcwidth_spec_lemma [OF assms] control_char_def)
qed

lemma width_loop_acc: "getStringCellWidth_loop s acc = acc + getStringCellWidth_loop s 0"
proof (induction s arbitrary: acc rule: s32_loop.induct)
  case (2 code rest)
  show ?case
  proof (cases rest)
    case Nil
    then show ?thesis by simp
  next
    case (Cons second rest')
    show ?thesis
    proof (cases "is_high code")
      case True
      note IH = 2(1) [OF True Cons]
      show ?thesis using True Cons by (simp add: IH [of "acc + _"] IH [of "wcwidth _"] IH [of "wcwidth _ + _"] IH [of "_ + wcwidth _"])
    next
      case False
      note IH = 2(2) [OF False]
      show ?thesis using False IH [of "acc + wcwidth code"] IH [of "wcwidth code"] by simp
    qed
  qed
qed simp

text \<open>
  The width of a string is the sum of the widths of the code points the input decoder reads from
  it, unpaired surrogates included, the last one too when it is cut off.
\<close>

theorem string_width_is_sum:
  "getStringCellWidth s =
     (case s32_decode 0 s of (interim, cps) \<Rightarrow>
        sum_list (map wcwidth (cps @ (if interim = 0 then [] else [interim]))))"
proof -
  have "getStringCellWidth_loop s 0 =
     sum_list (map wcwidth (snd (s32_loop s) @ (if fst (s32_loop s) = 0 then [] else [fst (s32_loop s)])))"
  proof (induction s rule: s32_loop.induct)
    case (2 code rest)
    show ?case
    proof (cases "is_high code")
      case True
      show ?thesis
      proof (cases rest)
        case Nil
        then show ?thesis using True is_high_pos [OF True] by simp
      next
        case (Cons second rest')
        then show ?thesis
          using 2(1) [OF True Cons] True
            width_loop_acc [of rest' "wcwidth second + wcwidth code"] width_loop_acc [of rest' "wcwidth (combine code second)"]
          by (simp add: split_beta combine_def)
      qed
    next
      case False
      then show ?thesis using 2(2) width_loop_acc [of rest "wcwidth code"] by (simp add: split_beta)
    qed
  qed simp
  then show ?thesis by (cases s) (simp_all add: getStringCellWidth_def s32_decode_def split_beta)
qed

end
