(* ===== verification/SelectionModel.thy ===== *)
theory SelectionModel
  imports JS_Prelude
begin

text \<open>
  The selection of the terminal (\<open>SelectionModel\<close> in \<open>xterm.js\<close>): where it was started, where the
  pointer is, and the two end points that the rest of the terminal reads. A position is a column
  and a row of the buffer.
\<close>

type_synonym position = "int \<times> int"

record selection_model =
  sm_start :: "position option"
  sm_end :: "position option"
  sm_all :: bool
  sm_startLength :: int

text \<open>What the model reads of the terminal.\<close>

record term_dims =
  td_cols :: int
  td_rows :: int
  td_ybase :: int

definition clearSelection :: "selection_model \<Rightarrow> selection_model" where
  "clearSelection m = m\<lparr>sm_start := None, sm_end := None, sm_all := False, sm_startLength := 0\<rparr>"

definition areSelectionValuesReversed :: "selection_model \<Rightarrow> bool" where
  "areSelectionValuesReversed m =
     (case (sm_start m, sm_end m) of
        (Some start, Some stop) \<Rightarrow> snd start > snd stop \<or> (snd start = snd stop \<and> fst start > fst stop)
      | _ \<Rightarrow> False)"

definition finalSelectionStart :: "selection_model \<Rightarrow> position option" where
  "finalSelectionStart m =
     (if sm_all m then Some (0, 0)
      else if sm_end m = None \<or> sm_start m = None then sm_start m
      else if areSelectionValuesReversed m then sm_end m else sm_start m)"

definition finalSelectionEnd :: "term_dims \<Rightarrow> selection_model \<Rightarrow> position option" where
  "finalSelectionEnd d m =
     (if sm_all m then Some (td_cols d, td_ybase d + td_rows d - 1)
      else
        (case sm_start m of
           None \<Rightarrow> None
         | Some start \<Rightarrow>
             if sm_end m = None \<or> areSelectionValuesReversed m then
               (let startPlusLength = fst start + sm_startLength m
                in if startPlusLength > td_cols d
                   then Some (js_rem startPlusLength (td_cols d), snd start + startPlusLength div td_cols d)
                   else Some (startPlusLength, snd start))
             else
               (case sm_end m of
                  None \<Rightarrow> None
                | Some stop \<Rightarrow>
                    if sm_startLength m \<noteq> 0 \<and> snd stop = snd start
                    then Some (max (fst start + sm_startLength m) (fst stop), snd stop)
                    else Some stop)))"

definition trim_row :: "int \<Rightarrow> position \<Rightarrow> position" where
  "trim_row amount p = (fst p, snd p - amount)"

definition onTrim :: "int \<Rightarrow> selection_model \<Rightarrow> selection_model \<times> bool" where
  "onTrim amount m =
     (let m1 = m\<lparr>sm_start := map_option (trim_row amount) (sm_start m)\<rparr>;
          m2 = m1\<lparr>sm_end := map_option (trim_row amount) (sm_end m1)\<rparr>
      in if (case sm_end m2 of None \<Rightarrow> False | Some e \<Rightarrow> snd e < 0) then (clearSelection m2, True)
         else if (case sm_start m2 of None \<Rightarrow> False | Some s \<Rightarrow> snd s < 0)
         then (m2\<lparr>sm_start := map_option (\<lambda>s. (fst s, 0)) (sm_start m2)\<rparr>, False)
         else (m2, False))"

subsection \<open>Properties\<close>

text \<open>Reading order of positions.\<close>

definition before :: "position \<Rightarrow> position \<Rightarrow> bool" where
  "before p q \<longleftrightarrow> snd p < snd q \<or> snd p = snd q \<and> fst p \<le> fst q"

text \<open>
  The end points the terminal reads are in reading order, whichever way the selection was dragged
  and however long the word or line under its start is: when both are defined, the start does not
  come after the end.
\<close>

theorem final_selection_ordered:
  assumes "0 < td_cols d" and "0 \<le> sm_startLength m" and "0 \<le> td_ybase d" and "0 < td_rows d"
    and "finalSelectionStart m = Some p" and "finalSelectionEnd d m = Some q"
  shows "before p q"
proof -
  have wrap: "b < c + n div td_cols d" if "n > td_cols d" "b \<le> c" for b c n
    using that assms(1) pos_imp_zdiv_pos_iff [of "td_cols d" n] by linarith
  show ?thesis
    using assms
    by (auto dest: less_imp_le intro!: wrap simp: pos_imp_zdiv_pos_iff [OF assms(1)] finalSelectionStart_def finalSelectionEnd_def areSelectionValuesReversed_def before_def Let_def
        split: if_splits option.splits)
qed

theorem final_selection_ordered_witness:
  "let m = \<lparr>sm_start = Some (78, 4), sm_end = Some (3, 2), sm_all = False, sm_startLength = 5\<rparr>;
       d = \<lparr>td_cols = 80, td_rows = 24, td_ybase = 0\<rparr>
   in finalSelectionStart m = Some (3, 2) \<and> finalSelectionEnd d m = Some (3, 5) \<and> before (3, 2) (3, 5)"
proof -
  let ?m = "\<lparr>sm_start = Some (78, 4), sm_end = Some (3, 2), sm_all = False, sm_startLength = 5\<rparr>"
  let ?d = "\<lparr>td_cols = 80, td_rows = 24, td_ybase = 0\<rparr>"
  have "finalSelectionStart ?m = Some (3, 2)" "finalSelectionEnd ?d ?m = Some (3, 5)" by code_simp+
  with final_selection_ordered [of ?d ?m "(3, 2)" "(3, 5)"] show ?thesis by simp
qed

text \<open>
  Trimming lines off the top of the buffer moves the selection with its text: a selection whose
  end has left the buffer is dropped, and this is reported; otherwise the end keeps its text, and
  the start keeps its text or, if that has left the buffer, moves to the top row.
\<close>

theorem trim_moves_selection:
  assumes "sm_start m = Some (sx, sy)" and "sm_end m = Some (ex, ey)"
  shows "onTrim n m =
    (if ey < n then (clearSelection m, True)
     else (m\<lparr>sm_start := Some (sx, max 0 (sy - n)), sm_end := Some (ex, ey - n)\<rparr>, False))"
  using assms by (auto simp: onTrim_def trim_row_def clearSelection_def Let_def max_def)

theorem trim_moves_selection_witness:
  "onTrim 3 \<lparr>sm_start = Some (5, 2), sm_end = Some (9, 4), sm_all = False, sm_startLength = 0\<rparr> =
    (\<lparr>sm_start = Some (5, 0), sm_end = Some (9, 1), sm_all = False, sm_startLength = 0\<rparr>, False)"
  using trim_moves_selection [of "\<lparr>sm_start = Some (5, 2), sm_end = Some (9, 4), sm_all = False, sm_startLength = 0\<rparr>" 5 2 9 4 3]
  by simp

end
