(* ===== verification/LRUMap.thy ===== *)
theory LRUMap
  imports JS_Prelude
begin

text \<open>
  The least-recently-used map behind the dynamic character atlas (\<open>LRUMap\<close> in \<open>xterm.js\<close>). The
  source keeps its nodes in a doubly linked list threaded through mutable objects; here they live
  in a store of nodes, and a reference to a node is its address. The abstract view is an
  association list in the order of use.
\<close>

subsection \<open>State and operations\<close>

record ('k, 'v) node =
  nd_prev :: "nat option"
  nd_next :: "nat option"
  nd_key :: "'k option"
  nd_value :: "'v option"

record ('k, 'v) lru =
  lru_capacity :: nat
  lru_map :: "'k \<rightharpoonup> nat"
  lru_head :: "nat option"
  lru_tail :: "nat option"
  lru_nodePool :: "nat list"
  lru_size :: nat
  lru_store :: "nat \<Rightarrow> ('k, 'v) node"
  lru_fresh :: nat

definition empty_node :: "('k, 'v) node" where
  "empty_node = \<lparr>nd_prev = None, nd_next = None, nd_key = None, nd_value = None\<rparr>"

definition lru_new :: "nat \<Rightarrow> ('k, 'v) lru" where
  "lru_new capacity = \<lparr>lru_capacity = capacity, lru_map = (\<lambda>_. None), lru_head = None, lru_tail = None, lru_nodePool = [],
     lru_size = 0, lru_store = (\<lambda>_. empty_node), lru_fresh = 0\<rparr>"

definition upd_node :: "nat \<Rightarrow> (('k, 'v) node \<Rightarrow> ('k, 'v) node) \<Rightarrow> ('k, 'v) lru \<Rightarrow> ('k, 'v) lru" where
  "upd_node a f m = m\<lparr>lru_store := (lru_store m)(a := f (lru_store m a))\<rparr>"

definition unlinkNode :: "nat \<Rightarrow> ('k, 'v) lru \<Rightarrow> ('k, 'v) lru" where
  "unlinkNode node m =
     (let prev = nd_prev (lru_store m node); next = nd_next (lru_store m node);
          m1 = (if Some node = lru_head m then m\<lparr>lru_head := next\<rparr> else m);
          m2 = (if Some node = lru_tail m1 then m1\<lparr>lru_tail := prev\<rparr> else m1);
          m3 = (case prev of None \<Rightarrow> m2 | Some p \<Rightarrow> upd_node p (\<lambda>n. n\<lparr>nd_next := next\<rparr>) m2)
      in case next of None \<Rightarrow> m3 | Some q \<Rightarrow> upd_node q (\<lambda>n. n\<lparr>nd_prev := prev\<rparr>) m3)"

definition appendNode :: "nat \<Rightarrow> ('k, 'v) lru \<Rightarrow> ('k, 'v) lru" where
  "appendNode node m =
     (let tail = lru_tail m;
          m1 = (case tail of None \<Rightarrow> m | Some t \<Rightarrow> upd_node t (\<lambda>n. n\<lparr>nd_next := Some node\<rparr>) m);
          m2 = upd_node node (\<lambda>n. n\<lparr>nd_prev := tail, nd_next := None\<rparr>) m1;
          m3 = m2\<lparr>lru_tail := Some node\<rparr>
      in if lru_head m3 = None then m3\<lparr>lru_head := Some node\<rparr> else m3)"

definition new_node :: "('k, 'v) node \<Rightarrow> ('k, 'v) lru \<Rightarrow> ('k, 'v) lru \<times> nat" where
  "new_node n m = (m\<lparr>lru_store := (lru_store m)(lru_fresh m := n), lru_fresh := lru_fresh m + 1\<rparr>, lru_fresh m)"

definition prealloc :: "nat \<Rightarrow> ('k, 'v) lru \<Rightarrow> ('k, 'v) lru" where
  "prealloc count m =
     for_up 0 (int count) (\<lambda>_ m. let (m1, a) = new_node empty_node m in m1\<lparr>lru_nodePool := lru_nodePool m1 @ [a]\<rparr>) m"

definition lru_get :: "'k \<Rightarrow> ('k, 'v) lru \<Rightarrow> ('k, 'v) lru \<times> 'v option" where
  "lru_get key m =
     (case lru_map m key of
        Some node \<Rightarrow>
          (let m1 = appendNode node (unlinkNode node m) in (m1, nd_value (lru_store m1 node)))
      | None \<Rightarrow> (m, None))"

definition peekValue :: "'k \<Rightarrow> ('k, 'v) lru \<Rightarrow> 'v option" where
  "peekValue key m = (case lru_map m key of Some node \<Rightarrow> nd_value (lru_store m node) | None \<Rightarrow> None)"

definition peek :: "('k, 'v) lru \<Rightarrow> 'v option" where
  "peek m = (case lru_head m of None \<Rightarrow> None | Some h \<Rightarrow> nd_value (lru_store m h))"

text \<open>\<open>Inl\<close> is the exception of a map of capacity 0, whose list has no head to reuse.\<close>

definition lru_set :: "'k \<Rightarrow> 'v \<Rightarrow> ('k, 'v) lru \<Rightarrow> js_error + ('k, 'v) lru" where
  "lru_set key value m =
     (case lru_map m key of
        Some node \<Rightarrow>
          Inr (appendNode node (upd_node node (\<lambda>n. n\<lparr>nd_value := Some value\<rparr>) (unlinkNode node m)))
      | None \<Rightarrow>
          if lru_size m \<ge> lru_capacity m then
            (case lru_head m of
               None \<Rightarrow> Inl TypeError
             | Some node \<Rightarrow>
                 (let m1 = unlinkNode node m;
                      m2 = (case nd_key (lru_store m1 node) of None \<Rightarrow> m1
                            | Some k \<Rightarrow> m1\<lparr>lru_map := (lru_map m1)(k := None)\<rparr>);
                      m3 = upd_node node (\<lambda>n. n\<lparr>nd_key := Some key, nd_value := Some value\<rparr>) m2
                  in Inr (appendNode node (m3\<lparr>lru_map := (lru_map m3)(key \<mapsto> node)\<rparr>))))
          else
            (let (m1, node) =
                   (if length (lru_nodePool m) > 0
                    then (upd_node (last (lru_nodePool m)) (\<lambda>n. n\<lparr>nd_key := Some key, nd_value := Some value\<rparr>)
                            (m\<lparr>lru_nodePool := butlast (lru_nodePool m)\<rparr>), last (lru_nodePool m))
                    else new_node \<lparr>nd_prev = None, nd_next = None, nd_key = Some key, nd_value = Some value\<rparr> m)
             in Inr (appendNode node (m1\<lparr>lru_map := (lru_map m1)(key \<mapsto> node), lru_size := lru_size m1 + 1\<rparr>))))"

subsection \<open>Chains of nodes\<close>

fun links :: "(nat \<Rightarrow> ('k, 'v) node) \<Rightarrow> nat option \<Rightarrow> nat list \<Rightarrow> nat option \<Rightarrow> bool" where
  "links s p [] n = True"
| "links s p (a # as) n = (nd_prev (s a) = p \<and> nd_next (s a) = (case as of [] \<Rightarrow> n | b # _ \<Rightarrow> Some b) \<and> links s (Some a) as n)"

definition first :: "nat list \<Rightarrow> nat option \<Rightarrow> nat option" where
  "first as n = (case as of [] \<Rightarrow> n | a # _ \<Rightarrow> Some a)"

definition final :: "nat list \<Rightarrow> nat option \<Rightarrow> nat option" where
  "final as p = (if as = [] then p else Some (last as))"

lemma first_simps [simp]: "first [] n = n" "first (a # as) n = Some a"
  by (simp_all add: first_def)

lemma final_simps [simp]: "final [] p = p" "final (a # as) p = final as (Some a)" "final (as @ [a]) p = Some a"
  by (auto simp: final_def)

lemma links_append: "links s p (as @ bs) n \<longleftrightarrow> links s p as (first bs n) \<and> links s (final as p) bs n"
  by (induction as arbitrary: p) (auto simp: first_def split: list.split)

lemma links_frame: "x \<notin> set as \<Longrightarrow> links (s(x := v)) p as n = links s p as n"
  by (induction as arbitrary: p) auto

lemma links_first: "links s p (a # as) n \<Longrightarrow> a \<notin> set as \<Longrightarrow> links (s(a := (s a)\<lparr>nd_prev := q\<rparr>)) q (a # as) n"
  by (simp add: links_frame)

lemma links_last: "links s p (as @ [a]) n \<Longrightarrow> a \<notin> set as \<Longrightarrow> links (s(a := (s a)\<lparr>nd_next := q\<rparr>)) p (as @ [a]) q"
  by (simp add: links_append links_frame)

text \<open>The parts of a node other than its links.\<close>

definition same_entries :: "(nat \<Rightarrow> ('k, 'v) node) \<Rightarrow> (nat \<Rightarrow> ('k, 'v) node) \<Rightarrow> bool" where
  "same_entries s t \<longleftrightarrow> (\<forall>a. nd_key (t a) = nd_key (s a) \<and> nd_value (t a) = nd_value (s a))"

text \<open>A map with its list of nodes: \<open>chain m as\<close>.\<close>

definition chain :: "('k, 'v) lru \<Rightarrow> nat list \<Rightarrow> bool" where
  "chain m as \<longleftrightarrow> distinct as \<and> links (lru_store m) None as None \<and> lru_head m = first as None \<and> lru_tail m = final as None"

lemma upd_node_simps [simp]:
  "lru_store (upd_node a f m) = (lru_store m)(a := f (lru_store m a))" "lru_head (upd_node a f m) = lru_head m"
  "lru_tail (upd_node a f m) = lru_tail m" "lru_map (upd_node a f m) = lru_map m" "lru_size (upd_node a f m) = lru_size m"
  "lru_capacity (upd_node a f m) = lru_capacity m" "lru_nodePool (upd_node a f m) = lru_nodePool m"
  "lru_fresh (upd_node a f m) = lru_fresh m"
  by (simp_all add: upd_node_def)

lemma unlinkNode_chain:
  assumes "chain m (as @ a # bs)"
  shows "chain (unlinkNode a m) (as @ bs)"
proof -
  have d: "distinct (as @ a # bs)" and l: "links (lru_store m) None as (Some a)"
    and prev: "nd_prev (lru_store m a) = final as None" and nxt: "nd_next (lru_store m a) = first bs None"
    and r: "links (lru_store m) (Some a) bs None"
    and hd: "lru_head m = first (as @ a # bs) None" and tl: "lru_tail m = final (as @ a # bs) None"
    using assms by (auto simp: chain_def links_append first_def)
  have head: "lru_head (unlinkNode a m) = first (as @ bs) None"
    using d hd nxt by (cases as) (auto simp: unlinkNode_def Let_def split: option.split)
  have tail: "lru_tail (unlinkNode a m) = final (as @ bs) None"
    using d tl prev by (cases bs rule: rev_cases) (auto simp: unlinkNode_def Let_def final_def split: option.split)
  have "links (lru_store (unlinkNode a m)) None (as @ bs) None"
  proof (cases as rule: rev_cases)
    case Nil
    then show ?thesis
      using d r prev nxt by (cases bs) (auto simp: unlinkNode_def Let_def links_frame split: option.split)
  next
    case (snoc as' x)
    define s where "s = (lru_store m)(x := (lru_store m x)\<lparr>nd_next := first bs None\<rparr>)"
    have l1: "links s None as (first bs None)" using links_last [of _ _ as' x] l d by (auto simp: s_def snoc)
    have r1: "links s (Some a) bs None" using r d by (auto simp: s_def snoc links_frame)
    show ?thesis
    proof (cases bs)
      case Nil
      then show ?thesis using l1 prev nxt by (simp add: unlinkNode_def Let_def snoc s_def)
    next
      case (Cons y ys)
      then have "links (s(y := (s y)\<lparr>nd_prev := Some x\<rparr>)) (Some x) bs None"
        using links_first [of s "Some a" y ys None "Some x"] r1 d by auto
      moreover have "links (s(y := (s y)\<lparr>nd_prev := Some x\<rparr>)) None as (Some y)"
        using l1 d Cons by (subst links_frame) auto
      moreover have "lru_store (unlinkNode a m) = s(y := (s y)\<lparr>nd_prev := Some x\<rparr>)"
        using prev nxt by (simp add: unlinkNode_def Let_def snoc Cons s_def)
      ultimately show ?thesis by (simp add: links_append snoc Cons)
    qed
  qed
  with d head tail show ?thesis by (simp add: chain_def)
qed

lemma first_append: "as \<noteq> [] \<Longrightarrow> first (as @ bs) n = first as n"
  by (cases as) simp_all

lemma appendNode_chain:
  assumes "chain m as" and "a \<notin> set as"
  shows "chain (appendNode a m) (as @ [a])"
proof (cases as rule: rev_cases)
  case Nil
  then show ?thesis using assms by (simp add: chain_def appendNode_def Let_def)
next
  case (snoc as' x)
  let ?s = "(lru_store m)(x := (lru_store m x)\<lparr>nd_next := Some a\<rparr>)"
  have l: "links (lru_store m) None (as' @ [x]) None" and d: "distinct as" and hd: "lru_head m = first as None"
    and tl: "lru_tail m = Some x"
    using assms(1) by (simp_all add: chain_def snoc)
  then have "links ?s None as (Some a)" using links_last [of _ _ as' x] by (auto simp: snoc)
  then have "links (?s(a := (?s a)\<lparr>nd_prev := Some x, nd_next := None\<rparr>)) None (as @ [a]) None"
    using assms(2) by (simp add: links_append links_frame) (simp add: snoc)
  moreover have "lru_store (appendNode a m) = ?s(a := (?s a)\<lparr>nd_prev := Some x, nd_next := None\<rparr>)"
    using tl by (simp add: appendNode_def Let_def)
  moreover have "lru_head (appendNode a m) = first (as @ [a]) None" "lru_tail (appendNode a m) = final (as @ [a]) None"
  proof -
    obtain h where h: "first as None = Some h" by (cases as') (auto simp: snoc)
    then have "first (as @ [a]) None = Some h" by (cases as) auto
    then show "lru_head (appendNode a m) = first (as @ [a]) None" "lru_tail (appendNode a m) = final (as @ [a]) None"
      using tl hd h by (simp_all add: appendNode_def Let_def)
  qed
  ultimately show ?thesis using d assms(2) by (simp add: chain_def)
qed

subsection \<open>The abstract map\<close>

definition use_key :: "'k \<Rightarrow> 'v \<Rightarrow> ('k \<times> 'v) list \<Rightarrow> ('k \<times> 'v) list" where
  "use_key k v l = filter (\<lambda>e. fst e \<noteq> k) l @ [(k, v)]"

definition abs_get :: "'k \<Rightarrow> ('k \<times> 'v) list \<Rightarrow> ('k \<times> 'v) list" where
  "abs_get k l = (case map_of l k of None \<Rightarrow> l | Some v \<Rightarrow> use_key k v l)"

definition abs_set :: "nat \<Rightarrow> 'k \<Rightarrow> 'v \<Rightarrow> ('k \<times> 'v) list \<Rightarrow> ('k \<times> 'v) list" where
  "abs_set cap k v l =
     (if map_of l k \<noteq> None then use_key k v l
      else if length l \<ge> cap then tl l @ [(k, v)] else l @ [(k, v)])"

definition entry :: "('k, 'v) lru \<Rightarrow> nat \<Rightarrow> 'k \<times> 'v" where
  "entry m a = (the (nd_key (lru_store m a)), the (nd_value (lru_store m a)))"

definition lru_ok :: "('k, 'v) lru \<Rightarrow> nat list \<Rightarrow> bool" where
  "lru_ok m as \<longleftrightarrow> chain m as \<and> inj_on (\<lambda>a. nd_key (lru_store m a)) (set as) \<and>
     (\<forall>a \<in> set as. nd_key (lru_store m a) \<noteq> None \<and> nd_value (lru_store m a) \<noteq> None) \<and>
     (\<forall>k a. lru_map m k = Some a \<longleftrightarrow> a \<in> set as \<and> nd_key (lru_store m a) = Some k) \<and>
     lru_size m = length as \<and> distinct (lru_nodePool m) \<and> set (lru_nodePool m) \<inter> set as = {} \<and>
     (\<forall>a \<in> set as \<union> set (lru_nodePool m). a < lru_fresh m) \<and> 0 < lru_capacity m \<and> length as \<le> lru_capacity m"

definition lru_rel :: "nat \<Rightarrow> ('k, 'v) lru \<Rightarrow> ('k \<times> 'v) list \<Rightarrow> bool" where
  "lru_rel cap m l \<longleftrightarrow> lru_capacity m = cap \<and> (\<exists>as. lru_ok m as \<and> l = map (entry m) as)"

text \<open>What moving nodes about leaves alone.\<close>

definition same_rest :: "('k, 'v) lru \<Rightarrow> ('k, 'v) lru \<Rightarrow> bool" where
  "same_rest m n \<longleftrightarrow> lru_map n = lru_map m \<and> lru_size n = lru_size m \<and> lru_nodePool n = lru_nodePool m \<and>
     lru_fresh n = lru_fresh m \<and> lru_capacity n = lru_capacity m \<and>
     (\<forall>a. nd_key (lru_store n a) = nd_key (lru_store m a) \<and> nd_value (lru_store n a) = nd_value (lru_store m a))"

lemma same_rest_trans: "same_rest m n \<Longrightarrow> same_rest n r \<Longrightarrow> same_rest m r"
  by (simp add: same_rest_def)

lemma unlinkNode_rest: "same_rest m (unlinkNode a m)"
  by (auto simp: unlinkNode_def same_rest_def Let_def split: option.split)

lemma appendNode_rest: "same_rest m (appendNode a m)"
  by (auto simp: appendNode_def same_rest_def Let_def split: option.split)

lemma same_rest_entry: "same_rest m n \<Longrightarrow> entry n = entry m"
  by (auto simp: same_rest_def entry_def)

text \<open>The node a key leads to, and its place in the list.\<close>

lemma lru_ok_find:
  assumes "lru_ok m xs" and "lru_map m k = Some a"
  obtains as bs v where "xs = as @ a # bs" and "nd_key (lru_store m a) = Some k" and "nd_value (lru_store m a) = Some v"
    and "map_of (map (entry m) xs) k = Some v" and "filter (\<lambda>e. fst e \<noteq> k) (map (entry m) xs) = map (entry m) (as @ bs)"
proof -
  have a: "a \<in> set xs" "nd_key (lru_store m a) = Some k" using assms by (auto simp: lru_ok_def)
  obtain as bs where split: "xs = as @ a # bs" using a(1) by (meson split_list)
  obtain v where v: "nd_value (lru_store m a) = Some v" using assms a by (auto simp: lru_ok_def)
  have other: "fst (entry m b) \<noteq> k" if "b \<in> set (as @ bs)" for b
  proof
    assume "fst (entry m b) = k"
    moreover have "nd_key (lru_store m b) \<noteq> None" using assms(1) that by (auto simp: lru_ok_def split)
    ultimately have "nd_key (lru_store m b) = nd_key (lru_store m a)" using a(2) by (auto simp: entry_def)
    then have "b = a" using assms(1) that a(1) by (auto simp: lru_ok_def split inj_on_def)
    then show False using assms(1) that by (auto simp: lru_ok_def chain_def split)
  qed
  have "filter (\<lambda>e. fst e \<noteq> k) (map (entry m) xs) = map (entry m) (as @ bs)"
    using other a(2) by (auto simp: split entry_def filter_id_conv)
  moreover have "map_of (map (entry m) as) k = None" using other by (force simp: map_of_eq_None_iff)
  then have "map_of (map (entry m) xs) k = Some v"
    using a(2) v by (simp add: split entry_def map_add_def)
  ultimately show ?thesis using that split a(2) v by blast
qed

subsection \<open>The operations refine it\<close>

lemma lru_ok_miss: "lru_ok m xs \<Longrightarrow> lru_map m k = None \<Longrightarrow> map_of (map (entry m) xs) k = None"
  by (auto simp: lru_ok_def map_of_eq_None_iff entry_def) (metis option.exhaust_sel option.distinct(1))

text \<open>Moving the node of a key to the end, its value replaced.\<close>

lemma lru_ok_use:
  assumes ok: "lru_ok m (as @ a # bs)" and key: "nd_key (lru_store m a) = Some k"
    and n_def: "n = appendNode a (upd_node a (\<lambda>x. x\<lparr>nd_value := Some v\<rparr>) (unlinkNode a m))"
  shows "lru_ok n (as @ bs @ [a])" and "map (entry n) (as @ bs @ [a]) = map (entry m) (as @ bs) @ [(k, v)]"
    and "lru_capacity n = lru_capacity m"
proof -
  let ?u = "upd_node a (\<lambda>x. x\<lparr>nd_value := Some v\<rparr>) (unlinkNode a m)"
  have d: "distinct (as @ a # bs)" using ok by (simp add: lru_ok_def chain_def)
  have "chain (unlinkNode a m) (as @ bs)" using ok by (intro unlinkNode_chain) (simp add: lru_ok_def)
  then have "chain ?u (as @ bs)" using d by (auto simp: chain_def links_frame)
  then have c: "chain n ((as @ bs) @ [a])" unfolding n_def using d by (intro appendNode_chain) auto
  note u = unlinkNode_rest [of m a]
  note r = appendNode_rest [of ?u a]
  have keys: "nd_key (lru_store n b) = nd_key (lru_store m b)" and
    vals: "nd_value (lru_store n b) = (if b = a then Some v else nd_value (lru_store m b))" for b
    using u r by (auto simp: same_rest_def n_def)
  have rest: "lru_map n = lru_map m" "lru_size n = lru_size m" "lru_nodePool n = lru_nodePool m" "lru_fresh n = lru_fresh m"
    "lru_capacity n = lru_capacity m"
    using u r by (auto simp: same_rest_def n_def)
  show "lru_capacity n = lru_capacity m" by (rule rest)
  show "lru_ok n (as @ bs @ [a])"
    using ok c unfolding lru_ok_def keys vals rest by (auto simp: inj_on_def)
  show "map (entry n) (as @ bs @ [a]) = map (entry m) (as @ bs) @ [(k, v)]"
    using d key by (auto simp: entry_def keys vals)
qed

lemma upd_value_id: "nd_value (lru_store m a) = Some v \<Longrightarrow> upd_node a (\<lambda>x. x\<lparr>nd_value := Some v\<rparr>) m = m"
  by (simp add: upd_node_def fun_upd_idem)

lemma lru_get_rel:
  assumes "lru_rel cap m l"
  shows "lru_rel cap (fst (lru_get k m)) (abs_get k l) \<and> snd (lru_get k m) = map_of l k"
proof -
  obtain xs where ok: "lru_ok m xs" and l: "l = map (entry m) xs" and cap: "lru_capacity m = cap"
    using assms by (auto simp: lru_rel_def)
  show ?thesis
  proof (cases "lru_map m k")
    case None
    then show ?thesis using assms lru_ok_miss [OF ok None] by (simp add: lru_get_def abs_get_def l)
  next
    case (Some a)
    then obtain as bs v where xs: "xs = as @ a # bs" and k: "nd_key (lru_store m a) = Some k"
      and v: "nd_value (lru_store m a) = Some v" and mo: "map_of l k = Some v"
      and f: "filter (\<lambda>e. fst e \<noteq> k) l = map (entry m) (as @ bs)"
      using lru_ok_find [OF ok Some] unfolding l by metis
    have id: "upd_node a (\<lambda>x. x\<lparr>nd_value := Some v\<rparr>) (unlinkNode a m) = unlinkNode a m"
      using unlinkNode_rest [of m a] v by (intro upd_value_id) (simp add: same_rest_def)
    note use = lru_ok_use [OF ok [unfolded xs] k refl, of v, unfolded id]
    have "nd_value (lru_store (appendNode a (unlinkNode a m)) a) = Some v"
      using appendNode_rest [of "unlinkNode a m" a] unlinkNode_rest [of m a] v by (simp add: same_rest_def)
    then show ?thesis
      using use Some mo f cap
      by (auto simp: lru_get_def abs_get_def use_key_def lru_rel_def Let_def intro!: exI [of _ "as @ bs @ [a]"])
  qed
qed

text \<open>Appending the node of a key the map does not have: a reused head, a pooled node or a fresh one.\<close>

lemma lru_ok_add:
  assumes c: "chain m xs" and a: "a \<notin> set xs" and inj: "inj_on (\<lambda>b. nd_key (lru_store m b)) (set xs)"
    and entries: "\<forall>b \<in> set xs. nd_key (lru_store m b) \<noteq> None \<and> nd_value (lru_store m b) \<noteq> None \<and> nd_key (lru_store m b) \<noteq> Some k"
    and node: "nd_key (lru_store m a) = Some k" "nd_value (lru_store m a) = Some v"
    and map: "\<forall>j b. lru_map m j = Some b \<longleftrightarrow> b \<in> insert a (set xs) \<and> nd_key (lru_store m b) = Some j"
    and rest: "lru_size m = Suc (length xs)" "distinct (lru_nodePool m)" "set (lru_nodePool m) \<inter> insert a (set xs) = {}"
      "\<forall>b \<in> insert a (set xs) \<union> set (lru_nodePool m). b < lru_fresh m" "Suc (length xs) \<le> lru_capacity m"
  shows "lru_ok (appendNode a m) (xs @ [a]) \<and> map (entry (appendNode a m)) (xs @ [a]) = map (entry m) xs @ [(k, v)] \<and>
    lru_capacity (appendNode a m) = lru_capacity m"
proof -
  let ?n = "appendNode a m"
  note r = appendNode_rest [of m a]
  have eqs: "lru_map ?n = lru_map m" "lru_size ?n = lru_size m" "lru_nodePool ?n = lru_nodePool m" "lru_fresh ?n = lru_fresh m"
    "lru_capacity ?n = lru_capacity m" "\<And>b. nd_key (lru_store ?n b) = nd_key (lru_store m b)"
    "\<And>b. nd_value (lru_store ?n b) = nd_value (lru_store m b)"
    using r by (simp_all add: same_rest_def)
  have "inj_on (\<lambda>b. nd_key (lru_store m b)) (insert a (set xs))"
    using inj a node entries by (auto simp: inj_on_def)
  then have "lru_ok ?n (xs @ [a])"
    unfolding lru_ok_def eqs using appendNode_chain [OF c a] entries node map rest by auto
  moreover have "entry ?n = entry m" by (rule same_rest_entry [OF r])
  ultimately show ?thesis using node eqs by (simp add: entry_def)
qed

lemma lru_ok_nokey: "lru_ok m xs \<Longrightarrow> lru_map m k = None \<Longrightarrow> b \<in> set xs \<Longrightarrow> nd_key (lru_store m b) \<noteq> Some k"
  unfolding lru_ok_def by (metis option.distinct(1))

lemma lru_set_full:
  assumes ok: "lru_ok m (a # bs)" and none: "lru_map m k = None" and full: "lru_size m \<ge> lru_capacity m"
  shows "\<exists>n. lru_set k v m = Inr n \<and> lru_ok n (bs @ [a]) \<and> map (entry n) (bs @ [a]) = map (entry m) bs @ [(k, v)] \<and>
    lru_capacity n = lru_capacity m"
proof -
  obtain k0 where k0: "nd_key (lru_store m a) = Some k0" using ok by (auto simp: lru_ok_def)
  note u = unlinkNode_rest [of m a]
  define q where "q = (let m1 = unlinkNode a m; m2 = m1\<lparr>lru_map := (lru_map m1)(k0 := None)\<rparr>;
      m3 = upd_node a (\<lambda>n. n\<lparr>nd_key := Some k, nd_value := Some v\<rparr>) m2 in m3\<lparr>lru_map := (lru_map m3)(k \<mapsto> a)\<rparr>)"
  have d: "a \<notin> set bs" "distinct bs" using ok by (auto simp: lru_ok_def chain_def)
  have head: "lru_head m = Some a" using ok by (simp add: lru_ok_def chain_def)
  have "nd_key (lru_store (unlinkNode a m) a) = Some k0" using u k0 by (simp add: same_rest_def)
  then have set: "lru_set k v m = Inr (appendNode a q)" using none full head by (simp add: lru_set_def q_def Let_def)
  have c: "chain q bs"
    using unlinkNode_chain [of m "[]" a bs] ok d by (simp add: q_def chain_def Let_def links_frame lru_ok_def)
  have keys: "nd_key (lru_store q b) = (if b = a then Some k else nd_key (lru_store m b))"
    and vals: "nd_value (lru_store q b) = (if b = a then Some v else nd_value (lru_store m b))" for b
    using u by (auto simp: q_def same_rest_def Let_def)
  have maps: "lru_map q = (lru_map m)(k0 := None, k \<mapsto> a)" and rest: "lru_size q = lru_size m" "lru_nodePool q = lru_nodePool m"
    "lru_fresh q = lru_fresh m" "lru_capacity q = lru_capacity m"
    using u by (simp_all add: q_def same_rest_def Let_def)
  have unique: "nd_key (lru_store m b) \<noteq> Some k0" if "b \<in> set bs" for b
    using ok k0 that d by (auto simp: lru_ok_def inj_on_def)
  have notk: "nd_key (lru_store m b) \<noteq> Some k" if "b \<in> set bs" for b
    using lru_ok_nokey [OF ok none] that by simp
  have "lru_map q j = Some b \<longleftrightarrow> b \<in> insert a (set bs) \<and> nd_key (lru_store q b) = Some j" for j b
  proof -
    have "lru_map m j = Some b \<longleftrightarrow> b \<in> insert a (set bs) \<and> nd_key (lru_store m b) = Some j"
      using ok by (simp add: lru_ok_def)
    then show ?thesis using k0 unique notk d none by (auto simp: maps keys)
  qed
  then have "lru_ok (appendNode a q) (bs @ [a]) \<and> map (entry (appendNode a q)) (bs @ [a]) = map (entry q) bs @ [(k, v)] \<and>
    lru_capacity (appendNode a q) = lru_capacity q"
    using ok c d notk by (intro lru_ok_add) (auto simp: lru_ok_def rest keys vals inj_on_def)
  moreover have "map (entry q) bs = map (entry m) bs" using d by (auto simp: entry_def keys vals)
  ultimately show ?thesis using set rest by auto
qed

lemma lru_set_room:
  assumes ok: "lru_ok m xs" and none: "lru_map m k = None" and room: "lru_size m < lru_capacity m"
  shows "\<exists>n a. lru_set k v m = Inr n \<and> lru_ok n (xs @ [a]) \<and> map (entry n) (xs @ [a]) = map (entry m) xs @ [(k, v)] \<and>
    lru_capacity n = lru_capacity m"
proof -
  define pooled where "pooled \<longleftrightarrow> lru_nodePool m \<noteq> []"
  define a where "a = (if pooled then last (lru_nodePool m) else lru_fresh m)"
  define q where "q = (let m1 = (if pooled then upd_node a (\<lambda>n. n\<lparr>nd_key := Some k, nd_value := Some v\<rparr>)
          (m\<lparr>lru_nodePool := butlast (lru_nodePool m)\<rparr>)
        else fst (new_node \<lparr>nd_prev = None, nd_next = None, nd_key = Some k, nd_value = Some v\<rparr> m))
     in m1\<lparr>lru_map := (lru_map m1)(k \<mapsto> a), lru_size := lru_size m1 + 1\<rparr>)"
  have set: "lru_set k v m = Inr (appendNode a q)"
    using none room by (simp add: lru_set_def q_def a_def pooled_def new_node_def Let_def)
  have new: "a \<notin> set xs"
    using ok by (auto simp: a_def pooled_def lru_ok_def) (metis IntI empty_iff last_in_set)
  have pool: "distinct (lru_nodePool q)" "set (lru_nodePool q) \<inter> insert a (set xs) = {}"
    "\<forall>b \<in> insert a (set xs) \<union> set (lru_nodePool q). b < lru_fresh q"
  proof -
    have "distinct (lru_nodePool m)" using ok by (simp add: lru_ok_def)
    then have "last (lru_nodePool m) \<notin> set (butlast (lru_nodePool m))" if pooled
      using that by (metis append_butlast_last_id disjoint_iff distinct_append list.set_intros(1) pooled_def)
    then show "distinct (lru_nodePool q)" "set (lru_nodePool q) \<inter> insert a (set xs) = {}"
      "\<forall>b \<in> insert a (set xs) \<union> set (lru_nodePool q). b < lru_fresh q"
      using ok unfolding lru_ok_def q_def a_def
      by (auto simp: pooled_def new_node_def Let_def less_Suc_eq dest: in_set_butlastD distinct_butlast)
  qed
  have keys: "nd_key (lru_store q b) = (if b = a then Some k else nd_key (lru_store m b))"
    and vals: "nd_value (lru_store q b) = (if b = a then Some v else nd_value (lru_store m b))" for b
    by (auto simp: q_def a_def new_node_def Let_def)
  have maps: "lru_map q = (lru_map m)(k \<mapsto> a)" and rest: "lru_size q = Suc (lru_size m)" "lru_capacity q = lru_capacity m"
    by (simp_all add: q_def new_node_def Let_def)
  have "chain m xs" using ok by (simp add: lru_ok_def)
  then have c: "chain q xs" using new by (simp add: chain_def q_def a_def new_node_def Let_def links_frame split: if_splits)
  have notk: "nd_key (lru_store m b) \<noteq> Some k" if "b \<in> set xs" for b
    using lru_ok_nokey [OF ok none that] .
  have "lru_map q j = Some b \<longleftrightarrow> b \<in> insert a (set xs) \<and> nd_key (lru_store q b) = Some j" for j b
  proof -
    have "lru_map m j = Some b \<longleftrightarrow> b \<in> set xs \<and> nd_key (lru_store m b) = Some j" using ok by (simp add: lru_ok_def)
    then show ?thesis using notk new none by (auto simp: maps keys)
  qed
  then have "lru_ok (appendNode a q) (xs @ [a]) \<and> map (entry (appendNode a q)) (xs @ [a]) = map (entry q) xs @ [(k, v)] \<and>
    lru_capacity (appendNode a q) = lru_capacity q"
    using ok c new notk pool room by (intro lru_ok_add) (auto simp: lru_ok_def rest keys vals inj_on_def)
  moreover have "map (entry q) xs = map (entry m) xs" using new by (auto simp: entry_def keys vals)
  ultimately show ?thesis using set rest by auto
qed

lemma lru_set_rel:
  assumes "lru_rel cap m l"
  shows "\<exists>n. lru_set k v m = Inr n \<and> lru_rel cap n (abs_set cap k v l)"
proof -
  obtain xs where ok: "lru_ok m xs" and l: "l = map (entry m) xs" and cap: "lru_capacity m = cap"
    using assms by (auto simp: lru_rel_def)
  have len: "length l = lru_size m" using ok by (simp add: l lru_ok_def)
  show ?thesis
  proof (cases "lru_map m k")
    case (Some a)
    then obtain as bs w where xs: "xs = as @ a # bs" and key: "nd_key (lru_store m a) = Some k"
      and mo: "map_of l k = Some w" and f: "filter (\<lambda>e. fst e \<noteq> k) l = map (entry m) (as @ bs)"
      using lru_ok_find [OF ok Some] unfolding l by metis
    show ?thesis
      using lru_ok_use [OF ok [unfolded xs] key refl, of v] Some mo f cap
      by (auto simp: lru_set_def abs_set_def use_key_def lru_rel_def intro!: exI [of _ "as @ bs @ [a]"])
  next
    case None
    have miss: "map_of l k = None" unfolding l by (rule lru_ok_miss [OF ok None])
    show ?thesis
    proof (cases "lru_size m \<ge> lru_capacity m")
      case True
      then obtain a bs where xs: "xs = a # bs" using ok by (cases xs) (auto simp: lru_ok_def)
      show ?thesis
        using lru_set_full [OF ok [unfolded xs] None True, of v] miss len True cap
        by (auto simp: abs_set_def lru_rel_def l xs intro!: exI [of _ "bs @ [a]"])
    next
      case False
      then obtain n a where n: "lru_set k v m = Inr n" "lru_ok n (xs @ [a])" "lru_capacity n = lru_capacity m"
        and e: "map (entry n) (xs @ [a]) = map (entry m) xs @ [(k, v)]"
        using lru_set_room [OF ok None, of v] by auto
      have "abs_set cap k v l = map (entry n) (xs @ [a])" unfolding e using False miss len cap by (simp add: abs_set_def l)
      with n cap show ?thesis by (auto simp: lru_rel_def)
    qed
  qed
qed

subsection \<open>Properties\<close>

datatype ('k, 'v) lru_op = Get 'k | Put 'k 'v

fun lru_step :: "('k, 'v) lru_op \<Rightarrow> ('k, 'v) lru \<Rightarrow> ('k, 'v) lru" where
  "lru_step (Get k) m = fst (lru_get k m)"
| "lru_step (Put k v) m = (case lru_set k v m of Inl e \<Rightarrow> m | Inr n \<Rightarrow> n)"

fun abs_step :: "nat \<Rightarrow> ('k, 'v) lru_op \<Rightarrow> ('k \<times> 'v) list \<Rightarrow> ('k \<times> 'v) list" where
  "abs_step cap (Get k) l = abs_get k l"
| "abs_step cap (Put k v) l = abs_set cap k v l"

interpretation lru_sim: simulation lru_step "abs_step cap" "lru_rel cap" for cap
proof
  fix op m l assume rel: "lru_rel cap m l"
  then show "lru_rel cap (lru_step op m) (abs_step cap op l)"
  proof (cases op)
    case (Put k v)
    then show ?thesis using lru_set_rel [OF rel, of k v] by auto
  qed (simp add: lru_get_rel)
qed

lemma lru_rel_new: "0 < cap \<Longrightarrow> lru_rel cap (lru_new cap) []"
  by (auto simp: lru_rel_def lru_ok_def chain_def lru_new_def)

text \<open>Nodes made in advance are not in the list.\<close>

definition pool_node :: "('k, 'v) lru \<Rightarrow> ('k, 'v) lru" where
  "pool_node m = (let (m1, a) = new_node empty_node m in m1\<lparr>lru_nodePool := lru_nodePool m1 @ [a]\<rparr>)"

lemma pool_node_rel:
  assumes "lru_rel cap m l"
  shows "lru_rel cap (pool_node m) l"
proof -
  obtain as where ok: "lru_ok m as" and l: "l = map (entry m) as" and cap: "lru_capacity m = cap"
    using assms by (auto simp: lru_rel_def)
  have a: "lru_fresh m \<notin> set as" "lru_fresh m \<notin> set (lru_nodePool m)" using ok by (auto simp: lru_ok_def)
  then have same: "lru_store (pool_node m) b = lru_store m b" if "b \<in> set as" for b
    using that by (auto simp: pool_node_def new_node_def)
  have "chain (pool_node m) as"
    using ok a by (simp add: lru_ok_def chain_def pool_node_def new_node_def links_frame)
  moreover have "inj_on (\<lambda>b. nd_key (lru_store (pool_node m) b)) (set as)"
    using ok same by (simp add: lru_ok_def inj_on_def)
  moreover have "lru_map (pool_node m) k = Some b \<longleftrightarrow> b \<in> set as \<and> nd_key (lru_store (pool_node m) b) = Some k" for k b
    using ok same by (auto simp: lru_ok_def pool_node_def new_node_def)
  ultimately have "lru_ok (pool_node m) as"
    using ok a same by (auto simp: lru_ok_def) (auto simp: pool_node_def new_node_def less_Suc_eq)
  moreover have "map (entry (pool_node m)) as = l" using same by (auto simp: l entry_def)
  moreover have "lru_capacity (pool_node m) = cap" using cap by (simp add: pool_node_def new_node_def)
  ultimately show ?thesis by (auto simp: lru_rel_def)
qed

lemma prealloc_rel: "lru_rel cap m l \<Longrightarrow> lru_rel cap (prealloc n m) l"
proof -
  have "lru_rel cap m l \<Longrightarrow> lru_rel cap (fold (\<lambda>_. pool_node) xs m) l" for xs :: "int list"
    by (induction xs arbitrary: m) (simp_all add: pool_node_rel)
  then show "lru_rel cap m l \<Longrightarrow> lru_rel cap (prealloc n m) l" by (simp add: prealloc_def for_up_def pool_node_def [abs_def])
qed

lemma lru_rel_read:
  assumes "lru_rel cap m l"
  shows "peekValue k m = map_of l k" and "lru_size m = length l" and "length l \<le> cap" and "distinct (map fst l)"
    and "peek m = (case l of [] \<Rightarrow> None | e # _ \<Rightarrow> Some (snd e))"
proof -
  obtain xs where ok: "lru_ok m xs" and l: "l = map (entry m) xs" and cap: "lru_capacity m = cap"
    using assms by (auto simp: lru_rel_def)
  show "peekValue k m = map_of l k"
  proof (cases "lru_map m k")
    case None
    then show ?thesis using lru_ok_miss [OF ok None] by (simp add: peekValue_def l)
  next
    case (Some a)
    then obtain v where "nd_value (lru_store m a) = Some v" "map_of l k = Some v"
      using lru_ok_find [OF ok Some] unfolding l by metis
    with Some show ?thesis by (simp add: peekValue_def)
  qed
  show "lru_size m = length l" "length l \<le> cap" using ok cap by (auto simp: lru_ok_def l)
  show "distinct (map fst l)"
  proof -
    have "a = b" if "a \<in> set xs" "b \<in> set xs" "the (nd_key (lru_store m a)) = the (nd_key (lru_store m b))" for a b
      using ok that unfolding lru_ok_def inj_on_def by (metis option.expand)
    then show ?thesis using ok by (auto simp: l lru_ok_def chain_def distinct_map inj_on_def entry_def)
  qed
  show "peek m = (case l of [] \<Rightarrow> None | e # _ \<Rightarrow> Some (snd e))"
    using ok by (cases xs) (auto simp: peek_def l lru_ok_def chain_def entry_def)
qed

text \<open>
  C29. The linked implementation is a least-recently-used map. Started empty with a positive capacity and
  any number of nodes made in advance, and driven by any gets and sets, it holds exactly the entries of the abstract map, an
  association list in order of use that drops its first entry when a new key finds it full:
  every lookup gives the abstract value, the head is the entry that would be dropped next, no key
  is held twice and the capacity is never exceeded; no set fails.
\<close>

theorem lru_map_refines:
  assumes "0 < cap"
  shows "let m = fold lru_step ops (prealloc n (lru_new cap)); l = fold (abs_step cap) ops []
    in (\<forall>k. peekValue k m = map_of l k) \<and> (\<forall>k. snd (lru_get k m) = map_of l k) \<and>
       peek m = (case l of [] \<Rightarrow> None | e # _ \<Rightarrow> Some (snd e)) \<and>
       lru_size m = length l \<and> length l \<le> cap \<and> distinct (map fst l) \<and> (\<forall>k v. \<exists>n. lru_set k v m = Inr n)"
proof -
  have rel: "lru_rel cap (fold lru_step ops (prealloc n (lru_new cap))) (fold (abs_step cap) ops [])"
    by (rule lru_sim.run_rel [OF prealloc_rel [OF lru_rel_new [OF assms]]])
  show ?thesis
    unfolding Let_def using lru_rel_read [OF rel] lru_get_rel [OF rel] lru_set_rel [OF rel] by blast
qed

theorem lru_map_refines_witness:
  "let m = fold lru_step [Put ''a'' (1::nat), Put ''b'' 2, Get ''a'', Put ''c'' 3] (prealloc 2 (lru_new 2))
   in peekValue ''b'' m = None \<and> peekValue ''a'' m = Some 1 \<and> peek m = Some 1 \<and> lru_size m = 2"
  using lru_map_refines [of 2 "[Put ''a'' (1::nat), Put ''b'' 2, Get ''a'', Put ''c'' 3]" 2]
  by (simp add: Let_def abs_set_def abs_get_def use_key_def)

end
