(* ===== verification/Keyboard.thy ===== *)
theory Keyboard
  imports Settings
begin

text \<open>
  The translation of key presses to what is sent to the program (\<open>core/input/Keyboard\<close> in
  \<open>xterm.js\<close>), with the shortcuts of the page that come before it in \<open>Settings\<close>. The cases of the
  one big \<open>switch\<close> are grouped into definitions by the keys they serve.
\<close>

subsection \<open>Events and results\<close>

record kb_event =
  kb_keyCode :: nat
  kb_key :: string
  kb_shift :: bool
  kb_alt :: bool
  kb_ctrl :: bool
  kb_meta :: bool

record kb_result =
  kr_type :: nat     \<comment> \<open>0 send key, 1 select all, 2 page up, 3 page down\<close>
  kr_cancel :: bool
  kr_key :: "string option"

definition no_key :: kb_result where
  "no_key = \<lparr>kr_type = 0, kr_cancel = False, kr_key = None\<rparr>"

definition sends :: "string \<Rightarrow> kb_result" where
  "sends s = no_key\<lparr>kr_key := Some s\<rparr>"

abbreviation ESC :: string where "ESC \<equiv> [CHR 0x1B]"
abbreviation BS :: string where "BS \<equiv> [CHR 0x08]"
abbreviation HT :: string where "HT \<equiv> [CHR 0x09]"
abbreviation CR :: string where "CR \<equiv> [CHR 0x0D]"
abbreviation US :: string where "US \<equiv> [CHR 0x1F]"
abbreviation DEL :: string where "DEL \<equiv> [CHR 0x7F]"

text \<open>The bits are disjoint, so the disjunction of the source is a sum.\<close>

definition modifiers :: "kb_event \<Rightarrow> nat" where
  "modifiers ev = (if kb_shift ev then 1 else 0) + (if kb_alt ev then 2 else 0) + (if kb_ctrl ev then 4 else 0) +
     (if kb_meta ev then 8 else 0)"

definition KEYCODE_KEY_MAPPINGS :: "nat \<Rightarrow> (string \<times> string) option" where
  "KEYCODE_KEY_MAPPINGS = map_of [
     (48, ''0'', '')''), (49, ''1'', ''!''), (50, ''2'', ''@''), (51, ''3'', ''#''), (52, ''4'', ''$''), (53, ''5'', ''%''),
     (54, ''6'', ''^''), (55, ''7'', ''&''), (56, ''8'', ''*''), (57, ''9'', ''(''), (186, '';'', '':''), (187, ''='', ''+''),
     (188, '','', ''<''), (189, ''-'', ''_''), (190, ''.'', ''>''), (191, ''/'', ''?''), (192, ''`'', ''~''), (219, ''['', ''{''),
     (220, [CHR 0x5C], ''|''), (221, '']'', ''}''), (222, [CHR 0x27], [CHR 0x22])]"

subsection \<open>The cases\<close>

text \<open>\<open>ESC [ p ; m t\<close> with modifiers.\<close>

definition with_modifiers :: "string \<Rightarrow> nat \<Rightarrow> string \<Rightarrow> string" where
  "with_modifiers p m t = ESC @ ''['' @ p @ '';'' @ num_str (Some (int m + 1)) @ t"

text \<open>Key code 0: the arrow keys of iOS by name.\<close>

definition ios_arrow :: "bool \<Rightarrow> kb_event \<Rightarrow> kb_result" where
  "ios_arrow app ev =
     (if kb_key ev = ''UIKeyInputUpArrow'' then sends (if app then ESC @ ''OA'' else ESC @ ''[A'')
      else if kb_key ev = ''UIKeyInputLeftArrow'' then sends (if app then ESC @ ''OD'' else ESC @ ''[D'')
      else if kb_key ev = ''UIKeyInputRightArrow'' then sends (if app then ESC @ ''OC'' else ESC @ ''[C'')
      else if kb_key ev = ''UIKeyInputDownArrow'' then sends (if app then ESC @ ''OB'' else ESC @ ''[B'')
      else no_key)"

definition backspace_key :: "kb_event \<Rightarrow> kb_result" where
  "backspace_key ev = (if kb_shift ev then sends BS else if kb_alt ev then sends (ESC @ DEL) else sends DEL)"

definition tab_key :: "kb_event \<Rightarrow> kb_result" where
  "tab_key ev = (if kb_shift ev then sends (ESC @ ''[Z'') else (sends HT)\<lparr>kr_cancel := True\<rparr>)"

definition arrow_key :: "string \<Rightarrow> string \<Rightarrow> bool \<Rightarrow> kb_event \<Rightarrow> kb_result" where
  "arrow_key t alt_word app ev =
     (if modifiers ev \<noteq> 0 then
        (let key = with_modifiers ''1'' (modifiers ev) t
         in sends (if key = ESC @ ''[1;3'' @ t then alt_word else key))
      else if app then sends (ESC @ ''O'' @ t)
      else sends (ESC @ ''['' @ t))"

definition cursor_keys :: "bool \<Rightarrow> bool \<Rightarrow> kb_event \<Rightarrow> kb_result" where
  "cursor_keys app isMac ev =
     (if kb_keyCode ev = 37 then arrow_key ''D'' (if isMac then ESC @ ''b'' else ESC @ ''[1;5D'') app ev
      else if kb_keyCode ev = 39 then arrow_key ''C'' (if isMac then ESC @ ''f'' else ESC @ ''[1;5C'') app ev
      else if kb_keyCode ev = 38 then arrow_key ''A'' (ESC @ ''[1;5A'') app ev
      else arrow_key ''B'' (ESC @ ''[1;5B'') app ev)"

definition insert_key :: "kb_event \<Rightarrow> kb_result" where
  "insert_key ev = (if \<not> kb_shift ev \<and> \<not> kb_ctrl ev then sends (ESC @ ''[2~'') else no_key)"

definition tilde_key :: "string \<Rightarrow> kb_event \<Rightarrow> kb_result" where
  "tilde_key p ev =
     (if modifiers ev \<noteq> 0 then sends (with_modifiers p (modifiers ev) ''~'') else sends (ESC @ ''['' @ p @ ''~''))"

definition home_end_key :: "string \<Rightarrow> bool \<Rightarrow> kb_event \<Rightarrow> kb_result" where
  "home_end_key t app ev =
     (if modifiers ev \<noteq> 0 then sends (with_modifiers ''1'' (modifiers ev) t)
      else if app then sends (ESC @ ''O'' @ t) else sends (ESC @ ''['' @ t))"

definition page_key :: "nat \<Rightarrow> string \<Rightarrow> kb_event \<Rightarrow> kb_result" where
  "page_key scroll seq ev = (if kb_shift ev then no_key\<lparr>kr_type := scroll\<rparr> else sends (ESC @ seq))"

definition pf_key :: "string \<Rightarrow> kb_event \<Rightarrow> kb_result" where
  "pf_key t ev = (if modifiers ev \<noteq> 0 then sends (with_modifiers ''1'' (modifiers ev) t) else sends (ESC @ ''O'' @ t))"

definition function_keys :: "kb_event \<Rightarrow> kb_result" where
  "function_keys ev =
     (if kb_keyCode ev = 112 then pf_key ''P'' ev
      else if kb_keyCode ev = 113 then pf_key ''Q'' ev
      else if kb_keyCode ev = 114 then pf_key ''R'' ev
      else if kb_keyCode ev = 115 then pf_key ''S'' ev
      else if kb_keyCode ev = 116 then tilde_key ''15'' ev
      else if kb_keyCode ev = 117 then tilde_key ''17'' ev
      else if kb_keyCode ev = 118 then tilde_key ''18'' ev
      else if kb_keyCode ev = 119 then tilde_key ''19'' ev
      else if kb_keyCode ev = 120 then tilde_key ''20'' ev
      else if kb_keyCode ev = 121 then tilde_key ''21'' ev
      else if kb_keyCode ev = 122 then tilde_key ''23'' ev
      else tilde_key ''24'' ev)"

text \<open>The default case.\<close>

definition ctrl_char :: "nat \<Rightarrow> kb_result" where
  "ctrl_char kc =
     (if 65 \<le> kc \<and> kc \<le> 90 then sends [char_of (kc - 64)]
      else if kc = 32 then sends [char_of (0::nat)]
      else if 51 \<le> kc \<and> kc \<le> 55 then sends [char_of (kc - 51 + 27)]
      else if kc = 56 then sends [char_of (127::nat)]
      else if kc = 219 then sends [char_of (27::nat)]
      else if kc = 220 then sends [char_of (28::nat)]
      else if kc = 221 then sends [char_of (29::nat)]
      else no_key)"

definition alt_char :: "kb_event \<Rightarrow> kb_result" where
  "alt_char ev =
     (case KEYCODE_KEY_MAPPINGS (kb_keyCode ev) of
        Some (plain, shifted) \<Rightarrow> sends (ESC @ (if \<not> kb_shift ev then plain else shifted))
      | None \<Rightarrow>
          if 65 \<le> kb_keyCode ev \<and> kb_keyCode ev \<le> 90
          then sends (ESC @ [char_of (if kb_ctrl ev then kb_keyCode ev - 64 else kb_keyCode ev + 32)])
          else no_key)"

definition default_key :: "bool \<Rightarrow> bool \<Rightarrow> kb_event \<Rightarrow> kb_result" where
  "default_key isMac macOptionIsMeta ev =
     (if kb_ctrl ev \<and> \<not> kb_shift ev \<and> \<not> kb_alt ev \<and> \<not> kb_meta ev then ctrl_char (kb_keyCode ev)
      else if (\<not> isMac \<or> macOptionIsMeta) \<and> kb_alt ev \<and> \<not> kb_meta ev then alt_char ev
      else if isMac \<and> \<not> kb_alt ev \<and> \<not> kb_ctrl ev \<and> kb_meta ev then
        (if kb_keyCode ev = 65 then no_key\<lparr>kr_type := 1\<rparr> else no_key)
      else if kb_key ev \<noteq> [] \<and> \<not> kb_ctrl ev \<and> \<not> kb_alt ev \<and> \<not> kb_meta ev \<and> kb_keyCode ev \<ge> 48 \<and> length (kb_key ev) = 1
      then sends (kb_key ev)
      else if kb_key ev \<noteq> [] \<and> kb_ctrl ev then (if kb_key ev = ''_'' then sends US else no_key)
      else no_key)"

definition evaluateKeyboardEvent :: "kb_event \<Rightarrow> bool \<Rightarrow> bool \<Rightarrow> bool \<Rightarrow> kb_result" where
  "evaluateKeyboardEvent ev app isMac macOptionIsMeta =
     (let kc = kb_keyCode ev
      in if kc = 0 then ios_arrow app ev
         else if kc = 8 then backspace_key ev
         else if kc = 9 then tab_key ev
         else if kc = 13 then (sends CR)\<lparr>kr_cancel := True\<rparr>
         else if kc = 27 then (sends ESC)\<lparr>kr_cancel := True\<rparr>
         else if 37 \<le> kc \<and> kc \<le> 40 then cursor_keys app isMac ev
         else if kc = 45 then insert_key ev
         else if kc = 46 then tilde_key ''3'' ev
         else if kc = 36 then home_end_key ''H'' app ev
         else if kc = 35 then home_end_key ''F'' app ev
         else if kc = 33 then page_key 2 ''[5~'' ev
         else if kc = 34 then page_key 3 ''[6~'' ev
         else if 112 \<le> kc \<and> kc \<le> 123 then function_keys ev
         else default_key isMac macOptionIsMeta ev)"

subsection \<open>Properties\<close>

text \<open>The keys whose sequence carries the modifiers: delete, home, end and the function keys.\<close>

definition special_codes :: "nat list" where
  "special_codes = [46, 36, 35, 112, 113, 114, 115, 116, 117, 118, 119, 120, 121, 122, 123]"

text \<open>The parameter and the final character of each.\<close>

definition special_form :: "nat \<Rightarrow> string \<times> string" where
  "special_form kc = the (map_of [(46, ''3'', ''~''), (36, ''1'', ''H''), (35, ''1'', ''F''), (112, ''1'', ''P''), (113, ''1'', ''Q''),
     (114, ''1'', ''R''), (115, ''1'', ''S''), (116, ''15'', ''~''), (117, ''17'', ''~''), (118, ''18'', ''~''), (119, ''19'', ''~''),
     (120, ''20'', ''~''), (121, ''21'', ''~''), (122, ''23'', ''~''), (123, ''24'', ''~'')] kc)"

lemma special_key_form:
  "kb_keyCode ev \<in> set special_codes \<Longrightarrow> modifiers ev \<noteq> 0 \<Longrightarrow>
   kr_key (evaluateKeyboardEvent ev app isMac opt) =
     Some (with_modifiers (fst (special_form (kb_keyCode ev))) (modifiers ev) (snd (special_form (kb_keyCode ev))))"
  by (auto simp: special_codes_def evaluateKeyboardEvent_def tilde_key_def home_end_key_def function_keys_def pf_key_def
      special_form_def sends_def no_key_def Let_def)

lemma special_form_inj: "inj_on special_form (set special_codes)"
  by (auto simp: inj_on_def special_codes_def special_form_def)

lemma special_form_shape:
  "kc \<in> set special_codes \<Longrightarrow> CHR '';'' \<notin> set (fst (special_form kc)) \<and> (\<exists>c. snd (special_form kc) = [c])"
  by (auto simp: special_codes_def special_form_def)

lemma num_str_inj: "num_str (Some (int m)) = num_str (Some (int n)) \<Longrightarrow> m = n"
  using parse_digits_nat_str [of 0 m "[]"] parse_digits_nat_str [of 0 n "[]"] by (simp add: num_str_def)

lemma with_modifiers_inj:
  assumes "with_modifiers p m [c] = with_modifiers q n [d]" and "CHR '';'' \<notin> set p" and "CHR '';'' \<notin> set q"
  shows "p = q \<and> m = n \<and> c = d"
proof -
  let ?x = "num_str (Some (int m + 1)) @ [c]" and ?y = "num_str (Some (int n + 1)) @ [d]"
  have eq: "p @ CHR '';'' # ?x = q @ CHR '';'' # ?y" using assms(1) by (simp add: with_modifiers_def)
  have "takeWhile (\<lambda>z. z \<noteq> CHR '';'') (r @ CHR '';'' # w) = r" if "CHR '';'' \<notin> set r" for r w
    using that by (induction r) auto
  then have "p = q" using eq assms(2,3) by metis
  with eq have "num_str (Some (int m + 1)) = num_str (Some (int n + 1)) \<and> c = d" by simp
  then show ?thesis using num_str_inj [of "Suc m" "Suc n"] \<open>p = q\<close> by (simp add: add.commute)
qed

text \<open>
  The sequences are unambiguous: two presses of delete, home, end or a function key, each with
  some modifier held, send the same sequence only when they are the same key with the same
  modifiers, on every platform and in either cursor mode.
\<close>

theorem special_keys_unambiguous:
  assumes "kb_keyCode e \<in> set special_codes" and "kb_keyCode f \<in> set special_codes"
    and "modifiers e \<noteq> 0" and "modifiers f \<noteq> 0"
    and "kr_key (evaluateKeyboardEvent e app mac opt) = kr_key (evaluateKeyboardEvent f app' mac' opt')"
  shows "kb_keyCode e = kb_keyCode f \<and> kb_shift e = kb_shift f \<and> kb_alt e = kb_alt f \<and> kb_ctrl e = kb_ctrl f \<and>
    kb_meta e = kb_meta f"
proof -
  obtain c d where c: "snd (special_form (kb_keyCode e)) = [c]" and d: "snd (special_form (kb_keyCode f)) = [d]"
    using special_form_shape assms(1,2) by blast
  have "with_modifiers (fst (special_form (kb_keyCode e))) (modifiers e) [c] =
    with_modifiers (fst (special_form (kb_keyCode f))) (modifiers f) [d]"
    using assms(5) special_key_form [OF assms(1,3), of app mac opt] special_key_form [OF assms(2,4), of app' mac' opt'] c d
    by simp
  then have eqs: "fst (special_form (kb_keyCode e)) = fst (special_form (kb_keyCode f)) \<and> modifiers e = modifiers f \<and> c = d"
    by (rule with_modifiers_inj) (use special_form_shape assms(1,2) in blast)+
  then have "special_form (kb_keyCode e) = special_form (kb_keyCode f)" using c d by (simp add: prod_eq_iff)
  then have "kb_keyCode e = kb_keyCode f" using special_form_inj assms(1,2) by (auto simp: inj_on_def)
  moreover have "kb_shift e = kb_shift f \<and> kb_alt e = kb_alt f \<and> kb_ctrl e = kb_ctrl f \<and> kb_meta e = kb_meta f"
    using eqs unfolding modifiers_def by (simp split: if_splits)
  ultimately show ?thesis by simp
qed

definition demo_key :: kb_event where
  "demo_key = \<lparr>kb_keyCode = 116, kb_key = ''F5'', kb_shift = False, kb_alt = False, kb_ctrl = True, kb_meta = False\<rparr>"

theorem special_keys_unambiguous_witness:
  "kr_key (evaluateKeyboardEvent demo_key False False False) = Some (ESC @ ''[15;5~'') \<and>
   kb_keyCode demo_key = kb_keyCode demo_key \<and> kb_ctrl demo_key = kb_ctrl demo_key"
proof -
  have "kr_key (evaluateKeyboardEvent demo_key False False False) = Some (ESC @ ''[15;5~'')" by code_simp
  with special_keys_unambiguous [of demo_key demo_key False False False False False False]
  show ?thesis by (simp add: demo_key_def special_codes_def modifiers_def)
qed

lemma arrow_key_alt: "modifiers ev = 2 \<Longrightarrow> arrow_key t w app ev = sends w"
proof -
  have "num_str (Some 3) = ''3''" by code_simp
  then show "modifiers ev = 2 \<Longrightarrow> arrow_key t w app ev = sends w" by (simp add: arrow_key_def with_modifiers_def Let_def)
qed

lemma arrow_key_ctrl: "modifiers ev = 4 \<Longrightarrow> arrow_key t w app ev = sends (ESC @ ''[1;5'' @ t)"
proof -
  have "num_str (Some 5) = ''5''" by code_simp
  then show "modifiers ev = 4 \<Longrightarrow> arrow_key t w app ev = sends (ESC @ ''[1;5'' @ t)"
    by (simp add: arrow_key_def with_modifiers_def Let_def)
qed

text \<open>
  Outside of a Mac, Alt with an arrow key sends what Ctrl with the same key sends, whether or not
  the cursor keys are in application mode; on a Mac, Alt with the left and right arrow sends the
  word motions.
\<close>

theorem alt_arrow_is_ctrl_arrow:
  assumes "37 \<le> kb_keyCode ev" and "kb_keyCode ev \<le> 40"
  shows "evaluateKeyboardEvent (ev\<lparr>kb_shift := False, kb_alt := True, kb_ctrl := False, kb_meta := False\<rparr>) app False opt =
      evaluateKeyboardEvent (ev\<lparr>kb_shift := False, kb_alt := False, kb_ctrl := True, kb_meta := False\<rparr>) app False opt \<and>
    (kb_keyCode ev = 37 \<longrightarrow> kr_key (evaluateKeyboardEvent
      (ev\<lparr>kb_shift := False, kb_alt := True, kb_ctrl := False, kb_meta := False\<rparr>) app True opt) = Some (ESC @ ''b''))"
proof -
  let ?alt = "ev\<lparr>kb_shift := False, kb_alt := True, kb_ctrl := False, kb_meta := False\<rparr>"
  let ?ctrl = "ev\<lparr>kb_shift := False, kb_alt := False, kb_ctrl := True, kb_meta := False\<rparr>"
  have cursor: "evaluateKeyboardEvent e app mac opt = cursor_keys app mac e" if "kb_keyCode e = kb_keyCode ev" for e mac
    using that assms by (simp add: evaluateKeyboardEvent_def Let_def)
  have mods: "modifiers ?alt = 2" "modifiers ?ctrl = 4" by (simp_all add: modifiers_def)
  show ?thesis
    using assms by (simp add: cursor) (simp add: cursor_keys_def arrow_key_alt [OF mods(1)] arrow_key_ctrl [OF mods(2)] sends_def)
qed

theorem alt_arrow_is_ctrl_arrow_witness:
  "evaluateKeyboardEvent (demo_key\<lparr>kb_keyCode := 37, kb_alt := True, kb_ctrl := False\<rparr>) True False False =
   evaluateKeyboardEvent (demo_key\<lparr>kb_keyCode := 37\<rparr>) True False False"
  using alt_arrow_is_ctrl_arrow [of "demo_key\<lparr>kb_keyCode := 37\<rparr>" True False] by (simp add: demo_key_def)

end
