(* ===== verification/BufferLine.thy ===== *)
theory BufferLine
  imports TextDecoder
begin

text \<open>
  A line of the terminal's buffer (\<open>core/buffer/BufferLine\<close> in \<open>xterm.js\<close>): three 32-bit words per
  cell, the strings of combined cells beside them. Words are \<open>32 word\<close>; a string is the list of its
  code units. A read behind the array is \<open>undefined\<close> in the source and counts as 0 in every
  place it is used; a write behind it is ignored, as for typed arrays. A string that may be
  \<open>undefined\<close> is an option.
\<close>

type_synonym u32 = "32 word"

subsection \<open>Attributes and cells\<close>

record attribute_data =
  ad_fg :: u32
  ad_bg :: u32

definition toColorRGB :: "u32 \<Rightarrow> u32 \<times> u32 \<times> u32" where
  "toColorRGB value = (drop_bit 16 value AND 255, drop_bit 8 value AND 255, value AND 255)"

definition fromColorRGB :: "u32 \<times> u32 \<times> u32 \<Rightarrow> u32" where
  "fromColorRGB value = (case value of (r, g, b) \<Rightarrow>
     (push_bit 16 (r AND 255) OR push_bit 8 (g AND 255)) OR (b AND 255))"

definition isInverse :: "attribute_data \<Rightarrow> u32" where "isInverse a = ad_fg a AND 67108864"
definition isBold :: "attribute_data \<Rightarrow> u32" where "isBold a = ad_fg a AND 134217728"
definition isUnderline :: "attribute_data \<Rightarrow> u32" where "isUnderline a = ad_fg a AND 268435456"
definition isBlink :: "attribute_data \<Rightarrow> u32" where "isBlink a = ad_fg a AND 536870912"
definition isInvisible :: "attribute_data \<Rightarrow> u32" where "isInvisible a = ad_fg a AND 1073741824"
definition isItalic :: "attribute_data \<Rightarrow> u32" where "isItalic a = ad_bg a AND 67108864"
definition isDim :: "attribute_data \<Rightarrow> u32" where "isDim a = ad_bg a AND 134217728"
definition getFgColorMode :: "attribute_data \<Rightarrow> u32" where "getFgColorMode a = ad_fg a AND 50331648"
definition getBgColorMode :: "attribute_data \<Rightarrow> u32" where "getBgColorMode a = ad_bg a AND 50331648"
definition isFgRGB :: "attribute_data \<Rightarrow> bool" where "isFgRGB a = (ad_fg a AND 50331648 = 50331648)"
definition isBgRGB :: "attribute_data \<Rightarrow> bool" where "isBgRGB a = (ad_bg a AND 50331648 = 50331648)"
definition isFgPalette :: "attribute_data \<Rightarrow> bool" where
  "isFgPalette a = (ad_fg a AND 50331648 = 16777216 \<or> ad_fg a AND 50331648 = 33554432)"
definition isBgPalette :: "attribute_data \<Rightarrow> bool" where
  "isBgPalette a = (ad_bg a AND 50331648 = 16777216 \<or> ad_bg a AND 50331648 = 33554432)"
definition isFgDefault :: "attribute_data \<Rightarrow> bool" where "isFgDefault a = (ad_fg a AND 50331648 = 0)"
definition isBgDefault :: "attribute_data \<Rightarrow> bool" where "isBgDefault a = (ad_bg a AND 50331648 = 0)"

text \<open>\<open>- 1\<close> is \<open>None\<close>.\<close>

definition color_of :: "u32 \<Rightarrow> u32 option" where
  "color_of w =
     (if w AND 50331648 = 16777216 \<or> w AND 50331648 = 33554432 then Some (w AND 255)
      else if w AND 50331648 = 50331648 then Some (w AND 16777215)
      else None)"

definition getFgColor :: "attribute_data \<Rightarrow> u32 option" where "getFgColor a = color_of (ad_fg a)"
definition getBgColor :: "attribute_data \<Rightarrow> u32 option" where "getBgColor a = color_of (ad_bg a)"

record cell_data =
  cd_content :: u32
  cd_fg :: u32
  cd_bg :: u32
  cd_combined :: "units option"

abbreviation COMBINED :: u32 where "COMBINED \<equiv> 2097152"
abbreviation CODEPOINT :: u32 where "CODEPOINT \<equiv> 2097151"
abbreviation HAS_CONTENT :: u32 where "HAS_CONTENT \<equiv> 4194303"

definition code_of :: "u32 \<Rightarrow> nat" where "code_of content = unat (content AND CODEPOINT)"

definition combined_flag :: "u32 \<Rightarrow> bool" where "combined_flag content = (content AND COMBINED \<noteq> 0)"

text \<open>\<open>content >> 22\<close>, the arithmetic shift.\<close>

definition width_of :: "u32 \<Rightarrow> int" where "width_of content = sint (signed_drop_bit 22 content)"

text \<open>
  \<open>charCodeAt\<close> in an operand of a bitwise operator: \<open>NaN\<close> becomes 0. The code of the last unit of
  a string is \<open>None\<close> for \<open>NaN\<close>, and reading it from \<open>undefined\<close> throws.
\<close>

definition char_code :: "units \<Rightarrow> nat \<Rightarrow> nat" where
  "char_code s i = (if i < length s then s ! i else 0)"

definition last_code :: "units option \<Rightarrow> js_error + nat option" where
  "last_code s = (case s of None \<Rightarrow> Inl TypeError | Some u \<Rightarrow> Inr (if u = [] then None else Some (last u)))"

text \<open>A string in a concatenation: \<open>undefined\<close> is written out.\<close>

definition units_of :: "units option \<Rightarrow> units" where
  "units_of s = (case s of None \<Rightarrow> [117, 110, 100, 101, 102, 105, 110, 101, 100] | Some u \<Rightarrow> u)"

definition cell_isCombined :: "cell_data \<Rightarrow> bool" where "cell_isCombined c = combined_flag (cd_content c)"
definition cell_getWidth :: "cell_data \<Rightarrow> int" where "cell_getWidth c = width_of (cd_content c)"

definition cell_getChars :: "cell_data \<Rightarrow> units option" where
  "cell_getChars c =
     (if combined_flag (cd_content c) then cd_combined c
      else if cd_content c AND CODEPOINT \<noteq> 0 then Some (stringFromCodePoint (code_of (cd_content c))) else Some [])"

definition cell_getCode :: "cell_data \<Rightarrow> js_error + nat option" where
  "cell_getCode c = (if cell_isCombined c then last_code (cd_combined c) else Inr (Some (code_of (cd_content c))))"

text \<open>An array \<open>[attr, char, width, code]\<close>.\<close>

record char_data =
  ch_attr :: u32
  ch_char :: units
  ch_width :: u32
  ch_code :: nat

definition setFromCharData :: "char_data \<Rightarrow> cell_data \<Rightarrow> cell_data" where
  "setFromCharData value cell =
     (let cell = cell\<lparr>cd_fg := ch_attr value, cd_bg := 0\<rparr>;
          s = ch_char value;
          w = push_bit 22 (ch_width value);
          as_combined = cell\<lparr>cd_combined := Some s, cd_content := COMBINED OR w\<rparr>
      in if length s > 2 then as_combined
         else if length s = 2 then
           (if is_high (s ! 0) \<and> is_low (s ! 1) then cell\<lparr>cd_content := of_nat (combine (s ! 0) (s ! 1)) OR w\<rparr>
            else as_combined)
         else cell\<lparr>cd_content := of_nat (char_code s 0) OR w\<rparr>)"

definition new_cell :: cell_data where
  "new_cell = \<lparr>cd_content = 0, cd_fg = 0, cd_bg = 0, cd_combined = Some []\<rparr>"

definition fromCharData :: "char_data \<Rightarrow> cell_data" where
  "fromCharData value = setFromCharData value new_cell"

definition getAsCharData :: "cell_data \<Rightarrow> js_error + u32 \<times> units option \<times> int \<times> nat option" where
  "getAsCharData c =
     (case cell_getCode c of Inl e \<Rightarrow> Inl e
      | Inr code \<Rightarrow> Inr (cd_fg c, cell_getChars c, cell_getWidth c, code))"

subsection \<open>Lines\<close>

record buffer_line =
  bl_isWrapped :: bool
  bl_combined :: "int \<rightharpoonup> units"
  bl_data :: "u32 list"
  bl_length :: int

definition rd :: "u32 list \<Rightarrow> int \<Rightarrow> u32" where
  "rd d i = (if 0 \<le> i \<and> i < int (length d) then d ! nat i else 0)"

definition wr :: "u32 list \<Rightarrow> int \<Rightarrow> u32 \<Rightarrow> u32 list" where
  "wr d i v = (if 0 \<le> i \<and> i < int (length d) then d[nat i := v] else d)"

definition loadCell :: "buffer_line \<Rightarrow> int \<Rightarrow> cell_data \<Rightarrow> cell_data" where
  "loadCell l index cell =
     (let startIndex = index * 3;
          cell = cell\<lparr>cd_content := rd (bl_data l) (startIndex + 0), cd_fg := rd (bl_data l) (startIndex + 1),
                      cd_bg := rd (bl_data l) (startIndex + 2)\<rparr>
      in if combined_flag (cd_content cell) then cell\<lparr>cd_combined := bl_combined l index\<rparr> else cell)"

definition setCell :: "buffer_line \<Rightarrow> int \<Rightarrow> cell_data \<Rightarrow> buffer_line" where
  "setCell l index cell =
     (let l1 = (if combined_flag (cd_content cell) then l\<lparr>bl_combined := (bl_combined l)(index := cd_combined cell)\<rparr> else l)
      in l1\<lparr>bl_data := wr (wr (wr (bl_data l1) (index * 3 + 0) (cd_content cell)) (index * 3 + 1) (cd_fg cell))
              (index * 3 + 2) (cd_bg cell)\<rparr>)"

definition new_line :: "nat \<Rightarrow> cell_data option \<Rightarrow> bool \<Rightarrow> buffer_line" where
  "new_line cols fillCellData isWrapped =
     (let cell = (case fillCellData of Some c \<Rightarrow> c
                  | None \<Rightarrow> fromCharData \<lparr>ch_attr = 0, ch_char = [], ch_width = 1, ch_code = 0\<rparr>);
          l = \<lparr>bl_isWrapped = isWrapped, bl_combined = (\<lambda>_. None), bl_data = replicate (cols * 3) 0, bl_length = 0\<rparr>;
          l1 = for_up 0 (int cols) (\<lambda>i l. setCell l i cell) l
      in l1\<lparr>bl_length := int cols\<rparr>)"

definition line_get :: "buffer_line \<Rightarrow> int \<Rightarrow> js_error + u32 \<times> units \<times> int \<times> nat option" where
  "line_get l index =
     (let content = rd (bl_data l) (index * 3 + 0); cp = content AND CODEPOINT
      in if combined_flag content then
           (case last_code (bl_combined l index) of Inl e \<Rightarrow> Inl e
            | Inr code \<Rightarrow> Inr (rd (bl_data l) (index * 3 + 1), units_of (bl_combined l index), width_of content, code))
         else Inr (rd (bl_data l) (index * 3 + 1), if cp \<noteq> 0 then stringFromCodePoint (unat cp) else [],
                   width_of content, Some (unat cp)))"

definition line_set :: "buffer_line \<Rightarrow> int \<Rightarrow> char_data \<Rightarrow> buffer_line" where
  "line_set l index value =
     (let l1 = l\<lparr>bl_data := wr (bl_data l) (index * 3 + 1) (ch_attr value)\<rparr>
      in if length (ch_char value) > 1
         then l1\<lparr>bl_combined := (bl_combined l1)(index \<mapsto> ch_char value),
                 bl_data := wr (bl_data l1) (index * 3 + 0) ((of_int index OR COMBINED) OR push_bit 22 (ch_width value))\<rparr>
         else l1\<lparr>bl_data := wr (bl_data l1) (index * 3 + 0) (of_nat (char_code (ch_char value) 0) OR push_bit 22 (ch_width value))\<rparr>)"

definition line_getWidth :: "buffer_line \<Rightarrow> int \<Rightarrow> int" where
  "line_getWidth l index = width_of (rd (bl_data l) (index * 3 + 0))"

definition hasWidth :: "buffer_line \<Rightarrow> int \<Rightarrow> u32" where "hasWidth l index = rd (bl_data l) (index * 3 + 0) AND 12582912"
definition getFg :: "buffer_line \<Rightarrow> int \<Rightarrow> u32" where "getFg l index = rd (bl_data l) (index * 3 + 1)"
definition getBg :: "buffer_line \<Rightarrow> int \<Rightarrow> u32" where "getBg l index = rd (bl_data l) (index * 3 + 2)"
definition hasContent :: "buffer_line \<Rightarrow> int \<Rightarrow> bool" where
  "hasContent l index = (rd (bl_data l) (index * 3 + 0) AND HAS_CONTENT \<noteq> 0)"

definition getCodePoint :: "buffer_line \<Rightarrow> int \<Rightarrow> js_error + nat option" where
  "getCodePoint l index =
     (let content = rd (bl_data l) (index * 3 + 0)
      in if combined_flag content then last_code (bl_combined l index) else Inr (Some (code_of content)))"

definition line_isCombined :: "buffer_line \<Rightarrow> int \<Rightarrow> bool" where
  "line_isCombined l index = combined_flag (rd (bl_data l) (index * 3 + 0))"

definition getString :: "buffer_line \<Rightarrow> int \<Rightarrow> units option" where
  "getString l index =
     (let content = rd (bl_data l) (index * 3 + 0)
      in if combined_flag content then bl_combined l index
         else if content AND CODEPOINT \<noteq> 0 then Some (stringFromCodePoint (code_of content)) else Some [])"

definition setCellFromCodePoint :: "buffer_line \<Rightarrow> int \<Rightarrow> nat \<Rightarrow> u32 \<Rightarrow> u32 \<Rightarrow> u32 \<Rightarrow> buffer_line" where
  "setCellFromCodePoint l index codePoint width fg bg =
     l\<lparr>bl_data := wr (wr (wr (bl_data l) (index * 3 + 0) (of_nat codePoint OR push_bit 22 width)) (index * 3 + 1) fg)
        (index * 3 + 2) bg\<rparr>"

definition set_combined :: "u32 \<Rightarrow> u32" where
  "set_combined content = (content AND NOT CODEPOINT) OR COMBINED"

definition addCodepointToCell :: "buffer_line \<Rightarrow> int \<Rightarrow> nat \<Rightarrow> buffer_line" where
  "addCodepointToCell l index codePoint =
     (let content = rd (bl_data l) (index * 3 + 0)
      in if combined_flag content
         then l\<lparr>bl_combined := (bl_combined l)(index \<mapsto> units_of (bl_combined l index) @ stringFromCodePoint codePoint)\<rparr>
         else if content AND CODEPOINT \<noteq> 0
         then l\<lparr>bl_combined := (bl_combined l)(index \<mapsto>
                  stringFromCodePoint (code_of content) @ stringFromCodePoint codePoint),
                bl_data := wr (bl_data l) (index * 3 + 0) (set_combined content)\<rparr>
         else l\<lparr>bl_data := wr (bl_data l) (index * 3 + 0) (of_nat codePoint OR push_bit 22 1)\<rparr>)"

definition fill_from :: "buffer_line \<Rightarrow> int \<Rightarrow> int \<Rightarrow> cell_data \<Rightarrow> buffer_line" where
  "fill_from l a b fillCellData = for_up a b (\<lambda>i l. setCell l i fillCellData) l"

text \<open>
  The loops of \<open>insertCells\<close> and \<open>deleteCells\<close> reuse one cell object; what it carries from one round
  to the next is only its \<open>combinedData\<close>, which is stored only where it has just been loaded.
\<close>

definition insertCells :: "buffer_line \<Rightarrow> int \<Rightarrow> int \<Rightarrow> cell_data \<Rightarrow> buffer_line" where
  "insertCells l pos n fillCellData =
     (if bl_length l = 0 then l
      else
        (let pos = js_rem pos (bl_length l)
         in if n < bl_length l - pos then
              (let l1 = fst (for_down (bl_length l - pos - n - 1) 0
                     (\<lambda>i (l, cell). (let cell' = loadCell l (pos + i) cell in (setCell l (pos + n + i) cell', cell'))) (l, new_cell))
               in for_up 0 n (\<lambda>i l. setCell l (pos + i) fillCellData) l1)
            else fill_from l pos (bl_length l) fillCellData))"

definition deleteCells :: "buffer_line \<Rightarrow> int \<Rightarrow> int \<Rightarrow> cell_data \<Rightarrow> buffer_line" where
  "deleteCells l pos n fillCellData =
     (if bl_length l = 0 then l
      else
        (let pos = js_rem pos (bl_length l)
         in if n < bl_length l - pos then
              (let l1 = fst (for_up 0 (bl_length l - pos - n)
                     (\<lambda>i (l, cell). (let cell' = loadCell l (pos + n + i) cell in (setCell l (pos + i) cell', cell'))) (l, new_cell))
               in fill_from l1 (bl_length l - n) (bl_length l) fillCellData)
            else fill_from l pos (bl_length l) fillCellData))"

definition replaceCells :: "buffer_line \<Rightarrow> int \<Rightarrow> int \<Rightarrow> cell_data \<Rightarrow> buffer_line" where
  "replaceCells l start stop fillCellData = fill_from l start (min stop (bl_length l)) fillCellData"

definition line_resize :: "buffer_line \<Rightarrow> int \<Rightarrow> cell_data \<Rightarrow> buffer_line" where
  "line_resize l cols fillCellData =
     (if cols = bl_length l then l
      else if cols > bl_length l then
        (let size = nat (cols * 3);
             old = (if bl_length l \<noteq> 0 then take size (bl_data l) else []);
             l1 = l\<lparr>bl_data := old @ replicate (size - length old) 0\<rparr>
         in (fill_from l1 (bl_length l) cols fillCellData)\<lparr>bl_length := cols\<rparr>)
      else if cols \<noteq> 0 then
        (let size = nat (cols * 3); old = take size (bl_data l)
         in l\<lparr>bl_data := old @ replicate (size - length old) 0,
              bl_combined := (\<lambda>k. if k \<ge> cols then None else bl_combined l k), bl_length := cols\<rparr>)
      else l\<lparr>bl_data := [], bl_combined := (\<lambda>_. None), bl_length := cols\<rparr>)"

definition line_fill :: "buffer_line \<Rightarrow> cell_data \<Rightarrow> buffer_line" where
  "line_fill l fillCellData =
     for_up 0 (bl_length l) (\<lambda>i l. setCell l i fillCellData) (l\<lparr>bl_combined := (\<lambda>_. None)\<rparr>)"

text \<open>
  With equal lengths the data is copied over the front of the array that is there, with different
  ones into an array of its own.
\<close>

definition copyFrom :: "buffer_line \<Rightarrow> buffer_line \<Rightarrow> buffer_line" where
  "copyFrom l src =
     l\<lparr>bl_data := (if bl_length l \<noteq> bl_length src then bl_data src else bl_data src @ drop (length (bl_data src)) (bl_data l)),
       bl_length := bl_length src, bl_combined := bl_combined src, bl_isWrapped := bl_isWrapped src\<rparr>"

definition line_clone :: "buffer_line \<Rightarrow> buffer_line" where
  "line_clone l =
     (let n = new_line 0 None False
      in n\<lparr>bl_data := bl_data l, bl_length := bl_length l, bl_combined := bl_combined n ++ bl_combined l,
           bl_isWrapped := bl_isWrapped l\<rparr>)"

text \<open>\<open>getTrimmedLength\<close>: the loop from the right, \<open>i\<close> being one more than the cell looked at.\<close>

fun trimmed_loop :: "buffer_line \<Rightarrow> nat \<Rightarrow> int" where
  "trimmed_loop l 0 = 0"
| "trimmed_loop l (Suc i) =
     (if rd (bl_data l) (int i * 3 + 0) AND HAS_CONTENT \<noteq> 0 then int i + width_of (rd (bl_data l) (int i * 3 + 0))
      else trimmed_loop l i)"

definition getTrimmedLength :: "buffer_line \<Rightarrow> int" where
  "getTrimmedLength l = trimmed_loop l (nat (bl_length l))"

text \<open>The source line is another line than the target.\<close>

definition copy_cell :: "buffer_line \<Rightarrow> int \<Rightarrow> int \<Rightarrow> int \<Rightarrow> buffer_line \<Rightarrow> buffer_line" where
  "copy_cell src srcCol destCol cell l =
     for_up 0 3 (\<lambda>i l. l\<lparr>bl_data := wr (bl_data l) ((destCol + cell) * 3 + i) (rd (bl_data src) ((srcCol + cell) * 3 + i))\<rparr>) l"

definition copyCellsFrom :: "buffer_line \<Rightarrow> buffer_line \<Rightarrow> int \<Rightarrow> int \<Rightarrow> int \<Rightarrow> bool \<Rightarrow> buffer_line" where
  "copyCellsFrom l src srcCol destCol len applyInReverse =
     (let l1 = (if applyInReverse then for_down (len - 1) 0 (copy_cell src srcCol destCol) l
                else for_up 0 len (copy_cell src srcCol destCol) l)
      in l1\<lparr>bl_combined := (\<lambda>k. if k - destCol + srcCol \<ge> srcCol \<and> bl_combined src (k - destCol + srcCol) \<noteq> None
                              then bl_combined src (k - destCol + srcCol) else bl_combined l1 k)\<rparr>)"

text \<open>
  \<open>translateToString\<close>; the loop advances by the width of the cell, by one column when that is 0. A
  negative width moves it back, so that it may not end: the result is then \<open>None\<close>.
\<close>

definition cell_text :: "buffer_line \<Rightarrow> int \<Rightarrow> units" where
  "cell_text l col =
     (let content = rd (bl_data l) (col * 3 + 0); cp = content AND CODEPOINT
      in if combined_flag content then units_of (bl_combined l col)
         else if cp \<noteq> 0 then stringFromCodePoint (unat cp) else [32])"

definition advance :: "buffer_line \<Rightarrow> int \<Rightarrow> int" where
  "advance l col = (let w = width_of (rd (bl_data l) (col * 3 + 0)) in if w = 0 then 1 else w)"

partial_function (option) translate_loop :: "buffer_line \<Rightarrow> int \<Rightarrow> int \<Rightarrow> units \<Rightarrow> units option" where
  "translate_loop l startCol endCol result =
     (if startCol < endCol
      then translate_loop l (startCol + advance l startCol) endCol (result @ cell_text l startCol)
      else Some result)"

declare translate_loop.simps [code]

definition translateToString :: "buffer_line \<Rightarrow> bool \<Rightarrow> int \<Rightarrow> int option \<Rightarrow> units option" where
  "translateToString l trimRight startCol endCol =
     (let endCol = (case endCol of None \<Rightarrow> bl_length l | Some e \<Rightarrow> e);
          endCol = (if trimRight then min endCol (getTrimmedLength l) else endCol)
      in translate_loop l startCol endCol [])"

subsection \<open>A line is a list of cells\<close>

text \<open>
  A well-formed line has three words per cell and a string for every cell flagged as combined. What
  a line keeps of a cell is the cell, without the string unless the flag is set.
\<close>

definition cell_at :: "buffer_line \<Rightarrow> int \<Rightarrow> cell_data" where
  "cell_at l i = loadCell l i new_cell"

definition line_ok :: "buffer_line \<Rightarrow> bool" where
  "line_ok l = (0 \<le> bl_length l \<and> int (length (bl_data l)) = bl_length l * 3)"

definition kept :: "cell_data \<Rightarrow> cell_data" where
  "kept c = (if combined_flag (cd_content c) then c else c\<lparr>cd_combined := Some []\<rparr>)"

definition cells :: "buffer_line \<Rightarrow> cell_data list" where
  "cells l = map (\<lambda>i. cell_at l (int i)) [0..<nat (bl_length l)]"

lemma rd_wr: "rd (wr d i v) j = (if i = j \<and> 0 \<le> i \<and> i < int (length d) then v else rd d j)"
  by (auto simp: rd_def wr_def nth_list_update)

lemma length_wr [simp]: "length (wr d i v) = length d"
  by (simp add: wr_def)

lemma setCell_simps [simp]:
  "bl_length (setCell l i c) = bl_length l" "length (bl_data (setCell l i c)) = length (bl_data l)"
  "bl_isWrapped (setCell l i c) = bl_isWrapped l"
  by (simp_all add: setCell_def Let_def)

lemma rd_setCell:
  assumes "line_ok l" and "0 \<le> i" and "i < bl_length l" and "k < 3" and "0 \<le> k"
  shows "rd (bl_data (setCell l i c)) (j * 3 + k) =
    (if i = j then (if k = 0 then cd_content c else if k = 1 then cd_fg c else cd_bg c) else rd (bl_data l) (j * 3 + k))"
proof -
  have "k = 0 \<or> k = 1 \<or> k = 2" using assms by auto
  then show ?thesis
    using assms by (auto simp: setCell_def Let_def rd_wr line_ok_def)
qed

lemma cell_at_setCell:
  assumes "line_ok l" and "0 \<le> i" and "i < bl_length l"
  shows "cell_at (setCell l i c) j = (if i = j then kept c else cell_at l j)"
proof -
  have words: "rd (bl_data (setCell l i c)) (j * 3) = (if i = j then cd_content c else rd (bl_data l) (j * 3))"
    "rd (bl_data (setCell l i c)) (j * 3 + 1) = (if i = j then cd_fg c else rd (bl_data l) (j * 3 + 1))"
    "rd (bl_data (setCell l i c)) (j * 3 + 2) = (if i = j then cd_bg c else rd (bl_data l) (j * 3 + 2))"
    using rd_setCell [OF assms, of 0 c j] rd_setCell [OF assms, of 1 c j] rd_setCell [OF assms, of 2 c j] by simp_all
  have strings: "bl_combined (setCell l i c) j =
      (if i = j \<and> combined_flag (cd_content c) then cd_combined c else bl_combined l j)"
    by (simp add: setCell_def Let_def)
  show ?thesis
  proof (cases "i = j")
    case True
    with words strings show ?thesis
      by (cases c) (simp add: cell_at_def loadCell_def Let_def kept_def new_cell_def)
  next
    case False
    with words strings show ?thesis
      by (simp add: cell_at_def loadCell_def Let_def)
  qed
qed

lemma kept_cell_at: "kept (cell_at l i) = cell_at l i"
  by (simp add: kept_def cell_at_def loadCell_def Let_def new_cell_def)

interpretation line_cells: indexed_store cell_at setCell kept line_ok bl_length 0
  by unfold_locales (auto simp: cell_at_setCell kept_cell_at line_ok_def)

text \<open>The object that the loops reuse does not matter.\<close>

lemma setCell_loadCell: "setCell k i (loadCell l j c) = setCell k i (cell_at l j)"
  by (simp add: setCell_def cell_at_def loadCell_def Let_def)

lemma fst_for_down_cell:
  "fst (for_down a b (\<lambda>i (l, cell). (let cell' = loadCell l (p i) cell in (setCell l (q i) cell', cell'))) (l, c)) =
   for_down a b (\<lambda>i l. setCell l (q i) (cell_at l (p i))) l"
proof (induction "nat (a + 1 - b)" arbitrary: a l c)
  case (Suc n)
  then have "b \<le> a" and "n = nat ((a - 1) + 1 - b)" by simp_all
  with Suc.hyps(1) [of "a - 1"] show ?case by (simp add: for_down_step Let_def setCell_loadCell)
qed simp

lemma fst_for_up_cell:
  "fst (for_up a b (\<lambda>i (l, cell). (let cell' = loadCell l (p i) cell in (setCell l (q i) cell', cell'))) (l, c)) =
   for_up a b (\<lambda>i l. setCell l (q i) (cell_at l (p i))) l"
proof (induction "nat (b - a)" arbitrary: a l c)
  case (Suc n)
  then have "a < b" and "n = nat (b - (a + 1))" by simp_all
  with Suc.hyps(1) [of "a + 1"] show ?case by (simp add: for_up_step Let_def setCell_loadCell)
qed simp

lemma length_cells [simp]: "length (cells l) = nat (bl_length l)"
  by (simp add: cells_def)

lemma nth_cells: "k < nat (bl_length l) \<Longrightarrow> cells l ! k = cell_at l (int k)"
  by (simp add: cells_def)

text \<open>The list that a shift by \<open>n\<close> columns leaves, column by column.\<close>

lemma cells_inserted:
  assumes "bl_length t = int L" and "bl_length l = int L" and "p \<le> L"
    and "\<And>j. j < L \<Longrightarrow> cell_at t (int j) =
      (if j < p then cell_at l (int j) else if j < p + n then f else cell_at l (int (j - n)))"
  shows "cells t = take L (take p (cells l) @ replicate n f @ drop p (cells l))"
proof (rule nth_equalityI)
  fix k assume "k < length (cells t)"
  with assms show "cells t ! k = take L (take p (cells l) @ replicate n f @ drop p (cells l)) ! k"
    by (auto simp: nth_append nth_cells)
qed (use assms in simp)

lemma cells_deleted:
  assumes "bl_length t = int L" and "bl_length l = int L" and "p \<le> L"
    and "\<And>j. j < L \<Longrightarrow> cell_at t (int j) =
      (if j < p then cell_at l (int j) else if j + n < L then cell_at l (int (j + n)) else f)"
  shows "cells t = take p (cells l) @ drop (p + n) (cells l) @ replicate (min n (L - p)) f"
proof (rule nth_equalityI)
  fix k assume "k < length (cells t)"
  with assms show "cells t ! k = (take p (cells l) @ drop (p + n) (cells l) @ replicate (min n (L - p)) f) ! k"
    by (auto simp: nth_append nth_cells algebra_simps intro!: nth_replicate [symmetric])
qed (use assms in simp)

lemma fill_from_spec:
  assumes "line_ok l" and "0 \<le> a" and "a \<le> b" and "b \<le> bl_length l"
  shows "line_ok (fill_from l a b f) \<and> bl_length (fill_from l a b f) = bl_length l \<and>
    (\<forall>j. 0 \<le> j \<longrightarrow> j < bl_length l \<longrightarrow>
      cell_at (fill_from l a b f) j = (if a \<le> j \<and> j < b then kept f else cell_at l j))"
  using line_cells.write_range [of l a b "\<lambda>_. f"] assms by (simp add: fill_from_def)

lemma insertCells_cells:
  assumes "line_ok l" and "bl_length l = int L" and "p < L"
  shows "line_ok (insertCells l (int p) (int n) f) \<and> bl_length (insertCells l (int p) (int n) f) = int L \<and>
    cells (insertCells l (int p) (int n) f) = take L (take p (cells l) @ replicate n (kept f) @ drop p (cells l))"
proof (cases "p + n < L")
  case True
  define u where "u = for_down (int L - int n - 1) (int p) (\<lambda>i s. setCell s (i + int n) (cell_at s i)) l"
  have u: "line_ok u \<and> bl_length u = int L \<and> (\<forall>j. 0 \<le> j \<longrightarrow> j < int L \<longrightarrow>
      cell_at u j = (if int p + int n \<le> j \<and> j < int L then cell_at l (j - int n) else cell_at l j))"
    using line_cells.move_up [of l "int n" "int p" "int L - int n"] assms True by (simp add: u_def)
  have moved: "for_down (int L - int p - int n - 1) 0 (\<lambda>i l. setCell l (int p + int n + i) (cell_at l (int p + i))) l = u"
    using for_down_shift [of "int L - int p - int n - 1" 0 "\<lambda>i s. setCell s (i + int n) (cell_at s i)" "int p" l]
    by (simp add: u_def algebra_simps)
  have ins: "insertCells l (int p) (int n) f = fill_from u (int p) (int p + int n) f"
    using assms True moved for_up_shift [of 0 "int n" "\<lambda>i l. setCell l i f" "int p" u]
    unfolding insertCells_def fst_for_down_cell by (simp add: js_rem_nonneg fill_from_def Let_def)
  have t: "line_ok (insertCells l (int p) (int n) f) \<and> bl_length (insertCells l (int p) (int n) f) = int L \<and>
    (\<forall>j. 0 \<le> j \<longrightarrow> j < int L \<longrightarrow> cell_at (insertCells l (int p) (int n) f) j =
      (if int p \<le> j \<and> j < int p + int n then kept f else cell_at u j))"
    using fill_from_spec [of u "int p" "int p + int n" f] u True unfolding ins by simp
  then show ?thesis
    using cells_inserted [of "insertCells l (int p) (int n) f" L l p n "kept f"] assms u by (auto simp: of_nat_diff)
next
  case False
  then have ins: "insertCells l (int p) (int n) f = fill_from l (int p) (int L) f"
    using assms by (simp add: insertCells_def js_rem_nonneg)
  then have t: "line_ok (insertCells l (int p) (int n) f) \<and> bl_length (insertCells l (int p) (int n) f) = int L \<and>
    (\<forall>j. 0 \<le> j \<longrightarrow> j < int L \<longrightarrow> cell_at (insertCells l (int p) (int n) f) j =
      (if int p \<le> j \<and> j < int L then kept f else cell_at l j))"
    using fill_from_spec [of l "int p" "int L" f] assms by simp
  then show ?thesis
    using cells_inserted [of "insertCells l (int p) (int n) f" L l p n "kept f"] assms False by auto
qed

lemma deleteCells_cells:
  assumes "line_ok l" and "bl_length l = int L" and "p < L"
  shows "line_ok (deleteCells l (int p) (int n) f) \<and> bl_length (deleteCells l (int p) (int n) f) = int L \<and>
    cells (deleteCells l (int p) (int n) f) =
      take p (cells l) @ drop (p + n) (cells l) @ replicate (min n (L - p)) (kept f)"
proof (cases "p + n < L")
  case True
  define u where "u = for_up (int p) (int L - int n) (\<lambda>i s. setCell s i (cell_at s (i + int n))) l"
  have u: "line_ok u \<and> bl_length u = int L \<and> (\<forall>j. 0 \<le> j \<longrightarrow> j < int L \<longrightarrow>
      cell_at u j = (if int p \<le> j \<and> j < int L - int n then cell_at l (j + int n) else cell_at l j))"
    using line_cells.move_down [of l "int n" "int p" "int L - int n"] assms True by (simp add: u_def)
  have moved: "for_up 0 (int L - int p - int n) (\<lambda>i l. setCell l (int p + i) (cell_at l (int p + int n + i))) l = u"
    using for_up_shift [of 0 "int L - int p - int n" "\<lambda>i s. setCell s i (cell_at s (i + int n))" "int p" l]
    by (simp add: u_def algebra_simps)
  have del: "deleteCells l (int p) (int n) f = fill_from u (int L - int n) (int L) f"
    using assms True moved by (simp add: deleteCells_def fst_for_up_cell js_rem_nonneg)
  have t: "line_ok (deleteCells l (int p) (int n) f) \<and> bl_length (deleteCells l (int p) (int n) f) = int L \<and>
    (\<forall>j. 0 \<le> j \<longrightarrow> j < int L \<longrightarrow> cell_at (deleteCells l (int p) (int n) f) j =
      (if int L - int n \<le> j \<and> j < int L then kept f else cell_at u j))"
    using fill_from_spec [of u "int L - int n" "int L" f] u True unfolding del by simp
  then show ?thesis
    using cells_deleted [of "deleteCells l (int p) (int n) f" L l p n "kept f"] assms u True by auto
next
  case False
  then have del: "deleteCells l (int p) (int n) f = fill_from l (int p) (int L) f"
    using assms by (simp add: deleteCells_def js_rem_nonneg)
  then have t: "line_ok (deleteCells l (int p) (int n) f) \<and> bl_length (deleteCells l (int p) (int n) f) = int L \<and>
    (\<forall>j. 0 \<le> j \<longrightarrow> j < int L \<longrightarrow> cell_at (deleteCells l (int p) (int n) f) j =
      (if int p \<le> j \<and> j < int L then kept f else cell_at l j))"
    using fill_from_spec [of l "int p" "int L" f] assms by simp
  then show ?thesis
    using cells_deleted [of "deleteCells l (int p) (int n) f" L l p n "kept f"] assms False by auto
qed

end
