(* ===== verification/BufferLine_Text.thy ===== *)
theory BufferLine_Text
  imports BufferLine
begin

text \<open>
  What a buffer line shows: the bit fields of its content words, combining characters, resizing, the
  text read back from a line, and copying cells between lines; with the properties of the component.
\<close>

subsection \<open>The bit fields of a content word\<close>

lemma mask_consts: "(2097151::u32) = mask 21" "(4194303::u32) = mask 22" "(2097152::u32) = 2 ^ 21"
  by (simp_all add: mask_eq_exp_minus_1)

lemma combined_flag_bit: "combined_flag w = bit w 21"
  unfolding combined_flag_def mask_consts by (simp only: and_exp_eq_0_iff_not_bit not_not)

lemma codepoint_bits: "w AND CODEPOINT = take_bit 21 w"
  unfolding mask_consts by (simp add: take_bit_eq_mask)

lemma has_content_bits: "w AND HAS_CONTENT = take_bit 22 w"
  unfolding mask_consts by (simp add: take_bit_eq_mask)

lemma width_of_small:
  assumes "unat w < 2 ^ 31"
  shows "width_of w = int (unat w div 2 ^ 22)"
proof -
  have "uint w < 2 ^ 31" using assms by (metis of_nat_less_iff of_nat_numeral of_nat_power uint_nat)
  then have "signed_take_bit 31 (uint w) = uint w"
    by (intro signed_take_bit_int_eq_self) (use uint_ge_0 [of w] in linarith)+
  then have "sint w = uint w"
    by (simp add: sint_uint)
  then show ?thesis
    by (simp add: width_of_def sint_signed_drop_bit_eq drop_bit_eq_div zdiv_int)
qed

lemma low_part: "cp < 2097152 \<Longrightarrow> take_bit 21 (of_nat cp :: u32) = of_nat cp"
  by (simp add: take_bit_of_nat take_bit_nat_eq_self)

lemma packed_fields:
  assumes "cp < 2097152" and "w < 512"
  shows "take_bit 21 (of_nat cp OR push_bit 22 (of_nat w) :: u32) = of_nat cp"
    "\<not> bit (of_nat cp OR push_bit 22 (of_nat w) :: u32) 21"
    "width_of (of_nat cp OR push_bit 22 (of_nat w)) = int w"
proof -
  have low: "bit (of_nat cp :: u32) n \<Longrightarrow> n < 21" for n
    using low_part [OF assms(1)] by (metis bit_take_bit_iff)
  show "take_bit 21 (of_nat cp OR push_bit 22 (of_nat w) :: u32) = of_nat cp"
    by (simp add: low_part [OF assms(1)] take_bit_push_bit)
  show "\<not> bit (of_nat cp OR push_bit 22 (of_nat w) :: u32) 21"
    using low [of 21] by (auto simp: bit_or_iff bit_push_bit_iff)
  have "(of_nat cp OR push_bit 22 (of_nat w) :: u32) = of_nat cp + push_bit 22 (of_nat w)"
    by (rule disjunctive_add [symmetric]) (use low in \<open>auto simp: bit_push_bit_iff dest!: low\<close>)
  also have "\<dots> = of_nat (cp + w * 2 ^ 22)"
    by (simp add: push_bit_eq_mult)
  finally have sum: "(of_nat cp OR push_bit 22 (of_nat w) :: u32) = of_nat (cp + w * 2 ^ 22)" .
  have "unat (of_nat (cp + w * 2 ^ 22) :: u32) = cp + w * 2 ^ 22"
    using assms by (subst unat_of_nat) (simp del: of_nat_add)
  then show "width_of (of_nat cp OR push_bit 22 (of_nat w)) = int w"
    unfolding sum using assms by (subst width_of_small) simp_all
qed


text \<open>Dropping the code point and raising the flag leaves the width.\<close>

lemma bit_COMBINED: "bit COMBINED n \<longleftrightarrow> n = 21"
  unfolding mask_consts by (simp only: bit_exp_iff) (auto simp: possible_bit_def)

lemma bit_set_combined: "bit (set_combined w) n \<longleftrightarrow> n = 21 \<or> 21 < n \<and> bit w n"
  unfolding set_combined_def bit_or_iff bit_and_iff bit_COMBINED
  by (simp only: mask_consts(1) bit_not_iff bit_mask_iff) (auto simp: possible_bit_def dest: bit_imp_le_length)

lemma flagged_width: "width_of (set_combined w) = width_of w"
proof -
  have "signed_drop_bit 22 (set_combined w) = signed_drop_bit 22 w"
    by (rule bit_word_eqI) (auto simp: bit_signed_drop_bit_iff bit_set_combined)
  then show ?thesis by (simp add: width_of_def)
qed

lemma has_content_split: "take_bit 22 (w::u32) = 0 \<longleftrightarrow> \<not> bit w 21 \<and> take_bit 21 w = 0"
proof -
  have "bit w n \<Longrightarrow> n < 32" for n using bit_imp_le_length [of w n] by simp
  then have "take_bit m w = 0 \<longleftrightarrow> (\<forall>n<m. \<not> bit w n)" for m
    by (auto simp: bit_eq_iff [of _ "0::u32"] bit_take_bit_iff)
  moreover have "(\<forall>n<22. P n) \<longleftrightarrow> P 21 \<and> (\<forall>n<21. P n)" for P :: "nat \<Rightarrow> bool"
    using less_Suc_eq [of _ 21] by auto
  ultimately show ?thesis by simp
qed

lemma content_update:
  assumes "line_ok l" and "0 \<le> i" and "i < bl_length l"
  shows "rd (wr (bl_data l) (i * 3) v) (j * 3) = (if i = j then v else rd (bl_data l) (j * 3))"
    "rd (wr (bl_data l) (i * 3) v) (j * 3 + 1) = rd (bl_data l) (j * 3 + 1)"
    "rd (wr (bl_data l) (i * 3) v) (j * 3 + 2) = rd (bl_data l) (j * 3 + 2)"
proof -
  have "i * 3 \<noteq> j * 3 + 1" "i * 3 \<noteq> j * 3 + 2" by presburger+
  then show "rd (wr (bl_data l) (i * 3) v) (j * 3) = (if i = j then v else rd (bl_data l) (j * 3))"
    "rd (wr (bl_data l) (i * 3) v) (j * 3 + 1) = rd (bl_data l) (j * 3 + 1)"
    "rd (wr (bl_data l) (i * 3) v) (j * 3 + 2) = rd (bl_data l) (j * 3 + 2)"
    using assms by (simp_all add: rd_wr line_ok_def)
qed

lemma addCodepoint_other:
  assumes "line_ok l" and "0 \<le> i" and "i < bl_length l" and "j \<noteq> i"
  shows "cell_at (addCodepointToCell l i cp) j = cell_at l j"
  using assms(4)
  by (simp add: cell_at_def loadCell_def addCodepointToCell_def Let_def content_update [OF assms(1-3)])

lemma addCodepoint_here:
  assumes "line_ok l" and "0 \<le> i" and "i < bl_length l" and "getString l i = Some s" and "0 < cp" and "cp < 2097152"
  shows "getString (addCodepointToCell l i cp) i = Some (s @ stringFromCodePoint cp)"
    and "line_getWidth (addCodepointToCell l i cp) i = (if hasContent l i then line_getWidth l i else 1)"
proof -
  define w where "w = rd (bl_data l) (i * 3)"
  have un: "unat (of_nat cp :: u32) = cp"
    using assms(6) by (simp add: unat_of_nat)
  then have nz: "of_nat cp \<noteq> (0::u32)"
    using assms(5) by (metis unat_0 less_irrefl)
  have packed: "take_bit 21 (of_nat cp OR push_bit 22 1 :: u32) = of_nat cp"
    "\<not> bit (of_nat cp OR push_bit 22 1 :: u32) 21" "width_of (of_nat cp OR push_bit 22 1) = 1"
    using packed_fields [OF assms(6), of 1] by simp_all
  consider "bit w 21" | "\<not> bit w 21" "take_bit 21 w \<noteq> 0" | "\<not> bit w 21" "take_bit 21 w = 0" by blast
  note cases = this
  show "getString (addCodepointToCell l i cp) i = Some (s @ stringFromCodePoint cp)"
    using assms(4) nz un packed
    by (cases rule: cases)
      (auto simp: getString_def addCodepointToCell_def Let_def combined_flag_bit codepoint_bits code_of_def
        content_update [OF assms(1-3)] bit_set_combined units_of_def w_def [symmetric])
  show "line_getWidth (addCodepointToCell l i cp) i = (if hasContent l i then line_getWidth l i else 1)"
    using packed
    by (cases rule: cases)
      (auto simp: line_getWidth_def hasContent_def addCodepointToCell_def Let_def combined_flag_bit codepoint_bits
        has_content_bits has_content_split content_update [OF assms(1-3)] flagged_width w_def [symmetric])
qed


text \<open>Resizing: the data array is exchanged before the new columns are filled.\<close>

lemma setCell_length_update: "setCell (l\<lparr>bl_length := n\<rparr>) i c = (setCell l i c)\<lparr>bl_length := n\<rparr>"
  by (simp add: setCell_def Let_def)

lemma fill_from_length_update: "(fill_from l a b f)\<lparr>bl_length := n\<rparr> = fill_from (l\<lparr>bl_length := n\<rparr>) a b f"
  unfolding fill_from_def
proof (induction "nat (b - a)" arbitrary: a l)
  case (Suc k)
  then have "a < b" and "k = nat (b - (a + 1))" by simp_all
  with Suc.hyps(1) [of "a + 1"] show ?case by (simp add: for_up_step setCell_length_update)
qed simp

lemma rd_take: "0 \<le> j \<Longrightarrow> j < int n \<Longrightarrow> rd (take n d @ replicate k 0) j = rd d j"
  by (auto simp: rd_def nth_append)

lemma rd_append: "0 \<le> j \<Longrightarrow> j < int (length d) \<Longrightarrow> rd (d @ e) j = rd d j"
  by (auto simp: rd_def nth_append)

lemma line_resize_cells:
  assumes "line_ok l" and "bl_length l = int L"
  shows "line_ok (line_resize l (int C) f) \<and> bl_length (line_resize l (int C) f) = int C \<and>
    cells (line_resize l (int C) f) = take C (cells l) @ replicate (C - L) (kept f)"
proof -
  have len: "length (bl_data l) = L * 3" using assms by (simp add: line_ok_def)
  consider "C = L" | "L < C" | "C < L" "C \<noteq> 0" | "C = 0" "L \<noteq> 0" by linarith
  then show ?thesis
  proof cases
    case 2
    define d where "d = (if L \<noteq> 0 then take (C * 3) (bl_data l) else []) @
        replicate (C * 3 - length (if L \<noteq> 0 then take (C * 3) (bl_data l) else [])) 0"
    define m where "m = l\<lparr>bl_data := d, bl_length := int C\<rparr>"
    have res: "line_resize l (int C) f = fill_from m (int L) (int C) f"
      using 2 assms unfolding line_resize_def
      by (simp add: Let_def fill_from_length_update m_def d_def nat_mult_distrib)
    have ok: "line_ok m" "bl_length m = int C" using 2 len by (auto simp: line_ok_def m_def d_def)
    have "rd d (j * 3 + k) = rd (bl_data l) (j * 3 + k)" if "0 \<le> j" "j < int L" "0 \<le> k" "k < 3" for j k
      using that 2 len by (auto simp: d_def intro!: rd_append)
    from this [of _ 0] this [of _ 1] this [of _ 2]
    have old: "cell_at m j = cell_at l j" if "0 \<le> j" "j < int L" for j
      using that by (simp add: cell_at_def loadCell_def m_def Let_def)
    show ?thesis
      unfolding res using fill_from_spec [of m "int L" "int C" f] ok 2 assms old
      by (auto intro!: nth_equalityI simp: nth_append nth_cells)
  next
    case 3
    have "rd (bl_data (line_resize l (int C) f)) (j * 3 + k) = rd (bl_data l) (j * 3 + k)"
      if "0 \<le> j" "j < int C" "0 \<le> k" "k < 3" for j k
      using that 3 assms by (auto simp: line_resize_def Let_def nat_mult_distrib intro!: rd_take)
    from this [of _ 0] this [of _ 1] this [of _ 2]
    have old: "cell_at (line_resize l (int C) f) j = cell_at l j" if "0 \<le> j" "j < int C" for j
      using that 3 assms by (auto simp: cell_at_def loadCell_def Let_def) (simp_all add: line_resize_def Let_def)
    have ok: "line_ok (line_resize l (int C) f)" "bl_length (line_resize l (int C) f) = int C"
      using 3 len assms by (auto simp: line_ok_def line_resize_def Let_def nat_mult_distrib)
    show ?thesis
      using ok 3 assms old by (auto intro!: nth_equalityI simp: nth_append nth_cells)
  qed (use assms in \<open>auto simp: line_resize_def line_ok_def cells_def\<close>)
qed


subsection \<open>Writing characters and reading the text\<close>

text \<open>
  Characters of one or two columns set one after the other, a column of width 0 behind a wide one.
\<close>

fun write_chars :: "buffer_line \<Rightarrow> int \<Rightarrow> u32 \<Rightarrow> u32 \<Rightarrow> (nat \<times> nat) list \<Rightarrow> buffer_line" where
  "write_chars l col fg bg [] = l"
| "write_chars l col fg bg ((cp, w) # cs) =
     (let l1 = setCellFromCodePoint l col cp (of_nat w) fg bg;
          l2 = (if w = 2 then setCellFromCodePoint l1 (col + 1) 0 0 fg bg else l1)
      in write_chars l2 (col + int w) fg bg cs)"

definition columns :: "(nat \<times> nat) list \<Rightarrow> nat" where
  "columns cs = (\<Sum>(cp, w)\<leftarrow>cs. w)"

definition printable :: "nat \<times> nat \<Rightarrow> bool" where
  "printable c = (0 < fst c \<and> fst c < 2097152 \<and> (snd c = 1 \<or> snd c = 2))"

lemma columns_simps [simp]: "columns [] = 0" "columns ((cp, w) # cs) = w + columns cs"
  by (simp_all add: columns_def)

text \<open>Setting a code point is setting an uncombined cell.\<close>

lemma set_code_point_is_cell:
  assumes "cp < 2097152" and "w < 512"
  shows "setCellFromCodePoint l i cp (of_nat w) fg bg =
    setCell l i \<lparr>cd_content = of_nat cp OR push_bit 22 (of_nat w), cd_fg = fg, cd_bg = bg, cd_combined = Some []\<rparr>"
  using packed_fields(2) [OF assms]
  by (simp add: setCellFromCodePoint_def setCell_def combined_flag_bit)

abbreviation coded :: "nat \<Rightarrow> nat \<Rightarrow> u32 \<Rightarrow> u32 \<Rightarrow> cell_data" where
  "coded cp w fg bg \<equiv>
     \<lparr>cd_content = of_nat cp OR push_bit 22 (of_nat w), cd_fg = fg, cd_bg = bg, cd_combined = Some []\<rparr>"

lemma write_chars_Cons:
  assumes "printable (cp, w)"
  shows "write_chars l col fg bg ((cp, w) # cs) =
    write_chars (if w = 2 then setCell (setCell l col (coded cp w fg bg)) (col + 1) (coded 0 0 fg bg)
                 else setCell l col (coded cp w fg bg)) (col + int w) fg bg cs"
proof -
  have "cp < 2097152" and "w < 512" using assms by (auto simp: printable_def)
  from set_code_point_is_cell [OF this] set_code_point_is_cell [of 0 0]
  show ?thesis by (simp only: write_chars.simps Let_def) simp
qed

declare write_chars.simps(2) [simp del]

lemma write_chars_frame:
  assumes "list_all printable cs" and "line_ok l" and "0 \<le> col" and "col + int (columns cs) \<le> bl_length l"
  shows "line_ok (write_chars l col fg bg cs) \<and> bl_length (write_chars l col fg bg cs) = bl_length l \<and>
    (\<forall>j. j < col \<or> col + int (columns cs) \<le> j \<longrightarrow> cell_at (write_chars l col fg bg cs) j = cell_at l j)"
  using assms
proof (induction cs arbitrary: l col)
  case (Cons c cs)
  obtain cp w where c: "c = (cp, w)" by (cases c)
  define m where "m = (if w = 2 then setCell (setCell l col (coded cp w fg bg)) (col + 1) (coded 0 0 fg bg)
                 else setCell l col (coded cp w fg bg))"
  have w: "w = 1 \<or> w = 2" and p: "printable (cp, w)" using Cons.prems(1) by (auto simp: c printable_def)
  have m: "line_ok m" "bl_length m = bl_length l" using Cons.prems w by (auto simp: m_def line_ok_def)
  have "cell_at m j = cell_at l j" if "j < col \<or> col + int w \<le> j" for j
    using that w Cons.prems by (auto simp: m_def cell_at_setCell line_ok_def c)
  with Cons.IH [of m "col + int w"] Cons.prems m show ?case
    unfolding c write_chars_Cons [OF p] m_def [symmetric] by auto
qed simp

lemma cell_at_fields:
  "rd (bl_data l) (j * 3) = cd_content (cell_at l j)"
  by (simp add: cell_at_def loadCell_def Let_def)

lemma cell_reads:
  assumes "cell_at l j = kept (coded cp w fg bg)" and "cp < 2097152" and "w < 512"
  shows "cell_text l j = (if cp = 0 then [32] else stringFromCodePoint cp)"
    and "advance l j = (if w = 0 then 1 else int w)"
    and "rd (bl_data l) (j * 3) AND HAS_CONTENT = of_nat cp"
    and "width_of (rd (bl_data l) (j * 3)) = int w"
proof -
  have content: "rd (bl_data l) (j * 3) = of_nat cp OR push_bit 22 (of_nat w)"
    unfolding cell_at_fields assms(1) by (simp add: kept_def)
  have un: "unat (of_nat cp :: u32) = cp" using assms(2) by (simp add: unat_of_nat)
  then have nz: "of_nat cp = (0::u32) \<longleftrightarrow> cp = 0" by (cases "cp = 0") auto
  note f = packed_fields [OF assms(2,3)]
  show "cell_text l j = (if cp = 0 then [32] else stringFromCodePoint cp)"
    using f un nz by (simp add: cell_text_def Let_def combined_flag_bit codepoint_bits content)
  show "advance l j = (if w = 0 then 1 else int w)"
    using f by (simp add: advance_def Let_def content)
  show "width_of (rd (bl_data l) (j * 3)) = int w"
    using f by (simp add: content)
  show "rd (bl_data l) (j * 3) AND HAS_CONTENT = of_nat cp"
    unfolding has_content_bits content
    using assms(2) by (simp add: take_bit_push_bit take_bit_of_nat take_bit_nat_eq_self)
qed


lemma written_head:
  assumes "printable (cp, w)" and "list_all printable cs" and "line_ok l" and "0 \<le> col"
    and "col + int (columns ((cp, w) # cs)) \<le> bl_length l"
  shows "cell_at (write_chars l col fg bg ((cp, w) # cs)) col = kept (coded cp w fg bg)"
proof -
  have w: "w = 1 \<or> w = 2" using assms(1) by (auto simp: printable_def)
  define m where "m = (if w = 2 then setCell (setCell l col (coded cp w fg bg)) (col + 1) (coded 0 0 fg bg)
                 else setCell l col (coded cp w fg bg))"
  have "line_ok m" "bl_length m = bl_length l" "cell_at m col = kept (coded cp w fg bg)"
    using w assms by (auto simp: m_def line_ok_def cell_at_setCell)
  with write_chars_frame [OF assms(2), of m "col + int w" fg bg] w assms(4,5) show ?thesis
    unfolding write_chars_Cons [OF assms(1)] m_def [symmetric] by auto
qed

lemma translate_written:
  assumes "list_all printable cs" and "line_ok l" and "0 \<le> col" and "col + int (columns cs) \<le> bl_length l"
  shows "translate_loop (write_chars l col fg bg cs) col (col + int (columns cs)) acc =
    Some (acc @ concat (map (\<lambda>c. stringFromCodePoint (fst c)) cs))"
  using assms
proof (induction cs arbitrary: l col acc)
  case Nil
  then show ?case by (simp add: translate_loop.simps)
next
  case (Cons c cs)
  obtain cp w where c: "c = (cp, w)" by (cases c)
  have p: "printable (cp, w)" using Cons.prems(1) by (simp add: c)
  then have w: "w = 1 \<or> w = 2" and cp: "0 < cp" "cp < 2097152" by (auto simp: printable_def)
  let ?l = "write_chars l col fg bg (c # cs)"
  have "cell_at ?l col = kept (coded cp w fg bg)"
    using written_head [OF p, of cs l col fg bg] Cons.prems by (simp add: c)
  with w cp have step: "cell_text ?l col = stringFromCodePoint cp" "advance ?l col = int w"
    using cell_reads [of ?l col cp w fg bg] by auto
  define m where "m = (if w = 2 then setCell (setCell l col (coded cp w fg bg)) (col + 1) (coded 0 0 fg bg)
                 else setCell l col (coded cp w fg bg))"
  have l: "?l = write_chars m (col + int w) fg bg cs"
    unfolding c write_chars_Cons [OF p] m_def ..
  have "line_ok m" "bl_length m = bl_length l" using Cons.prems(2) by (auto simp: m_def line_ok_def)
  with Cons.IH [of m "col + int w" "acc @ stringFromCodePoint cp"] Cons.prems w
  have "translate_loop ?l (col + int w) (col + int (columns (c # cs))) (acc @ stringFromCodePoint cp) =
      Some (acc @ concat (map (\<lambda>c. stringFromCodePoint (fst c)) (c # cs)))"
    unfolding l by (simp add: c add.assoc)
  moreover have "col < col + int (columns (c # cs))" using w by (auto simp: c)
  ultimately show ?case
    by (subst translate_loop.simps) (simp only: step if_True)
qed

lemma write_chars_append:
  "write_chars l col fg bg (as @ bs) = write_chars (write_chars l col fg bg as) (col + int (columns as)) fg bg bs"
  by (induction as arbitrary: l col) (auto simp: write_chars.simps Let_def add.assoc)

lemma trimmed_skip:
  assumes "k \<le> n" and "\<And>j. k \<le> j \<Longrightarrow> j < n \<Longrightarrow> rd (bl_data l) (int j * 3) AND HAS_CONTENT = 0"
  shows "trimmed_loop l n = trimmed_loop l k"
  using assms
proof (induction n)
  case (Suc n)
  then show ?case by (cases "k = Suc n") auto
qed simp

definition blank_line :: "buffer_line \<Rightarrow> bool" where
  "blank_line l = (\<forall>j\<ge>0. j < bl_length l \<longrightarrow> \<not> hasContent l j)"

lemma trimmed_written:
  assumes "list_all printable cs" and "line_ok l" and "blank_line l" and "int (columns cs) \<le> bl_length l"
  shows "getTrimmedLength (write_chars l 0 fg bg cs) = int (columns cs)"
proof -
  let ?l = "write_chars l 0 fg bg cs"
  note frame = write_chars_frame [OF assms(1,2), of 0 fg bg]
  have len: "bl_length ?l = bl_length l" using frame assms(4) by simp
  have "rd (bl_data ?l) (int j * 3) AND HAS_CONTENT = 0" if "columns cs \<le> j" "j < nat (bl_length l)" for j
    using frame assms(3,4) that by (auto simp: blank_line_def hasContent_def cell_at_fields)
  then have trim: "getTrimmedLength ?l = trimmed_loop ?l (columns cs)"
    unfolding getTrimmedLength_def len using assms(4) by (intro trimmed_skip) auto
  show ?thesis
  proof (cases cs rule: rev_cases)
    case Nil
    then show ?thesis using trim by simp
  next
    case (snoc cs' c)
    obtain cp w where c: "c = (cp, w)" by (cases c)
    have p: "printable (cp, w)" using assms(1) by (simp add: snoc c)
    then have w: "w = 1 \<or> w = 2" and cp: "0 < cp" "cp < 2097152" by (auto simp: printable_def)
    let ?m = "write_chars l 0 fg bg cs'"
    have cols: "columns cs = columns cs' + w" by (simp add: columns_def snoc c)
    have m: "line_ok ?m" "bl_length ?m = bl_length l"
      using write_chars_frame [of cs' l 0 fg bg] assms(1,2,4) cols by (simp_all add: snoc)
    have l: "?l = write_chars ?m (int (columns cs')) fg bg [(cp, w)]" by (simp add: snoc c write_chars_append)
    have at: "cell_at ?l (int (columns cs')) = kept (coded cp w fg bg)"
      unfolding l by (rule written_head) (use p m assms(4) in \<open>simp_all add: cols\<close>)
    have un: "of_nat cp \<noteq> (0::u32)"
      using cp unat_of_nat [of cp, where 'a = 32] by auto
    have head: "trimmed_loop ?l (Suc (columns cs')) = int (columns cs) "
      using cell_reads(3,4) [OF at] cp w un by (auto simp: cols)
    show ?thesis
    proof (cases "w = 1")
      case True
      with head trim show ?thesis by (simp add: cols)
    next
      case False
      with w have w2: "w = 2" by simp
      have "cell_at ?l (int (columns cs') + 1) = kept (coded 0 0 fg bg)"
        using m assms(4) unfolding l write_chars_Cons [OF p]
        by (simp add: w2 cell_at_setCell line_ok_def cols)
      from cell_reads(3) [OF this]
      have "trimmed_loop ?l (Suc (Suc (columns cs'))) = trimmed_loop ?l (Suc (columns cs'))"
        by (simp add: algebra_simps)
      with head trim show ?thesis by (simp add: cols w2)
    qed
  qed
qed


lemma new_line_blank:
  shows "line_ok (new_line n None wrapped)" "blank_line (new_line n None wrapped)"
    "bl_length (new_line n None wrapped) = int n"
proof -
  define f where "f = fromCharData \<lparr>ch_attr = 0, ch_char = [], ch_width = 1, ch_code = 0\<rparr>"
  define z where "z = \<lparr>bl_isWrapped = wrapped, bl_combined = (\<lambda>_. None), bl_data = replicate (n * 3) 0, bl_length = int n\<rparr>"
  have l: "new_line n None wrapped = fill_from z 0 (int n) f"
    using fill_from_length_update [of "int n" "z\<lparr>bl_length := 0\<rparr>" 0 "int n" f]
    by (simp add: new_line_def fill_from_def Let_def f_def z_def)
  have "line_ok z" "bl_length z = int n" by (simp_all add: line_ok_def z_def)
  with fill_from_spec [of z 0 "int n" f]
  have spec: "line_ok (new_line n None wrapped)" "bl_length (new_line n None wrapped) = int n"
    "\<And>j. 0 \<le> j \<Longrightarrow> j < int n \<Longrightarrow> cell_at (new_line n None wrapped) j = kept f"
    unfolding l by auto
  then show "line_ok (new_line n None wrapped)" "bl_length (new_line n None wrapped) = int n" by auto
  have "kept f = kept (coded 0 1 0 0)"
    by (simp add: f_def fromCharData_def setFromCharData_def new_cell_def char_code_def kept_def)
  with spec show "blank_line (new_line n None wrapped)"
    using cell_reads(3) [of "new_line n None wrapped" _ 0 1 0 0] by (simp add: blank_line_def hasContent_def)
qed

subsection \<open>Copying cells between lines\<close>

lemma rd_copy_cell:
  assumes "0 \<le> destCol + c" and "(destCol + c) * 3 + 2 < int (length (bl_data l))"
  shows "rd (bl_data (copy_cell src srcCol destCol c l)) j =
      (if (destCol + c) * 3 \<le> j \<and> j \<le> (destCol + c) * 3 + 2
       then rd (bl_data src) (j - destCol * 3 + srcCol * 3) else rd (bl_data l) j) \<and>
    length (bl_data (copy_cell src srcCol destCol c l)) = length (bl_data l)"
proof -
  have three: "for_up 0 3 f s = f 2 (f 1 (f 0 s))" for f :: "int \<Rightarrow> 'z \<Rightarrow> 'z" and s
    by (simp add: for_up_step)
  have "j = (destCol + c) * 3 \<or> j = (destCol + c) * 3 + 1 \<or> j = (destCol + c) * 3 + 2 \<longleftrightarrow>
      (destCol + c) * 3 \<le> j \<and> j \<le> (destCol + c) * 3 + 2" by auto
  with assms show ?thesis
    by (auto simp: copy_cell_def three rd_wr algebra_simps)
qed

text \<open>What the target's words are once the cells of columns \<open>[a, b)\<close> have been copied.\<close>

definition words_copied ::
  "buffer_line \<Rightarrow> int \<Rightarrow> int \<Rightarrow> buffer_line \<Rightarrow> int \<Rightarrow> int \<Rightarrow> buffer_line \<Rightarrow> bool" where
  "words_copied src srcCol destCol l a b m = (length (bl_data m) = length (bl_data l) \<and>
     (\<forall>j. rd (bl_data m) j = (if (destCol + a) * 3 \<le> j \<and> j < (destCol + b) * 3
        then rd (bl_data src) (j - destCol * 3 + srcCol * 3) else rd (bl_data l) j)))"

lemma words_copied_none: "words_copied src srcCol destCol l a a l"
  by (auto simp: words_copied_def)

lemma words_copied_up:
  assumes "words_copied src srcCol destCol l a i m" and "a \<le> i" and "0 \<le> destCol + i"
    and "(destCol + i + 1) * 3 \<le> int (length (bl_data l))"
  shows "words_copied src srcCol destCol l a (i + 1) (copy_cell src srcCol destCol i m)"
proof -
  have m: "length (bl_data m) = length (bl_data l)" using assms(1) by (simp add: words_copied_def)
  have "rd (bl_data (copy_cell src srcCol destCol i m)) j =
      (if (destCol + a) * 3 \<le> j \<and> j < (destCol + (i + 1)) * 3
       then rd (bl_data src) (j - destCol * 3 + srcCol * 3) else rd (bl_data l) j)" for j
  proof -
    have "(destCol + a) * 3 \<le> j \<and> j < (destCol + (i + 1)) * 3 \<longleftrightarrow>
        (destCol + i) * 3 \<le> j \<and> j \<le> (destCol + i) * 3 + 2 \<or> (destCol + a) * 3 \<le> j \<and> j < (destCol + i) * 3"
      using assms(2) by auto
    with rd_copy_cell [of destCol i m src srcCol j] assms m show ?thesis by (simp add: words_copied_def)
  qed
  with rd_copy_cell [of destCol i m src srcCol] assms m show ?thesis by (simp add: words_copied_def)
qed

lemma words_copied_down:
  assumes "words_copied src srcCol destCol l (i + 1) b m" and "i < b" and "0 \<le> destCol + i"
    and "(destCol + i + 1) * 3 \<le> int (length (bl_data l))"
  shows "words_copied src srcCol destCol l i b (copy_cell src srcCol destCol i m)"
proof -
  have m: "length (bl_data m) = length (bl_data l)" using assms(1) by (simp add: words_copied_def)
  have "rd (bl_data (copy_cell src srcCol destCol i m)) j =
      (if (destCol + i) * 3 \<le> j \<and> j < (destCol + b) * 3
       then rd (bl_data src) (j - destCol * 3 + srcCol * 3) else rd (bl_data l) j)" for j
  proof -
    have "(destCol + i) * 3 \<le> j \<and> j < (destCol + b) * 3 \<longleftrightarrow>
        (destCol + i) * 3 \<le> j \<and> j \<le> (destCol + i) * 3 + 2 \<or> (destCol + (i + 1)) * 3 \<le> j \<and> j < (destCol + b) * 3"
      using assms(2) by auto
    with rd_copy_cell [of destCol i m src srcCol j] assms m show ?thesis by (simp add: words_copied_def)
  qed
  with rd_copy_cell [of destCol i m src srcCol] assms m show ?thesis by (simp add: words_copied_def)
qed

lemma copy_loops:
  assumes "0 \<le> destCol" and "0 \<le> n" and "(destCol + n) * 3 \<le> int (length (bl_data l))"
  shows "words_copied src srcCol destCol l 0 n (for_up 0 n (copy_cell src srcCol destCol) l)"
    and "words_copied src srcCol destCol l 0 n (for_down (n - 1) 0 (copy_cell src srcCol destCol) l)"
proof -
  show "words_copied src srcCol destCol l 0 n (for_up 0 n (copy_cell src srcCol destCol) l)"
    by (rule for_up_rule [where P = "words_copied src srcCol destCol l 0"])
      (use assms in \<open>auto intro!: words_copied_up words_copied_none\<close>)
  have "(\<lambda>i. words_copied src srcCol destCol l (i + 1) n) (0 - 1) (for_down (n - 1) 0 (copy_cell src srcCol destCol) l)"
    by (rule for_down_rule) (use assms in \<open>auto intro!: words_copied_down words_copied_none\<close>)
  then show "words_copied src srcCol destCol l 0 n (for_down (n - 1) 0 (copy_cell src srcCol destCol) l)" by simp
qed

lemma copy_cell_combined [simp]: "bl_combined (copy_cell src a b c l) = bl_combined l"
  by (simp add: copy_cell_def for_up_step)


lemma copy_loops_combined:
  "bl_combined (for_up a b (copy_cell src srcCol destCol) l) = bl_combined l"
  "bl_combined (for_down b a (copy_cell src srcCol destCol) l) = bl_combined l"
proof -
  have "bl_combined (fold (copy_cell src srcCol destCol) is l) = bl_combined l" for "is"
    by (induction "is" arbitrary: l) simp_all
  then show "bl_combined (for_up a b (copy_cell src srcCol destCol) l) = bl_combined l"
    "bl_combined (for_down b a (copy_cell src srcCol destCol) l) = bl_combined l"
    by (simp_all add: for_up_def for_down_def)
qed

lemma copyCellsFrom_parts:
  assumes "0 \<le> destCol" and "0 \<le> n" and "(destCol + n) * 3 \<le> int (length (bl_data l))"
  shows "words_copied src srcCol destCol l 0 n (copyCellsFrom l src srcCol destCol n reversed)"
    and "bl_combined (copyCellsFrom l src srcCol destCol n reversed) k =
      (if destCol \<le> k \<and> bl_combined src (k - destCol + srcCol) \<noteq> None
       then bl_combined src (k - destCol + srcCol) else bl_combined l k)"
  using copy_loops [OF assms, of src srcCol]
  by (auto simp: copyCellsFrom_def Let_def words_copied_def copy_loops_combined)

subsection \<open>Properties\<close>

text \<open>
  Inserting \<open>n\<close> cells at a column shifts the rest of the line right and drops what leaves it;
  deleting \<open>n\<close> cells shifts the rest left and fills up at the end. Both hold for every \<open>n\<close>, the
  length of the line stays.
\<close>

theorem line_cell_edits:
  assumes "line_ok l" and "bl_length l = int L" and "p < L"
  shows "cells (insertCells l (int p) (int n) f) = take L (take p (cells l) @ replicate n (kept f) @ drop p (cells l)) \<and>
    cells (deleteCells l (int p) (int n) f) =
      take p (cells l) @ drop (p + n) (cells l) @ replicate (min n (L - p)) (kept f)"
  using insertCells_cells [OF assms] deleteCells_cells [OF assms] by simp

definition demo_line :: buffer_line where
  "demo_line = \<lparr>bl_isWrapped = False, bl_combined = (\<lambda>_. None),
     bl_data = [4194401, 7, 0, 4194402, 7, 0, 4194403, 7, 0, 4194304, 0, 0], bl_length = 4\<rparr>"

lemma demo_line_ok: "line_ok demo_line" "bl_length demo_line = int 4"
  by (simp_all add: demo_line_def line_ok_def)

lemma demo_line_b: "rd (bl_data demo_line) 3 = 4194402" "getString demo_line 1 = Some [98]"
  "bl_combined (addCodepointToCell demo_line 1 cp) 1 = Some (98 # stringFromCodePoint cp)"
  "rd (bl_data (addCodepointToCell demo_line 1 cp)) 3 = 6291456"
  by (simp_all add: demo_line_def rd_def wr_def getString_def addCodepointToCell_def combined_flag_def code_of_def
      stringFromCodePoint_def set_combined_def)

theorem line_cell_edits_witness:
  "cells (insertCells demo_line 1 2 (coded 120 1 0 0)) =
     take 4 (take 1 (cells demo_line) @ replicate 2 (kept (coded 120 1 0 0)) @ drop 1 (cells demo_line))"
  using line_cell_edits [OF demo_line_ok, of 1 2 "coded 120 1 0 0"] by simp

text \<open>
  Resizing keeps the cells that fit, in order, and fills the columns that are added.
\<close>

theorem line_resize_keeps_cells:
  assumes "line_ok l" and "bl_length l = int L"
  shows "line_ok (line_resize l (int C) f) \<and> bl_length (line_resize l (int C) f) = int C \<and>
    cells (line_resize l (int C) f) = take C (cells l) @ replicate (C - L) (kept f)"
  using line_resize_cells [OF assms] .

theorem line_resize_keeps_cells_witness:
  "bl_length (line_resize demo_line 6 new_cell) = 6 \<and>
   cells (line_resize demo_line 6 new_cell) = take 6 (cells demo_line) @ replicate 2 (kept new_cell)"
  using line_resize_keeps_cells [OF demo_line_ok, of 6 new_cell] by simp

text \<open>
  A combining code point is appended to the text of its cell, whose width stays when the cell had
  content; every other cell is left alone.
\<close>

theorem combining_mark_appended:
  assumes "line_ok l" and "0 \<le> i" and "i < bl_length l" and "getString l i = Some s" and "0 < cp" and "cp < 2097152"
  shows "getString (addCodepointToCell l i cp) i = Some (s @ stringFromCodePoint cp) \<and>
    line_getWidth (addCodepointToCell l i cp) i = (if hasContent l i then line_getWidth l i else 1) \<and>
    (\<forall>j. j \<noteq> i \<longrightarrow> cell_at (addCodepointToCell l i cp) j = cell_at l j)"
  using addCodepoint_here [OF assms] addCodepoint_other [OF assms(1-3)] by simp

theorem combining_mark_appended_witness:
  "getString (addCodepointToCell demo_line 1 0x301) 1 = Some [98, 0x301]"
  using combining_mark_appended [OF demo_line_ok(1) _ _ demo_line_b(2), of "0x301"] demo_line_ok(2)
  by (simp add: stringFromCodePoint_def)

text \<open>
  C28. What is written character by character into a blank line, wide characters included, is read back
  by \<open>translateToString\<close> as the text of those characters, trailing blanks trimmed; the loop ends.
\<close>

theorem written_text_reads_back:
  assumes "list_all printable cs" and "columns cs \<le> n"
  shows "translateToString (write_chars (new_line n None wrapped) 0 fg bg cs) True 0 None =
    Some (utf32ToString (map fst cs) 0 (length cs))"
proof -
  note blank = new_line_blank [of n wrapped]
  have "getTrimmedLength (write_chars (new_line n None wrapped) 0 fg bg cs) = int (columns cs)"
    using trimmed_written [OF assms(1) blank(1,2)] assms(2) blank(3) by simp
  moreover have "bl_length (write_chars (new_line n None wrapped) 0 fg bg cs) = int n"
    using write_chars_frame [OF assms(1) blank(1), of 0 fg bg] assms(2) blank(3) by simp
  ultimately show ?thesis
    using translate_written [OF assms(1) blank(1), of 0 fg bg "[]"] assms(2) blank(3)
    by (simp add: translateToString_def Let_def utf32ToString_concat comp_def)
qed

theorem written_text_reads_back_witness:
  "translateToString (write_chars (new_line 5 None False) 0 7 0 [(97, 1), (0x4E2D, 2)]) True 0 None = Some [97, 0x4E2D]"
  using written_text_reads_back [of "[(97, 1), (0x4E2D, 2)]" 5 False 7 0]
  by (simp add: printable_def utf32ToString_concat stringFromCodePoint_def)

text \<open>
  \<open>copyCellsFrom\<close> copies the words of exactly the columns asked for, but the strings of every
  column from \<open>srcCol\<close> on: a combined cell of the target behind the copied range shows the text of
  the source's combined cell at the same distance.
\<close>

theorem copied_strings_overrun:
  assumes "line_ok l" and "0 \<le> destCol" and "0 \<le> n" and "destCol + n \<le> k" and "k < bl_length l"
    and "line_isCombined l k" and "bl_combined src (k - destCol + srcCol) = Some s"
  shows "getFg (copyCellsFrom l src srcCol destCol n reversed) k = getFg l k \<and>
    getString (copyCellsFrom l src srcCol destCol n reversed) k = Some s"
proof -
  have "(destCol + n) * 3 \<le> int (length (bl_data l))" using assms by (simp add: line_ok_def)
  note parts = copyCellsFrom_parts [OF assms(2,3) this, of src srcCol reversed]
  have "rd (bl_data (copyCellsFrom l src srcCol destCol n reversed)) j = rd (bl_data l) j" if "k * 3 \<le> j" for j
    using parts(1) that assms(3,4) by (simp add: words_copied_def)
  with parts(2) [of k] assms show ?thesis
    by (simp add: getFg_def getString_def line_isCombined_def)
qed

theorem copied_strings_overrun_witness:
  "getString (copyCellsFrom (addCodepointToCell demo_line 1 0x301) (addCodepointToCell demo_line 1 0x308) 0 0 1 False) 1
     = Some [98, 0x308]"
proof -
  let ?l = "addCodepointToCell demo_line 1 0x301"
  have "bl_length ?l = bl_length demo_line" "length (bl_data ?l) = length (bl_data demo_line)"
    by (simp_all add: addCodepointToCell_def Let_def)
  with demo_line_ok have ok: "line_ok ?l" "1 < bl_length ?l" by (simp_all add: line_ok_def)
  have "line_isCombined ?l 1" "bl_combined (addCodepointToCell demo_line 1 0x308) (1 - 0 + 0) = Some [98, 0x308]"
    by (simp_all add: line_isCombined_def demo_line_b combined_flag_def stringFromCodePoint_def)
  from copied_strings_overrun [OF ok(1) _ _ _ ok(2) this, of 1 False] show ?thesis by simp
qed

end
