(* ===== verification/Cursor.thy ===== *)
theory Cursor
  imports Settings BufferLine
begin

text \<open>
  The cursor of the terminal: the handlers of control sequences that move it, the tab stops, the scroll
  region, saving and restoring, and the position report (\<open>InputHandler\<close>, \<open>Buffer\<close> and \<open>Terminal\<close> in
  \<open>xterm.js\<close>). The parameters of a sequence are the list the parser passes, which is never empty. The
  column is a number of the source: \<open>NaN\<close> is \<open>None\<close>, and every comparison with it is false. The size of the
  screen does not change here.
\<close>

record cursor =
  cu_x :: "int option"
  cu_y :: int
  cu_cols :: int
  cu_rows :: int
  scrollTop :: int
  scrollBottom :: int
  tabs :: "int \<Rightarrow> bool"
  tabStopWidth :: int
  savedX :: "int option"
  savedY :: "int option"
  curAttrData :: attribute_data
  savedCurAttrData :: attribute_data
  reports :: "string list"

text \<open>The first parameter, and the two ways the handlers default it.\<close>

definition param :: "nat list \<Rightarrow> int" where
  "param params = int (hd params)"

definition at_least_one :: "nat list \<Rightarrow> int" where
  "at_least_one params = (if param params < 1 then 1 else param params)"

definition or_one :: "nat list \<Rightarrow> nat" where
  "or_one params = (if hd params = 0 then 1 else hd params)"

subsection \<open>Tab stops\<close>

function prev_loop :: "(int \<Rightarrow> bool) \<Rightarrow> int \<Rightarrow> int" where
  "prev_loop ts x = (if \<not> ts (x - 1) \<and> x - 1 > 0 then prev_loop ts (x - 1) else x - 1)"
  by pat_completeness auto
termination by (relation "measure (\<lambda>(ts, x). nat x)") auto

function next_loop :: "(int \<Rightarrow> bool) \<Rightarrow> int \<Rightarrow> int \<Rightarrow> int" where
  "next_loop ts cols x = (if \<not> ts (x + 1) \<and> x + 1 < cols then next_loop ts cols (x + 1) else x + 1)"
  by pat_completeness auto
termination by (relation "measure (\<lambda>(ts, cols, x). nat (cols - x))") auto

declare prev_loop.simps [simp del] next_loop.simps [simp del]

definition clamp_column :: "int \<Rightarrow> int \<Rightarrow> int" where
  "clamp_column cols x = (if x \<ge> cols then cols - 1 else if x < 0 then 0 else x)"

definition prevStop :: "int option \<Rightarrow> 'a cursor_scheme \<Rightarrow> int option" where
  "prevStop x c = map_option (\<lambda>x. clamp_column (cu_cols c) (prev_loop (tabs c) x)) x"

definition nextStop :: "int option \<Rightarrow> 'a cursor_scheme \<Rightarrow> int option" where
  "nextStop x c = map_option (\<lambda>x. clamp_column (cu_cols c) (next_loop (tabs c) (cu_cols c) x)) x"

text \<open>The loop that sets the stops does not end when their distance is not positive.\<close>

partial_function (option) tab_loop :: "int \<Rightarrow> int \<Rightarrow> int \<Rightarrow> (int \<Rightarrow> bool) \<Rightarrow> (int \<Rightarrow> bool) option" where
  "tab_loop i width cols ts = (if i < cols then tab_loop (i + width) width cols (ts(i := True)) else Some ts)"

declare tab_loop.simps [code]

definition setupTabStops :: "int option \<Rightarrow> 'a cursor_scheme \<Rightarrow> 'a cursor_scheme option" where
  "setupTabStops i c =
     (let (start, ts) = (case i of None \<Rightarrow> (0, \<lambda>_. False)
            | Some k \<Rightarrow> (if tabs c k then k else clamp_column (cu_cols c) (prev_loop (tabs c) k), tabs c))
      in map_option (\<lambda>ts. c\<lparr>tabs := ts\<rparr>) (tab_loop start (tabStopWidth c) (cu_cols c) ts))"

definition tab :: "'a cursor_scheme \<Rightarrow> 'a cursor_scheme" where
  "tab c = c\<lparr>cu_x := nextStop (cu_x c) c\<rparr>"

definition cursorForwardTab :: "nat list \<Rightarrow> 'a cursor_scheme \<Rightarrow> 'a cursor_scheme" where
  "cursorForwardTab params c = ((\<lambda>c. c\<lparr>cu_x := nextStop (cu_x c) c\<rparr>) ^^ or_one params) c"

definition cursorBackwardTab :: "nat list \<Rightarrow> 'a cursor_scheme \<Rightarrow> 'a cursor_scheme" where
  "cursorBackwardTab params c = ((\<lambda>c. c\<lparr>cu_x := prevStop (cu_x c) c\<rparr>) ^^ or_one params) c"

definition set_tab :: "bool \<Rightarrow> 'a cursor_scheme \<Rightarrow> 'a cursor_scheme" where
  "set_tab b c = (case cu_x c of None \<Rightarrow> c | Some x \<Rightarrow> c\<lparr>tabs := (tabs c)(x := b)\<rparr>)"

definition tabSet :: "'a cursor_scheme \<Rightarrow> 'a cursor_scheme" where
  "tabSet c = set_tab True c"

definition tabClear :: "nat list \<Rightarrow> 'a cursor_scheme \<Rightarrow> 'a cursor_scheme" where
  "tabClear params c =
     (if param params \<le> 0 then set_tab False c
      else if param params = 3 then c\<lparr>tabs := (\<lambda>_. False)\<rparr> else c)"

subsection \<open>Moving the cursor\<close>

definition carriageReturn :: "'a cursor_scheme \<Rightarrow> 'a cursor_scheme" where
  "carriageReturn c = c\<lparr>cu_x := Some 0\<rparr>"

definition backspace :: "'a cursor_scheme \<Rightarrow> 'a cursor_scheme" where
  "backspace c = c\<lparr>cu_x := map_option (\<lambda>x. if x > 0 then x - 1 else x) (cu_x c)\<rparr>"

definition cursorUp :: "nat list \<Rightarrow> 'a cursor_scheme \<Rightarrow> 'a cursor_scheme" where
  "cursorUp params c =
     (let y = cu_y c - at_least_one params in c\<lparr>cu_y := if y < 0 then 0 else y\<rparr>)"

definition step_back :: "'a cursor_scheme \<Rightarrow> int option \<Rightarrow> int option" where
  "step_back c = map_option (\<lambda>x. if x \<ge> cu_cols c then x - 1 else x)"

definition cap_row :: "'a cursor_scheme \<Rightarrow> int \<Rightarrow> int" where
  "cap_row c y = (if y \<ge> cu_rows c then cu_rows c - 1 else y)"

definition cap_column :: "'a cursor_scheme \<Rightarrow> int option \<Rightarrow> int option" where
  "cap_column c = map_option (\<lambda>x. if x \<ge> cu_cols c then cu_cols c - 1 else x)"

definition cursorDown :: "nat list \<Rightarrow> 'a cursor_scheme \<Rightarrow> 'a cursor_scheme" where
  "cursorDown params c = c\<lparr>cu_y := cap_row c (cu_y c + at_least_one params), cu_x := step_back c (cu_x c)\<rparr>"

definition cursorForward :: "nat list \<Rightarrow> 'a cursor_scheme \<Rightarrow> 'a cursor_scheme" where
  "cursorForward params c = c\<lparr>cu_x := cap_column c (map_option (\<lambda>x. x + at_least_one params) (cu_x c))\<rparr>"

definition cursorBackward :: "nat list \<Rightarrow> 'a cursor_scheme \<Rightarrow> 'a cursor_scheme" where
  "cursorBackward params c =
     c\<lparr>cu_x := map_option (\<lambda>x. let x' = x - at_least_one params in if x' < 0 then 0 else x') (step_back c (cu_x c))\<rparr>"

definition cursorNextLine :: "nat list \<Rightarrow> 'a cursor_scheme \<Rightarrow> 'a cursor_scheme" where
  "cursorNextLine params c = c\<lparr>cu_y := cap_row c (cu_y c + at_least_one params), cu_x := Some 0\<rparr>"

definition cursorPrecedingLine :: "nat list \<Rightarrow> 'a cursor_scheme \<Rightarrow> 'a cursor_scheme" where
  "cursorPrecedingLine params c =
     (let y = cu_y c - at_least_one params in c\<lparr>cu_y := if y < 0 then 0 else y, cu_x := Some 0\<rparr>)"

definition cursorCharAbsolute :: "nat list \<Rightarrow> 'a cursor_scheme \<Rightarrow> 'a cursor_scheme" where
  "cursorCharAbsolute params c = c\<lparr>cu_x := Some (at_least_one params - 1)\<rparr>"

definition cursorPosition :: "nat list \<Rightarrow> 'a cursor_scheme \<Rightarrow> 'a cursor_scheme" where
  "cursorPosition params c =
     (let row = param params - 1; col = (if length params \<ge> 2 then int (params ! 1) - 1 else 0);
          row = (if row < 0 then 0 else if row \<ge> cu_rows c then cu_rows c - 1 else row);
          col = (if col < 0 then 0 else if col \<ge> cu_cols c then cu_cols c - 1 else col)
      in c\<lparr>cu_x := Some col, cu_y := row\<rparr>)"

definition charPosAbsolute :: "nat list \<Rightarrow> 'a cursor_scheme \<Rightarrow> 'a cursor_scheme" where
  "charPosAbsolute params c = c\<lparr>cu_x := cap_column c (Some (at_least_one params - 1))\<rparr>"

definition hPositionRelative :: "nat list \<Rightarrow> 'a cursor_scheme \<Rightarrow> 'a cursor_scheme" where
  "hPositionRelative params c = c\<lparr>cu_x := cap_column c (map_option (\<lambda>x. x + at_least_one params) (cu_x c))\<rparr>"

definition linePosAbsolute :: "nat list \<Rightarrow> 'a cursor_scheme \<Rightarrow> 'a cursor_scheme" where
  "linePosAbsolute params c = c\<lparr>cu_y := cap_row c (at_least_one params - 1)\<rparr>"

definition vPositionRelative :: "nat list \<Rightarrow> 'a cursor_scheme \<Rightarrow> 'a cursor_scheme" where
  "vPositionRelative params c = c\<lparr>cu_y := cap_row c (cu_y c + at_least_one params), cu_x := step_back c (cu_x c)\<rparr>"

text \<open>A missing second parameter is \<open>undefined\<close>, less one \<open>NaN\<close>.\<close>

definition hVPosition :: "nat list \<Rightarrow> 'a cursor_scheme \<Rightarrow> 'a cursor_scheme" where
  "hVPosition params c =
     (let col = (if length params \<ge> 2 then Some (if params ! 1 < 1 then 1 else int (params ! 1)) else None)
      in c\<lparr>cu_y := cap_row c (at_least_one params - 1), cu_x := cap_column c (map_option (\<lambda>x. x - 1) col)\<rparr>)"

definition setScrollRegion :: "nat list \<Rightarrow> string \<Rightarrow> 'a cursor_scheme \<Rightarrow> 'a cursor_scheme" where
  "setScrollRegion params collect c =
     (if collect \<noteq> [] then c
      else
        (let bottom = (if length params \<ge> 2 \<and> params ! 1 \<noteq> 0 \<and> int (params ! 1) \<le> cu_rows c
                       then int (params ! 1) else cu_rows c)
         in c\<lparr>scrollTop := int (or_one params) - 1, scrollBottom := bottom - 1, cu_x := Some 0, cu_y := 0\<rparr>))"

definition saveCursor :: "'a cursor_scheme \<Rightarrow> 'a cursor_scheme" where
  "saveCursor c = c\<lparr>savedX := cu_x c, savedY := Some (cu_y c), savedCurAttrData := curAttrData c\<rparr>"

definition or_zero :: "int option \<Rightarrow> int" where
  "or_zero v = (case v of None \<Rightarrow> 0 | Some k \<Rightarrow> k)"

definition restoreCursor :: "'a cursor_scheme \<Rightarrow> 'a cursor_scheme" where
  "restoreCursor c = c\<lparr>cu_x := Some (or_zero (savedX c)), cu_y := or_zero (savedY c), curAttrData := savedCurAttrData c\<rparr>"

definition report :: "string \<Rightarrow> 'a cursor_scheme \<Rightarrow> 'a cursor_scheme" where
  "report s c = c\<lparr>reports := reports c @ [s]\<rparr>"

definition deviceStatus :: "nat list \<Rightarrow> string \<Rightarrow> 'a cursor_scheme \<Rightarrow> 'a cursor_scheme" where
  "deviceStatus params collect c =
     (let pos = num_str (Some (cu_y c + 1)) @ '';'' @ num_str (map_option (\<lambda>x. x + 1) (cu_x c)) @ ''R''
      in if collect = [] then
           (if hd params = 5 then report ([CHR 0x1B] @ ''[0n'') c
            else if hd params = 6 then report ([CHR 0x1B] @ ''['' @ pos) c else c)
         else if collect = ''?'' then
           (if hd params = 6 then report ([CHR 0x1B] @ ''[?'' @ pos) c else c)
         else c)"

subsection \<open>The operations as one alphabet\<close>

datatype cursor_op =
    Tab | TabSet | TabClear "nat list" | CarriageReturn | Backspace | CursorUp "nat list" | CursorDown "nat list"
  | CursorForward "nat list" | CursorBackward "nat list" | CursorNextLine "nat list" | CursorPrecedingLine "nat list"
  | CursorCharAbsolute "nat list" | CursorPosition "nat list" | CursorForwardTab "nat list"
  | CursorBackwardTab "nat list" | CharPosAbsolute "nat list" | HPositionRelative "nat list"
  | LinePosAbsolute "nat list" | VPositionRelative "nat list" | HVPosition "nat list"
  | SetScrollRegion "nat list" string | SaveCursor | RestoreCursor | DeviceStatus "nat list" string

fun cursor_step :: "cursor_op \<Rightarrow> 'a cursor_scheme \<Rightarrow> 'a cursor_scheme" where
  "cursor_step Tab = tab"
| "cursor_step TabSet = tabSet"
| "cursor_step (TabClear ps) = tabClear ps"
| "cursor_step CarriageReturn = carriageReturn"
| "cursor_step Backspace = backspace"
| "cursor_step (CursorUp ps) = cursorUp ps"
| "cursor_step (CursorDown ps) = cursorDown ps"
| "cursor_step (CursorForward ps) = cursorForward ps"
| "cursor_step (CursorBackward ps) = cursorBackward ps"
| "cursor_step (CursorNextLine ps) = cursorNextLine ps"
| "cursor_step (CursorPrecedingLine ps) = cursorPrecedingLine ps"
| "cursor_step (CursorCharAbsolute ps) = cursorCharAbsolute ps"
| "cursor_step (CursorPosition ps) = cursorPosition ps"
| "cursor_step (CursorForwardTab ps) = cursorForwardTab ps"
| "cursor_step (CursorBackwardTab ps) = cursorBackwardTab ps"
| "cursor_step (CharPosAbsolute ps) = charPosAbsolute ps"
| "cursor_step (HPositionRelative ps) = hPositionRelative ps"
| "cursor_step (LinePosAbsolute ps) = linePosAbsolute ps"
| "cursor_step (VPositionRelative ps) = vPositionRelative ps"
| "cursor_step (HVPosition ps) = hVPosition ps"
| "cursor_step (SetScrollRegion ps collect) = setScrollRegion ps collect"
| "cursor_step SaveCursor = saveCursor"
| "cursor_step RestoreCursor = restoreCursor"
| "cursor_step (DeviceStatus ps collect) = deviceStatus ps collect"

text \<open>
  The column of the cursor runs from 0 to the number of columns, where the next character wraps. Two
  operations can leave this range: an absolute column is not compared with the width, and a missing
  second parameter of \<open>hVPosition\<close> is \<open>NaN\<close>. A scroll region may have its top below its bottom.
\<close>

definition column_ok :: "int \<Rightarrow> int option \<Rightarrow> bool" where
  "column_ok cols x = (case x of None \<Rightarrow> False | Some k \<Rightarrow> 0 \<le> k \<and> k \<le> cols)"

definition cursor_ok :: "'a cursor_scheme \<Rightarrow> bool" where
  "cursor_ok c \<longleftrightarrow> 0 < cu_cols c \<and> 0 < cu_rows c \<and> column_ok (cu_cols c) (cu_x c) \<and> 0 \<le> cu_y c \<and> cu_y c < cu_rows c
     \<and> (savedX c \<noteq> None \<longrightarrow> column_ok (cu_cols c) (savedX c))
     \<and> (\<forall>y. savedY c = Some y \<longrightarrow> 0 \<le> y \<and> y < cu_rows c)
     \<and> 0 \<le> scrollTop c \<and> scrollTop c \<le> scrollBottom c \<and> scrollBottom c < cu_rows c"

fun keeps_cursor :: "int \<Rightarrow> int \<Rightarrow> cursor_op \<Rightarrow> bool" where
  "keeps_cursor cols rows (CursorCharAbsolute ps) \<longleftrightarrow> param ps \<le> cols + 1"
| "keeps_cursor cols rows (HVPosition ps) \<longleftrightarrow> 2 \<le> length ps"
| "keeps_cursor cols rows (SetScrollRegion ps collect) \<longleftrightarrow>
     int (or_one ps) \<le> (if 2 \<le> length ps \<and> ps ! 1 \<noteq> 0 \<and> int (ps ! 1) \<le> rows then int (ps ! 1) else rows)"
| "keeps_cursor cols rows _ \<longleftrightarrow> True"

lemmas cursor_defs = tab_def tabSet_def tabClear_def carriageReturn_def backspace_def cursorUp_def cursorDown_def
  cursorForward_def cursorBackward_def cursorNextLine_def cursorPrecedingLine_def cursorCharAbsolute_def
  cursorPosition_def charPosAbsolute_def hPositionRelative_def linePosAbsolute_def vPositionRelative_def
  hVPosition_def setScrollRegion_def saveCursor_def restoreCursor_def deviceStatus_def report_def set_tab_def
  cap_row_def cap_column_def step_back_def param_def at_least_one_def or_one_def

lemma clamp_column_range: "0 < cols \<Longrightarrow> 0 \<le> clamp_column cols x \<and> clamp_column cols x < cols"
  by (simp add: clamp_column_def)

lemma column_ok_Some [simp]: "column_ok cols (Some k) \<longleftrightarrow> 0 \<le> k \<and> k \<le> cols"
  by (simp add: column_ok_def)

lemma column_ok_cases:
  assumes "column_ok cols x"
  obtains k where "x = Some k" and "0 \<le> k" and "k \<le> cols"
  using assms by (auto simp: column_ok_def split: option.splits)

lemma cursor_size [simp]: "cu_cols (cursor_step op c) = cu_cols c" "cu_rows (cursor_step op c) = cu_rows c"
proof -
  have tabs: "cu_cols (((\<lambda>c. c\<lparr>cu_x := f c\<rparr>) ^^ n) c) = cu_cols c" "cu_rows (((\<lambda>c. c\<lparr>cu_x := f c\<rparr>) ^^ n) c) = cu_rows c"
    for n and f :: "'a cursor_scheme \<Rightarrow> int option"
    by (induction n) simp_all
  show "cu_cols (cursor_step op c) = cu_cols c" "cu_rows (cursor_step op c) = cu_rows c"
    by (cases op; simp add: tabs cursor_defs cursorForwardTab_def cursorBackwardTab_def Let_def split: option.split)+
qed

lemma cursor_ok_place:
  assumes "cursor_ok c" and "column_ok (cu_cols c) x" and "0 \<le> y" and "y < cu_rows c"
  shows "cursor_ok (c\<lparr>cu_x := x, cu_y := y\<rparr>)" "cursor_ok (c\<lparr>cu_y := y, cu_x := x\<rparr>)"
  using assms by (simp_all add: cursor_ok_def)

lemma cursor_ok_column: "cursor_ok c \<Longrightarrow> column_ok (cu_cols c) x \<Longrightarrow> cursor_ok (c\<lparr>cu_x := x\<rparr>)"
  by (simp add: cursor_ok_def)

lemma cursor_ok_row: "cursor_ok c \<Longrightarrow> 0 \<le> y \<Longrightarrow> y < cu_rows c \<Longrightarrow> cursor_ok (c\<lparr>cu_y := y\<rparr>)"
  by (simp add: cursor_ok_def)

lemma stop_column: "0 < cols \<Longrightarrow> column_ok cols x \<Longrightarrow> column_ok cols (map_option (\<lambda>x. clamp_column cols (f x)) x)"
  by (erule column_ok_cases) (simp add: clamp_column_def)

lemma cursor_ok_stops:
  assumes "cursor_ok c"
  shows "cursor_ok (((\<lambda>c. c\<lparr>cu_x := nextStop (cu_x c) c\<rparr>) ^^ n) c)"
    "cursor_ok (((\<lambda>c. c\<lparr>cu_x := prevStop (cu_x c) c\<rparr>) ^^ n) c)"
proof -
  have step: "cursor_ok (c\<lparr>cu_x := nextStop (cu_x c) c\<rparr>)" "cursor_ok (c\<lparr>cu_x := prevStop (cu_x c) c\<rparr>)"
    if "cursor_ok c" for c :: "'a cursor_scheme"
    using that by (auto intro!: cursor_ok_column stop_column simp: nextStop_def prevStop_def cursor_ok_def)
  show "cursor_ok (((\<lambda>c. c\<lparr>cu_x := nextStop (cu_x c) c\<rparr>) ^^ n) c)"
    using assms by (induction n) (simp_all add: step)
  show "cursor_ok (((\<lambda>c. c\<lparr>cu_x := prevStop (cu_x c) c\<rparr>) ^^ n) c)"
    using assms by (induction n) (simp_all add: step)
qed

lemma cursor_ok_step:
  assumes "cursor_ok c" and "keeps_cursor (cu_cols c) (cu_rows c) op"
  shows "cursor_ok (cursor_step op c)"
proof -
  obtain x where x: "cu_x c = Some x" "0 \<le> x" "x \<le> cu_cols c" and y: "0 \<le> cu_y c" "cu_y c < cu_rows c"
    and size: "0 < cu_cols c" "0 < cu_rows c"
    using assms by (auto simp: cursor_ok_def elim: column_ok_cases)
  note place = cursor_ok_place [OF assms(1)] cursor_ok_column [OF assms(1)] cursor_ok_row [OF assms(1)]
  have stops: "cursor_ok (c\<lparr>cu_x := nextStop (Some x) c\<rparr>)"
    using cursor_ok_stops(1) [OF assms(1), of 1] x by simp
  show ?thesis
  proof (cases op)
    case (SetScrollRegion ps collect)
    then show ?thesis using assms x by (auto simp: cursor_ok_def setScrollRegion_def Let_def or_one_def)
  next
    case RestoreCursor
    then show ?thesis
      using assms by (auto simp: cursor_ok_def restoreCursor_def or_zero_def column_ok_def split: option.splits)
  next
    case (CursorForwardTab ps)
    then show ?thesis using assms by (simp add: cursorForwardTab_def cursor_ok_stops)
  next
    case (CursorBackwardTab ps)
    then show ?thesis using assms by (simp add: cursorBackwardTab_def cursor_ok_stops)
  next
    case SaveCursor
    then show ?thesis using assms by (simp add: cursor_ok_def saveCursor_def)
  next
    case TabSet
    then show ?thesis using assms x by (simp add: cursor_ok_def tabSet_def set_tab_def)
  next
    case (TabClear ps)
    then show ?thesis using assms x by (simp add: cursor_ok_def tabClear_def set_tab_def)
  next
    case (DeviceStatus ps collect)
    then show ?thesis using assms x by (simp add: cursor_ok_def deviceStatus_def report_def Let_def)
  next
    case Tab
    then show ?thesis using stops x by (simp add: tab_def)
  next
    case (CursorCharAbsolute ps)
    then show ?thesis using assms size by (auto simp: cursor_defs intro!: place)
  next
    case (HVPosition ps)
    then show ?thesis using assms size by (auto simp: cursor_defs Let_def intro!: place)
  qed (use x y size in \<open>auto simp: cursor_defs Let_def intro!: place\<close>)
qed

lemma cursor_ok_run:
  "cursor_ok c \<Longrightarrow> list_all (keeps_cursor (cu_cols c) (cu_rows c)) ops \<Longrightarrow> cursor_ok (fold cursor_step ops c)"
  by (induction ops arbitrary: c) (simp_all add: cursor_ok_step)

subsection \<open>Tab stops found and set\<close>

lemma next_loop_least:
  "x < next_loop ts cols x \<and> (\<forall>k. x < k \<and> k < next_loop ts cols x \<longrightarrow> \<not> ts k) \<and>
   (next_loop ts cols x < cols \<longrightarrow> ts (next_loop ts cols x)) \<and> (x + 1 \<le> cols \<longrightarrow> next_loop ts cols x \<le> cols)"
proof (induction ts cols x rule: next_loop.induct)
  case (1 ts cols x)
  show ?case
  proof (cases "\<not> ts (x + 1) \<and> x + 1 < cols")
    case True
    with 1 have ih: "x + 1 < next_loop ts cols (x + 1)"
      "\<forall>k. x + 1 < k \<and> k < next_loop ts cols (x + 1) \<longrightarrow> \<not> ts k"
      "next_loop ts cols (x + 1) < cols \<longrightarrow> ts (next_loop ts cols (x + 1))" "next_loop ts cols (x + 1) \<le> cols" by auto
    have eq: "next_loop ts cols x = next_loop ts cols (x + 1)" using True by (subst next_loop.simps) simp
    have "\<not> ts k" if "x < k \<and> k < next_loop ts cols x" for k
      using ih(2) True that by (cases "k = x + 1") (auto simp: eq)
    with ih show ?thesis by (auto simp: eq)
  next
    case False
    then have "next_loop ts cols x = x + 1" by (subst next_loop.simps) auto
    with False show ?thesis by auto
  qed
qed

lemma tab_loop_sets:
  assumes "0 < w"
  shows "tab_loop i w cols ts = Some (\<lambda>k. ts k \<or> i \<le> k \<and> k < cols \<and> w dvd (k - i))"
proof (induction "nat (cols - i)" arbitrary: i ts rule: less_induct)
  case less
  show ?case
  proof (cases "i < cols")
    case True
    have "nat (cols - (i + w)) < nat (cols - i)" using True assms by simp
    from less [OF this, of "ts(i := True)"] have
      "tab_loop i w cols ts = Some (\<lambda>k. (ts(i := True)) k \<or> i + w \<le> k \<and> k < cols \<and> w dvd (k - (i + w)))"
      using True by (subst tab_loop.simps) simp
    moreover have "((ts(i := True)) k \<or> i + w \<le> k \<and> k < cols \<and> w dvd (k - (i + w))) =
        (ts k \<or> i \<le> k \<and> k < cols \<and> w dvd (k - i))" for k
    proof -
      have split: "w dvd (k - i) \<longleftrightarrow> w dvd (k - (i + w))"
        by (metis dvd_diff_commute add_diff_cancel_left' diff_diff_eq dvd_add_right_iff dvd_refl diff_add_cancel)
      have "k = i \<or> i + w \<le> k" if "i \<le> k" "w dvd (k - i)"
        using zdvd_imp_le [OF that(2)] that(1) by linarith
      then show ?thesis using True split assms by auto
    qed
    ultimately show ?thesis by simp
  next
    case False
    then show ?thesis by (subst tab_loop.simps) auto
  qed
qed

lemma next_multiple:
  fixes x w k :: int
  assumes "0 < w" and "0 \<le> x"
  shows "x < (x div w + 1) * w" and "w dvd k \<Longrightarrow> x < k \<Longrightarrow> (x div w + 1) * w \<le> k"
proof -
  have "(x div w + 1) * w = w * (x div w) + w" by (simp add: algebra_simps)
  then show "x < (x div w + 1) * w"
    using mult_div_mod_eq [of w x] pos_mod_bound [OF assms(1), of x] by linarith
  assume "w dvd k" and "x < k"
  then obtain m where k: "k = w * m" by blast
  have "w * (x div w) \<le> x" using mult_div_mod_eq [of w x] pos_mod_sign [OF assms(1), of x] by linarith
  then have "w * (x div w) < w * m" using \<open>x < k\<close> k by linarith
  then have "x div w + 1 \<le> m" using assms by simp
  then show "(x div w + 1) * w \<le> k" using assms k by (simp add: mult.commute)
qed

lemma next_loop_multiple:
  assumes "0 < w" and "0 \<le> x" and "x \<le> cols" and "\<And>k. 0 \<le> k \<Longrightarrow> ts k \<longleftrightarrow> k < cols \<and> w dvd k"
  shows "clamp_column cols (next_loop ts cols x) = min ((x div w + 1) * w) (cols - 1)"
proof -
  let ?n = "next_loop ts cols x" and ?m = "(x div w + 1) * w"
  have n: "x < ?n" "\<And>k. x < k \<Longrightarrow> k < ?n \<Longrightarrow> \<not> ts k" "?n < cols \<Longrightarrow> ts ?n" "x + 1 \<le> cols \<Longrightarrow> ?n \<le> cols"
    using next_loop_least [of x ts cols] by auto
  note m = next_multiple [OF assms(1,2)]
  show ?thesis
  proof (cases "?n < cols")
    case True
    then have "w dvd ?n" using n assms by auto
    then have "?m \<le> ?n" using m n by blast
    moreover have "\<not> ?m < ?n" using n(2) [of ?m] m(1) assms True by auto
    ultimately show ?thesis using True assms n(1) by (simp add: clamp_column_def)
  next
    case False
    have "cols \<le> ?m"
    proof (rule ccontr)
      assume "\<not> cols \<le> ?m"
      then have "ts ?m" using m(1) assms by auto
      then show False using n(2) [of ?m] m(1) False \<open>\<not> cols \<le> ?m\<close> by auto
    qed
    then show ?thesis using False by (simp add: clamp_column_def)
  qed
qed

text \<open>The stop before a column that is no multiple of the width is the one before the next column.\<close>

lemma prev_loop_multiple:
  assumes "0 < w" and "\<And>k. 0 \<le> k \<Longrightarrow> k < cols \<Longrightarrow> ts k \<longleftrightarrow> w dvd k" and "1 \<le> x" and "x \<le> cols"
  shows "prev_loop ts x = (x - 1) div w * w"
  using assms(3,4)
proof (induction "nat x" arbitrary: x rule: less_induct)
  case less
  show ?case
  proof (cases "\<not> ts (x - 1) \<and> x - 1 > 0")
    case True
    then have "\<not> w dvd (x - 1)" using assms(2) [of "x - 1"] less.prems by auto
    then have "0 < (x - 1) mod w" using pos_mod_sign [OF assms(1), of "x - 1"] by (auto simp: dvd_eq_mod_eq_0 less_le)
    then have "(x - 1 - 1) div w = (x - 1) div w"
      using mult_div_mod_eq [of w "x - 1"] pos_mod_bound [OF assms(1), of "x - 1"]
      by (intro int_div_pos_eq [of _ _ _ "(x - 1) mod w - 1"]) linarith+
    with less.hyps [of "x - 1"] True less.prems show ?thesis by (subst prev_loop.simps) simp
  next
    case False
    then have "w dvd (x - 1)" using assms(2) [of "x - 1"] less.prems by (cases "x = 1") auto
    then show ?thesis using False by (subst prev_loop.simps) auto
  qed
qed

lemma prev_stop_multiple:
  assumes "0 < w" and "\<And>k. 0 \<le> k \<Longrightarrow> k < cols \<Longrightarrow> ts k \<longleftrightarrow> w dvd k" and "0 \<le> x" and "x \<le> cols" and "0 < cols"
  shows "clamp_column cols (prev_loop ts x) = max 0 ((x - 1) div w * w)"
proof (cases "x = 0")
  case True
  have "(- 1) div w * w \<le> 0" using assms(1) by (simp add: div_eq_minus1)
  then show ?thesis using True assms(5) by (subst prev_loop.simps) (simp add: clamp_column_def)
next
  case False
  then have "prev_loop ts x = (x - 1) div w * w" using prev_loop_multiple [OF assms(1,2)] assms(3,4) by auto
  moreover have "0 \<le> (x - 1) div w * w" using False assms(1,3) by (simp add: pos_imp_zdiv_nonneg_iff)
  moreover have "(x - 1) div w * w \<le> x - 1"
    using div_mult_mod_eq [of "x - 1" w] pos_mod_sign [OF assms(1), of "x - 1"] by linarith
  ultimately show ?thesis using assms(4) by (simp add: clamp_column_def)
qed

subsection \<open>Properties\<close>

text \<open>
  C24. No sequence of cursor operations moves the cursor off the screen: it stays in the rows, and in the
  columns or at the place right of them where the next character wraps, and so do the saved position and
  the scroll region, provided that an absolute column is within the screen, \<open>hVPosition\<close> has two
  parameters and the top of a scroll region is not below its bottom.
\<close>

theorem cursor_stays_on_screen:
  assumes "cursor_ok c" and "list_all (keeps_cursor (cu_cols c) (cu_rows c)) ops"
  shows "\<exists>x. cu_x (fold cursor_step ops c) = Some x \<and> 0 \<le> x \<and> x \<le> cu_cols c \<and>
    0 \<le> cu_y (fold cursor_step ops c) \<and> cu_y (fold cursor_step ops c) < cu_rows c \<and> cursor_ok (fold cursor_step ops c)"
proof -
  have "cu_cols (fold cursor_step ops c) = cu_cols c" "cu_rows (fold cursor_step ops c) = cu_rows c"
    by (induction ops arbitrary: c) simp_all
  with cursor_ok_run [OF assms] show ?thesis by (auto simp: cursor_ok_def elim: column_ok_cases)
qed

definition home :: cursor where
  "home = \<lparr>cu_x = Some 0, cu_y = 0, cu_cols = 80, cu_rows = 24, scrollTop = 0, scrollBottom = 23, tabs = (\<lambda>_. False),
     tabStopWidth = 8, savedX = None, savedY = None, curAttrData = \<lparr>ad_fg = 0, ad_bg = 0\<rparr>,
     savedCurAttrData = \<lparr>ad_fg = 0, ad_bg = 0\<rparr>, reports = []\<rparr>"

theorem cursor_stays_on_screen_witness:
  "\<exists>x. cu_x (fold cursor_step [CursorDown [40], CursorForward [200], SaveCursor, CursorUp [0], RestoreCursor] home) = Some x
    \<and> 0 \<le> x \<and> x \<le> 80"
  using cursor_stays_on_screen [of home "[CursorDown [40], CursorForward [200], SaveCursor, CursorUp [0], RestoreCursor]"]
  by (auto simp: cursor_ok_def home_def)

text \<open>
  The exceptions are real. An absolute column beyond the width is taken as it is, a position with one
  parameter makes the column \<open>NaN\<close>, which the position report then prints, and the top of a scroll
  region can end up below its bottom and off the screen.
\<close>

theorem cursor_leaves_screen:
  "cu_x (cursorCharAbsolute [p + 1] c) = Some (int p)"
  "cu_x (hVPosition [p] c) = None"
  "reports (deviceStatus [6] [] (hVPosition [3] home)) = [[CHR 0x1B] @ ''[3;NaNR'']"
  "scrollTop (setScrollRegion [p + 1] [] c) = int p \<and> scrollBottom (setScrollRegion [p + 1] [] c) = cu_rows c - 1"
proof -
  show "reports (deviceStatus [6] [] (hVPosition [3] home)) = [[CHR 0x1B] @ ''[3;NaNR'']" by code_simp
qed (simp_all add: cursor_defs)

text \<open>
  C26. Setting up the tab stops ends and leaves them at the multiples of the tab width that are columns of the screen,
  and nowhere else; from every column, and from the place right of them, the tab then moves to the next multiple, or to
  the last column when there is none, and the backward tab to the multiple before, or stays in column 0.
\<close>

theorem tab_stops:
  assumes "0 < tabStopWidth c" and "cu_x c = Some x" and "0 \<le> x" and "x \<le> cu_cols c" and "0 < cu_cols c"
  shows "\<exists>c'. setupTabStops None c = Some c' \<and>
    (\<forall>k. tabs c' k \<longleftrightarrow> 0 \<le> k \<and> k < cu_cols c \<and> tabStopWidth c dvd k) \<and>
    cu_x (tab c') = Some (min ((x div tabStopWidth c + 1) * tabStopWidth c) (cu_cols c - 1)) \<and>
    cu_x (cursorBackwardTab [1] c') = Some (max 0 ((x - 1) div tabStopWidth c * tabStopWidth c))"
proof -
  let ?ts = "\<lambda>k. 0 \<le> k \<and> k < cu_cols c \<and> tabStopWidth c dvd k"
  have "setupTabStops None c = Some (c\<lparr>tabs := ?ts\<rparr>)"
    by (simp add: setupTabStops_def tab_loop_sets [OF assms(1)])
  then show ?thesis
    using assms next_loop_multiple [OF assms(1,3,4), of ?ts] prev_stop_multiple [OF assms(1) _ assms(3,4,5), of ?ts]
    by (simp add: tab_def nextStop_def cursorBackwardTab_def prevStop_def or_one_def)
qed

theorem tab_stops_witness:
  "\<exists>c'. setupTabStops None (home\<lparr>cu_x := Some 13\<rparr>) = Some c' \<and> cu_x (tab c') = Some 16 \<and> cu_x (cursorBackwardTab [1] c') = Some 8"
  using tab_stops [of "home\<lparr>cu_x := Some 13\<rparr>" 13] by (auto simp: home_def)

text \<open>
  The position report names the place that \<open>cursorPosition\<close>, called with its two numbers, goes back to: the row of the
  cursor, and its column, or the last column when the cursor was right of it.
\<close>

lemma report_goes_back:
  assumes "cu_x c = Some x" and "0 \<le> x" and "0 \<le> cu_y c" and "cu_y c < cu_rows c"
    and "cu_cols c' = cu_cols c" and "cu_rows c' = cu_rows c"
  shows "\<exists>row col. reports (deviceStatus [6] [] c) = reports c @ [[CHR 0x1B] @ ''['' @ nat_str row @ '';'' @ nat_str col @ ''R'']
    \<and> cu_x (cursorPosition [row, col] c') = Some (min x (cu_cols c - 1)) \<and> cu_y (cursorPosition [row, col] c') = cu_y c"
proof (intro exI conjI)
  show "reports (deviceStatus [6] [] c) =
      reports c @ [[CHR 0x1B] @ ''['' @ nat_str (nat (cu_y c + 1)) @ '';'' @ nat_str (nat (x + 1)) @ ''R'']"
    using assms(1-3) by (simp add: deviceStatus_def report_def num_str_def Let_def)
  show "cu_x (cursorPosition [nat (cu_y c + 1), nat (x + 1)] c') = Some (min x (cu_cols c - 1))"
    "cu_y (cursorPosition [nat (cu_y c + 1), nat (x + 1)] c') = cu_y c"
    using assms by (auto simp: cursorPosition_def param_def Let_def)
qed

end
