(* ===== verification/CharAttributes.thy ===== *)
theory CharAttributes
  imports Cursor
begin

text \<open>
  Graphic rendition (\<open>charAttributes\<close> of \<open>InputHandler\<close> in \<open>xterm.js\<close>): the parameters of the sequence
  are read left to right and change the two attribute words of the terminal. A parameter that is not
  there is \<open>undefined\<close>, different from every number compared with it and 0 under a bitwise operator.
  The report of an unknown parameter, written to the console in debug mode only, is left out.
\<close>

subsection \<open>The attribute words\<close>

definition DEFAULT_ATTR_DATA :: attribute_data where
  "DEFAULT_ATTR_DATA = \<lparr>ad_fg = 0, ad_bg = 0\<rparr>"

definition param_at :: "nat list \<Rightarrow> nat \<Rightarrow> u32" where
  "param_at params i = (if i < length params then of_nat (params ! i) else 0)"

definition param_is :: "nat list \<Rightarrow> nat \<Rightarrow> nat \<Rightarrow> bool" where
  "param_is params i n = (i < length params \<and> params ! i = n)"

text \<open>\<open>w &= ~m; w |= v\<close>\<close>

definition put :: "u32 \<Rightarrow> u32 \<Rightarrow> u32 \<Rightarrow> u32" where
  "put m v w = (w AND NOT m) OR v"

text \<open>The extended colours after 38 and 48, for one word; the result says how far the index moves.\<close>

definition extended_color :: "nat list \<Rightarrow> nat \<Rightarrow> u32 \<Rightarrow> u32 \<times> nat" where
  "extended_color params i w =
     (if param_is params (i + 1) 2 then
        (((w OR 50331648) AND NOT 16777215) OR
           fromColorRGB (param_at params (i + 2), param_at params (i + 2 + 1), param_at params (i + 2 + 2)), 4)
      else if param_is params (i + 1) 5 then (put (50331648 OR 255) (33554432 OR (param_at params (i + 2) AND 255)) w, 2)
      else (w, 0))"

definition sgr_one :: "nat list \<Rightarrow> nat \<Rightarrow> attribute_data \<Rightarrow> attribute_data \<times> nat" where
  "sgr_one params i attr =
     (let p = params ! i
      in if p \<ge> 30 \<and> p \<le> 37 then (attr\<lparr>ad_fg := put (50331648 OR 255) (16777216 OR of_nat (p - 30)) (ad_fg attr)\<rparr>, 0)
      else if p \<ge> 40 \<and> p \<le> 47 then (attr\<lparr>ad_bg := put (50331648 OR 255) (16777216 OR of_nat (p - 40)) (ad_bg attr)\<rparr>, 0)
      else if p \<ge> 90 \<and> p \<le> 97 then (attr\<lparr>ad_fg := put (50331648 OR 255) ((16777216 OR of_nat (p - 90)) OR 8) (ad_fg attr)\<rparr>, 0)
      else if p \<ge> 100 \<and> p \<le> 107 then (attr\<lparr>ad_bg := put (50331648 OR 255) ((16777216 OR of_nat (p - 100)) OR 8) (ad_bg attr)\<rparr>, 0)
      else if p = 0 then (attr\<lparr>ad_fg := ad_fg DEFAULT_ATTR_DATA, ad_bg := ad_bg DEFAULT_ATTR_DATA\<rparr>, 0)
      else if p = 1 then (attr\<lparr>ad_fg := ad_fg attr OR 134217728\<rparr>, 0)
      else if p = 3 then (attr\<lparr>ad_bg := ad_bg attr OR 67108864\<rparr>, 0)
      else if p = 4 then (attr\<lparr>ad_fg := ad_fg attr OR 268435456\<rparr>, 0)
      else if p = 5 then (attr\<lparr>ad_fg := ad_fg attr OR 536870912\<rparr>, 0)
      else if p = 7 then (attr\<lparr>ad_fg := ad_fg attr OR 67108864\<rparr>, 0)
      else if p = 8 then (attr\<lparr>ad_fg := ad_fg attr OR 1073741824\<rparr>, 0)
      else if p = 2 then (attr\<lparr>ad_bg := ad_bg attr OR 134217728\<rparr>, 0)
      else if p = 22 then (attr\<lparr>ad_fg := ad_fg attr AND NOT 134217728, ad_bg := ad_bg attr AND NOT 134217728\<rparr>, 0)
      else if p = 23 then (attr\<lparr>ad_bg := ad_bg attr AND NOT 67108864\<rparr>, 0)
      else if p = 24 then (attr\<lparr>ad_fg := ad_fg attr AND NOT 268435456\<rparr>, 0)
      else if p = 25 then (attr\<lparr>ad_fg := ad_fg attr AND NOT 536870912\<rparr>, 0)
      else if p = 27 then (attr\<lparr>ad_fg := ad_fg attr AND NOT 67108864\<rparr>, 0)
      else if p = 28 then (attr\<lparr>ad_fg := ad_fg attr AND NOT 1073741824\<rparr>, 0)
      else if p = 39 then
        (attr\<lparr>ad_fg := put (50331648 OR 16777215) (ad_fg DEFAULT_ATTR_DATA AND (255 OR 16777215)) (ad_fg attr)\<rparr>, 0)
      else if p = 49 then
        (attr\<lparr>ad_bg := put (50331648 OR 16777215) (ad_bg DEFAULT_ATTR_DATA AND (255 OR 16777215)) (ad_bg attr)\<rparr>, 0)
      else if p = 38 then (let (w, skip) = extended_color params i (ad_fg attr) in (attr\<lparr>ad_fg := w\<rparr>, skip))
      else if p = 48 then (let (w, skip) = extended_color params i (ad_bg attr) in (attr\<lparr>ad_bg := w\<rparr>, skip))
      else if p = 100 then
        (attr\<lparr>ad_fg := put (50331648 OR 16777215) (ad_fg DEFAULT_ATTR_DATA AND (255 OR 16777215)) (ad_fg attr),
              ad_bg := put (50331648 OR 16777215) (ad_bg DEFAULT_ATTR_DATA AND (255 OR 16777215)) (ad_bg attr)\<rparr>, 0)
      else (attr, 0))"

function sgr_loop :: "nat list \<Rightarrow> nat \<Rightarrow> attribute_data \<Rightarrow> attribute_data" where
  "sgr_loop params i attr =
     (if i < length params
      then let (attr', skip) = sgr_one params i attr in sgr_loop params (i + skip + 1) attr'
      else attr)"
  by pat_completeness auto
termination by (relation "measure (\<lambda>(params, i, attr). length params - i)") auto

declare sgr_loop.simps [simp del]

definition sgr :: "nat list \<Rightarrow> attribute_data \<Rightarrow> attribute_data" where
  "sgr params attr =
     (if length params = 1 \<and> params ! 0 = 0
      then attr\<lparr>ad_fg := ad_fg DEFAULT_ATTR_DATA, ad_bg := ad_bg DEFAULT_ATTR_DATA\<rparr>
      else sgr_loop params 0 attr)"

definition charAttributes :: "nat list \<Rightarrow> 'a cursor_scheme \<Rightarrow> 'a cursor_scheme" where
  "charAttributes params c = c\<lparr>curAttrData := sgr params (curAttrData c)\<rparr>"

text \<open>The attributes of erased cells: the background of the current ones, on what was there before.\<close>

definition eraseAttrData :: "attribute_data \<Rightarrow> attribute_data \<Rightarrow> attribute_data" where
  "eraseAttrData erase attr = erase\<lparr>ad_bg := put (50331648 OR 16777215) (ad_bg attr AND NOT 4227858432) (ad_bg erase)\<rparr>"

subsection \<open>The style a pair of words stands for\<close>

datatype colour = DefaultColour | Palette16 nat | Palette256 nat | RGB "u32 \<times> u32 \<times> u32"

record style =
  bold :: bool
  dim :: bool
  italic :: bool
  underline :: bool
  blink :: bool
  inverse :: bool
  invisible :: bool
  foreground :: colour
  background :: colour

definition colour_of :: "u32 \<Rightarrow> colour" where
  "colour_of w =
     (if w AND 50331648 = 0 then DefaultColour
      else if w AND 50331648 = 16777216 then Palette16 (unat (w AND 255))
      else if w AND 50331648 = 33554432 then Palette256 (unat (w AND 255))
      else RGB (toColorRGB w))"

definition style_of :: "attribute_data \<Rightarrow> style" where
  "style_of a = \<lparr>bold = (isBold a \<noteq> 0), dim = (isDim a \<noteq> 0), italic = (isItalic a \<noteq> 0), underline = (isUnderline a \<noteq> 0),
     blink = (isBlink a \<noteq> 0), inverse = (isInverse a \<noteq> 0), invisible = (isInvisible a \<noteq> 0),
     foreground = colour_of (ad_fg a), background = colour_of (ad_bg a)\<rparr>"

definition plain :: style where
  "plain = \<lparr>bold = False, dim = False, italic = False, underline = False, blink = False, inverse = False,
     invisible = False, foreground = DefaultColour, background = DefaultColour\<rparr>"

text \<open>
  Rendition as the list of its parameters: every rule takes what it needs from the front. Bits that
  a component above 255 has beyond the byte are dropped.
\<close>

definition component :: "nat list \<Rightarrow> nat \<Rightarrow> nat" where
  "component ps k = (if k < length ps then ps ! k mod 256 else 0)"

fun extended :: "nat list \<Rightarrow> (colour \<times> nat) option" where
  "extended [] = None"
| "extended (m # ps) =
     (if m = 2 then Some (RGB (of_nat (component ps 0), of_nat (component ps 1), of_nat (component ps 2)), 4)
      else if m = 5 then Some (Palette256 (component ps 0), 2) else None)"

definition rendition :: "nat \<Rightarrow> style \<Rightarrow> style" where
  "rendition p s =
     (if p = 0 then plain
      else if p = 1 then s\<lparr>bold := True\<rparr> else if p = 2 then s\<lparr>dim := True\<rparr> else if p = 3 then s\<lparr>italic := True\<rparr>
      else if p = 4 then s\<lparr>underline := True\<rparr> else if p = 5 then s\<lparr>blink := True\<rparr>
      else if p = 7 then s\<lparr>inverse := True\<rparr> else if p = 8 then s\<lparr>invisible := True\<rparr>
      else if p = 22 then s\<lparr>bold := False, dim := False\<rparr> else if p = 23 then s\<lparr>italic := False\<rparr>
      else if p = 24 then s\<lparr>underline := False\<rparr> else if p = 25 then s\<lparr>blink := False\<rparr>
      else if p = 27 then s\<lparr>inverse := False\<rparr> else if p = 28 then s\<lparr>invisible := False\<rparr>
      else if p = 39 then s\<lparr>foreground := DefaultColour\<rparr> else if p = 49 then s\<lparr>background := DefaultColour\<rparr>
      else if 30 \<le> p \<and> p \<le> 37 then s\<lparr>foreground := Palette16 (p - 30)\<rparr>
      else if 40 \<le> p \<and> p \<le> 47 then s\<lparr>background := Palette16 (p - 40)\<rparr>
      else if 90 \<le> p \<and> p \<le> 97 then s\<lparr>foreground := Palette16 (p - 90 + 8)\<rparr>
      else if 100 \<le> p \<and> p \<le> 107 then s\<lparr>background := Palette16 (p - 100 + 8)\<rparr>
      else s)"

function renditions :: "nat list \<Rightarrow> style \<Rightarrow> style" where
  "renditions [] s = s"
| "renditions (p # ps) s =
     (if p = 38 \<or> p = 48 then
        (case extended ps of
           Some (col, n) \<Rightarrow> renditions (drop n ps) (if p = 38 then s\<lparr>foreground := col\<rparr> else s\<lparr>background := col\<rparr>)
         | None \<Rightarrow> renditions ps s)
      else renditions ps (rendition p s))"
  by pat_completeness auto
termination by (relation "measure (\<lambda>(ps, s). length ps)") auto

subsection \<open>The words render the style\<close>

lemma put_field: "put m v w AND k = (w AND (NOT m AND k)) OR (v AND k)"
  by (simp add: put_def bit.conj_disj_distrib2 and.assoc)

lemma or_field: "(w OR v) AND k = (w AND k) OR (v AND k)" for w :: u32
  by (simp add: bit.conj_disj_distrib2)

lemma and_not_field: "(w AND NOT m) AND k = w AND (NOT m AND k)" for w :: u32
  by (simp add: and.assoc)

lemma byte_bits: "w AND 255 = take_bit 8 w" for w :: u32
  by (simp add: take_bit_eq_mask mask_eq_exp_minus_1)

lemma rgb_bits: "w AND 16777215 = take_bit 24 w" for w :: u32
  by (simp add: take_bit_eq_mask mask_eq_exp_minus_1)

lemma low_byte: "n < 256 \<Longrightarrow> (of_nat n :: u32) AND 255 = of_nat n"
  by (simp add: byte_bits take_bit_of_nat take_bit_nat_eq_self)

lemma byte_param: "(of_nat n :: u32) AND 255 = of_nat (n mod 256)"
  by (simp add: byte_bits take_bit_of_nat take_bit_eq_mod [of 8 n])

lemma low_byte_high: "n < 256 \<Longrightarrow> 255 AND k = 0 \<Longrightarrow> (of_nat n :: u32) AND k = 0"
  using and.assoc [of "of_nat n :: u32" 255 k] by (simp add: low_byte)

lemma unat_byte: "n < 256 \<Longrightarrow> unat (of_nat n :: u32) = n"
  by (simp add: unat_of_nat)

lemma toColorRGB_low: "toColorRGB w = toColorRGB (w AND 16777215)"
  by (auto simp: toColorRGB_def byte_bits rgb_bits bit_simps intro!: bit_word_eqI)

lemma toColorRGB_fromColorRGB: "toColorRGB (fromColorRGB (r, g, b)) = (r AND 255, g AND 255, b AND 255)"
  by (auto simp: toColorRGB_def fromColorRGB_def byte_bits bit_simps intro!: bit_word_eqI)

lemma fromColorRGB_low: "fromColorRGB (r, g, b) AND 16777215 = fromColorRGB (r, g, b)"
  by (auto simp: fromColorRGB_def byte_bits rgb_bits bit_simps intro!: bit_word_eqI)

lemma fromColorRGB_high: "16777215 AND k = 0 \<Longrightarrow> fromColorRGB (r, g, b) AND k = 0"
  by (subst fromColorRGB_low [symmetric]) (simp add: and.assoc)

lemma or_absorb: "(w AND k) OR k = k" for w :: u32
  by (rule bit_word_eqI) (auto simp: bit_simps)

lemmas fields = put_field or_field and_not_field low_byte_high fromColorRGB_high

lemma colour_of_cong:
  assumes "w AND 50331648 = v AND 50331648" and "w AND 16777215 = v AND 16777215"
  shows "colour_of w = colour_of v"
proof -
  have "x AND 255 = (x AND 16777215) AND 255" for x :: u32 by (simp add: and.assoc)
  then have "w AND 255 = v AND 255" using assms(2) by metis
  moreover have "toColorRGB w = toColorRGB v" using assms toColorRGB_low [of w] toColorRGB_low [of v] by simp
  ultimately show ?thesis using assms by (simp add: colour_of_def)
qed

lemma colour_flag:
  assumes "f AND 50331648 = 0" and "f AND 16777215 = 0"
  shows "colour_of (w OR f) = colour_of w" and "colour_of (w AND NOT f) = colour_of w"
proof -
  have keep: "(w AND NOT f) AND k = w AND k" if "f AND k = 0" for k :: u32
  proof (rule bit_word_eqI)
    fix n
    have "bit (f AND k) n = bit (0::u32) n" using that by simp
    then show "bit ((w AND NOT f) AND k) n = bit (w AND k) n" by (auto simp: bit_simps dest: bit_imp_le_length)
  qed
  show "colour_of (w OR f) = colour_of w" using assms by (auto simp: or_field intro!: colour_of_cong)
  show "colour_of (w AND NOT f) = colour_of w" using assms by (auto simp: keep intro!: colour_of_cong)
qed

lemma colour_16: "n < 16 \<Longrightarrow> colour_of (put (50331648 OR 255) (16777216 OR of_nat n) w) = Palette16 n"
  by (simp add: colour_of_def fields low_byte unat_byte)

lemma bright: "n < 8 \<Longrightarrow> (of_nat n OR 8 :: u32) = of_nat (n + 8)"
  by (auto simp: less_Suc_eq numeral_eq_Suc)

lemma colour_bright:
  "n < 8 \<Longrightarrow> colour_of (put (50331648 OR 255) ((16777216 OR of_nat n) OR 8) w) = Palette16 (n + 8)"
  using colour_16 [of "n + 8" w] by (simp add: or.assoc bright del: of_nat_add)

lemma colour_256: "colour_of (put (50331648 OR 255) (33554432 OR (of_nat n AND 255)) w) = Palette256 (n mod 256)"
  by (simp add: byte_param colour_of_def fields low_byte unat_byte)

lemma colour_default: "colour_of (put (50331648 OR 16777215) 0 w) = DefaultColour"
  by (simp add: colour_of_def fields)

lemma colour_rgb:
  "colour_of (((w OR 50331648) AND NOT 16777215) OR fromColorRGB (r, g, b)) = RGB (r AND 255, g AND 255, b AND 255)"
proof -
  let ?w = "((w OR 50331648) AND NOT 16777215) OR fromColorRGB (r, g, b)"
  have w: "?w = put 16777215 (fromColorRGB (r, g, b)) (w OR 50331648)" by (simp only: put_def)
  have "?w AND 50331648 = 50331648" unfolding w by (simp add: fields or_absorb)
  moreover have "?w AND 16777215 = fromColorRGB (r, g, b)" unfolding w by (simp add: fields fromColorRGB_low)
  then have "toColorRGB ?w = (r AND 255, g AND 255, b AND 255)"
    by (subst toColorRGB_low) (simp add: toColorRGB_fromColorRGB)
  ultimately show ?thesis by (simp add: colour_of_def)
qed

lemma and_negative: "(w AND - numeral m) AND numeral k = w AND (- numeral m AND numeral k)" for w :: u32
  by (simp add: and.assoc)

lemmas cleared = colour_flag(2) [of 67108864, simplified] colour_flag(2) [of 134217728, simplified]
  colour_flag(2) [of 268435456, simplified] colour_flag(2) [of 536870912, simplified] colour_flag(2) [of 1073741824, simplified]

lemmas flag_defs = isBold_def isDim_def isItalic_def isUnderline_def isBlink_def isInverse_def isInvisible_def

lemmas colours = colour_16 [simplified] colour_bright [simplified] colour_256 [simplified] colour_default [simplified]
  colour_rgb [simplified]

lemma style_sgr_one:
  assumes "i < length params" and "params ! i \<noteq> 38" and "params ! i \<noteq> 48"
  shows "style_of (fst (sgr_one params i a)) = rendition (params ! i) (style_of a)" "snd (sgr_one params i a) = 0"
proof -
  let ?p = "params ! i"
  show "snd (sgr_one params i a) = 0" using assms by (simp add: sgr_one_def Let_def)
  consider (fg) "30 \<le> ?p \<and> ?p \<le> 37" | (bg) "40 \<le> ?p \<and> ?p \<le> 47" | (bfg) "90 \<le> ?p \<and> ?p \<le> 97"
    | (bbg) "100 \<le> ?p \<and> ?p \<le> 107"
    | (other) "\<not> (30 \<le> ?p \<and> ?p \<le> 37)" "\<not> (40 \<le> ?p \<and> ?p \<le> 47)" "\<not> (90 \<le> ?p \<and> ?p \<le> 97)" "\<not> (100 \<le> ?p \<and> ?p \<le> 107)"
    by blast
  then show "style_of (fst (sgr_one params i a)) = rendition ?p (style_of a)"
  proof cases
    case fg
    then obtain n where n: "?p = 30 + n" "n < 8" using le_Suc_ex by fastforce
    then show ?thesis
      by (simp add: sgr_one_def Let_def rendition_def style_of_def flag_defs colours fields)
  next
    case bg
    then obtain n where n: "?p = 40 + n" "n < 8" using le_Suc_ex by fastforce
    then show ?thesis
      by (simp add: sgr_one_def Let_def rendition_def style_of_def flag_defs colours fields)
  next
    case bfg
    then obtain n where n: "?p = 90 + n" "n < 8" using le_Suc_ex by fastforce
    then show ?thesis
      by (simp add: sgr_one_def Let_def rendition_def style_of_def flag_defs colours fields)
  next
    case bbg
    then obtain n where n: "?p = 100 + n" "n < 8" using le_Suc_ex by fastforce
    then show ?thesis
      by (simp add: sgr_one_def Let_def rendition_def style_of_def flag_defs colours fields)
  next
    case other
    show ?thesis
    proof (cases "?p \<in> {0, 1, 2, 3, 4, 5, 7, 8, 22, 23, 24, 25, 27, 28, 39, 49}")
      case True
      then show ?thesis
        by (elim insertE emptyE)
          (simp_all add: sgr_one_def Let_def rendition_def style_of_def DEFAULT_ATTR_DATA_def flag_defs fields or_absorb
            and_negative colour_flag(1) cleared colours plain_def, simp_all add: colour_of_def)
    next
      case False
      have "?p \<noteq> 100" using other by auto
      with False other assms(2,3) show ?thesis by (auto simp: sgr_one_def Let_def rendition_def)
    qed
  qed
qed

lemma component_param: "param_at params (i + k) AND 255 = of_nat (component (drop i params) k)"
  by (auto simp: param_at_def component_def byte_param)

lemma extended_color_style:
  assumes "extended_color params i w = (v, n)"
  shows "case extended (drop (i + 1) params) of
      None \<Rightarrow> v = w \<and> n = 0
    | Some (col, m) \<Rightarrow> colour_of v = col \<and> n = m"
proof (cases "drop (i + 1) params")
  case Nil
  then show ?thesis using assms by (auto simp: extended_color_def param_is_def)
next
  case (Cons m ps)
  then have m: "i + 1 < length params" "params ! (i + 1) = m" and ps: "ps = drop (i + 2) params"
    by (metis drop_eq_Nil leI list.distinct(1), metis nth_via_drop, metis add_2_eq_Suc' add.commute plus_1_eq_Suc drop_Suc drop_drop list.sel(3) tl_drop Suc_eq_plus1)
  have rgb: "param_at params (i + 2) AND 255 = of_nat (component ps 0)"
    "param_at params (i + 2 + 1) AND 255 = of_nat (component ps 1)"
    "param_at params (i + 2 + 2) AND 255 = of_nat (component ps 2)"
    using component_param [of params "i + 2" 0] component_param [of params "i + 2" 1] component_param [of params "i + 2" 2] ps
    by simp_all
  have pal: "colour_of (put (50331648 OR 255) (33554432 OR (param_at params (i + 2) AND 255)) w) = Palette256 (component ps 0)"
    using colour_256 [of "component ps 0" w] rgb(1) by (simp add: byte_param component_def)
  show ?thesis
    using assms Cons m rgb pal colour_rgb
    by (auto simp: extended_color_def param_is_def split: if_splits)
qed

lemma style_foreground:
  "(\<And>k. k \<in> {134217728, 268435456, 536870912, 67108864, 1073741824} \<Longrightarrow> v AND k = ad_fg a AND k) \<Longrightarrow>
   style_of (a\<lparr>ad_fg := v\<rparr>) = (style_of a)\<lparr>foreground := colour_of v\<rparr>"
  by (simp add: style_of_def flag_defs)

lemma style_background:
  "(\<And>k. k \<in> {134217728, 67108864} \<Longrightarrow> v AND k = ad_bg a AND k) \<Longrightarrow>
   style_of (a\<lparr>ad_bg := v\<rparr>) = (style_of a)\<lparr>background := colour_of v\<rparr>"
  by (simp add: style_of_def flag_defs)

lemma extended_color_flags:
  assumes "extended_color params i w = (v, n)" and "k \<in> {134217728, 268435456, 536870912, 67108864, 1073741824}"
  shows "v AND k = w AND k"
proof -
  have rgb: "((w OR 50331648) AND NOT 16777215) OR fromColorRGB t = put 16777215 (fromColorRGB t) (w OR 50331648)" for t
    by (simp only: put_def)
  have byte: "param_at params (i + 2) AND 255 = of_nat (component (drop (i + 2) params) 0)"
    using component_param [of params "i + 2" 0] by simp
  have small: "component (drop (i + 2) params) 0 < 256" by (simp add: component_def)
  have "v = w \<or> v = put 16777215 (fromColorRGB (param_at params (i + 2), param_at params (i + 2 + 1), param_at params (i + 2 + 2))) (w OR 50331648)
      \<or> v = put (50331648 OR 255) (33554432 OR of_nat (component (drop (i + 2) params) 0)) w"
    using assms(1) unfolding extended_color_def rgb byte by (auto split: if_splits)
  then show ?thesis using assms(2) small by (elim disjE) (auto simp: fields)
qed

lemma drop_Cons: "i < length ps \<Longrightarrow> drop i ps = ps ! i # drop (i + 1) ps"
  by (simp add: Cons_nth_drop_Suc)

lemma sgr_loop_renditions: "style_of (sgr_loop params i a) = renditions (drop i params) (style_of a)"
proof (induction params i a rule: sgr_loop.induct)
  case (1 params i a)
  show ?case
  proof (cases "i < length params")
    case False
    then show ?thesis by (simp add: sgr_loop.simps)
  next
    case True
    obtain a' skip where one: "sgr_one params i a = (a', skip)" by (cases "sgr_one params i a") auto
    with 1 True have ih: "style_of (sgr_loop params i a) = renditions (drop (i + skip + 1) params) (style_of a')"
      by (simp add: sgr_loop.simps [of params i a])
    let ?p = "params ! i"
    consider "?p \<noteq> 38" "?p \<noteq> 48" | (fg) "?p = 38" | (bg) "?p = 48" by blast
    then show ?thesis
    proof cases
      case 1
      then show ?thesis using style_sgr_one [OF True 1, of a] one ih by (simp add: drop_Cons [OF True])
    next
      case fg
      obtain v where v: "extended_color params i (ad_fg a) = (v, skip)" "a' = a\<lparr>ad_fg := v\<rparr>"
        using one fg by (auto simp: sgr_one_def split: prod.splits)
      have style: "style_of a' = (style_of a)\<lparr>foreground := colour_of v\<rparr>"
        unfolding v(2) by (rule style_foreground) (rule extended_color_flags [OF v(1)], auto)
      from extended_color_style [OF v(1)] show ?thesis
        using fg ih style
        by (auto simp: drop_Cons [OF True] v(2) add.commute add.left_commute split: option.splits)
    next
      case bg
      obtain v where v: "extended_color params i (ad_bg a) = (v, skip)" "a' = a\<lparr>ad_bg := v\<rparr>"
        using one bg by (auto simp: sgr_one_def split: prod.splits)
      have style: "style_of a' = (style_of a)\<lparr>background := colour_of v\<rparr>"
        unfolding v(2) by (rule style_background) (rule extended_color_flags [OF v(1)], auto)
      from extended_color_style [OF v(1)] show ?thesis
        using bg ih style
        by (auto simp: drop_Cons [OF True] v(2) add.commute add.left_commute split: option.splits)
    qed
  qed
qed

subsection \<open>Properties\<close>

text \<open>
  C25. The attribute words implement styles: what a rendition sequence does to the packed words, with its
  masks and its jumps over the parameters of extended colours, is what reading the same parameters from
  the left does to the seven flags and the two colours, and nothing else changes.
\<close>

theorem char_attributes_refine_style:
  "style_of (curAttrData (charAttributes params c)) = renditions params (style_of (curAttrData c)) \<and>
   charAttributes params c = c\<lparr>curAttrData := curAttrData (charAttributes params c)\<rparr>"
proof -
  have "style_of (sgr params a) = renditions params (style_of a)" for a
  proof (cases "length params = 1 \<and> params ! 0 = 0")
    case True
    then have "params = [0]" by (cases params) auto
    then show ?thesis
      by (simp add: sgr_def rendition_def style_of_def plain_def DEFAULT_ATTR_DATA_def flag_defs colour_of_def)
  next
    case False
    then show ?thesis using sgr_loop_renditions [of params 0 a] by (auto simp: sgr_def)
  qed
  then show ?thesis by (simp add: charAttributes_def)
qed

text \<open>
  The branch that is to reset both colours on 100 is never taken: the range of bright backgrounds
  before it holds 100.
\<close>

theorem sgr_100_is_bright_background:
  "style_of (curAttrData (charAttributes [100] c)) = (style_of (curAttrData c))\<lparr>background := Palette16 8\<rparr>"
  using sgr_loop_renditions [of "[100]" 0 "curAttrData c"] by (simp add: charAttributes_def sgr_def rendition_def)

text \<open>
  Erased cells take the background of the current attributes and none of their flags, whatever the
  attributes of erased cells were before, as long as these had no flags.
\<close>

theorem erase_attributes:
  assumes "style_of e = plain\<lparr>background := b\<rparr>"
  shows "style_of (eraseAttrData e a) = plain\<lparr>background := colour_of (ad_bg a)\<rparr>"
  proof -
  let ?w = "ad_bg (eraseAttrData e a)"
  have w: "?w AND k = (ad_bg e AND (NOT (50331648 OR 16777215) AND k)) OR (ad_bg a AND (NOT 4227858432 AND k))" for k
    by (simp add: eraseAttrData_def put_field and.assoc del: bit.compl_eq_compl_iff)
  have "?w AND 50331648 = ad_bg a AND 50331648" "?w AND 16777215 = ad_bg a AND 16777215" by (simp_all add: w)
  then have "colour_of ?w = colour_of (ad_bg a)" by (rule colour_of_cong)
  moreover have "?w AND 134217728 = ad_bg e AND 134217728" "?w AND 67108864 = ad_bg e AND 67108864" by (simp_all add: w)
  moreover have "ad_fg (eraseAttrData e a) = ad_fg e" by (simp add: eraseAttrData_def)
  ultimately show ?thesis using assms by (simp add: style_of_def plain_def flag_defs)
qed

theorem erase_attributes_witness:
  "style_of (eraseAttrData \<lparr>ad_fg = 0, ad_bg = 16777217\<rparr> \<lparr>ad_fg = 134217728, ad_bg = 67108864 OR 16777220\<rparr>) =
     plain\<lparr>background := Palette16 4\<rparr>"
  using erase_attributes [of "\<lparr>ad_fg = 0, ad_bg = 16777217\<rparr>" "Palette16 1" "\<lparr>ad_fg = 134217728, ad_bg = 67108864 OR 16777220\<rparr>"]
  by (simp add: style_of_def plain_def flag_defs colour_of_def)

end
