(* ===== verification/Screen.thy ===== *)
theory Screen
  imports CharAttributes CircularList CharWidth BufferLine_Text
begin

text \<open>
  The screen: the lines of the active buffer with the cursor on them, and the handlers that print,
  scroll and erase (\<open>Buffer\<close>, \<open>InputHandler\<close> and \<open>Terminal\<close> in \<open>xterm.js\<close>). The state extends the
  cursor's. \<open>lines\<close> is the ring of the ring buffer theory. A line is an object of its own: no two
  entries of the ring share one, so that a change through a reference is a change of the entry.
  Calling a method of a line that is not there throws. With the column \<open>NaN\<close> every loop over cells is
  empty and every store into one is ignored. Announcements for screen readers are left out, and so is
  redrawing, of which only the range of rows is kept.
\<close>

record screen = cursor +
  lines :: "buffer_line circular_list"
  ybase :: int
  ydisp :: int
  eraseAttr :: attribute_data
  blankLine :: "buffer_line option"
  userScrolling :: bool
  refreshStart :: int
  refreshEnd :: int
  charset :: "nat \<Rightarrow> nat option"
  insertMode :: bool
  wraparoundMode :: bool
  convertEol :: bool
  scrolled :: "int list"
  lineFeeds :: nat

subsection \<open>Cells, lines and the refresh range\<close>

definition getNullCell :: "attribute_data option \<Rightarrow> cell_data" where
  "getNullCell attr =
     (let nullCell = fromCharData \<lparr>ch_attr = 0, ch_char = [], ch_width = 1, ch_code = 0\<rparr>
      in case attr of Some a \<Rightarrow> nullCell\<lparr>cd_fg := ad_fg a, cd_bg := ad_bg a\<rparr>
         | None \<Rightarrow> nullCell\<lparr>cd_fg := 0, cd_bg := 0\<rparr>)"

definition getBlankLine :: "int \<Rightarrow> attribute_data \<Rightarrow> bool \<Rightarrow> buffer_line" where
  "getBlankLine cols attr isWrapped = new_line (nat cols) (Some (getNullCell (Some attr))) isWrapped"

text \<open>\<open>eraseAttrData()\<close> changes the object it returns.\<close>

definition take_eraseAttr :: "screen \<Rightarrow> screen" where
  "take_eraseAttr s = s\<lparr>eraseAttr := eraseAttrData (eraseAttr s) (curAttrData s)\<rparr>"

definition updateRange :: "int \<Rightarrow> screen \<Rightarrow> screen" where
  "updateRange y s =
     (let s1 = (if y < refreshStart s then s\<lparr>refreshStart := y\<rparr> else s)
      in if y > refreshEnd s1 then s1\<lparr>refreshEnd := y\<rparr> else s1)"

definition maxRange :: "screen \<Rightarrow> screen" where
  "maxRange s = s\<lparr>refreshStart := 0, refreshEnd := cu_rows s - 1\<rparr>"

text \<open>A method call on the line with an index of the ring.\<close>

definition on_line :: "int \<Rightarrow> (buffer_line \<Rightarrow> buffer_line) \<Rightarrow> screen \<Rightarrow> screen outcome" where
  "on_line k f s =
     (case cl_get (lines s) k of
        None \<Rightarrow> Throw TypeError s
      | Some l \<Rightarrow> Done (s\<lparr>lines := cl_set (lines s) k (Some (f l))\<rparr>))"

abbreviation row :: "screen \<Rightarrow> int" where
  "row s \<equiv> cu_y s + ybase s"

text \<open>\<open>replaceCells\<close> from and to a column that may be \<open>NaN\<close>.\<close>

definition replace_span :: "int option \<Rightarrow> int option \<Rightarrow> cell_data \<Rightarrow> buffer_line \<Rightarrow> buffer_line" where
  "replace_span start stop cell l =
     (case (start, stop) of (Some a, Some b) \<Rightarrow> replaceCells l a b cell | _ \<Rightarrow> l)"

definition at_column :: "int option \<Rightarrow> (int \<Rightarrow> buffer_line \<Rightarrow> buffer_line) \<Rightarrow> buffer_line \<Rightarrow> buffer_line" where
  "at_column x f l = (case x of None \<Rightarrow> l | Some k \<Rightarrow> f k l)"

subsection \<open>Scrolling\<close>

text \<open>The line that scrolls in: a cached one when it still fits.\<close>

definition scroll_line :: "bool \<Rightarrow> screen \<Rightarrow> screen" where
  "scroll_line isWrapped s =
     (let fresh = getBlankLine (cu_cols s) (eraseAttr s) isWrapped;
          newLine = (case blankLine s of None \<Rightarrow> fresh
             | Some l \<Rightarrow> if bl_length l \<noteq> cu_cols s \<or> getFg l 0 \<noteq> ad_fg (eraseAttr s) \<or> getBg l 0 \<noteq> ad_bg (eraseAttr s)
                         then fresh else l)
      in s\<lparr>blankLine := Some (newLine\<lparr>bl_isWrapped := isWrapped\<rparr>)\<rparr>)"

definition scroll_append :: "buffer_line \<Rightarrow> screen \<Rightarrow> screen outcome" where
  "scroll_append newLine s =
     (let bottomRow = ybase s + scrollBottom s
      in if bottomRow = cl_length (lines s) - 1 then
           (if cl_isFull (lines s) then
              (case cl_recycle (lines s) of
                 Inl e \<Rightarrow> Throw PlainError s
               | Inr (c, trims, l) \<Rightarrow>
                   (case l of None \<Rightarrow> Throw TypeError (s\<lparr>lines := c\<rparr>)
                    | Some l \<Rightarrow> Done (s\<lparr>lines := cl_set c (cl_length c - 1) (Some (copyFrom l newLine))\<rparr>)))
            else Done (s\<lparr>lines := fst (cl_push (lines s) (Some (line_clone newLine)))\<rparr>))
         else Done (s\<lparr>lines := fst (cl_splice (lines s) (bottomRow + 1) 0 [Some (line_clone newLine)])\<rparr>))"

definition scroll_counters :: "bool \<Rightarrow> screen \<Rightarrow> screen" where
  "scroll_counters willBufferBeTrimmed s =
     (if \<not> willBufferBeTrimmed then
        (let s1 = s\<lparr>ybase := ybase s + 1\<rparr> in if \<not> userScrolling s1 then s1\<lparr>ydisp := ydisp s1 + 1\<rparr> else s1)
      else if userScrolling s then s\<lparr>ydisp := max (ydisp s - 1) 0\<rparr> else s)"

definition scroll_region :: "buffer_line \<Rightarrow> screen \<Rightarrow> screen outcome" where
  "scroll_region newLine s =
     (let topRow = ybase s + scrollTop s; bottomRow = ybase s + scrollBottom s;
          scrollRegionHeight = bottomRow - topRow + 1
      in case cl_shiftElements (lines s) (topRow + 1) (scrollRegionHeight - 1) (-1) of
           Inl e \<Rightarrow> Throw PlainError s
         | Inr (c, trims) \<Rightarrow> Done (s\<lparr>lines := cl_set c bottomRow (Some (line_clone newLine))\<rparr>))"

definition scroll :: "bool \<Rightarrow> screen \<Rightarrow> screen outcome" where
  "scroll isWrapped s =
     (let s1 = scroll_line isWrapped (take_eraseAttr s);
          newLine = the (blankLine s1);
          moved = (if scrollTop s1 = 0
                   then and_then (scroll_append newLine s1) (\<lambda>s2. Done (scroll_counters (cl_isFull (lines s1)) s2))
                   else scroll_region newLine s1)
      in and_then moved (\<lambda>s2.
           let s3 = (if \<not> userScrolling s2 then s2\<lparr>ydisp := ybase s2\<rparr> else s2);
               s4 = updateRange (scrollBottom s3) (updateRange (scrollTop s3) s3)
           in Done (s4\<lparr>scrolled := scrolled s4 @ [ydisp s4]\<rparr>)))"

text \<open>Scrolling the view by the user.\<close>

definition scrollLines :: "int \<Rightarrow> bool \<Rightarrow> screen \<Rightarrow> screen" where
  "scrollLines disp suppressScrollEvent s =
     (if disp < 0 \<and> ydisp s = 0 then s
      else
        (let s1 = (if disp < 0 then s\<lparr>userScrolling := True\<rparr>
                   else if disp + ydisp s \<ge> ybase s then s\<lparr>userScrolling := False\<rparr> else s);
             s2 = s1\<lparr>ydisp := max (min (ydisp s1 + disp) (ybase s1)) 0\<rparr>
         in if ydisp s1 = ydisp s2 \<or> suppressScrollEvent then s2
            else s2\<lparr>scrolled := scrolled s2 @ [ydisp s2]\<rparr>))"

definition scrollPages :: "int \<Rightarrow> screen \<Rightarrow> screen" where
  "scrollPages pageCount s = scrollLines (pageCount * (cu_rows s - 1)) False s"

definition scrollToTop :: "screen \<Rightarrow> screen" where
  "scrollToTop s = scrollLines (- ydisp s) False s"

definition scrollToBottom :: "screen \<Rightarrow> screen" where
  "scrollToBottom s = scrollLines (ybase s - ydisp s) False s"

definition scrollToLine :: "int \<Rightarrow> screen \<Rightarrow> screen" where
  "scrollToLine line s =
     (let scrollAmount = line - ydisp s in if scrollAmount \<noteq> 0 then scrollLines scrollAmount False s else s)"

subsection \<open>Line feeds\<close>

definition step_inside :: "screen \<Rightarrow> screen" where
  "step_inside s = s\<lparr>cu_x := step_back s (cu_x s)\<rparr>"

definition index :: "screen \<Rightarrow> screen outcome" where
  "index s =
     (let s1 = s\<lparr>cu_y := cu_y s + 1\<rparr>
      in and_then (if cu_y s1 > scrollBottom s1 then scroll False (s1\<lparr>cu_y := cu_y s1 - 1\<rparr>) else Done s1)
           (\<lambda>s2. Done (step_inside s2)))"

definition lineFeed :: "screen \<Rightarrow> screen outcome" where
  "lineFeed s =
     (let s0 = (if convertEol s then s\<lparr>cu_x := Some 0\<rparr> else s);
          s1 = s0\<lparr>cu_y := cu_y s0 + 1\<rparr>
      in and_then (if cu_y s1 > scrollBottom s1 then scroll False (s1\<lparr>cu_y := cu_y s1 - 1\<rparr>) else Done s1)
           (\<lambda>s2. let s3 = step_inside s2 in Done (s3\<lparr>lineFeeds := lineFeeds s3 + 1\<rparr>)))"

definition nextLine :: "screen \<Rightarrow> screen outcome" where
  "nextLine s = index (s\<lparr>cu_x := Some 0\<rparr>)"

definition reverseIndex :: "screen \<Rightarrow> screen outcome" where
  "reverseIndex s =
     (if cu_y s = scrollTop s then
        (case cl_shiftElements (lines s) (row s) (scrollBottom s - scrollTop s) 1 of
           Inl e \<Rightarrow> Throw PlainError s
         | Inr (c, trims) \<Rightarrow>
             (let s1 = take_eraseAttr (s\<lparr>lines := c\<rparr>);
                  s2 = s1\<lparr>lines := cl_set (lines s1) (row s1) (Some (getBlankLine (cu_cols s1) (eraseAttr s1) False))\<rparr>
              in Done (updateRange (scrollBottom s2) (updateRange (scrollTop s2) s2))))
      else Done (s\<lparr>cu_y := cu_y s - 1\<rparr>))"

subsection \<open>Printing\<close>

text \<open>Wrapping marks the line it moves on to, with the row of the screen as its index in the ring.\<close>

definition wrap :: "screen \<Rightarrow> screen outcome" where
  "wrap s =
     (let s1 = s\<lparr>cu_x := Some 0, cu_y := cu_y s + 1\<rparr>
      in if cu_y s1 > scrollBottom s1 then scroll True (s1\<lparr>cu_y := cu_y s1 - 1\<rparr>)
         else on_line (cu_y s1) (\<lambda>l. l\<lparr>bl_isWrapped := True\<rparr>) s1)"

definition insert_gap :: "nat \<Rightarrow> screen \<Rightarrow> screen outcome" where
  "insert_gap chWidth s =
     (let a = curAttrData s
      in on_line (row s) (\<lambda>l.
           let l1 = at_column (cu_x s) (\<lambda>x l. insertCells l x (int chWidth) (getNullCell (Some a))) l
           in if line_getWidth l1 (cu_cols s - 1) = 2
              then setCellFromCodePoint l1 (cu_cols s - 1) 0 1 (ad_fg a) (ad_bg a) else l1) s)"

definition put_char :: "nat \<Rightarrow> nat \<Rightarrow> screen \<Rightarrow> screen outcome" where
  "put_char code chWidth s =
     (let a = curAttrData s;
          l_put = at_column (cu_x s) (\<lambda>x l.
            for_up 1 (int chWidth) (\<lambda>i l. setCellFromCodePoint l (x + i) 0 0 (ad_fg a) (ad_bg a))
              (setCellFromCodePoint l x code (of_nat chWidth) (ad_fg a) (ad_bg a)))
      in and_then (on_line (row s) l_put s)
           (\<lambda>s1. Done (s1\<lparr>cu_x := map_option (\<lambda>x. x + int (max 1 chWidth)) (cu_x s1)\<rparr>)))"

definition add_mark :: "nat \<Rightarrow> int \<Rightarrow> screen \<Rightarrow> screen outcome" where
  "add_mark code x s =
     on_line (row s) (\<lambda>l. addCodepointToCell l (if line_getWidth l (x - 1) = 0 then x - 2 else x - 1) code) s"

definition map_charset :: "screen \<Rightarrow> nat \<Rightarrow> nat" where
  "map_charset s code = (if code < 127 then (case charset s code of None \<Rightarrow> code | Some ch \<Rightarrow> ch) else code)"

definition print_one :: "nat \<Rightarrow> screen \<Rightarrow> screen outcome" where
  "print_one c s =
     (let chWidth = wcwidth c; code = map_charset s c;
          overflow = (case cu_x s of None \<Rightarrow> False | Some x \<Rightarrow> x + int chWidth - 1 \<ge> cu_cols s)
      in case cu_x s of
           Some x \<Rightarrow>
             (if chWidth = 0 \<and> x \<noteq> 0 then add_mark code x s
              else if overflow \<and> \<not> wraparoundMode s \<and> chWidth = 2 then Done s
              else and_then (if overflow \<and> wraparoundMode s then wrap s else Done s) (\<lambda>s1.
                   and_then (if insertMode s1 then insert_gap chWidth s1 else Done s1) (put_char code chWidth)))
         | None \<Rightarrow> and_then (if insertMode s then insert_gap chWidth s else Done s) (put_char code chWidth))"

definition print :: "nat list \<Rightarrow> screen \<Rightarrow> screen outcome" where
  "print data s =
     and_then (each print_one data (updateRange (cu_y s) s)) (\<lambda>s1. Done (updateRange (cu_y s1) s1))"

subsection \<open>Editing and erasing\<close>

definition insertChars :: "nat list \<Rightarrow> screen \<Rightarrow> screen outcome" where
  "insertChars params s =
     (let s1 = take_eraseAttr s
      in and_then (on_line (row s1) (at_column (cu_x s1)
             (\<lambda>x l. insertCells l x (int (or_one params)) (getNullCell (Some (eraseAttr s1))))) s1)
           (\<lambda>s2. Done (updateRange (cu_y s2) s2)))"

definition deleteChars :: "nat list \<Rightarrow> screen \<Rightarrow> screen outcome" where
  "deleteChars params s =
     (let s1 = take_eraseAttr s
      in and_then (on_line (row s1) (at_column (cu_x s1)
             (\<lambda>x l. deleteCells l x (int (or_one params)) (getNullCell (Some (eraseAttr s1))))) s1)
           (\<lambda>s2. Done (updateRange (cu_y s2) s2)))"

definition eraseChars :: "nat list \<Rightarrow> screen \<Rightarrow> screen outcome" where
  "eraseChars params s =
     (let s1 = take_eraseAttr s
      in on_line (row s1) (replace_span (cu_x s1) (map_option (\<lambda>x. x + int (or_one params)) (cu_x s1))
           (getNullCell (Some (eraseAttr s1)))) s1)"

text \<open>The work cell has no content when the column before the cursor is not in the array of the line.\<close>

definition repeatPrecedingCharacter :: "nat list \<Rightarrow> screen \<Rightarrow> screen outcome" where
  "repeatPrecedingCharacter params s =
     on_line (row s) (\<lambda>l. at_column (cu_x s) (\<lambda>x l.
       replaceCells l x (x + int (or_one params))
         (if 0 \<le> (x - 1) * 3 \<and> (x - 1) * 3 < int (length (bl_data l)) then loadCell l (x - 1) new_cell
          else getNullCell (Some DEFAULT_ATTR_DATA))) l) s"

definition eraseInBufferLine :: "int \<Rightarrow> int option \<Rightarrow> int option \<Rightarrow> bool \<Rightarrow> screen \<Rightarrow> screen outcome" where
  "eraseInBufferLine y start stop clearWrap s =
     (let s1 = take_eraseAttr s;
          cell = getNullCell (Some (eraseAttr s1))
      in on_line (ybase s1 + y) (\<lambda>l.
           let l1 = replace_span start stop cell l in if clearWrap then l1\<lparr>bl_isWrapped := False\<rparr> else l1) s1)"

definition resetBufferLine :: "int \<Rightarrow> screen \<Rightarrow> screen outcome" where
  "resetBufferLine y s = eraseInBufferLine y (Some 0) (Some (cu_cols s)) True s"

text \<open>
  Counting down from a negative row does not stop at 0: it erases the rows of the history above, and throws when it asks
  the ring for a place before its array. Of two such places that follow each other at least one is not taken for
  place 0 by the remainder, when the ring has more than one place.
\<close>

definition reset_down :: "int \<Rightarrow> screen \<Rightarrow> screen outcome" where
  "reset_down j s = (if j < 0
      then and_then (each resetBufferLine (rev [min (j - 1) (- cl_startIndex (lines s) - ybase s - 1) - 1..j - 1]) s) (Throw TypeError)
      else each resetBufferLine (rev [0..j - 1]) s)"

definition eraseInDisplay :: "nat list \<Rightarrow> screen \<Rightarrow> screen outcome" where
  "eraseInDisplay params s =
     (if hd params = 0 then
        and_then (eraseInBufferLine (cu_y s) (cu_x s) (Some (cu_cols s)) (cu_x s = Some 0) (updateRange (cu_y s) s)) (\<lambda>s1.
        and_then (each resetBufferLine [cu_y s1 + 1..cu_rows s1 - 1] s1) (\<lambda>s2.
          Done (updateRange (max (cu_y s2 + 1) (cu_rows s2)) s2)))
      else if hd params = 1 then
        and_then (eraseInBufferLine (cu_y s) (Some 0) (map_option (\<lambda>x. x + 1) (cu_x s)) True (updateRange (cu_y s) s)) (\<lambda>s1.
        and_then (case cu_x s1 of None \<Rightarrow> Done s1
            | Some x \<Rightarrow> if x + 1 \<ge> cu_cols s1 then on_line (cu_y s1 + 1) (\<lambda>l. l\<lparr>bl_isWrapped := False\<rparr>) s1 else Done s1) (\<lambda>s2.
        and_then (reset_down (cu_y s2) s2) (\<lambda>s3. Done (updateRange 0 s3))))
      else if hd params = 2 then
        and_then (reset_down (cu_rows s) (updateRange (cu_rows s - 1) s)) (\<lambda>s1. Done (updateRange 0 s1))
      else if hd params = 3 then
        (let scrollBackSize = cl_length (lines s) - cu_rows s
         in if scrollBackSize > 0 then
              Done (s\<lparr>lines := fst (cl_trimStart (lines s) scrollBackSize), ybase := max (ybase s - scrollBackSize) 0,
                      ydisp := max (ydisp s - scrollBackSize) 0, scrolled := scrolled s @ [0]\<rparr>)
            else Done s)
      else Done s)"

definition eraseInLine :: "nat list \<Rightarrow> screen \<Rightarrow> screen outcome" where
  "eraseInLine params s =
     and_then
       (if hd params = 0 then eraseInBufferLine (cu_y s) (cu_x s) (Some (cu_cols s)) False s
        else if hd params = 1 then eraseInBufferLine (cu_y s) (Some 0) (map_option (\<lambda>x. x + 1) (cu_x s)) False s
        else if hd params = 2 then eraseInBufferLine (cu_y s) (Some 0) (Some (cu_cols s)) False s
        else Done s)
       (\<lambda>s1. Done (updateRange (cu_y s1) s1))"

subsection \<open>Inserting and deleting lines\<close>

text \<open>One line out of the ring at an index, a blank one in at another.\<close>

definition swap_line :: "int \<Rightarrow> int \<Rightarrow> attribute_data \<Rightarrow> screen \<Rightarrow> screen" where
  "swap_line out into attr s =
     (let c1 = fst (cl_splice (lines s) out 1 []);
          c2 = fst (cl_splice c1 into 0 [Some (getBlankLine (cu_cols s) attr False)])
      in s\<lparr>lines := c2\<rparr>)"

definition insertLines :: "nat list \<Rightarrow> screen \<Rightarrow> screen" where
  "insertLines params s =
     (let scrollBottomRowsOffset = cu_rows s - 1 - scrollBottom s;
          scrollBottomAbsolute = cu_rows s - 1 + ybase s - scrollBottomRowsOffset + 1;
          s1 = ((\<lambda>s. let s' = take_eraseAttr s in swap_line (scrollBottomAbsolute - 1) (row s) (eraseAttr s') s')
                 ^^ nat (at_least_one params)) s
      in updateRange (scrollBottom s1) (updateRange (cu_y s1) s1))"

definition deleteLines :: "nat list \<Rightarrow> screen \<Rightarrow> screen" where
  "deleteLines params s =
     (let j = cu_rows s - 1 + ybase s - (cu_rows s - 1 - scrollBottom s);
          s1 = ((\<lambda>s. let s' = take_eraseAttr s in swap_line (row s) j (eraseAttr s') s') ^^ nat (at_least_one params)) s
      in updateRange (scrollBottom s1) (updateRange (cu_y s1) s1))"

definition scrollUp :: "nat list \<Rightarrow> screen \<Rightarrow> screen" where
  "scrollUp params s =
     (let s1 = ((\<lambda>s. swap_line (ybase s + scrollTop s) (ybase s + scrollBottom s) DEFAULT_ATTR_DATA s) ^^ or_one params) s
      in updateRange (scrollBottom s1) (updateRange (scrollTop s1) s1))"

definition scrollDown :: "nat list \<Rightarrow> string \<Rightarrow> screen \<Rightarrow> screen" where
  "scrollDown params collect s =
     (if length params < 2 \<and> collect = [] then
        (let s1 = ((\<lambda>s. swap_line (ybase s + scrollBottom s) (ybase s + scrollTop s) DEFAULT_ATTR_DATA s) ^^ or_one params) s
         in updateRange (scrollBottom s1) (updateRange (scrollTop s1) s1))
      else s)"

subsection \<open>The whole buffer\<close>

definition MAX_BUFFER_SIZE :: int where "MAX_BUFFER_SIZE = 4294967295"

definition getCorrectBufferLength :: "bool \<Rightarrow> int \<Rightarrow> int \<Rightarrow> int" where
  "getCorrectBufferLength hasScrollback scrollback rows =
     (if \<not> hasScrollback then rows
      else let correctBufferLength = rows + scrollback
           in if correctBufferLength > MAX_BUFFER_SIZE then MAX_BUFFER_SIZE else correctBufferLength)"

definition fillViewportRows :: "attribute_data option \<Rightarrow> screen \<Rightarrow> screen" where
  "fillViewportRows fillAttr s =
     (if cl_length (lines s) = 0 then
        (let attr = (case fillAttr of None \<Rightarrow> DEFAULT_ATTR_DATA | Some a \<Rightarrow> a)
         in for_down (cu_rows s - 1) 0 (\<lambda>i s.
              s\<lparr>lines := fst (cl_push (lines s) (Some (getBlankLine (cu_cols s) attr False)))\<rparr>) s)
      else s)"

text \<open>\<open>Buffer.clear\<close>; setting up the tab stops ends only for a positive tab width.\<close>

definition buffer_clear :: "bool \<Rightarrow> int \<Rightarrow> screen \<Rightarrow> screen option" where
  "buffer_clear hasScrollback scrollback s =
     setupTabStops None (s\<lparr>ydisp := 0, ybase := 0, cu_y := 0, cu_x := Some 0,
       lines := cl_new (getCorrectBufferLength hasScrollback scrollback (cu_rows s)),
       scrollTop := 0, scrollBottom := cu_rows s - 1\<rparr>)"

text \<open>\<open>Terminal.clear\<close> keeps the line of the cursor as the only one.\<close>

definition terminal_clear :: "screen \<Rightarrow> screen" where
  "terminal_clear s =
     (if ybase s = 0 \<and> cu_y s = 0 then s
      else
        (let c = cl_setLength (cl_set (lines s) 0 (cl_get (lines s) (row s))) 1;
             s1 = s\<lparr>lines := c, ydisp := 0, ybase := 0, cu_y := 0\<rparr>;
             s2 = for_up 1 (cu_rows s1) (\<lambda>i s.
                    s\<lparr>lines := fst (cl_push (lines s) (Some (getBlankLine (cu_cols s) DEFAULT_ATTR_DATA False)))\<rparr>) s1
         in s2\<lparr>scrolled := scrolled s2 @ [ydisp s2]\<rparr>))"

end
