(* ===== verification/Reflow.thy ===== *)
theory Reflow
  imports Screen
begin

text \<open>
  Resizing the buffer (\<open>Buffer.resize\<close> and \<open>BufferReflow\<close> in \<open>xterm.js\<close>). A paragraph is a line with the
  wrapped lines after it; when the width changes its cells are moved over its lines, lines that become
  empty are taken out of the ring and lines that are missing are put in. The lines of a paragraph are
  handled as a list of values and written back to the ring: no line occurs twice in it. The loops that copy
  cells need not end for every input, nor find the line they index: \<open>None\<close> says that a loop does not end,
  \<open>Inl\<close> that the code throws. The size in the state is the old one until the resize is over. Events of the
  ring are left out.
\<close>

type_synonym 'a run = "(js_error + 'a) option"

fun run_then :: "'a run \<Rightarrow> ('a \<Rightarrow> 'b run) \<Rightarrow> 'b run" where
  "run_then None f = None"
| "run_then (Some (Inl e)) f = Some (Inl e)"
| "run_then (Some (Inr v)) f = f v"

subsection \<open>Copying between the lines of a paragraph\<close>

text \<open>
  \<open>copyCellsFrom\<close> on one and the same line reads what it has written. The strings of combined cells are
  moved in the order of their columns: moved to the right, a string is read again where it was put.
\<close>

function moved_string :: "(int \<Rightarrow> units option) \<Rightarrow> int \<Rightarrow> int \<Rightarrow> int \<Rightarrow> units option" where
  "moved_string m srcCol d k =
     (if srcCol \<le> k - d \<and> m (k - d) \<noteq> None then (if 0 < d then moved_string m srcCol d (k - d) else m (k - d))
      else m k)"
  by pat_completeness auto
termination by (relation "measure (\<lambda>(m, srcCol, d, k). nat (k - srcCol + 1))") auto

declare moved_string.simps [simp del]

definition copyCellsWithin :: "buffer_line \<Rightarrow> int \<Rightarrow> int \<Rightarrow> int \<Rightarrow> bool \<Rightarrow> buffer_line" where
  "copyCellsWithin l srcCol destCol len applyInReverse =
     (let step = (\<lambda>cell l. copy_cell l srcCol destCol cell l);
          l1 = (if applyInReverse then for_down (len - 1) 0 step l else for_up 0 len step l)
      in l1\<lparr>bl_combined := moved_string (bl_combined l) srcCol (destCol - srcCol)\<rparr>)"

definition copy_line ::
  "int \<Rightarrow> int \<Rightarrow> int \<Rightarrow> int \<Rightarrow> int \<Rightarrow> bool \<Rightarrow> buffer_line list \<Rightarrow> buffer_line list" where
  "copy_line destLine srcLine srcCol destCol len applyInReverse ws =
     (let d = nat destLine; l = nat srcLine
      in ws[d := (if d = l then copyCellsWithin (ws ! d) srcCol destCol len applyInReverse
                  else copyCellsFrom (ws ! d) (ws ! l) srcCol destCol len applyInReverse)])"

definition is_line :: "buffer_line list \<Rightarrow> int \<Rightarrow> bool" where
  "is_line ws i \<longleftrightarrow> 0 \<le> i \<and> i < int (length ws)"

text \<open>The cells of a line that belong to its paragraph.\<close>

definition getWrappedLineTrimmedLength :: "buffer_line list \<Rightarrow> int \<Rightarrow> int \<Rightarrow> int" where
  "getWrappedLineTrimmedLength ws i cols =
     (if i = int (length ws) - 1 then getTrimmedLength (ws ! nat i)
      else
        (let endsInNull = (\<not> hasContent (ws ! nat i) (cols - 1) \<and> line_getWidth (ws ! nat i) (cols - 1) = 1);
             followingLineStartsWithWide = (line_getWidth (ws ! nat (i + 1)) 0 = 2)
         in if endsInNull \<and> followingLineStartsWithWide then cols - 1 else cols))"

definition write_lines :: "int \<Rightarrow> buffer_line list \<Rightarrow> buffer_line circular_list \<Rightarrow> buffer_line circular_list" where
  "write_lines y ws c = fst (fold (\<lambda>l (c, i). (cl_set c i (Some l), i + 1)) ws (c, y))"

subsection \<open>A wider screen\<close>

text \<open>The paragraph from a line on: \<open>i\<close> is the index of \<open>nextLine\<close>, which may be behind the last line.\<close>

function wrapped_up ::
  "buffer_line circular_list \<Rightarrow> int \<Rightarrow> buffer_line option \<Rightarrow> buffer_line list \<Rightarrow> js_error + buffer_line list" where
  "wrapped_up c i nxt ws =
     (if i < cl_length c then
        (case nxt of None \<Rightarrow> Inl TypeError
         | Some l \<Rightarrow> if bl_isWrapped l then wrapped_up c (i + 1) (cl_get c (i + 1)) (ws @ [l]) else Inr ws)
      else Inr ws)"
  by pat_completeness auto
termination by (relation "measure (\<lambda>(c, i, l, ws). nat (cl_length c - i))") auto

declare wrapped_up.simps [simp del]

text \<open>The loop that copies; the result is the target line and column reached, and the lines.\<close>

partial_function (option) larger_copy ::
  "int \<Rightarrow> int \<Rightarrow> cell_data \<Rightarrow> int \<Rightarrow> int \<Rightarrow> int \<Rightarrow> int \<Rightarrow> buffer_line list \<Rightarrow> (int \<times> int \<times> buffer_line list) run" where
  "larger_copy oldCols newCols nullCell destLine destCol srcLine srcCol ws =
     (if srcLine < int (length ws) then
        (let srcTrimmed = getWrappedLineTrimmedLength ws srcLine oldCols;
             cellsToCopy = min (srcTrimmed - srcCol) (newCols - destCol)
         in if \<not> is_line ws destLine then Some (Inl TypeError)
            else
              (let ws1 = copy_line destLine srcLine srcCol destCol cellsToCopy False ws;
                   full = (destCol + cellsToCopy = newCols);
                   dl = (if full then destLine + 1 else destLine);
                   dc = (if full then 0 else destCol + cellsToCopy);
                   done = (srcCol + cellsToCopy = srcTrimmed);
                   sl = (if done then srcLine + 1 else srcLine);
                   sc = (if done then 0 else srcCol + cellsToCopy)
               in if dc = 0 \<and> dl \<noteq> 0 \<and> line_getWidth (ws1 ! nat (dl - 1)) (newCols - 1) = 2 then
                    (if \<not> is_line ws1 dl then Some (Inl TypeError)
                     else
                       (let ws2 = copy_line dl (dl - 1) (newCols - 1) dc 1 False ws1;
                            ws3 = ws2[nat (dl - 1) := setCell (ws2 ! nat (dl - 1)) (newCols - 1) nullCell]
                        in larger_copy oldCols newCols nullCell dl (dc + 1) sl sc ws3))
                  else larger_copy oldCols newCols nullCell dl dc sl sc ws1))
      else Some (Inr (destLine, destCol, ws)))"

declare larger_copy.simps [code]

text \<open>The lines at the end of the paragraph that are not needed any more.\<close>

definition count_to_remove :: "int \<Rightarrow> buffer_line list \<Rightarrow> int" where
  "count_to_remove destLine ws =
     int (length (takeWhile (\<lambda>i. int i > destLine \<or> getTrimmedLength (ws ! i) = 0) (rev [1..<length ws])))"

definition larger_paragraph :: "int \<Rightarrow> int \<Rightarrow> cell_data \<Rightarrow> buffer_line list \<Rightarrow> (int \<times> buffer_line list) run" where
  "larger_paragraph oldCols newCols nullCell ws =
     run_then (larger_copy oldCols newCols nullCell 0 (getWrappedLineTrimmedLength ws 0 oldCols) 1 0 ws)
       (\<lambda>(destLine, destCol, ws1).
          if \<not> is_line ws1 destLine then Some (Inl TypeError)
          else
            (let ws2 = ws1[nat destLine := replaceCells (ws1 ! nat destLine) destCol newCols nullCell]
             in Some (Inr (count_to_remove destLine ws2, ws2))))"

text \<open>
  \<open>reflowLargerGetLinesToRemove\<close>: the ring with the cells moved, and the lines to remove as pairs of the
  first one and their number. The paragraph with the cursor stays as it is.
\<close>

lemma wrapped_up_grows: "wrapped_up c i l ws = Inr ws' \<Longrightarrow> length ws \<le> length ws'"
proof (induction c i l ws rule: wrapped_up.induct)
  case (1 c i l ws)
  from "1.prems" show ?case
    by (subst (asm) wrapped_up.simps) (auto split: if_splits option.splits dest!: "1.IH")
qed

lemma write_lines_length [simp]: "cl_length (write_lines y ws c) = cl_length c"
proof -
  have "cl_length (fst (fold (\<lambda>l (c, i). (cl_set c i (Some l), i + 1)) ws (c, y))) = cl_length c"
    by (induction ws arbitrary: c y) (simp_all add: cl_set_def)
  then show ?thesis by (simp add: write_lines_def)
qed

function lines_to_remove ::
  "int \<Rightarrow> int \<Rightarrow> int \<Rightarrow> cell_data \<Rightarrow> int \<Rightarrow> buffer_line circular_list \<Rightarrow> (int \<times> int) list
    \<Rightarrow> (buffer_line circular_list \<times> (int \<times> int) list) run" where
  "lines_to_remove oldCols newCols absoluteY nullCell y c toRemove =
     (if y < cl_length c - 1 then
        (case (cl_get c y, cl_get c (y + 1)) of
           (_, None) \<Rightarrow> Some (Inl TypeError)
         | (first, Some nxt) \<Rightarrow>
             (if \<not> bl_isWrapped nxt then lines_to_remove oldCols newCols absoluteY nullCell (y + 1) c toRemove
              else
                (case first of None \<Rightarrow> Some (Inl TypeError)
                 | Some l \<Rightarrow>
                     (case wrapped_up c (y + 1) (Some nxt) [l] of Inl e \<Rightarrow> Some (Inl e)
                      | Inr ws \<Rightarrow>
                          (if y \<le> absoluteY \<and> absoluteY < y + int (length ws)
                           then lines_to_remove oldCols newCols absoluteY nullCell (y + int (length ws)) c toRemove
                           else
                             (case larger_paragraph oldCols newCols nullCell ws of
                                None \<Rightarrow> None
                              | Some (Inl e) \<Rightarrow> Some (Inl e)
                              | Some (Inr (n, ws')) \<Rightarrow>
                                  lines_to_remove oldCols newCols absoluteY nullCell (y + int (length ws)) (write_lines y ws' c)
                                    (if n > 0 then toRemove @ [(y + int (length ws) - n, n)] else toRemove)))))))
      else Some (Inr (c, toRemove)))"
  by pat_completeness auto

termination
  by (relation "measure (\<lambda>(a, b, d, n, y, c, r). nat (cl_length c - y))")
    (auto dest!: wrapped_up_grows)

declare lines_to_remove.simps [simp del]

text \<open>\<open>reflowLargerCreateNewLayout\<close>: the indices of the lines that stay, and how many do not.\<close>

function new_layout :: "int \<Rightarrow> int \<Rightarrow> (int \<times> int) list \<Rightarrow> int list \<times> int" where
  "new_layout len i toRemove =
     (if i < len then
        (case toRemove of
           (start, n) # rest \<Rightarrow>
             (if start = i then map_prod id (\<lambda>m. m + n) (new_layout len (i + n) rest)
              else map_prod ((#) i) id (new_layout len (i + 1) toRemove))
         | [] \<Rightarrow> map_prod ((#) i) id (new_layout len (i + 1) []))
      else ([], 0))"
  by pat_completeness auto
termination
  by (relation "(\<lambda>(len, i, toRemove). length toRemove) <*mlex*> measure (\<lambda>(len, i, toRemove). nat (len - i))")
    (auto simp: mlex_prod_def intro!: wf_mlex)

declare new_layout.simps [simp del]

definition reflowLargerApplyNewLayout :: "buffer_line circular_list \<Rightarrow> int list \<Rightarrow> buffer_line circular_list" where
  "reflowLargerApplyNewLayout c newLayout =
     (let newLayoutLines = map (cl_get c) newLayout
      in cl_setLength (fst (fold (\<lambda>l (c, i). (cl_set c i l, i + 1)) newLayoutLines (c, 0))) (int (length newLayout)))"

definition larger_adjust :: "int \<Rightarrow> int \<Rightarrow> screen \<Rightarrow> screen" where
  "larger_adjust newCols newRows s =
     (if ybase s = 0 then
        (let s1 = (if cu_y s > 0 then s\<lparr>cu_y := cu_y s - 1\<rparr> else s)
         in if cl_length (lines s1) < newRows
            then s1\<lparr>lines := fst (cl_push (lines s1) (Some (new_line (nat newCols) (Some (getNullCell (Some DEFAULT_ATTR_DATA))) False)))\<rparr>
            else s1)
      else
        (let s1 = (if ydisp s = ybase s then s\<lparr>ydisp := ydisp s - 1\<rparr> else s)
         in s1\<lparr>ybase := ybase s1 - 1\<rparr>))"

definition reflowLarger :: "int \<Rightarrow> int \<Rightarrow> screen \<Rightarrow> screen run" where
  "reflowLarger newCols newRows s =
     run_then (lines_to_remove (cu_cols s) newCols (row s) (getNullCell (Some DEFAULT_ATTR_DATA)) 0 (lines s) [])
       (\<lambda>(c, toRemove).
          if toRemove = [] then Some (Inr (s\<lparr>lines := c\<rparr>))
          else
            (let (layout, countRemoved) = new_layout (cl_length c) 0 toRemove
             in Some (Inr ((larger_adjust newCols newRows ^^ nat countRemoved)
                  (s\<lparr>lines := reflowLargerApplyNewLayout c layout\<rparr>)))))"

subsection \<open>A narrower screen\<close>

function wrapped_down ::
  "buffer_line circular_list \<Rightarrow> int \<Rightarrow> buffer_line \<Rightarrow> buffer_line list \<Rightarrow> js_error + int \<times> buffer_line list" where
  "wrapped_down c y l ws =
     (if bl_isWrapped l \<and> y > 0 then
        (case cl_get c (y - 1) of None \<Rightarrow> Inl TypeError | Some l' \<Rightarrow> wrapped_down c (y - 1) l' (l' # ws))
      else Inr (y, ws))"
  by pat_completeness auto
termination by (relation "measure (\<lambda>(c, y, l, ws). nat y)") auto

declare wrapped_down.simps [simp del]

text \<open>
  \<open>reflowSmallerGetNewLineLengths\<close>: how many cells each of the new lines gets. A line that would end in
  the first half of a wide character gets one cell less.
\<close>

partial_function (option) new_lengths ::
  "int \<Rightarrow> int \<Rightarrow> buffer_line list \<Rightarrow> int \<Rightarrow> int \<Rightarrow> int \<Rightarrow> int \<Rightarrow> int list \<Rightarrow> int list run" where
  "new_lengths oldCols newCols ws cellsNeeded srcCol srcLine cellsAvailable newLineLengths =
     (if cellsAvailable < cellsNeeded then
        (if cellsNeeded - cellsAvailable < newCols then Some (Inr (newLineLengths @ [cellsNeeded - cellsAvailable]))
         else if \<not> is_line ws srcLine then Some (Inl TypeError)
         else
           (let oldTrimmedLength = getWrappedLineTrimmedLength ws srcLine oldCols;
                over = (srcCol + newCols > oldTrimmedLength);
                col = (if over then srcCol + newCols - oldTrimmedLength else srcCol + newCols);
                line = (if over then srcLine + 1 else srcLine)
            in if \<not> is_line ws line then Some (Inl TypeError)
               else
                 (let endsWithWide = (line_getWidth (ws ! nat line) (col - 1) = 2);
                      lineLength = (if endsWithWide then newCols - 1 else newCols)
                  in new_lengths oldCols newCols ws cellsNeeded (if endsWithWide then col - 1 else col) line
                       (cellsAvailable + lineLength) (newLineLengths @ [lineLength]))))
      else Some (Inr newLineLengths))"

declare new_lengths.simps [code]

definition cells_needed :: "int \<Rightarrow> buffer_line list \<Rightarrow> int" where
  "cells_needed oldCols ws = sum_list (map (\<lambda>i. getWrappedLineTrimmedLength ws (int i) oldCols) [0..<length ws])"

definition reflowSmallerGetNewLineLengths :: "buffer_line list \<Rightarrow> int \<Rightarrow> int \<Rightarrow> int list run" where
  "reflowSmallerGetNewLineLengths ws oldCols newCols = new_lengths oldCols newCols ws (cells_needed oldCols ws) 0 0 0 []"

text \<open>The cells are moved from the last one on; an index before the first line throws in the next round.\<close>

definition entry_at :: "int list \<Rightarrow> int \<Rightarrow> int" where
  "entry_at xs i = (if 0 \<le> i \<and> i < int (length xs) then xs ! nat i else 0)"

partial_function (option) smaller_copy ::
  "int \<Rightarrow> int list \<Rightarrow> int \<Rightarrow> int \<Rightarrow> int \<Rightarrow> int \<Rightarrow> buffer_line list \<Rightarrow> buffer_line list run" where
  "smaller_copy oldCols lens destLine destCol srcLine srcCol ws =
     (if srcLine \<ge> 0 then
        (if \<not> is_line ws destLine \<or> \<not> is_line ws srcLine then Some (Inl TypeError)
         else
           (let cellsToCopy = min srcCol destCol;
                ws1 = copy_line destLine srcLine (srcCol - cellsToCopy) (destCol - cellsToCopy) cellsToCopy True ws;
                full = (destCol - cellsToCopy = 0);
                dl = (if full then destLine - 1 else destLine);
                dc = (if full then entry_at lens dl else destCol - cellsToCopy);
                done = (srcCol - cellsToCopy = 0);
                sl = (if done then srcLine - 1 else srcLine);
                sc = (if done then getWrappedLineTrimmedLength ws1 (max sl 0) oldCols else srcCol - cellsToCopy)
            in smaller_copy oldCols lens dl dc sl sc ws1))
      else Some (Inr ws))"

declare smaller_copy.simps [code]

text \<open>One paragraph: the lines of the ring, the lines to insert after them, and the lengths.\<close>

definition smaller_paragraph ::
  "int \<Rightarrow> int \<Rightarrow> cell_data \<Rightarrow> buffer_line list \<Rightarrow> (buffer_line list \<times> buffer_line list \<times> int) run" where
  "smaller_paragraph oldCols newCols nullCell ws =
     run_then (reflowSmallerGetNewLineLengths ws oldCols newCols) (\<lambda>lens.
       let linesToAdd = int (length lens) - int (length ws);
           newLines = replicate (nat linesToAdd) (getBlankLine oldCols DEFAULT_ATTR_DATA True);
           destLine = int (length lens) - 1;
           skip = (destLine \<ge> 0 \<and> entry_at lens destLine = 0);
           dl = (if skip then destLine - 1 else destLine)
       in run_then (smaller_copy oldCols lens dl (entry_at lens dl) (int (length (ws @ newLines)) - linesToAdd - 1)
                      (getTrimmedLength (last ws)) (ws @ newLines)) (\<lambda>ws1.
            let ws2 = map (\<lambda>i. if i < length lens \<and> lens ! i < newCols then setCell (ws1 ! i) (lens ! i) nullCell else ws1 ! i)
                        [0..<length ws1]
            in Some (Inr (take (length ws) ws2, drop (length ws) ws2, linesToAdd))))"

definition smaller_adjust :: "int \<Rightarrow> int \<Rightarrow> screen \<Rightarrow> screen" where
  "smaller_adjust newRows countToInsert s =
     (if ybase s = 0 then
        (if cu_y s < newRows - 1 then s\<lparr>cu_y := cu_y s + 1, lines := fst (cl_pop (lines s))\<rparr>
         else s\<lparr>ybase := ybase s + 1, ydisp := ydisp s + 1\<rparr>)
      else if ybase s < min (cl_maxLength (lines s)) (cl_length (lines s) + countToInsert) - newRows then
        (let s1 = (if ybase s = ydisp s then s\<lparr>ydisp := ydisp s + 1\<rparr> else s) in s1\<lparr>ybase := ybase s1 + 1\<rparr>)
      else s)"

definition lines_trimmed :: "int \<Rightarrow> screen \<Rightarrow> int" where
  "lines_trimmed linesToAdd s =
     (if ybase s = 0 \<and> cu_y s \<noteq> cl_length (lines s) - 1 then max 0 (cu_y s - cl_maxLength (lines s) + linesToAdd)
      else max 0 (cl_length (lines s) - cl_maxLength (lines s) + linesToAdd))"

text \<open>The loop over the lines from the last one down; \<open>toInsert\<close> are the new lines with the index they get.\<close>

lemma wrapped_down_index: "wrapped_down c y l ws = Inr (y', ws') \<Longrightarrow> y' \<le> y"
proof (induction c y l ws rule: wrapped_down.induct)
  case (1 c y l ws)
  show ?case
  proof (cases "bl_isWrapped l \<and> y > 0")
    case True
    with "1.prems" obtain l' where "cl_get c (y - 1) = Some l'" "wrapped_down c (y - 1) l' (l' # ws) = Inr (y', ws')"
      by (subst (asm) wrapped_down.simps) (auto split: option.splits)
    with "1.IH" True show ?thesis by fastforce
  next
    case False
    with "1.prems" show ?thesis by (subst (asm) wrapped_down.simps) auto
  qed
qed

function smaller_loop ::
  "int \<Rightarrow> int \<Rightarrow> int \<Rightarrow> screen \<Rightarrow> (int \<times> buffer_line list) list \<Rightarrow> int \<Rightarrow> (screen \<times> (int \<times> buffer_line list) list \<times> int) run" where
  "smaller_loop newCols newRows y s toInsert countToInsert =
     (if y \<ge> 0 then
        (case cl_get (lines s) y of
           None \<Rightarrow> smaller_loop newCols newRows (y - 1) s toInsert countToInsert
         | Some l \<Rightarrow>
             (if \<not> bl_isWrapped l \<and> getTrimmedLength l \<le> newCols
              then smaller_loop newCols newRows (y - 1) s toInsert countToInsert
              else
                (case wrapped_down (lines s) y l [l] of Inl e \<Rightarrow> Some (Inl e)
                 | Inr (y1, ws) \<Rightarrow>
                     (if y1 \<le> row s \<and> row s < y1 + int (length ws)
                      then smaller_loop newCols newRows (y1 - 1) s toInsert countToInsert
                      else
                        (case smaller_paragraph (cu_cols s) newCols (getNullCell (Some DEFAULT_ATTR_DATA)) ws of
                           None \<Rightarrow> None
                         | Some (Inl e) \<Rightarrow> Some (Inl e)
                         | Some (Inr (ws1, newLines, linesToAdd)) \<Rightarrow>
                             (let n = int (length newLines);
                                  trimmedLines = lines_trimmed linesToAdd s;
                                  s1 = s\<lparr>lines := write_lines y1 ws1 (lines s)\<rparr>;
                                  ins = (if n > 0 then toInsert @ [(y1 + int (length ws) + countToInsert, newLines)] else toInsert);
                                  s2 = (smaller_adjust newRows (countToInsert + n) ^^ nat (linesToAdd - trimmedLines)) s1
                              in smaller_loop newCols newRows (y1 - 1) s2 ins (countToInsert + n)))))))
      else Some (Inr (s, toInsert, countToInsert)))"
  by pat_completeness auto
termination
  by (relation "measure (\<lambda>(a, b, y, s, t, n). nat (y + 1))") (auto dest!: wrapped_down_index)

declare smaller_loop.simps [simp del]

text \<open>The loop that spreads the lines over the ring from its end on; \<open>oi\<close> is the next old line.\<close>

definition put_down :: "int \<Rightarrow> buffer_line list \<Rightarrow> buffer_line circular_list \<Rightarrow> buffer_line circular_list" where
  "put_down i ls c = fst (fold (\<lambda>l (c, i). (cl_set c i (Some l), i - 1)) (rev ls) (c, i))"

function place_lines ::
  "int \<Rightarrow> buffer_line option list \<Rightarrow> int \<Rightarrow> int \<Rightarrow> (int \<times> buffer_line list) list \<Rightarrow> buffer_line circular_list
    \<Rightarrow> buffer_line circular_list" where
  "place_lines i orig oi inserted toInsert c =
     (if i \<ge> 0 then
        (if toInsert \<noteq> [] \<and> fst (hd toInsert) > oi + inserted
         then (let ls = snd (hd toInsert)
               in place_lines (i - int (length ls)) orig oi (inserted + int (length ls)) (tl toInsert) (put_down i ls c))
         else place_lines (i - 1) orig (oi - 1) inserted toInsert
                (cl_set c i (if 0 \<le> oi \<and> oi < int (length orig) then orig ! nat oi else None)))
      else c)"
  by pat_completeness auto
termination
  by (relation "(\<lambda>(i, orig, oi, n, t, c). length t) <*mlex*> measure (\<lambda>(i, orig, oi, n, t, c). nat (i + 1))")
    (auto simp: mlex_prod_def intro!: wf_mlex)

declare place_lines.simps [simp del]

definition reflowSmaller :: "int \<Rightarrow> int \<Rightarrow> screen \<Rightarrow> screen run" where
  "reflowSmaller newCols newRows s =
     run_then (smaller_loop newCols newRows (cl_length (lines s) - 1) s [] 0) (\<lambda>(s1, toInsert, countToInsert).
       if toInsert = [] then Some (Inr s1)
       else
         (let c = lines s1; orig = cl_list c; n = cl_length c;
              c1 = cl_setLength c (min (cl_maxLength c) (n + countToInsert))
          in Some (Inr (s1\<lparr>lines := place_lines (min (cl_maxLength c - 1) (n + countToInsert - 1)) orig (n - 1) 0 toInsert c1\<rparr>))))"

subsection \<open>Resizing\<close>

definition reflow :: "int \<Rightarrow> int \<Rightarrow> screen \<Rightarrow> screen run" where
  "reflow newCols newRows s =
     (if cu_cols s = newCols then Some (Inr s)
      else if newCols > cu_cols s then reflowLarger newCols newRows s
      else reflowSmaller newCols newRows s)"

definition resize_lines :: "int \<Rightarrow> screen \<Rightarrow> screen outcome" where
  "resize_lines newCols s =
     each (\<lambda>i. on_line i (\<lambda>l. line_resize l newCols (getNullCell (Some DEFAULT_ATTR_DATA)))) [0..cl_length (lines s) - 1] s"

definition add_row :: "int \<Rightarrow> int \<Rightarrow> screen \<times> int \<Rightarrow> screen \<times> int" where
  "add_row newCols newRows = (\<lambda>(s, addToY).
     if cl_length (lines s) < newRows + ybase s then
       (if ybase s > 0 \<and> cl_length (lines s) \<le> ybase s + cu_y s + addToY + 1
        then (s\<lparr>ybase := ybase s - 1, ydisp := (if ydisp s > 0 then ydisp s - 1 else ydisp s)\<rparr>, addToY + 1)
        else (s\<lparr>lines := fst (cl_push (lines s) (Some (new_line (nat newCols) (Some (getNullCell (Some DEFAULT_ATTR_DATA))) False)))\<rparr>,
              addToY))
     else (s, addToY))"

definition remove_row :: "int \<Rightarrow> screen \<Rightarrow> screen" where
  "remove_row newRows s =
     (if cl_length (lines s) > newRows + ybase s then
        (if cl_length (lines s) > ybase s + cu_y s + 1 then s\<lparr>lines := fst (cl_pop (lines s))\<rparr>
         else s\<lparr>ybase := ybase s + 1, ydisp := ydisp s + 1\<rparr>)
      else s)"

definition trim_ring :: "int \<Rightarrow> screen \<Rightarrow> screen" where
  "trim_ring newMaxLength s =
     (if newMaxLength < cl_maxLength (lines s) then
        (let amountToTrim = cl_length (lines s) - newMaxLength;
             s1 = (if amountToTrim > 0
                   then s\<lparr>lines := fst (cl_trimStart (lines s) amountToTrim), ybase := max (ybase s - amountToTrim) 0,
                          ydisp := max (ydisp s - amountToTrim) 0\<rparr>
                   else s)
         in s1\<lparr>lines := cl_setMaxLength (lines s1) newMaxLength\<rparr>)
      else s)"

definition resize_rows :: "int \<Rightarrow> int \<Rightarrow> int \<Rightarrow> screen \<Rightarrow> screen" where
  "resize_rows newCols newRows newMaxLength s =
     (let (s1, addToY) = (if cu_rows s < newRows then (add_row newCols newRows ^^ nat (newRows - cu_rows s)) (s, 0)
                          else ((remove_row newRows ^^ nat (cu_rows s - newRows)) s, 0));
          s2 = trim_ring newMaxLength s1
      in s2\<lparr>cu_x := map_option (\<lambda>x. min x (newCols - 1)) (cu_x s2),
            cu_y := min (cu_y s2) (newRows - 1) + addToY,
            savedY := map_option (\<lambda>y. min y (newRows - 1)) (savedY s2),
            savedX := map_option (\<lambda>x. min x (newCols - 1)) (savedX s2),
            scrollTop := 0\<rparr>)"

fun as_run :: "'s outcome \<Rightarrow> 's run" where
  "as_run (Done s) = Some (Inr s)"
| "as_run (Throw e s) = Some (Inl e)"

text \<open>\<open>Buffer.resize\<close>; a buffer without scrollback and one in windows mode are not reflowed.\<close>

definition buffer_resize :: "bool \<Rightarrow> int \<Rightarrow> bool \<Rightarrow> int \<Rightarrow> int \<Rightarrow> screen \<Rightarrow> screen run" where
  "buffer_resize hasScrollback scrollback windowsMode newCols newRows s =
     (let newMaxLength = getCorrectBufferLength hasScrollback scrollback newRows;
          s0 = (if newMaxLength > cl_maxLength (lines s) then s\<lparr>lines := cl_setMaxLength (lines s) newMaxLength\<rparr> else s);
          rows_done =
            (if cl_length (lines s0) > 0 then
               run_then (as_run (if cu_cols s < newCols then resize_lines newCols s0 else Done s0))
                 (\<lambda>s1. Some (Inr (resize_rows newCols newRows newMaxLength s1)))
             else Some (Inr s0))
      in run_then rows_done (\<lambda>s1.
           let s2 = s1\<lparr>scrollBottom := newRows - 1\<rparr>
           in run_then
                (if hasScrollback \<and> \<not> windowsMode
                 then run_then (reflow newCols newRows s2) (\<lambda>s3.
                        if cu_cols s > newCols then as_run (resize_lines newCols s3) else Some (Inr s3))
                 else Some (Inr s2))
                (\<lambda>s3. Some (Inr (s3\<lparr>cu_cols := newCols, cu_rows := newRows\<rparr>)))))"

end
