(* ===== verification/Screen_Scroll.thy ===== *)
theory Screen_Scroll
  imports Screen
begin

text \<open>
  Scrolling the screen, seen as lists of lines: the rows of the screen are the end of the ring, and the
  lines before them its history. Well-formed screens have a full set of rows, each as wide as the
  screen; scrolling keeps them so, and moves the rows of the scroll region up by one.
\<close>

subsection \<open>Lines as wide as the screen\<close>

lemma fold_inv: "P s \<Longrightarrow> (\<And>x s. P s \<Longrightarrow> P (f x s)) \<Longrightarrow> P (fold f xs s)"
  by (induction xs arbitrary: s) simp_all

lemma for_up_inv: "P s \<Longrightarrow> (\<And>i s. P s \<Longrightarrow> P (f i s)) \<Longrightarrow> P (for_up a b f s)"
  unfolding for_up_def by (rule fold_inv)

lemma for_down_inv: "P s \<Longrightarrow> (\<And>i s. P s \<Longrightarrow> P (f i s)) \<Longrightarrow> P (for_down a b f s)"
  unfolding for_down_def by (rule fold_inv)

lemma fold_commutes: "(\<And>x s. f x (g s) = g (f x s)) \<Longrightarrow> fold f xs (g s) = g (fold f xs s)"
  by (induction xs arbitrary: s) simp_all

definition good_line :: "int \<Rightarrow> buffer_line \<Rightarrow> bool" where
  "good_line cols l \<longleftrightarrow> line_ok l \<and> bl_length l = cols"

lemma good_setCell: "good_line n l \<Longrightarrow> good_line n (setCell l i c)"
  by (simp add: good_line_def line_ok_def)

lemma good_fill_from: "good_line n l \<Longrightarrow> good_line n (fill_from l a b f)"
  unfolding fill_from_def by (rule for_up_inv) (simp_all add: good_setCell)

lemma good_code_point: "good_line n l \<Longrightarrow> good_line n (setCellFromCodePoint l i cp w fg bg)"
  by (simp add: good_line_def line_ok_def setCellFromCodePoint_def)

lemma good_addCodepoint: "good_line n l \<Longrightarrow> good_line n (addCodepointToCell l i cp)"
  by (simp add: good_line_def line_ok_def addCodepointToCell_def Let_def)

lemma good_wrapped: "good_line n (l\<lparr>bl_isWrapped := b\<rparr>) = good_line n l"
  by (simp add: good_line_def line_ok_def)

lemma good_insertCells:
  assumes "good_line n l"
  shows "good_line n (insertCells l pos k f)"
proof -
  have "good_line n (fst (for_down a b (\<lambda>i (l, cell). let cell' = loadCell l (p + i) cell in (setCell l (p + k + i) cell', cell')) (l, new_cell)))"
    for a b p
    by (rule for_down_inv [where P = "\<lambda>t. good_line n (fst t)"]) (use assms in \<open>auto simp: good_setCell Let_def\<close>)
  moreover have "good_line n (for_up 0 k (\<lambda>i l. setCell l (p + i) f) m)" if "good_line n m" for m p
    using that by (rule for_up_inv) (rule good_setCell)
  ultimately show ?thesis using assms by (simp add: insertCells_def Let_def good_fill_from)
qed

lemma good_deleteCells:
  assumes "good_line n l"
  shows "good_line n (deleteCells l pos k f)"
proof -
  have "good_line n (fst (for_up a b (\<lambda>i (l, cell). let cell' = loadCell l (p + k + i) cell in (setCell l (p + i) cell', cell')) (l, new_cell)))"
    for a b p
    by (rule for_up_inv [where P = "\<lambda>t. good_line n (fst t)"]) (use assms in \<open>auto simp: good_setCell Let_def\<close>)
  then show ?thesis
    using assms by (auto simp: deleteCells_def Let_def good_fill_from)
qed

lemma good_replaceCells: "good_line n l \<Longrightarrow> good_line n (replaceCells l a b f)"
  by (simp add: replaceCells_def good_fill_from)

lemma good_replace_span: "good_line n l \<Longrightarrow> good_line n (replace_span a b f l)"
  by (simp add: replace_span_def good_replaceCells split: option.split)

lemma good_at_column: "good_line n l \<Longrightarrow> (\<And>x l. good_line n l \<Longrightarrow> good_line n (f x l)) \<Longrightarrow> good_line n (at_column x f l)"
  by (simp add: at_column_def split: option.split)

lemmas good_lines = good_setCell good_fill_from good_code_point good_addCodepoint good_wrapped good_insertCells
  good_deleteCells good_replaceCells good_replace_span

text \<open>A blank line, and the copies that scrolling makes of the cached one.\<close>

lemma new_line_fill:
  "new_line n (Some c) w =
     fill_from \<lparr>bl_isWrapped = w, bl_combined = (\<lambda>_. None), bl_data = replicate (n * 3) 0, bl_length = int n\<rparr> 0 (int n) c"
  using fill_from_length_update [of "int n"
      "\<lparr>bl_isWrapped = w, bl_combined = (\<lambda>_. None), bl_data = replicate (n * 3) 0, bl_length = 0\<rparr>" 0 "int n" c]
  by (simp add: new_line_def fill_from_def Let_def)

lemma good_blank: "0 \<le> cols \<Longrightarrow> good_line cols (getBlankLine cols a w)"
  unfolding getBlankLine_def new_line_fill by (rule good_fill_from) (simp add: good_line_def line_ok_def)

lemma blank_cells:
  assumes "0 \<le> j" and "j < cols"
  shows "cell_at (getBlankLine cols a w) j = getNullCell (Some a)"
proof -
  have "kept (getNullCell (Some a)) = getNullCell (Some a)"
    by (simp add: kept_def getNullCell_def fromCharData_def setFromCharData_def new_cell_def)
  then show ?thesis
    unfolding getBlankLine_def new_line_fill
    using fill_from_spec [of "\<lparr>bl_isWrapped = w, bl_combined = (\<lambda>_. None), bl_data = replicate (nat cols * 3) 0,
        bl_length = int (nat cols)\<rparr>" 0 "int (nat cols)" "getNullCell (Some a)"] assms
    by (simp add: line_ok_def)
qed

lemma fill_from_wrapped: "fill_from (l\<lparr>bl_isWrapped := w\<rparr>) a b c = (fill_from l a b c)\<lparr>bl_isWrapped := w\<rparr>"
  unfolding fill_from_def for_up_def
  by (rule fold_commutes [where g = "bl_isWrapped_update (\<lambda>_. w)"]) (simp add: setCell_def Let_def)

lemma blank_wrapped: "(getBlankLine cols a w)\<lparr>bl_isWrapped := w'\<rparr> = getBlankLine cols a w'"
  unfolding getBlankLine_def new_line_fill
  using fill_from_wrapped [of w' "\<lparr>bl_isWrapped = w, bl_combined = (\<lambda>_. None), bl_data = replicate (nat cols * 3) 0,
      bl_length = int (nat cols)\<rparr>" 0 "int (nat cols)" "getNullCell (Some a)"] by simp

lemma cell_at_attributes: "cd_fg (cell_at l j) = getFg l j" "cd_bg (cell_at l j) = getBg l j"
  by (simp_all add: cell_at_def loadCell_def getFg_def getBg_def Let_def)

lemma blank_attributes: "0 < cols \<Longrightarrow> getFg (getBlankLine cols a w) 0 = ad_fg a \<and> getBg (getBlankLine cols a w) 0 = ad_bg a"
  using arg_cong [OF blank_cells [of 0 cols a w], of cd_fg] arg_cong [OF blank_cells [of 0 cols a w], of cd_bg]
  by (simp add: cell_at_attributes getNullCell_def Let_def)

lemma clone_same: "line_clone l = l"
  by (cases l) (simp add: line_clone_def new_line_def)

lemma copyFrom_same: "good_line n l \<Longrightarrow> good_line n m \<Longrightarrow> copyFrom l m = m"
  by (cases m) (simp add: copyFrom_def good_line_def line_ok_def)

subsection \<open>The ring keeps its size\<close>

lemma cl_maxLength_upd [simp]:
  "cl_maxLength (fst (cl_push c v)) = cl_maxLength c" "cl_maxLength (fst (cl_splice c i d vs)) = cl_maxLength c"
  "cl_maxLength (fst (cl_trimStart c k)) = cl_maxLength c"
proof -
  have up: "cl_maxLength (for_up a b (\<lambda>i c. cl_set c (f i) (g i c)) c) = cl_maxLength c"
    and down: "cl_maxLength (for_down a b (\<lambda>i c. cl_set c (f i) (g i c)) c) = cl_maxLength c"
    for a b f g and c :: "'a circular_list"
    by (rule for_up_inv for_down_inv; simp)+
  show "cl_maxLength (fst (cl_push c v)) = cl_maxLength c" by (simp add: cl_push_def Let_def)
  show "cl_maxLength (fst (cl_trimStart c k)) = cl_maxLength c" by (simp add: cl_trimStart_def Let_def)
  show "cl_maxLength (fst (cl_splice c i d vs)) = cl_maxLength c"
    by (simp add: cl_splice_def cl_splice_insert_def cl_splice_delete_def Let_def up down)
qed

lemma cl_shiftElements_maxLength:
  assumes "cl_shiftElements c i n d = Inr (c', t)"
  shows "cl_maxLength c' = cl_maxLength c"
proof -
  have drop: "cl_maxLength (fst (cl_dropOverflow c)) = cl_maxLength c" for c :: "'a circular_list"
    by (induction c rule: cl_dropOverflow.induct) (subst cl_dropOverflow.simps, simp add: case_prod_beta)
  have loops: "cl_maxLength (for_up a b (\<lambda>i c. cl_set c (f i) (g i c)) c) = cl_maxLength c"
    "cl_maxLength (for_down a b (\<lambda>i c. cl_set c (f i) (g i c)) c) = cl_maxLength c" for a b f g
    by (rule for_up_inv for_down_inv; simp)+
  have "case cl_shiftElements c i n d of Inl e \<Rightarrow> True | Inr r \<Rightarrow> cl_maxLength (fst r) = cl_maxLength c"
    by (simp add: cl_shiftElements_def Let_def loops drop)
  then show ?thesis using assms by simp
qed

lemma cl_recycle_maxLength: "cl_recycle c = Inr (c', t) \<Longrightarrow> cl_maxLength c' = cl_maxLength c"
  by (auto simp: cl_recycle_def Let_def split: if_splits)

lemma cl_inv_set: "cl_inv c \<Longrightarrow> cl_inv (cl_set c i v)"
  by (simp add: cl_inv_def cl_wf_def)

lemma cl_length_list: "cl_inv c \<Longrightarrow> cl_length c = int (length (cl_list c))"
  by (simp add: cl_inv_def)

subsection \<open>Well-formed screens\<close>

definition place_ok :: "'a cursor_scheme \<Rightarrow> bool" where
  "place_ok c \<longleftrightarrow> 0 < cu_cols c \<and> 0 < cu_rows c \<and> 0 \<le> cu_y c \<and> cu_y c < cu_rows c
     \<and> (\<forall>x. cu_x c = Some x \<longrightarrow> 0 \<le> x) \<and> (\<forall>x. savedX c = Some x \<longrightarrow> 0 \<le> x)
     \<and> (\<forall>y. savedY c = Some y \<longrightarrow> 0 \<le> y \<and> y < cu_rows c)
     \<and> 0 \<le> scrollTop c \<and> scrollTop c \<le> scrollBottom c \<and> scrollBottom c < cu_rows c"

definition lines_ok :: "int \<Rightarrow> buffer_line circular_list \<Rightarrow> bool" where
  "lines_ok cols c \<longleftrightarrow> cl_inv c \<and> (\<forall>v \<in> set (cl_list c). \<exists>l. v = Some l \<and> good_line cols l)"

definition buffer_ok :: "screen \<Rightarrow> bool" where
  "buffer_ok s \<longleftrightarrow> lines_ok (cu_cols s) (lines s) \<and> 0 \<le> ybase s \<and> cl_length (lines s) = ybase s + cu_rows s
     \<and> 0 \<le> ydisp s \<and> ydisp s \<le> ybase s \<and> (\<forall>l. blankLine s = Some l \<longrightarrow> (\<exists>n a w. l = getBlankLine n a w))"

definition screen_ok :: "screen \<Rightarrow> bool" where
  "screen_ok s \<longleftrightarrow> place_ok s \<and> buffer_ok s"

definition history :: "screen \<Rightarrow> buffer_line option list" where
  "history s = take (nat (ybase s)) (cl_list (lines s))"

definition viewport :: "screen \<Rightarrow> buffer_line option list" where
  "viewport s = drop (nat (ybase s)) (cl_list (lines s))"

lemma length_viewport: "buffer_ok s \<Longrightarrow> 0 \<le> cu_rows s \<Longrightarrow> length (viewport s) = nat (cu_rows s)"
  by (simp add: buffer_ok_def viewport_def nat_add_distrib)

lemma length_history: "buffer_ok s \<Longrightarrow> 0 \<le> cu_rows s \<Longrightarrow> length (history s) = nat (ybase s)"
  by (simp add: buffer_ok_def history_def)

lemma history_viewport: "history s @ viewport s = cl_list (lines s)"
  by (simp add: history_def viewport_def)

lemma views_split: "cl_list (lines s) = H @ V \<Longrightarrow> length H = nat (ybase s) \<Longrightarrow> history s = H \<and> viewport s = V"
  by (simp add: history_def viewport_def)

text \<open>The line that scrolls in is a blank one in the erase attributes, cached or not.\<close>

lemma scroll_line_blank:
  assumes "buffer_ok s" and "0 < cu_cols s"
  shows "scroll_line w s = s\<lparr>blankLine := Some (getBlankLine (cu_cols s) (eraseAttr s) w)\<rparr>"
proof (cases "blankLine s")
  case None
  then show ?thesis by (simp add: scroll_line_def blank_wrapped)
next
  case (Some l)
  then obtain n a w' where l: "l = getBlankLine n a w'" using assms by (auto simp: buffer_ok_def)
  show ?thesis
  proof (cases "bl_length l \<noteq> cu_cols s \<or> getFg l 0 \<noteq> ad_fg (eraseAttr s) \<or> getBg l 0 \<noteq> ad_bg (eraseAttr s)")
    case True
    then show ?thesis using Some by (simp add: scroll_line_def blank_wrapped)
  next
    case False
    have "bl_length l = int (nat n)"
      using fill_from_spec by (auto simp: l getBlankLine_def new_line_fill line_ok_def)
    then have n: "n = cu_cols s" using False assms(2) by linarith
    then have "ad_fg a = ad_fg (eraseAttr s)" "ad_bg a = ad_bg (eraseAttr s)"
      using False blank_attributes [OF assms(2), of a w'] by (auto simp: l)
    then have "a = eraseAttr s" by simp
    then show ?thesis using False Some n by (simp add: scroll_line_def l blank_wrapped)
  qed
qed

subsection \<open>One line in, one line out\<close>

lemma scroll_append_list:
  assumes ok: "place_ok s" "buffer_ok s" and v: "good_line (cu_cols s) v"
  defines "k \<equiv> ybase s + scrollBottom s + 1"
  shows "\<exists>c. scroll_append v s = Done (s\<lparr>lines := c\<rparr>) \<and> cl_inv c \<and> cl_maxLength c = cl_maxLength (lines s) \<and>
    cl_list c = keep_last (nat (cl_maxLength (lines s))) (spliced k 0 [Some v] (cl_list (lines s)))"
proof -
  let ?L = "lines s"
  have inv: "cl_inv ?L" and good: "\<And>x. x \<in> set (cl_list ?L) \<Longrightarrow> \<exists>l. x = Some l \<and> good_line (cu_cols s) l"
    and len: "cl_length ?L = ybase s + cu_rows s" and yb: "0 \<le> ybase s"
    and reg: "0 \<le> scrollBottom s" "scrollBottom s < cu_rows s"
    using ok by (auto simp: buffer_ok_def lines_ok_def place_ok_def)
  have le: "cl_length ?L \<le> cl_maxLength ?L" using inv by (simp add: cl_inv_def)
  have "0 < length (cl_list ?L)" using len yb reg by simp
  then have ne: "cl_list ?L \<noteq> []" by (rule length_greater_0_conv [THEN iffD1])
  show ?thesis
  proof (cases "k = cl_length ?L")
    case last: True
    then have kl: "nat k = length (cl_list ?L)" by simp
    then have sp: "spliced k 0 [Some v] (cl_list ?L) = cl_list ?L @ [Some v]" by (simp add: spliced_def)
    show ?thesis
    proof (cases "cl_isFull ?L")
      case True
      obtain c where c: "cl_recycle ?L = Inr (c, [1], hd (cl_list ?L))" "cl_inv c"
        "cl_list c = tl (cl_list ?L) @ [hd (cl_list ?L)]"
        using cl_recycle_full [OF inv True] by blast
      obtain l where l: "hd (cl_list ?L) = Some l" "good_line (cu_cols s) l" using good ne by (metis hd_in_set)
      have "length (cl_list c) = length (cl_list ?L)" using ne unfolding c(3) by (cases "cl_list ?L") auto
      then have clen: "cl_length c = cl_length ?L" using cl_length_list [OF c(2)] cl_length_list [OF inv] by argo
      have "cl_list (cl_set c (cl_length c - 1) (Some v)) = tl (cl_list ?L) @ [Some v]"
        using cl_list_set [OF c(2), of "cl_length c - 1" "Some v"] c(3) ne clen last k_def yb reg
        by (simp add: list_update_append nat_diff_distrib)
      moreover have "keep_last (nat (cl_maxLength ?L)) (cl_list ?L @ [Some v]) = tl (cl_list ?L) @ [Some v]"
        using True len yb reg by (simp add: keep_last_snoc cl_isFull_def)
      moreover have "scroll_append v s = Done (s\<lparr>lines := cl_set c (cl_length c - 1) (Some v)\<rparr>)"
        using last True c(1) l v by (simp add: scroll_append_def k_def copyFrom_same)
      ultimately show ?thesis using c(2) cl_recycle_maxLength [OF c(1)] by (auto simp: cl_inv_set sp)
    next
      case False
      then have "scroll_append v s = Done (s\<lparr>lines := fst (cl_push ?L (Some v))\<rparr>)"
        using last by (simp add: scroll_append_def k_def clone_same)
      moreover have "keep_last (nat (cl_maxLength ?L)) (cl_list ?L @ [Some v]) = cl_list ?L @ [Some v]"
        using False le len yb reg by (intro keep_last_short) (auto simp: cl_isFull_def)
      ultimately show ?thesis
        using False cl_push_list [OF inv, of "Some v"] cl_push_inv [OF inv] by (auto simp: sp)
    qed
  next
    case False
    then have "scroll_append v s = Done (s\<lparr>lines := fst (cl_splice ?L k 0 [Some v])\<rparr>)"
      by (simp add: scroll_append_def k_def clone_same)
    moreover have "0 \<le> k" "k + 0 \<le> cl_length ?L" "cl_length ?L - 0 + int (length [Some v]) - cl_maxLength ?L \<le> k"
      using len yb reg le by (auto simp: k_def)
    ultimately show ?thesis using cl_splice_spec [OF inv, of k 0 "[Some v]"] by auto
  qed
qed

text \<open>Scrolling a part of the rows up by one line.\<close>

definition scrolled_up :: "nat \<Rightarrow> nat \<Rightarrow> 'a \<Rightarrow> 'a list \<Rightarrow> 'a list" where
  "scrolled_up t b v xs = take t xs @ drop (t + 1) (take (b + 1) xs) @ [v] @ drop (b + 1) xs"

lemma keep_last_split: "length W \<le> m \<Longrightarrow> keep_last m (X @ W) = keep_last (m - length W) X @ W"
  by (simp add: keep_last_def)

lemma view_scrolled:
  fixes H V :: "'a list"
  assumes "b < length V" and "length H + length V \<le> m"
  shows "keep_last m (spliced (int (length H) + int b + 1) 0 [v] (H @ V)) =
    keep_last (m - length V) (H @ [hd V]) @ scrolled_up 0 b v V"
proof -
  have n: "nat (int (length H) + int b + 1) = length H + (b + 1)" by linarith
  have sp: "spliced (int (length H) + int b + 1) 0 [v] (H @ V) = H @ take (b + 1) V @ [v] @ drop (b + 1) V"
    by (simp add: spliced_def n)
  have V: "take (b + 1) V = hd V # drop 1 (take (b + 1) V)" using assms(1) by (cases V) auto
  have su: "length (scrolled_up 0 b v V) = length V" using assms(1) by (simp add: scrolled_up_def)
  have eq: "H @ take (b + 1) V @ [v] @ drop (b + 1) V = (H @ [hd V]) @ scrolled_up 0 b v V"
    by (subst V) (simp add: scrolled_up_def)
  show ?thesis unfolding sp eq using keep_last_split [of "scrolled_up 0 b v V" m "H @ [hd V]"] su assms(2) by simp
qed

text \<open>What scrolling leaves alone.\<close>

definition same_rest :: "screen \<Rightarrow> screen \<Rightarrow> bool" where
  "same_rest s s' \<longleftrightarrow> cursor.truncate s' = cursor.truncate s \<and> charset s' = charset s \<and> insertMode s' = insertMode s
     \<and> wraparoundMode s' = wraparoundMode s \<and> convertEol s' = convertEol s \<and> userScrolling s' = userScrolling s"

lemma same_rest_refl [simp]: "same_rest s s"
  by (simp add: same_rest_def)

lemma rest_trans: "same_rest s t \<Longrightarrow> same_rest t u \<Longrightarrow> same_rest s u"
  by (simp add: same_rest_def)

lemma same_rest_cursor:
  assumes "same_rest s s'"
  shows "cu_x s' = cu_x s" "cu_y s' = cu_y s" "cu_cols s' = cu_cols s" "cu_rows s' = cu_rows s"
    "scrollTop s' = scrollTop s" "scrollBottom s' = scrollBottom s" "savedX s' = savedX s" "savedY s' = savedY s"
    "curAttrData s' = curAttrData s" "wraparoundMode s' = wraparoundMode s" "insertMode s' = insertMode s"
    "charset s' = charset s" "userScrolling s' = userScrolling s"
  using assms by (auto simp: same_rest_def cursor.truncate_def)

lemma same_rest_place: "same_rest s s' \<Longrightarrow> place_ok s' = place_ok s"
  by (simp add: place_ok_def same_rest_cursor)

lemma updateRange_simps [simp]:
  "cu_x (updateRange y s) = cu_x s" "cu_y (updateRange y s) = cu_y s" "cu_cols (updateRange y s) = cu_cols s"
  "cu_rows (updateRange y s) = cu_rows s" "scrollTop (updateRange y s) = scrollTop s"
  "scrollBottom (updateRange y s) = scrollBottom s" "tabs (updateRange y s) = tabs s"
  "tabStopWidth (updateRange y s) = tabStopWidth s" "savedX (updateRange y s) = savedX s"
  "savedY (updateRange y s) = savedY s" "curAttrData (updateRange y s) = curAttrData s"
  "savedCurAttrData (updateRange y s) = savedCurAttrData s" "reports (updateRange y s) = reports s"
  "lines (updateRange y s) = lines s" "ybase (updateRange y s) = ybase s" "ydisp (updateRange y s) = ydisp s"
  "eraseAttr (updateRange y s) = eraseAttr s" "blankLine (updateRange y s) = blankLine s"
  "userScrolling (updateRange y s) = userScrolling s" "charset (updateRange y s) = charset s"
  "insertMode (updateRange y s) = insertMode s" "wraparoundMode (updateRange y s) = wraparoundMode s"
  "convertEol (updateRange y s) = convertEol s" "scrolled (updateRange y s) = scrolled s"
  "lineFeeds (updateRange y s) = lineFeeds s"
  by (simp_all add: updateRange_def Let_def)

lemma same_rest_updateRange [simp]: "same_rest s (updateRange y s)"
  by (simp add: same_rest_def cursor.truncate_def)

lemma buffer_ok_updateRange [simp]: "buffer_ok (updateRange y s) = buffer_ok s"
  by (simp add: buffer_ok_def)

lemma views_updateRange [simp]: "history (updateRange y s) = history s" "viewport (updateRange y s) = viewport s"
  by (simp_all add: history_def viewport_def)

lemma take_eraseAttr_simps [simp]:
  "buffer_ok (take_eraseAttr s) = buffer_ok s" "same_rest s (take_eraseAttr s)" "lines (take_eraseAttr s) = lines s"
  "place_ok (take_eraseAttr s) = place_ok s" "ybase (take_eraseAttr s) = ybase s" "ydisp (take_eraseAttr s) = ydisp s"
  "history (take_eraseAttr s) = history s" "viewport (take_eraseAttr s) = viewport s"
  "eraseAttr (take_eraseAttr s) = eraseAttrData (eraseAttr s) (curAttrData s)"
  "cu_cols (take_eraseAttr s) = cu_cols s" "cu_x (take_eraseAttr s) = cu_x s" "cu_y (take_eraseAttr s) = cu_y s"
  by (simp_all add: take_eraseAttr_def buffer_ok_def same_rest_def cursor.truncate_def place_ok_def history_def viewport_def)

lemma lines_ok_cong:
  assumes "lines_ok n c" and "cl_inv c'" and "set (cl_list c') \<subseteq> insert (Some v) (set (cl_list c))" and "good_line n v"
  shows "lines_ok n c'"
  using assms by (auto simp: lines_ok_def)

lemma set_keep_last: "set (keep_last n xs) \<subseteq> set xs"
  by (simp add: keep_last_def set_drop_subset)

lemma set_spliced: "set (spliced k d vs xs) \<subseteq> set vs \<union> set xs"
  by (auto simp: spliced_def dest: in_set_takeD in_set_dropD)

text \<open>The two ways of scrolling, on the views.\<close>

lemma scroll_append_views:
  assumes ok: "place_ok s" "buffer_ok s" and v: "good_line (cu_cols s) v"
  shows "\<exists>s'. and_then (scroll_append v s) (\<lambda>s2. Done (scroll_counters (cl_isFull (lines s)) s2)) = Done s'
    \<and> same_rest s s' \<and> buffer_ok s' \<and> cl_maxLength (lines s') = cl_maxLength (lines s)
    \<and> viewport s' = scrolled_up 0 (nat (scrollBottom s)) (Some v) (viewport s)
    \<and> history s' = keep_last (nat (cl_maxLength (lines s) - cu_rows s)) (history s @ [hd (viewport s)])"
proof -
  obtain c where c: "scroll_append v s = Done (s\<lparr>lines := c\<rparr>)" "cl_inv c" "cl_maxLength c = cl_maxLength (lines s)"
    "cl_list c = keep_last (nat (cl_maxLength (lines s))) (spliced (ybase s + scrollBottom s + 1) 0 [Some v] (cl_list (lines s)))"
    using scroll_append_list [OF ok v] by blast
  define s' where "s' = scroll_counters (cl_isFull (lines s)) (s\<lparr>lines := c\<rparr>)"
  have pos: "0 \<le> cu_rows s" "0 \<le> ybase s" "cl_length (lines s) = ybase s + cu_rows s" "cl_inv (lines s)"
    "0 \<le> scrollBottom s" "scrollBottom s < cu_rows s"
    using ok by (auto simp: place_ok_def buffer_ok_def lines_ok_def)
  have le: "ybase s + cu_rows s \<le> cl_maxLength (lines s)" using pos by (simp add: cl_inv_def)
  have lens: "int (length (history s)) = ybase s" "int (length (viewport s)) = cu_rows s"
    using length_history [OF ok(2)] length_viewport [OF ok(2)] pos by simp_all
  have m: "nat (cl_maxLength (lines s) - cu_rows s) = nat (cl_maxLength (lines s)) - length (viewport s)"
    using lens pos le by linarith
  have list: "cl_list c = keep_last (nat (cl_maxLength (lines s) - cu_rows s)) (history s @ [hd (viewport s)])
      @ scrolled_up 0 (nat (scrollBottom s)) (Some v) (viewport s)" (is "_ = ?H @ ?V")
    unfolding c(4) m using view_scrolled [of "nat (scrollBottom s)" "viewport s" "history s" "nat (cl_maxLength (lines s))" "Some v"] lens pos le
    by (simp add: history_viewport)
  have yb: "ybase s' = (if cl_isFull (lines s) then ybase s else ybase s + 1)" and ln: "lines s' = c" and rest: "same_rest s s'"
    and bl: "blankLine s' = blankLine s"
    by (auto simp: s'_def scroll_counters_def same_rest_def cursor.truncate_def Let_def)
  have yd: "0 \<le> ydisp s'" "ydisp s' \<le> ybase s'"
    using ok(2) by (auto simp: s'_def scroll_counters_def Let_def buffer_ok_def)
  have lH: "length ?H = nat (ybase s')"
    using lens pos le by (auto simp: yb keep_last_def cl_isFull_def)
  have lV: "length ?V = nat (cu_rows s)"
    using lens pos by (auto simp: scrolled_up_def)
  have "cl_length c = ybase s' + cu_rows s"
    using cl_length_list [OF c(2)] lH lV pos yb unfolding list by (simp del: length_cl_list)
  moreover have "lines_ok (cu_cols s) c"
    using ok(2) by (rule_tac lines_ok_cong [OF _ c(2) _ v, of "lines s"])
      (use set_keep_last set_spliced in \<open>fastforce simp: buffer_ok_def c(4)\<close>)+
  ultimately have "buffer_ok s'"
    using ok(2) yd pos rest yb by (auto simp: buffer_ok_def ln bl same_rest_cursor)
  moreover have "history s' = ?H \<and> viewport s' = ?V" using list lH by (intro views_split) (simp_all add: ln)
  ultimately show ?thesis using c(1,3) rest by (auto simp: s'_def [symmetric] ln)
qed

lemma region_scrolled:
  assumes "t \<le> b" and "b < length V"
  shows "(take t V @ take (b - t) (drop (t + 1) V) @ drop b V)[b := v] = scrolled_up t b v V"
proof -
  define P where "P = take t V @ take (b - t) (drop (t + 1) V)"
  have P: "length P = b" using assms by (simp add: P_def)
  have "drop b V = V ! b # drop (b + 1) V" using assms by (simp add: Cons_nth_drop_Suc)
  then have "(P @ drop b V)[b := v] = P @ v # drop (b + 1) V" using P by (simp add: list_update_append)
  moreover have "drop (t + 1) (take (b + 1) V) = take (b - t) (drop (t + 1) V)" using assms by (simp add: drop_take)
  ultimately show ?thesis by (simp add: P_def scrolled_up_def)
qed

lemma shift_up_list:
  assumes "cl_inv c" and "cl_list c = H @ V" and "t \<le> b" and "b < length V"
  shows "\<exists>c' trims. cl_shiftElements c (int (length H) + int t + 1) (int b - int t) (-1) = Inr (c', trims) \<and>
    cl_inv (cl_set c' (int (length H) + int b) v) \<and> cl_maxLength c' = cl_maxLength c \<and>
    cl_list (cl_set c' (int (length H) + int b) v) = H @ scrolled_up t b v V"
proof -
  have len: "cl_length c = int (length H + length V)" using cl_length_list [OF assms(1)] assms(2) by simp
  have store: "cl_inv (cl_set c' (int (length H) + int b) v) \<and> cl_list (cl_set c' (int (length H) + int b) v) = H @ scrolled_up t b v V"
    if "cl_inv c'" "cl_list c' = H @ take t V @ take (b - t) (drop (t + 1) V) @ drop b V" for c'
  proof -
    have "length (cl_list c') = length H + length V" using that(2) assms(3,4) by simp
    then have "int (length H) + int b < cl_length c'" using cl_length_list [OF that(1)] assms(4) by linarith
    then have "cl_list (cl_set c' (int (length H) + int b) v) = (cl_list c')[nat (int (length H) + int b) := v]"
      using that(1) by (intro cl_list_set) simp_all
    also have "\<dots> = H @ scrolled_up t b v V"
      using region_scrolled [OF assms(3,4), of v] by (simp add: that(2) nat_add_distrib list_update_append)
    finally show ?thesis using that(1) by (simp add: cl_inv_set)
  qed
  show ?thesis
  proof (cases "t = b")
    case True
    have "cl_list c = H @ take t V @ take (b - t) (drop (t + 1) V) @ drop b V" using True assms(2) by simp
    with store [OF assms(1)] show ?thesis using True by (auto simp: cl_shiftElements_def)
  next
    case False
    let ?start = "int (length H) + int t + 1" and ?count = "int b - int t"
    have max: "int (length H + length V) \<le> cl_maxLength c" using assms(1) len by (simp add: cl_inv_def)
    have nats: "nat (?start + -1) = length H + t" "nat ?count = b - t" "nat ?start = length H + (t + 1)"
      "nat (?start + -1 + ?count) = length H + b" using assms(3) by linarith+
    have shift: "shifted ?start ?count (-1) (cl_list c) = H @ take t V @ take (b - t) (drop (t + 1) V) @ drop b V"
      by (simp only: shifted_def nats assms(2)) simp
    obtain c' trims where c': "cl_shiftElements c ?start ?count (-1) = Inr (c', trims)" "cl_inv c'"
      "cl_list c' = keep_last (nat (cl_maxLength c)) (shifted ?start ?count (-1) (cl_list c))"
      using cl_shiftElements_spec [OF assms(1), of ?count ?start "-1"] False assms(3,4) len max by auto
    have "cl_list c' = H @ take t V @ take (b - t) (drop (t + 1) V) @ drop b V"
      unfolding c'(3) shift using max assms(3,4) by (intro keep_last_short) simp
    moreover have "cl_maxLength c' = cl_maxLength c"
      using c'(1) cl_shiftElements_maxLength by blast
    ultimately show ?thesis using c'(1) store [OF c'(2)] by blast
  qed
qed

lemma scroll_region_views:
  assumes ok: "place_ok s" "buffer_ok s" and v: "good_line (cu_cols s) v"
  shows "\<exists>s'. scroll_region v s = Done s' \<and> same_rest s s' \<and> buffer_ok s' \<and> cl_maxLength (lines s') = cl_maxLength (lines s)
    \<and> viewport s' = scrolled_up (nat (scrollTop s)) (nat (scrollBottom s)) (Some v) (viewport s)
    \<and> history s' = history s"
proof -
  have pos: "0 \<le> ybase s" "0 \<le> scrollTop s" "scrollTop s \<le> scrollBottom s" "scrollBottom s < cu_rows s" "0 \<le> cu_rows s"
    and inv: "cl_inv (lines s)"
    using ok by (auto simp: place_ok_def buffer_ok_def lines_ok_def)
  note lens = length_history [OF ok(2) pos(5)] length_viewport [OF ok(2) pos(5)]
  obtain c trims where c: "cl_shiftElements (lines s) (ybase s + scrollTop s + 1) (scrollBottom s - scrollTop s) (-1) = Inr (c, trims)"
    "cl_inv (cl_set c (ybase s + scrollBottom s) (Some v))" "cl_maxLength c = cl_maxLength (lines s)"
    "cl_list (cl_set c (ybase s + scrollBottom s) (Some v)) =
       history s @ scrolled_up (nat (scrollTop s)) (nat (scrollBottom s)) (Some v) (viewport s)"
    using shift_up_list [OF inv history_viewport [symmetric], of "nat (scrollTop s)" "nat (scrollBottom s)" "Some v"] lens pos
      nat_mono [OF pos(3)] by auto
  define s' where "s' = s\<lparr>lines := cl_set c (ybase s + scrollBottom s) (Some v)\<rparr>"
  have "scroll_region v s = Done s'"
    using c(1) by (simp add: scroll_region_def Let_def s'_def clone_same)
  moreover have "same_rest s s'" by (simp add: s'_def same_rest_def cursor.truncate_def)
  moreover have views: "history s' = history s \<and> viewport s' = scrolled_up (nat (scrollTop s)) (nat (scrollBottom s)) (Some v) (viewport s)"
    using c(4) lens by (intro views_split) (simp_all add: s'_def)
  moreover have "buffer_ok s'"
  proof -
    have "length (cl_list (lines s')) = nat (ybase s + cu_rows s)"
      using lens pos c(4) by (simp add: s'_def scrolled_up_def nat_add_distrib del: length_cl_list)
    then have "cl_length (lines s') = ybase s + cu_rows s"
      using cl_length_list [OF c(2)] pos by (simp only: s'_def screen.simps screen.select_convs) simp
    moreover have "set (cl_list (lines s')) \<subseteq> insert (Some v) (set (cl_list (lines s)))"
      unfolding s'_def using c(4) by (auto simp: scrolled_up_def history_viewport [of s, symmetric] dest: in_set_takeD in_set_dropD)
    then have "lines_ok (cu_cols s) (lines s')"
      using lines_ok_cong [OF _ _ _ v, of "lines s" "lines s'"] ok(2) c(2) by (simp add: buffer_ok_def s'_def)
    ultimately show ?thesis using ok(2) by (simp add: buffer_ok_def s'_def)
  qed
  ultimately show ?thesis using c(3) by (auto simp: s'_def)
qed

text \<open>Scrolling never throws on a well-formed screen, and this is what it does.\<close>

definition incoming :: "bool \<Rightarrow> screen \<Rightarrow> buffer_line" where
  "incoming w s = getBlankLine (cu_cols s) (eraseAttrData (eraseAttr s) (curAttrData s)) w"

lemma scroll_views:
  assumes "screen_ok s"
  shows "\<exists>s'. scroll w s = Done s' \<and> same_rest s s' \<and> screen_ok s' \<and> cl_maxLength (lines s') = cl_maxLength (lines s)
    \<and> viewport s' = scrolled_up (nat (scrollTop s)) (nat (scrollBottom s)) (Some (incoming w s)) (viewport s)
    \<and> history s' = (if scrollTop s = 0
        then keep_last (nat (cl_maxLength (lines s) - cu_rows s)) (history s @ [hd (viewport s)]) else history s)"
proof -
  define s1 where "s1 = scroll_line w (take_eraseAttr s)"
  have ok: "place_ok s" "buffer_ok s" using assms by (simp_all add: screen_ok_def)
  have s1: "s1 = (take_eraseAttr s)\<lparr>blankLine := Some (incoming w s)\<rparr>"
    unfolding s1_def incoming_def using ok by (subst scroll_line_blank) (simp_all add: place_ok_def)
  have rest1: "same_rest s s1" and views1: "history s1 = history s" "viewport s1 = viewport s" and l1: "lines s1 = lines s"
    by (simp_all add: s1 take_eraseAttr_def same_rest_def cursor.truncate_def history_def viewport_def)
  have good: "good_line (cu_cols s1) (incoming w s)"
    using ok by (simp add: incoming_def s1 good_blank place_ok_def)
  have ok1: "place_ok s1" "buffer_ok s1"
    using ok rest1 by (auto simp: same_rest_place s1 buffer_ok_def take_eraseAttr_def incoming_def)
  define moved where "moved = (if scrollTop s1 = 0
        then and_then (scroll_append (incoming w s) s1) (\<lambda>s2. Done (scroll_counters (cl_isFull (lines s1)) s2))
        else scroll_region (incoming w s) s1)"
  have "\<exists>s2. moved = Done s2 \<and> same_rest s1 s2 \<and> buffer_ok s2 \<and> cl_maxLength (lines s2) = cl_maxLength (lines s)
      \<and> viewport s2 = scrolled_up (nat (scrollTop s)) (nat (scrollBottom s)) (Some (incoming w s)) (viewport s)
      \<and> history s2 = (if scrollTop s = 0
          then keep_last (nat (cl_maxLength (lines s) - cu_rows s)) (history s @ [hd (viewport s)]) else history s)"
    using scroll_append_views [OF ok1 good] scroll_region_views [OF ok1 good]
    by (cases "scrollTop s = 0") (auto simp: moved_def same_rest_cursor [OF rest1] views1 l1)
  then obtain s2 where s2: "moved = Done s2" "same_rest s1 s2" "buffer_ok s2" "cl_maxLength (lines s2) = cl_maxLength (lines s)"
      "viewport s2 = scrolled_up (nat (scrollTop s)) (nat (scrollBottom s)) (Some (incoming w s)) (viewport s)"
      "history s2 = (if scrollTop s = 0
          then keep_last (nat (cl_maxLength (lines s) - cu_rows s)) (history s @ [hd (viewport s)]) else history s)"
    by blast
  define s3 where "s3 = (if \<not> userScrolling s2 then s2\<lparr>ydisp := ybase s2\<rparr> else s2)"
  define s' where "s' = (updateRange (scrollBottom s3) (updateRange (scrollTop s3) s3))\<lparr>scrolled := scrolled s3 @ [ydisp s3]\<rparr>"
  have "scroll w s = Done s'"
  proof -
    have the: "the (blankLine s1) = incoming w s" by (simp add: s1)
    have "scroll w s = and_then moved (\<lambda>s2.
        let s3 = (if \<not> userScrolling s2 then s2\<lparr>ydisp := ybase s2\<rparr> else s2);
            s4 = updateRange (scrollBottom s3) (updateRange (scrollTop s3) s3)
        in Done (s4\<lparr>scrolled := scrolled s4 @ [ydisp s4]\<rparr>))"
      by (simp only: scroll_def s1_def [symmetric] Let_def the moved_def)
    then show ?thesis using s2(1) by (simp add: Let_def s3_def s'_def)
  qed
  moreover have rest3: "same_rest s2 s3" "buffer_ok s3" "lines s3 = lines s2" "history s3 = history s2" "viewport s3 = viewport s2"
    using s2(3) by (auto simp: s3_def same_rest_def cursor.truncate_def buffer_ok_def history_def viewport_def)
  have rest': "same_rest s3 s'" "buffer_ok s'" "lines s' = lines s3" "history s' = history s3" "viewport s' = viewport s3"
    using rest3(2) by (auto simp: s'_def same_rest_def cursor.truncate_def buffer_ok_def history_def viewport_def)
  have "same_rest s s'" using rest1 s2(2) rest3(1) rest'(1) by (blast intro: rest_trans)
  moreover have "screen_ok s'" using ok(1) rest'(2) same_rest_place [OF \<open>same_rest s s'\<close>] by (simp add: screen_ok_def)
  ultimately show ?thesis using s2 rest3 rest' by simp
qed

end
