(* ===== verification/Screen_Edits.thy ===== *)
theory Screen_Edits
  imports Screen_Scroll
begin

text \<open>
  The handlers that change lines in place, that take lines out and put blank ones in, and that erase:
  what each does to the rows of a well-formed screen, and that none of them throws there.
\<close>

subsection \<open>Changing a line in place\<close>

lemma buffer_ok_lines:
  assumes "buffer_ok s" and "lines_ok (cu_cols s) c" and "cl_length c = cl_length (lines s)"
  shows "buffer_ok (s\<lparr>lines := c\<rparr>)"
  using assms by (simp add: buffer_ok_def)

lemma same_rest_lines [simp]: "same_rest s (s\<lparr>lines := c\<rparr>)"
  by (simp add: same_rest_def cursor.truncate_def)

lemma lines_ok_get:
  assumes "lines_ok n c" and "0 \<le> k" and "k < cl_length c"
  obtains l where "cl_get c k = Some l" and "good_line n l" and "cl_list c ! nat k = Some l"
proof -
  have "nat k < length (cl_list c)" using assms by simp
  then have "cl_list c ! nat k \<in> set (cl_list c)" by (rule nth_mem)
  moreover have "cl_list c ! nat k = cl_get c k" using assms by (simp add: cl_list_nth)
  ultimately show ?thesis using assms(1) that by (force simp: lines_ok_def)
qed

lemma on_line_ok:
  assumes "buffer_ok s" and "0 \<le> k" and "k < ybase s + cu_rows s"
    and "\<And>l. good_line (cu_cols s) l \<Longrightarrow> good_line (cu_cols s) (f l)"
  shows "\<exists>c l. on_line k f s = Done (s\<lparr>lines := c\<rparr>) \<and> buffer_ok (s\<lparr>lines := c\<rparr>) \<and> cl_maxLength c = cl_maxLength (lines s)
    \<and> cl_length c = cl_length (lines s) \<and> cl_list (lines s) ! nat k = Some l \<and> good_line (cu_cols s) l
    \<and> cl_list c = (cl_list (lines s))[nat k := Some (f l)]"
proof -
  have ok: "lines_ok (cu_cols s) (lines s)" and len: "cl_length (lines s) = ybase s + cu_rows s"
    using assms(1) by (simp_all add: buffer_ok_def)
  obtain l where l: "cl_get (lines s) k = Some l" "good_line (cu_cols s) l" "cl_list (lines s) ! nat k = Some l"
    using lines_ok_get [OF ok] assms(2,3) len by metis
  let ?c = "cl_set (lines s) k (Some (f l))"
  have list: "cl_list ?c = (cl_list (lines s))[nat k := Some (f l)]"
    using ok assms(2,3) len by (intro cl_list_set) (simp_all add: lines_ok_def)
  have "lines_ok (cu_cols s) ?c"
    using lines_ok_cong [OF ok _ _ assms(4) [OF l(2)], of ?c] ok set_update_subset_insert
    by (fastforce simp: list lines_ok_def cl_inv_set)
  then have "buffer_ok (s\<lparr>lines := ?c\<rparr>)" using assms(1) by (intro buffer_ok_lines) simp_all
  then show ?thesis using l list by (intro exI [of _ ?c] exI [of _ l]) (simp add: on_line_def)
qed

text \<open>For a row of the screen: the other rows and the history stay.\<close>

lemma on_row_ok:
  assumes "screen_ok s" and "0 \<le> y" and "y < cu_rows s"
    and "\<And>l. good_line (cu_cols s) l \<Longrightarrow> good_line (cu_cols s) (f l)"
  shows "\<exists>s' l. on_line (y + ybase s) f s = Done s' \<and> screen_ok s' \<and> same_rest s s' \<and> eraseAttr s' = eraseAttr s
    \<and> viewport s ! nat y = Some l \<and> good_line (cu_cols s) l
    \<and> viewport s' = (viewport s)[nat y := Some (f l)] \<and> history s' = history s \<and> ybase s' = ybase s \<and> lineFeeds s' = lineFeeds s
    \<and> cl_length (lines s') = cl_length (lines s)"
proof -
  have ok: "place_ok s" "buffer_ok s" "0 \<le> ybase s" using assms(1) by (auto simp: screen_ok_def buffer_ok_def)
  obtain c l where c: "on_line (y + ybase s) f s = Done (s\<lparr>lines := c\<rparr>)" "buffer_ok (s\<lparr>lines := c\<rparr>)"
    "cl_list (lines s) ! nat (y + ybase s) = Some l" "good_line (cu_cols s) l" "cl_length c = cl_length (lines s)"
    "cl_list c = (cl_list (lines s))[nat (y + ybase s) := Some (f l)]"
    using on_line_ok [OF ok(2), of "y + ybase s" f] assms(2,3,4) ok(3) by auto
  have n: "nat (y + ybase s) = nat (ybase s) + nat y" using assms(2) ok(3) by (simp add: nat_add_distrib)
  have len: "length (cl_list (lines s)) = nat (ybase s) + nat (cu_rows s)"
    using ok(2) assms(2,3) by (simp add: buffer_ok_def nat_add_distrib)
  have "viewport s ! nat y = Some l" using c(3) len by (simp add: viewport_def n)
  moreover have "viewport (s\<lparr>lines := c\<rparr>) = (viewport s)[nat y := Some (f l)]"
    using len by (simp add: viewport_def c(6) n drop_update_swap)
  moreover have "history (s\<lparr>lines := c\<rparr>) = history s" by (simp add: history_def c(6) n)
  moreover have "screen_ok (s\<lparr>lines := c\<rparr>)" using ok(1) c(2) by (simp add: screen_ok_def place_ok_def)
  ultimately show ?thesis using c by (intro exI [of _ "s\<lparr>lines := c\<rparr>"] exI [of _ l]) simp
qed

subsection \<open>Lines out and in\<close>

text \<open>Within the rows of the screen: a line leaves at \<open>out\<close>, a blank one enters at \<open>into\<close>.\<close>

definition swapped :: "nat \<Rightarrow> nat \<Rightarrow> 'a \<Rightarrow> 'a list \<Rightarrow> 'a list" where
  "swapped out into v xs = (let ys = take out xs @ drop (out + 1) xs in take into ys @ [v] @ drop into ys)"

lemma swap_line_views:
  fixes a :: attribute_data
  assumes "screen_ok s" and "out < nat (cu_rows s)" and "into < nat (cu_rows s)"
  defines "s' \<equiv> swap_line (ybase s + int out) (ybase s + int into) a s"
  shows "screen_ok s'" and "s' = s\<lparr>lines := lines s'\<rparr>"
    and "viewport s' = swapped out into (Some (getBlankLine (cu_cols s) a False)) (viewport s)"
    and "history s' = history s"
proof -
  let ?v = "Some (getBlankLine (cu_cols s) a False)"
  have ok: "place_ok s" "buffer_ok s" "lines_ok (cu_cols s) (lines s)" "cl_inv (lines s)" "0 \<le> ybase s" "0 < cu_cols s" "0 < cu_rows s"
    using assms(1) by (auto simp: screen_ok_def buffer_ok_def lines_ok_def place_ok_def)
  have len: "cl_length (lines s) = ybase s + cu_rows s" and le: "cl_length (lines s) \<le> cl_maxLength (lines s)"
    using ok by (auto simp: buffer_ok_def cl_inv_def)
  have lens: "length (history s) = nat (ybase s)" "length (viewport s) = nat (cu_rows s)"
    using length_history [OF ok(2)] length_viewport [OF ok(2)] ok(7) by simp_all
  define c1 where "c1 = fst (cl_splice (lines s) (ybase s + int out) 1 [])"
  let ?Y = "take out (viewport s) @ drop (out + 1) (viewport s)"
  have n: "nat (ybase s + int out) = nat (ybase s) + out" "nat (ybase s + int out + 1) = nat (ybase s) + (out + 1)"
    "nat (ybase s + int into) = nat (ybase s) + into" using ok(5) by linarith+
  have sp1: "spliced (ybase s + int out) 1 [] (cl_list (lines s)) = history s @ ?Y"
    using lens by (simp add: spliced_def n history_viewport [of s, symmetric])
  have c1: "cl_inv c1 \<and> cl_list c1 = keep_last (nat (cl_maxLength (lines s))) (history s @ ?Y)"
    using cl_splice_spec [OF ok(4), of "ybase s + int out" 1 "[]"] len le ok(5) assms(2) unfolding c1_def sp1 [symmetric] by simp
  have lY: "length (history s @ ?Y) = nat (ybase s + cu_rows s) - 1"
    using lens assms(2) ok(5) by (simp add: nat_add_distrib)
  then have list1: "cl_list c1 = history s @ ?Y"
    using c1 len le by (simp add: keep_last_short)
  have len1: "cl_length c1 = ybase s + cu_rows s - 1"
    using cl_length_list [of c1] c1 lY ok(5,7) unfolding list1 by linarith
  define c2 where "c2 = fst (cl_splice c1 (ybase s + int into) 0 [?v])"
  have max1: "cl_maxLength c1 = cl_maxLength (lines s)" "cl_maxLength c2 = cl_maxLength (lines s)" by (simp_all add: c1_def c2_def)
  have sp2: "spliced (ybase s + int into) 0 [?v] (cl_list c1) = history s @ swapped out into ?v (viewport s)"
    using lens by (simp add: spliced_def n list1 swapped_def Let_def)
  have c2: "cl_inv c2 \<and> cl_list c2 = keep_last (nat (cl_maxLength (lines s))) (history s @ swapped out into ?v (viewport s))"
    using cl_splice_spec [of c1 "ybase s + int into" 0 "[?v]"] c1 len1 le len ok(5) assms(3) max1
    unfolding c2_def sp2 [symmetric] by simp
  have lS: "length (swapped out into ?v (viewport s)) = nat (cu_rows s)"
    using lens assms(2,3) by (simp add: swapped_def)
  have list2: "cl_list c2 = history s @ swapped out into ?v (viewport s)"
    using c2 len le lens lS ok(5,7) by (simp add: keep_last_short)
  have s': "s' = s\<lparr>lines := c2\<rparr>" by (simp add: s'_def swap_line_def c1_def c2_def)
  show "s' = s\<lparr>lines := lines s'\<rparr>" by (simp add: s')
  have "history s' = history s \<and> viewport s' = swapped out into ?v (viewport s)"
    using list2 lens by (intro views_split) (simp_all add: s')
  then show "history s' = history s" "viewport s' = swapped out into ?v (viewport s)" by simp_all
  have "cl_length c2 = ybase s + cu_rows s"
    using cl_length_list [of c2] c2 list2 lens lS ok(5,7) by simp
  moreover have "set (cl_list c2) \<subseteq> insert ?v (set (cl_list (lines s)))"
    unfolding list2 by (auto simp: swapped_def Let_def history_viewport [of s, symmetric] dest!: in_set_takeD in_set_dropD)
  then have "lines_ok (cu_cols s) c2"
    using lines_ok_cong [OF ok(3) _ _ good_blank [of "cu_cols s" a False], of c2] c2 ok(6) by simp
  ultimately show "screen_ok s'"
    using ok(1,2) by (simp add: screen_ok_def s' buffer_ok_def place_ok_def)
qed

text \<open>
  Lines \<open>a\<close> to \<open>b\<close> of a list: \<open>n\<close> entries come in at the top, or go out there, and the other end
  of the range gives way or fills up.
\<close>

definition rows_inserted :: "nat \<Rightarrow> nat \<Rightarrow> nat \<Rightarrow> 'a \<Rightarrow> 'a list \<Rightarrow> 'a list" where
  "rows_inserted n a b v xs =
     take a xs @ take (b + 1 - a) (replicate n v @ drop a (take (b + 1) xs)) @ drop (b + 1) xs"

definition rows_deleted :: "nat \<Rightarrow> nat \<Rightarrow> nat \<Rightarrow> 'a \<Rightarrow> 'a list \<Rightarrow> 'a list" where
  "rows_deleted n a b v xs =
     take a xs @ drop n (drop a (take (b + 1) xs) @ replicate n v) @ drop (b + 1) xs"

lemma rows_none: "a \<le> b \<Longrightarrow> rows_inserted 0 a b v xs = xs" "a \<le> b \<Longrightarrow> rows_deleted 0 a b v xs = xs"
proof -
  assume "a \<le> b"
  then have "take a xs @ drop a (take (b + 1) xs) = take (b + 1) xs"
    using append_take_drop_id [of a "take (b + 1) xs"] by simp
  then have "take a xs @ drop a (take (b + 1) xs) @ drop (b + 1) xs = xs"
    using append_take_drop_id [of "b + 1" xs] by (simp flip: append_assoc)
  then show "rows_inserted 0 a b v xs = xs" "rows_deleted 0 a b v xs = xs"
    by (simp_all add: rows_inserted_def rows_deleted_def)
qed

lemma swapped_parts:
  assumes "length A = a" and "length M = b + 1 - a" and "a \<le> b"
  shows "swapped b a v (A @ M @ C) = A @ (v # butlast M) @ C" and "swapped a b v (A @ M @ C) = A @ (tl M @ [v]) @ C"
proof -
  obtain x M' where M: "M = x # M'" "length M' = b - a" using assms by (cases M) auto
  show "swapped a b v (A @ M @ C) = A @ (tl M @ [v]) @ C"
    using assms by (simp add: swapped_def M Let_def)
  obtain N z where N: "M = N @ [z]" "length N = b - a" using assms by (cases M rule: rev_cases) auto
  show "swapped b a v (A @ M @ C) = A @ (v # butlast M) @ C"
    using assms by (simp add: swapped_def N Let_def)
qed

lemma rows_inserted_Suc:
  assumes "a \<le> b" and "b < length xs"
  shows "swapped b a v (rows_inserted n a b v xs) = rows_inserted (Suc n) a b v xs"
proof -
  define X where "X = replicate n v @ drop a (take (b + 1) xs)"
  have X: "b + 1 - a \<le> length X" using assms by (simp add: X_def)
  have m: "b + 1 - a = Suc (b - a)" using assms by simp
  have "length (take (b + 1 - a) X) = b + 1 - a" "length (take a xs) = a" using X assms by simp_all
  moreover have "v # butlast (take (b + 1 - a) X) = take (b + 1 - a) (v # X)"
    using butlast_take [OF X] unfolding m by simp
  ultimately show ?thesis
    using swapped_parts(1) [of "take a xs" a "take (b + 1 - a) X" b v "drop (b + 1) xs"] assms(1)
    by (simp only: rows_inserted_def X_def replicate_Suc append_Cons)
qed

lemma rows_deleted_Suc:
  assumes "a \<le> b" and "b < length xs"
  shows "swapped a b v (rows_deleted n a b v xs) = rows_deleted (Suc n) a b v xs"
proof -
  let ?M = "drop n (drop a (take (b + 1) xs) @ replicate n v)"
  have len: "length ?M = b + 1 - a" "length (take a xs) = a" using assms by auto
  have "tl ?M = drop (Suc n) (drop a (take (b + 1) xs) @ replicate n v)" by (simp only: drop_Suc tl_drop)
  then have "tl ?M @ [v] = drop (Suc n) ((drop a (take (b + 1) xs) @ replicate n v) @ [v])"
    using assms by (simp add: drop_append)
  also have "(drop a (take (b + 1) xs) @ replicate n v) @ [v] = drop a (take (b + 1) xs) @ replicate (Suc n) v"
    by (simp add: replicate_append_same)
  finally show ?thesis using swapped_parts(2) [OF len(2,1) assms(1), of v "drop (b + 1) xs"]
    by (simp add: rows_deleted_def)
qed

lemma take_eraseAttr_rows [simp]: "cu_rows (take_eraseAttr s) = cu_rows s"
  by (simp add: take_eraseAttr_def)

text \<open>Taking the erase attributes again changes nothing.\<close>

lemma erase_again: "eraseAttrData (eraseAttrData e a) a = eraseAttrData e a"
proof -
  have "put m v (put m v w) = put m v w" for m v w
    by (rule bit_word_eqI) (auto simp: put_def bit_simps)
  then show ?thesis by (simp add: eraseAttrData_def)
qed

lemma take_eraseAttr_again: "take_eraseAttr (take_eraseAttr s) = take_eraseAttr s"
  by (simp add: take_eraseAttr_def erase_again)

lemma take_eraseAttr_ok: "screen_ok (take_eraseAttr s) = screen_ok s"
  by (simp add: screen_ok_def)

text \<open>A number of swaps in a row, from a screen whose erase attributes are taken.\<close>

lemma swaps_views:
  fixes a :: attribute_data
  assumes "screen_ok s" and "lo \<le> hi" and "hi < nat (cu_rows s)"
  defines "v \<equiv> Some (getBlankLine (cu_cols s) a False)"
  shows "\<exists>c. ((\<lambda>s. swap_line (ybase s + int hi) (ybase s + int lo) a s) ^^ n) s = s\<lparr>lines := c\<rparr> \<and> screen_ok (s\<lparr>lines := c\<rparr>)
      \<and> viewport (s\<lparr>lines := c\<rparr>) = rows_inserted n lo hi v (viewport s) \<and> history (s\<lparr>lines := c\<rparr>) = history s"
    and "\<exists>c. ((\<lambda>s. swap_line (ybase s + int lo) (ybase s + int hi) a s) ^^ n) s = s\<lparr>lines := c\<rparr> \<and> screen_ok (s\<lparr>lines := c\<rparr>)
      \<and> viewport (s\<lparr>lines := c\<rparr>) = rows_deleted n lo hi v (viewport s) \<and> history (s\<lparr>lines := c\<rparr>) = history s"
proof -
  have len: "hi < length (viewport s)"
    using length_viewport [of s] assms(1,3) by (auto simp: screen_ok_def place_ok_def)
  show "\<exists>c. ((\<lambda>s. swap_line (ybase s + int hi) (ybase s + int lo) a s) ^^ n) s = s\<lparr>lines := c\<rparr> \<and> screen_ok (s\<lparr>lines := c\<rparr>)
      \<and> viewport (s\<lparr>lines := c\<rparr>) = rows_inserted n lo hi v (viewport s) \<and> history (s\<lparr>lines := c\<rparr>) = history s"
  proof (induction n)
    case 0
    show ?case using assms(1,2) rows_none(1) [OF assms(2), of v "viewport s"] by (intro exI [of _ "lines s"]) simp
  next
    case (Suc n)
    then obtain c where c: "((\<lambda>s. swap_line (ybase s + int hi) (ybase s + int lo) a s) ^^ n) s = s\<lparr>lines := c\<rparr>"
      "screen_ok (s\<lparr>lines := c\<rparr>)" "viewport (s\<lparr>lines := c\<rparr>) = rows_inserted n lo hi v (viewport s)" "history (s\<lparr>lines := c\<rparr>) = history s"
      by blast
    from swap_line_views [OF c(2), of hi lo a] show ?case
      using c assms(2,3) rows_inserted_Suc [OF assms(2) len, of v n]
      by (intro exI [of _ "lines (swap_line (ybase s + int hi) (ybase s + int lo) a (s\<lparr>lines := c\<rparr>))"]) (simp add: v_def)
  qed
  show "\<exists>c. ((\<lambda>s. swap_line (ybase s + int lo) (ybase s + int hi) a s) ^^ n) s = s\<lparr>lines := c\<rparr> \<and> screen_ok (s\<lparr>lines := c\<rparr>)
      \<and> viewport (s\<lparr>lines := c\<rparr>) = rows_deleted n lo hi v (viewport s) \<and> history (s\<lparr>lines := c\<rparr>) = history s"
  proof (induction n)
    case 0
    show ?case using assms(1,2) rows_none(2) [OF assms(2), of v "viewport s"] by (intro exI [of _ "lines s"]) simp
  next
    case (Suc n)
    then obtain c where c: "((\<lambda>s. swap_line (ybase s + int lo) (ybase s + int hi) a s) ^^ n) s = s\<lparr>lines := c\<rparr>"
      "screen_ok (s\<lparr>lines := c\<rparr>)" "viewport (s\<lparr>lines := c\<rparr>) = rows_deleted n lo hi v (viewport s)" "history (s\<lparr>lines := c\<rparr>) = history s"
      by blast
    from swap_line_views [OF c(2), of lo hi a] show ?case
      using c assms(2,3) rows_deleted_Suc [OF assms(2) len, of v n]
      by (intro exI [of _ "lines (swap_line (ybase s + int lo) (ybase s + int hi) a (s\<lparr>lines := c\<rparr>))"]) (simp add: v_def)
  qed
qed

subsection \<open>Erasing\<close>

definition cell_of :: "screen \<Rightarrow> int \<Rightarrow> int \<Rightarrow> cell_data" where
  "cell_of s y x = cell_at (the (viewport s ! nat y)) x"

text \<open>The cells of the screen that are erased, for a set of places, and that the rest of them stays.\<close>

definition erases :: "(int \<times> int) set \<Rightarrow> screen \<Rightarrow> screen \<Rightarrow> bool" where
  "erases P s s' \<longleftrightarrow> screen_ok s' \<and> same_rest s s' \<and> ybase s' = ybase s \<and> cl_length (lines s') = cl_length (lines s)
     \<and> eraseAttrData (eraseAttr s') (curAttrData s') = eraseAttrData (eraseAttr s) (curAttrData s)
     \<and> (\<forall>y x. 0 \<le> y \<and> y < cu_rows s \<and> 0 \<le> x \<and> x < cu_cols s \<longrightarrow>
         cell_of s' y x = (if (y, x) \<in> P then getNullCell (Some (eraseAttrData (eraseAttr s) (curAttrData s))) else cell_of s y x))"

lemma erases_none: "screen_ok s \<Longrightarrow> erases {} s s"
  by (simp add: erases_def)

lemma erases_trans: "erases P s t \<Longrightarrow> erases Q t u \<Longrightarrow> erases (P \<union> Q) s u"
proof -
  assume st: "erases P s t" and tu: "erases Q t u"
  then have same: "same_rest s t" "same_rest t u" by (simp_all add: erases_def)
  have size: "cu_rows t = cu_rows s" "cu_cols t = cu_cols s" using same_rest_cursor [OF same(1)] by simp_all
  have rest: "same_rest s u" using same by (rule rest_trans)
  have null: "eraseAttrData (eraseAttr t) (curAttrData t) = eraseAttrData (eraseAttr s) (curAttrData s)"
    using st by (simp add: erases_def)
  show ?thesis
    using st tu rest unfolding erases_def size null by simp
qed

lemma erases_updateRange:
  assumes "erases P s t"
  shows "erases P s (updateRange y t)"
proof -
  have "same_rest s (updateRange y t)" using assms rest_trans [OF _ same_rest_updateRange] by (auto simp: erases_def)
  moreover have "place_ok (updateRange y t) = place_ok t" by (simp add: place_ok_def)
  ultimately show ?thesis using assms by (simp add: erases_def screen_ok_def cell_of_def)
qed

lemma replace_span_cells:
  assumes "good_line cols l" and "0 \<le> a" and "0 \<le> x" and "x < cols"
  shows "cell_at (replace_span (Some a) (Some b) f l) x = (if a \<le> x \<and> x < b then kept f else cell_at l x)"
proof -
  have l: "line_ok l" "bl_length l = cols" using assms(1) by (simp_all add: good_line_def)
  show ?thesis
  proof (cases "a \<le> min b cols")
    case True
    then show ?thesis
      using fill_from_spec [OF l(1) assms(2) True] assms(3,4) l(2) by (simp add: replace_span_def replaceCells_def)
  next
    case False
    then have "fill_from l a (min b cols) f = l" unfolding fill_from_def by (intro for_up_empty) linarith
    then show ?thesis using False assms(3,4) l(2) by (auto simp: replace_span_def replaceCells_def)
  qed
qed

lemma kept_null: "kept (getNullCell a) = getNullCell a"
  by (simp add: kept_def getNullCell_def fromCharData_def setFromCharData_def new_cell_def Let_def split: option.split)

lemma cell_at_wrapped [simp]: "cell_at (l\<lparr>bl_isWrapped := b\<rparr>) x = cell_at l x"
  by (simp add: cell_at_def loadCell_def Let_def)

lemma erase_line_ok:
  assumes "screen_ok s" and "0 \<le> y" and "y < cu_rows s"
  shows "\<exists>s'. eraseInBufferLine y a b cw s = Done s' \<and> screen_ok s' \<and> same_rest s s'"
    and "0 \<le> i \<Longrightarrow> \<exists>s'. eraseInBufferLine y (Some i) (Some k) cw s = Done s' \<and> erases {(y, x) |x. i \<le> x \<and> x < k} s s'"
proof -
  let ?t = "take_eraseAttr s" and ?n = "getNullCell (Some (eraseAttrData (eraseAttr s) (curAttrData s)))"
  have t: "screen_ok ?t" "0 \<le> y" "y < cu_rows ?t"
    using assms by (simp_all add: take_eraseAttr_ok)
  have row: "\<exists>s' l. eraseInBufferLine y a b cw s = Done s' \<and> screen_ok s' \<and> same_rest s s' \<and> eraseAttr s' = eraseAttr ?t
      \<and> viewport s ! nat y = Some l \<and> good_line (cu_cols s) l \<and> ybase s' = ybase s \<and> cl_length (lines s') = cl_length (lines s)
      \<and> viewport s' = (viewport s)[nat y := Some (let l1 = replace_span a b ?n l in if cw then l1\<lparr>bl_isWrapped := False\<rparr> else l1)]"
    for a b
  proof -
    let ?f = "\<lambda>l. let l1 = replace_span a b ?n l in if cw then l1\<lparr>bl_isWrapped := False\<rparr> else l1"
    have "\<exists>s' l. on_line (y + ybase ?t) ?f ?t = Done s' \<and> screen_ok s' \<and> same_rest ?t s' \<and> eraseAttr s' = eraseAttr ?t
      \<and> viewport ?t ! nat y = Some l \<and> good_line (cu_cols ?t) l \<and> viewport s' = (viewport ?t)[nat y := Some (?f l)]
      \<and> history s' = history ?t \<and> ybase s' = ybase ?t \<and> lineFeeds s' = lineFeeds ?t \<and> cl_length (lines s') = cl_length (lines ?t)"
      using t by (rule on_row_ok) (simp add: Let_def good_lines)
    moreover have "eraseInBufferLine y a b cw s = on_line (y + ybase ?t) ?f ?t"
      by (simp only: eraseInBufferLine_def Let_def take_eraseAttr_simps(9) add.commute [of _ y])
    moreover have "same_rest s s'" if "same_rest ?t s'" for s'
      using that by (rule rest_trans [OF take_eraseAttr_simps(2)])
    ultimately show ?thesis by (simp only: take_eraseAttr_simps take_eraseAttr_rows) blast
  qed
  from row [of a b] show "\<exists>s'. eraseInBufferLine y a b cw s = Done s' \<and> screen_ok s' \<and> same_rest s s'" by blast
  assume i: "0 \<le> i"
  from row [of "Some i" "Some k"] obtain s' l where s': "eraseInBufferLine y (Some i) (Some k) cw s = Done s'" "screen_ok s'" "same_rest s s'"
    "eraseAttr s' = eraseAttr ?t" "viewport s ! nat y = Some l" "good_line (cu_cols s) l" "ybase s' = ybase s"
    "cl_length (lines s') = cl_length (lines s)"
    "viewport s' = (viewport s)[nat y := Some (let l1 = replace_span (Some i) (Some k) ?n l in if cw then l1\<lparr>bl_isWrapped := False\<rparr> else l1)]"
    by blast
  have len: "nat y < length (viewport s)"
    using length_viewport [of s] assms by (auto simp: screen_ok_def place_ok_def)
  have "cell_of s' y' x = (if (y', x) \<in> {(y, x) |x. i \<le> x \<and> x < k} then ?n else cell_of s y' x)"
    if "0 \<le> y'" "y' < cu_rows s" "0 \<le> x" "x < cu_cols s" for y' x
  proof (cases "y' = y")
    case True
    have "cell_at (replace_span (Some i) (Some k) ?n l) x = (if i \<le> x \<and> x < k then ?n else cell_at l x)"
      using replace_span_cells [OF s'(6) i that(3,4)] by (simp add: kept_null)
    then show ?thesis using True len by (simp add: cell_of_def s'(9) s'(5) Let_def)
  next
    case False
    then have "nat y' \<noteq> nat y" using that(1) assms(2) by simp
    then show ?thesis using False by (simp add: cell_of_def s'(9))
  qed
  then have "erases {(y, x) |x. i \<le> x \<and> x < k} s s'"
    using s'(2,3,4,7,8) same_rest_cursor(9) [OF s'(3)] by (simp add: erases_def erase_again)
  then show "\<exists>s'. eraseInBufferLine y (Some i) (Some k) cw s = Done s' \<and> erases {(y, x) |x. i \<le> x \<and> x < k} s s'"
    using s'(1) by blast
qed

lemma reset_rows:
  assumes "screen_ok s" and "set ys \<subseteq> {0..<cu_rows s}"
  shows "\<exists>s'. each resetBufferLine ys s = Done s' \<and> erases {(y, x). y \<in> set ys \<and> 0 \<le> x \<and> x < cu_cols s} s s'"
  using assms
proof (induction ys arbitrary: s)
  case Nil
  then show ?case using erases_none by simp
next
  case (Cons y ys)
  obtain s1 where s1: "resetBufferLine y s = Done s1" "erases {(y, x) |x. 0 \<le> x \<and> x < cu_cols s} s s1"
    using erase_line_ok(2) [OF Cons.prems(1), of y 0 "cu_cols s" True] Cons.prems(2) by (auto simp: resetBufferLine_def)
  then have same: "screen_ok s1" "cu_rows s1 = cu_rows s" "cu_cols s1 = cu_cols s"
    using same_rest_cursor by (auto simp: erases_def)
  with Cons obtain s' where s': "each resetBufferLine ys s1 = Done s'" "erases {(y, x). y \<in> set ys \<and> 0 \<le> x \<and> x < cu_cols s} s1 s'"
    by fastforce
  have "{(y, x) |x. 0 \<le> x \<and> x < cu_cols s} \<union> {(y, x). y \<in> set ys \<and> 0 \<le> x \<and> x < cu_cols s} =
      {(y', x). y' \<in> set (y # ys) \<and> 0 \<le> x \<and> x < cu_cols s}" by auto
  with erases_trans [OF s1(2) s'(2)] s1(1) s'(1) show ?case by simp
qed

text \<open>Changing the wrap mark of any line in the ring leaves all cells.\<close>

lemma mark_line_ok:
  assumes "screen_ok s" and "0 \<le> k" and "k < ybase s + cu_rows s"
  shows "\<exists>s'. on_line k (\<lambda>l. l\<lparr>bl_isWrapped := b\<rparr>) s = Done s' \<and> erases {} s s' \<and>
    (\<forall>i l. i < length (cl_list (lines s)) \<longrightarrow> cl_list (lines s) ! i = Some l \<longrightarrow>
      cl_list (lines s') ! i = Some (if i = nat k then l\<lparr>bl_isWrapped := b\<rparr> else l))"
proof -
  have ok: "place_ok s" "buffer_ok s" using assms(1) by (auto simp: screen_ok_def)
  obtain c l where c: "on_line k (\<lambda>l. l\<lparr>bl_isWrapped := b\<rparr>) s = Done (s\<lparr>lines := c\<rparr>)" "buffer_ok (s\<lparr>lines := c\<rparr>)"
    "cl_list (lines s) ! nat k = Some l" "cl_length c = cl_length (lines s)"
    "cl_list c = (cl_list (lines s))[nat k := Some (l\<lparr>bl_isWrapped := b\<rparr>)]"
    using on_line_ok [OF ok(2) assms(2,3), of "\<lambda>l. l\<lparr>bl_isWrapped := b\<rparr>"] by (auto simp: good_wrapped)
  have len: "length (cl_list (lines s)) = nat (ybase s + cu_rows s)" using ok(2) by (simp add: buffer_ok_def)
  have "cell_of (s\<lparr>lines := c\<rparr>) y x = cell_of s y x" if "0 \<le> y" "y < cu_rows s" for y x
  proof -
    have "nat (ybase s) + nat y < length (cl_list (lines s))"
      using that len ok(2) by (simp add: buffer_ok_def nat_add_distrib [symmetric] del: length_cl_list)
    then show ?thesis
      using c(3) by (cases "nat k = nat (ybase s) + nat y") (simp_all add: cell_of_def viewport_def c(5))
  qed
  then have "erases {} s (s\<lparr>lines := c\<rparr>)"
    using ok c(2,4) by (simp add: erases_def screen_ok_def place_ok_def)
  moreover have "cl_list c ! i = Some (if i = nat k then l'\<lparr>bl_isWrapped := b\<rparr> else l')"
    if "i < length (cl_list (lines s))" "cl_list (lines s) ! i = Some l'" for i l'
    using that c(3) by (auto simp: c(5) nth_list_update)
  ultimately show ?thesis using c(1) by auto
qed

text \<open>The places an erase in the display covers, from the cursor on, up to it, or all.\<close>

definition covered :: "nat \<Rightarrow> int \<Rightarrow> int \<Rightarrow> (int \<times> int) set" where
  "covered p cy cx = {(y, x). if p = 0 then y > cy \<or> y = cy \<and> x \<ge> cx else if p = 1 then y < cy \<or> y = cy \<and> x \<le> cx else p = 2}"

lemma erases_cong:
  "erases P s s' \<Longrightarrow> (\<And>y x. 0 \<le> y \<Longrightarrow> y < cu_rows s \<Longrightarrow> 0 \<le> x \<Longrightarrow> x < cu_cols s \<Longrightarrow> (y, x) \<in> P \<longleftrightarrow> (y, x) \<in> Q) \<Longrightarrow> erases Q s s'"
  by (simp add: erases_def)

lemma erases_start: "erases P (updateRange k s) s' = erases P s s'"
  by (simp add: erases_def cell_of_def same_rest_def cursor.truncate_def)

lemma erase_in_display:
  assumes "screen_ok s" and "cu_x s = Some x" and "hd params = p" and "p \<le> 2"
    and "p = 1 \<Longrightarrow> cu_cols s \<le> x + 1 \<Longrightarrow> cu_y s + 1 < cl_length (lines s)"
  shows "\<exists>s'. eraseInDisplay params s = Done s' \<and> erases (covered p (cu_y s) x) s s'"
proof -
  have y: "0 \<le> cu_y s" "cu_y s < cu_rows s" and x: "0 \<le> x" and len: "cl_length (lines s) = ybase s + cu_rows s"
    using assms by (auto simp: screen_ok_def place_ok_def buffer_ok_def)
  have ok: "screen_ok (updateRange k s)" for k using assms(1) by (simp add: screen_ok_def place_ok_def)
  consider "p = 0" | "p = 1" | "p = 2" using assms(4) by linarith
  then show ?thesis
  proof cases
    case 1
    let ?s = "updateRange (cu_y s) s"
    obtain s1 where s1: "eraseInBufferLine (cu_y s) (Some x) (Some (cu_cols s)) (x = 0) ?s = Done s1"
      "erases {(cu_y s, j) |j. x \<le> j \<and> j < cu_cols s} s s1"
      using erase_line_ok(2) [OF ok, of "cu_y s" "cu_y s" x "cu_cols s" "x = 0"] y x by (auto simp: erases_start)
    then have same: "screen_ok s1" "cu_y s1 = cu_y s" "cu_rows s1 = cu_rows s" "cu_cols s1 = cu_cols s"
      using same_rest_cursor [of s s1] by (auto simp: erases_def)
    obtain s2 where s2: "each resetBufferLine [cu_y s + 1..cu_rows s - 1] s1 = Done s2"
      "erases {(y, j). y \<in> set [cu_y s + 1..cu_rows s - 1] \<and> 0 \<le> j \<and> j < cu_cols s} s1 s2"
      using reset_rows [OF same(1), of "[cu_y s + 1..cu_rows s - 1]"] same y by fastforce
    have "eraseInDisplay params s = Done (updateRange (max (cu_y s2 + 1) (cu_rows s2)) s2)"
      using 1 assms(2,3) s1(1) s2(1) same by (simp add: eraseInDisplay_def)
    moreover have "erases (covered p (cu_y s) x) s (updateRange (max (cu_y s2 + 1) (cu_rows s2)) s2)"
      by (rule erases_updateRange, rule erases_cong [OF erases_trans [OF s1(2) s2(2)]]) (use 1 in \<open>auto simp: covered_def\<close>)
    ultimately show ?thesis by blast
  next
    case 2
    let ?s = "updateRange (cu_y s) s"
    obtain s1 where s1: "eraseInBufferLine (cu_y s) (Some 0) (Some (x + 1)) True ?s = Done s1"
      "erases {(cu_y s, j) |j. 0 \<le> j \<and> j < x + 1} s s1"
      using erase_line_ok(2) [OF ok, of "cu_y s" "cu_y s" 0 "x + 1" True] y x by (auto simp: erases_start)
    then have same: "screen_ok s1" "cu_y s1 = cu_y s" "cu_x s1 = cu_x s" "cu_cols s1 = cu_cols s" "cu_rows s1 = cu_rows s" "ybase s1 = ybase s"
      using same_rest_cursor [of s s1] by (auto simp: erases_def)
    have "\<exists>s2. (if x + 1 \<ge> cu_cols s1 then on_line (cu_y s1 + 1) (\<lambda>l. l\<lparr>bl_isWrapped := False\<rparr>) s1 else Done s1) = Done s2
        \<and> erases {} s1 s2"
      using mark_line_ok [OF same(1), of "cu_y s + 1" False] same y len assms(5) 2 erases_none [OF same(1)] by auto
    then obtain s2 where s2: "(if x + 1 \<ge> cu_cols s1 then on_line (cu_y s1 + 1) (\<lambda>l. l\<lparr>bl_isWrapped := False\<rparr>) s1 else Done s1) = Done s2"
      "erases {} s1 s2" by blast
    then have same2: "screen_ok s2" "cu_y s2 = cu_y s" "cu_cols s2 = cu_cols s" "cu_rows s2 = cu_rows s"
      using same_rest_cursor [of s1 s2] same by (auto simp: erases_def)
    obtain s3 where s3: "each resetBufferLine (rev [0..cu_y s - 1]) s2 = Done s3"
      "erases {(y, j). y \<in> set (rev [0..cu_y s - 1]) \<and> 0 \<le> j \<and> j < cu_cols s} s2 s3"
      using reset_rows [OF same2(1), of "rev [0..cu_y s - 1]"] same2 y by fastforce
    have "eraseInDisplay params s = Done (updateRange 0 s3)"
      using 2 assms(2,3) s1(1) s2(1) s3(1) same same2 y by (simp add: eraseInDisplay_def reset_down_def)
    moreover have "erases (covered p (cu_y s) x) s (updateRange 0 s3)"
      by (rule erases_updateRange, rule erases_cong [OF erases_trans [OF erases_trans [OF s1(2) s2(2)] s3(2)]])
        (use 2 in \<open>auto simp: covered_def\<close>)
    ultimately show ?thesis by blast
  next
    case 3
    obtain s1 where s1: "each resetBufferLine (rev [0..cu_rows s - 1]) (updateRange (cu_rows s - 1) s) = Done s1"
      "erases {(y, j). y \<in> set (rev [0..cu_rows s - 1]) \<and> 0 \<le> j \<and> j < cu_cols s} s s1"
      using reset_rows [OF ok, of "rev [0..cu_rows s - 1]" "cu_rows s - 1"]
      by (fastforce simp: erases_start)
    have "eraseInDisplay params s = Done (updateRange 0 s1)"
      using 3 assms(2,3) s1(1) y by (simp add: eraseInDisplay_def reset_down_def)
    moreover have "erases (covered p (cu_y s) x) s (updateRange 0 s1)"
      by (rule erases_updateRange, rule erases_cong [OF s1(2)]) (use 3 in \<open>auto simp: covered_def\<close>)
    ultimately show ?thesis by blast
  qed
qed

subsection \<open>The handlers that move lines\<close>

text \<open>The erase attributes are taken anew for every line, and are the same every time.\<close>

lemma erasing_swaps:
  fixes F :: "screen \<Rightarrow> screen"
  assumes "screen_ok s" and "lo \<le> hi" and "hi < nat (cu_rows s)"
    and F: "\<And>t. ybase t = ybase s \<Longrightarrow> cu_y t = cu_y s \<Longrightarrow>
      F t = swap_line (ybase t + int (if down then hi else lo)) (ybase t + int (if down then lo else hi))
        (eraseAttr (take_eraseAttr t)) (take_eraseAttr t)"
  shows "\<exists>c. (F ^^ Suc n) s = (take_eraseAttr s)\<lparr>lines := c\<rparr> \<and> screen_ok ((take_eraseAttr s)\<lparr>lines := c\<rparr>)
    \<and> viewport ((take_eraseAttr s)\<lparr>lines := c\<rparr>) =
        (if down then rows_inserted else rows_deleted) (Suc n) lo hi (Some (incoming False s)) (viewport s)
    \<and> history ((take_eraseAttr s)\<lparr>lines := c\<rparr>) = history s"
proof -
  define a where "a = eraseAttrData (eraseAttr s) (curAttrData s)"
  define g where "g = (\<lambda>s. swap_line (ybase s + int (if down then hi else lo)) (ybase s + int (if down then lo else hi)) a s)"
  let ?s = "take_eraseAttr s"
  have ok: "screen_ok ?s" "hi < nat (cu_rows ?s)" using assms(1,3) by (simp_all add: take_eraseAttr_ok)
  have views: "\<exists>c. (g ^^ m) ?s = ?s\<lparr>lines := c\<rparr> \<and> screen_ok (?s\<lparr>lines := c\<rparr>)
    \<and> viewport (?s\<lparr>lines := c\<rparr>) = (if down then rows_inserted else rows_deleted) m lo hi (Some (incoming False s)) (viewport s)
    \<and> history (?s\<lparr>lines := c\<rparr>) = history s" for m
    using swaps_views [OF ok(1) assms(2) ok(2), of m a] by (cases down) (simp_all add: g_def a_def incoming_def)
  have "(F ^^ Suc m) s = (g ^^ Suc m) ?s" for m
  proof (induction m)
    case 0
    show ?case using F [of s] by (simp add: g_def a_def)
  next
    case (Suc m)
    obtain c where c: "(g ^^ Suc m) ?s = ?s\<lparr>lines := c\<rparr>" using views [of "Suc m"] by blast
    have "take_eraseAttr (?s\<lparr>lines := c\<rparr>) = ?s\<lparr>lines := c\<rparr>" "eraseAttr (?s\<lparr>lines := c\<rparr>) = a"
      by (simp_all add: take_eraseAttr_def erase_again a_def)
    then have "F (?s\<lparr>lines := c\<rparr>) = g (?s\<lparr>lines := c\<rparr>)" using F [of "?s\<lparr>lines := c\<rparr>"] by (simp add: g_def)
    then show ?case using Suc c by simp
  qed
  then show ?thesis using views [of "Suc n"] by simp
qed

lemma at_least_one_Suc: "\<exists>n. nat (at_least_one params) = Suc n"
  using gr0_implies_Suc [of "nat (at_least_one params)"] by (auto simp: at_least_one_def)

lemma updateRange_ok: "screen_ok (updateRange a s) = screen_ok s"
  by (simp add: screen_ok_def place_ok_def)

lemma region_ranges:
  assumes "screen_ok s"
  shows "0 \<le> scrollTop s" "scrollTop s \<le> scrollBottom s" "scrollBottom s < cu_rows s" "0 \<le> cu_y s"
    "nat (scrollTop s) \<le> nat (scrollBottom s)" "nat (scrollBottom s) < nat (cu_rows s)"
  using assms by (auto simp: screen_ok_def place_ok_def)

lemma insert_delete_lines_views:
  fixes params :: "nat list"
  assumes "screen_ok s" and "cu_y s \<le> scrollBottom s"
  defines "n \<equiv> nat (at_least_one params)" and "v \<equiv> Some (incoming False s)"
  shows "screen_ok (insertLines params s) \<and> same_rest s (insertLines params s) \<and> history (insertLines params s) = history s
      \<and> viewport (insertLines params s) = rows_inserted n (nat (cu_y s)) (nat (scrollBottom s)) v (viewport s)"
    and "screen_ok (deleteLines params s) \<and> same_rest s (deleteLines params s) \<and> history (deleteLines params s) = history s
      \<and> viewport (deleteLines params s) = rows_deleted n (nat (cu_y s)) (nat (scrollBottom s)) v (viewport s)"
proof -
  obtain m where m: "n = Suc m" using at_least_one_Suc unfolding n_def by blast
  note r = region_ranges [OF assms(1)]
  have le: "nat (cu_y s) \<le> nat (scrollBottom s)" using assms(2) r by linarith
  define F where "F = (\<lambda>t. let s' = take_eraseAttr t in swap_line (ybase s + scrollBottom s) (row t) (eraseAttr s') s')"
  define G where "G = (\<lambda>t. let s' = take_eraseAttr t in swap_line (row t) (ybase s + scrollBottom s) (eraseAttr s') s')"
  obtain c where c: "(F ^^ n) s = (take_eraseAttr s)\<lparr>lines := c\<rparr>" "screen_ok ((take_eraseAttr s)\<lparr>lines := c\<rparr>)"
    "viewport ((take_eraseAttr s)\<lparr>lines := c\<rparr>) = rows_inserted n (nat (cu_y s)) (nat (scrollBottom s)) v (viewport s)"
    "history ((take_eraseAttr s)\<lparr>lines := c\<rparr>) = history s"
    using erasing_swaps [OF assms(1) le r(6), of F True m] r by (auto simp: F_def m v_def Let_def add.commute)
  obtain d where d: "(G ^^ n) s = (take_eraseAttr s)\<lparr>lines := d\<rparr>" "screen_ok ((take_eraseAttr s)\<lparr>lines := d\<rparr>)"
    "viewport ((take_eraseAttr s)\<lparr>lines := d\<rparr>) = rows_deleted n (nat (cu_y s)) (nat (scrollBottom s)) v (viewport s)"
    "history ((take_eraseAttr s)\<lparr>lines := d\<rparr>) = history s"
    using erasing_swaps [OF assms(1) le r(6), of G False m] r by (auto simp: G_def m v_def Let_def add.commute)
  have "insertLines params s = updateRange (scrollBottom s) (updateRange (cu_y s) ((take_eraseAttr s)\<lparr>lines := c\<rparr>))"
    using c(1) unfolding F_def n_def by (simp add: insertLines_def Let_def take_eraseAttr_def algebra_simps)
  then show "screen_ok (insertLines params s) \<and> same_rest s (insertLines params s) \<and> history (insertLines params s) = history s
      \<and> viewport (insertLines params s) = rows_inserted n (nat (cu_y s)) (nat (scrollBottom s)) v (viewport s)"
    using c by (simp add: updateRange_ok same_rest_def cursor.truncate_def take_eraseAttr_def)
  have "deleteLines params s = updateRange (scrollBottom s) (updateRange (cu_y s) ((take_eraseAttr s)\<lparr>lines := d\<rparr>))"
    using d(1) unfolding G_def n_def by (simp add: deleteLines_def Let_def take_eraseAttr_def algebra_simps)
  then show "screen_ok (deleteLines params s) \<and> same_rest s (deleteLines params s) \<and> history (deleteLines params s) = history s
      \<and> viewport (deleteLines params s) = rows_deleted n (nat (cu_y s)) (nat (scrollBottom s)) v (viewport s)"
    using d by (simp add: updateRange_ok same_rest_def cursor.truncate_def take_eraseAttr_def)
qed

lemma scroll_up_down_views:
  assumes "screen_ok s"
  defines "v \<equiv> Some (getBlankLine (cu_cols s) DEFAULT_ATTR_DATA False)"
  shows "screen_ok (scrollUp params s) \<and> same_rest s (scrollUp params s) \<and> history (scrollUp params s) = history s
      \<and> viewport (scrollUp params s) = rows_deleted (or_one params) (nat (scrollTop s)) (nat (scrollBottom s)) v (viewport s)"
    and "length params < 2 \<Longrightarrow> screen_ok (scrollDown params [] s) \<and> same_rest s (scrollDown params [] s)
      \<and> history (scrollDown params [] s) = history s
      \<and> viewport (scrollDown params [] s) = rows_inserted (or_one params) (nat (scrollTop s)) (nat (scrollBottom s)) v (viewport s)"
proof -
  note r = region_ranges [OF assms(1)]
  have b: "int (nat (scrollBottom s)) = scrollBottom s" "int (nat (scrollTop s)) = scrollTop s" using r by simp_all
  let ?U = "\<lambda>t. swap_line (ybase t + scrollTop t) (ybase t + scrollBottom t) DEFAULT_ATTR_DATA t"
    and ?D = "\<lambda>t. swap_line (ybase t + scrollBottom t) (ybase t + scrollTop t) DEFAULT_ATTR_DATA t"
  have pow: "(f ^^ n) s = (g ^^ n) s" if "\<And>c. f (s\<lparr>lines := c\<rparr>) = g (s\<lparr>lines := c\<rparr>)" "\<And>c. \<exists>d. g (s\<lparr>lines := c\<rparr>) = s\<lparr>lines := d\<rparr>"
    for f g :: "screen \<Rightarrow> screen" and n
  proof -
    have "\<exists>c. (g ^^ n) s = s\<lparr>lines := c\<rparr>" for n
    proof (induction n)
      case 0
      show ?case by (intro exI [of _ "lines s"]) simp
    qed (use that(2) in auto)
    then show ?thesis using that(1) by (induction n) (simp_all, metis)
  qed
  have swap: "\<exists>d. swap_line i j a (s\<lparr>lines := c\<rparr>) = s\<lparr>lines := d\<rparr>" for i j a c by (simp add: swap_line_def Let_def) blast
  obtain c where c: "(?U ^^ or_one params) s = s\<lparr>lines := c\<rparr>" "screen_ok (s\<lparr>lines := c\<rparr>)"
    "viewport (s\<lparr>lines := c\<rparr>) = rows_deleted (or_one params) (nat (scrollTop s)) (nat (scrollBottom s)) v (viewport s)"
    "history (s\<lparr>lines := c\<rparr>) = history s"
    using swaps_views(2) [OF assms(1) r(5,6), of "or_one params" DEFAULT_ATTR_DATA]
      pow [of ?U "\<lambda>t. swap_line (ybase t + int (nat (scrollTop s))) (ybase t + int (nat (scrollBottom s))) DEFAULT_ATTR_DATA t"] swap
    unfolding b v_def by auto
  have "scrollUp params s = updateRange (scrollBottom s) (updateRange (scrollTop s) (s\<lparr>lines := c\<rparr>))"
    using c(1) by (simp add: scrollUp_def Let_def)
  then show "screen_ok (scrollUp params s) \<and> same_rest s (scrollUp params s) \<and> history (scrollUp params s) = history s
      \<and> viewport (scrollUp params s) = rows_deleted (or_one params) (nat (scrollTop s)) (nat (scrollBottom s)) v (viewport s)"
    using c by (simp add: updateRange_ok same_rest_def cursor.truncate_def)
  obtain d where d: "(?D ^^ or_one params) s = s\<lparr>lines := d\<rparr>" "screen_ok (s\<lparr>lines := d\<rparr>)"
    "viewport (s\<lparr>lines := d\<rparr>) = rows_inserted (or_one params) (nat (scrollTop s)) (nat (scrollBottom s)) v (viewport s)"
    "history (s\<lparr>lines := d\<rparr>) = history s"
    using swaps_views(1) [OF assms(1) r(5,6), of "or_one params" DEFAULT_ATTR_DATA]
      pow [of ?D "\<lambda>t. swap_line (ybase t + int (nat (scrollBottom s))) (ybase t + int (nat (scrollTop s))) DEFAULT_ATTR_DATA t"] swap
    unfolding b v_def by auto
  assume "length params < 2"
  then have "scrollDown params [] s = updateRange (scrollBottom s) (updateRange (scrollTop s) (s\<lparr>lines := d\<rparr>))"
    using d(1) by (simp add: scrollDown_def Let_def)
  then show "screen_ok (scrollDown params [] s) \<and> same_rest s (scrollDown params [] s)
      \<and> history (scrollDown params [] s) = history s
      \<and> viewport (scrollDown params [] s) = rows_inserted (or_one params) (nat (scrollTop s)) (nat (scrollBottom s)) v (viewport s)"
    using d by (simp add: updateRange_ok same_rest_def cursor.truncate_def)
qed

text \<open>Below the scroll region the handlers for lines still keep the screen well-formed.\<close>

lemma swap_any_ok:
  assumes "screen_ok s" and "0 \<le> i" and "i < cu_rows s" and "0 \<le> j" and "j < cu_rows s"
  shows "screen_ok (swap_line (ybase s + i) (ybase s + j) a s)"
    "swap_line (ybase s + i) (ybase s + j) a s = s\<lparr>lines := lines (swap_line (ybase s + i) (ybase s + j) a s)\<rparr>"
proof -
  have "nat i < nat (cu_rows s)" "nat j < nat (cu_rows s)" using assms by simp_all
  from swap_line_views(1,2) [OF assms(1) this, of a] assms(2,4)
  show "screen_ok (swap_line (ybase s + i) (ybase s + j) a s)"
    "swap_line (ybase s + i) (ybase s + j) a s = s\<lparr>lines := lines (swap_line (ybase s + i) (ybase s + j) a s)\<rparr>" by simp_all
qed

lemma lines_handlers_ok:
  assumes "screen_ok s"
  shows "screen_ok (insertLines params s)" "screen_ok (deleteLines params s)"
proof -
  note r = region_ranges [OF assms]
  have y: "0 \<le> cu_y s" "cu_y s < cu_rows s" "0 \<le> scrollBottom s" using assms r by (auto simp: screen_ok_def place_ok_def)
  define P where "P = (\<lambda>t. screen_ok t \<and> ybase t = ybase s \<and> cu_y t = cu_y s \<and> cu_rows t = cu_rows s)"
  have step: "P (let t' = take_eraseAttr t in swap_line (ybase s + i) (ybase s + j) (eraseAttr t') t')"
    if "P t" "0 \<le> i" "i < cu_rows s" "0 \<le> j" "j < cu_rows s" for t i j
  proof -
    let ?t = "take_eraseAttr t"
    have t: "screen_ok ?t" "cu_rows ?t = cu_rows s" "ybase ?t = ybase s" using that(1) by (simp_all add: P_def take_eraseAttr_ok)
    have "swap_line (ybase s + i) (ybase s + j) (eraseAttr ?t) ?t =
        ?t\<lparr>lines := lines (swap_line (ybase s + i) (ybase s + j) (eraseAttr ?t) ?t)\<rparr>"
      using swap_any_ok(2) [OF t(1), of i j] that t by simp
    then obtain d where "swap_line (ybase s + i) (ybase s + j) (eraseAttr ?t) ?t = ?t\<lparr>lines := d\<rparr>" by blast
    moreover have "screen_ok (swap_line (ybase s + i) (ybase s + j) (eraseAttr ?t) ?t)"
      using swap_any_ok(1) [OF t(1), of i j] that t by simp
    ultimately show ?thesis using that(1) by (simp add: P_def)
  qed
  define F where "F = (\<lambda>t. let s' = take_eraseAttr t in swap_line (ybase s + scrollBottom s) (row t) (eraseAttr s') s')"
  define G where "G = (\<lambda>t. let s' = take_eraseAttr t in swap_line (row t) (ybase s + scrollBottom s) (eraseAttr s') s')"
  have "P (F t)" "P (G t)" if "P t" for t
    using step [OF that, of "scrollBottom s" "cu_y s"] step [OF that, of "cu_y s" "scrollBottom s"] r(3) y that
    by (simp_all add: F_def G_def P_def add.commute)
  then have "P ((F ^^ n) s)" "P ((G ^^ n) s)" for n
    using assms by (induction n) (simp_all add: P_def)
  moreover have "insertLines params s = updateRange (scrollBottom ((F ^^ nat (at_least_one params)) s))
      (updateRange (cu_y ((F ^^ nat (at_least_one params)) s)) ((F ^^ nat (at_least_one params)) s))"
    by (simp add: insertLines_def F_def Let_def algebra_simps)
  moreover have "deleteLines params s = updateRange (scrollBottom ((G ^^ nat (at_least_one params)) s))
      (updateRange (cu_y ((G ^^ nat (at_least_one params)) s)) ((G ^^ nat (at_least_one params)) s))"
    by (simp add: deleteLines_def G_def Let_def algebra_simps)
  ultimately show "screen_ok (insertLines params s)" "screen_ok (deleteLines params s)"
    by (simp_all add: updateRange_ok P_def)
qed

subsection \<open>Reverse index\<close>

lemma rows_inserted_one:
  assumes "t \<le> b" and "b < length V"
  shows "(take (t + 1) V @ take (b - t) (drop t V) @ drop (b + 1) V)[t := v] = rows_inserted 1 t b v V"
proof -
  have "take (t + 1) V = take t V @ [V ! t]" using assms by (simp add: take_Suc_conv_app_nth)
  moreover have "length (take t V) = t" using assms by simp
  moreover have "take (b + 1 - t) (v # drop t (take (b + 1) V)) = v # take (b - t) (drop t V)"
    using assms by (simp add: Suc_diff_le drop_take)
  ultimately show ?thesis by (simp add: rows_inserted_def list_update_append)
qed

lemma reverseIndex_views:
  assumes "screen_ok s" and "cu_y s = scrollTop s"
  shows "\<exists>s'. reverseIndex s = Done s' \<and> screen_ok s' \<and> same_rest s s' \<and> history s' = history s
    \<and> viewport s' = rows_inserted 1 (nat (scrollTop s)) (nat (scrollBottom s)) (Some (incoming False s)) (viewport s)"
proof -
  note r = region_ranges [OF assms(1)]
  have ok: "place_ok s" "buffer_ok s" "cl_inv (lines s)" "0 \<le> ybase s" "0 < cu_cols s" "lines_ok (cu_cols s) (lines s)"
    "cl_length (lines s) = ybase s + cu_rows s"
    using assms by (auto simp: screen_ok_def buffer_ok_def lines_ok_def place_ok_def)
  obtain h t b where n: "ybase s = int h" "scrollTop s = int t" "scrollBottom s = int b"
    using ok(4) r nonneg_int_cases by (metis order.trans)
  have lens: "length (history s) = h" "length (viewport s) = nat (cu_rows s)" and b: "b < length (viewport s)" and tb: "t \<le> b"
    using length_history [OF ok(2)] length_viewport [OF ok(2)] r n by simp_all
  have max: "int h + cu_rows s \<le> cl_maxLength (lines s)" using ok(3,7) n by (simp add: cl_inv_def)
  let ?L = "history s @ take (t + 1) (viewport s) @ take (b - t) (drop t (viewport s)) @ drop (b + 1) (viewport s)"
  have len: "length ?L = h + nat (cu_rows s)" using lens b tb by auto
  have "\<exists>c trims. cl_shiftElements (lines s) (row s) (scrollBottom s - scrollTop s) 1 = Inr (c, trims) \<and> cl_inv c \<and> cl_list c = ?L"
  proof (cases "t = b")
    case True
    then show ?thesis using ok(3) n b by (simp add: cl_shiftElements_def history_viewport)
  next
    case False
    have sh: "shifted (int h + int t) (int b - int t) 1 (cl_list (lines s)) = ?L"
    proof -
      have "nat (int h + int t + 1) = h + (t + 1)" "nat (int h + int t) = h + t" "nat (int b - int t) = b - t"
        "nat (int h + int t + 1 + (int b - int t)) = h + (b + 1)" using tb by linarith+
      then show ?thesis using lens(1) by (simp only: shifted_def history_viewport [of s, symmetric]) simp
    qed
    have "keep_last (nat (cl_maxLength (lines s))) ?L = ?L"
      using len max r(3) n by (intro keep_last_short) linarith
    then show ?thesis
      using cl_shiftElements_spec [OF ok(3), of "int b - int t" "int h + int t" 1] False tb n r ok(7) max
      by (auto simp: sh assms(2) add.commute)
  qed
  then obtain c trims where c: "cl_shiftElements (lines s) (row s) (scrollBottom s - scrollTop s) 1 = Inr (c, trims)" "cl_inv c" "cl_list c = ?L"
    by blast
  define v where "v = Some (incoming False s)"
  define s' where "s' = (take_eraseAttr (s\<lparr>lines := c\<rparr>))\<lparr>lines := cl_set c (row s) v\<rparr>"
  have "reverseIndex s = Done (updateRange (scrollBottom s') (updateRange (scrollTop s') s'))"
    using c(1) assms(2) by (simp add: reverseIndex_def Let_def s'_def v_def incoming_def take_eraseAttr_def)
  moreover have list: "cl_list (lines s') = history s @ rows_inserted 1 t b v (viewport s)"
  proof -
    have "0 \<le> row s" "row s < cl_length c" "nat (row s) = h + t"
      using cl_length_list [OF c(2)] len r n assms(2) unfolding c(3) by linarith+
    then show ?thesis
      using cl_list_set [OF c(2), of "row s" v] rows_inserted_one [OF tb b, of v] lens
      by (simp add: s'_def c(3) list_update_append)
  qed
  moreover have views: "history s' = history s \<and> viewport s' = rows_inserted 1 t b v (viewport s)"
    using list lens n by (intro views_split) (simp_all add: s'_def)
  moreover have "screen_ok s'"
  proof -
    have inv: "cl_inv (lines s')" using c(2) by (simp add: s'_def cl_inv_set)
    have "length (cl_list c) = h + nat (cu_rows s)" using len by (simp only: c(3))
    then have "cl_length c = ybase s + cu_rows s" using cl_length_list [OF c(2)] n r by linarith
    then have "cl_length (lines s') = ybase s + cu_rows s" by (simp add: s'_def)
    moreover have "set (cl_list (lines s')) \<subseteq> insert v (set (cl_list (lines s)))"
      unfolding list rows_inserted_def history_viewport [of s, symmetric]
      by (auto dest!: in_set_takeD in_set_dropD)
    then have "lines_ok (cu_cols s) (lines s')"
      using lines_ok_cong [OF ok(6) inv, of "incoming False s"] good_blank [of "cu_cols s"] ok(5) by (simp add: v_def incoming_def)
    ultimately show ?thesis
      using ok(1,2) by (simp add: screen_ok_def s'_def take_eraseAttr_def buffer_ok_def place_ok_def)
  qed
  moreover have "same_rest s s'" by (simp add: s'_def take_eraseAttr_def same_rest_def cursor.truncate_def)
  ultimately show ?thesis
    using n by (simp add: updateRange_ok v_def rest_trans [OF _ same_rest_updateRange])
qed

end
