(* ===== verification/Screen_Safety.thy ===== *)
theory Screen_Safety
  imports Screen_Edits
begin

text \<open>
  The handlers of the screen as one alphabet. On a well-formed screen none of them throws and each leaves
  a well-formed screen, for every input but three: a scroll region with its top below its bottom, a
  reverse index in the top row outside the region, and an erase up to the cursor at the right end of the
  last row. Afterwards, what printing does.
\<close>

datatype input =
    Move cursor_op | Attributes "nat list" | Print "nat list" | LineFeed | Index | NextLine | ReverseIndex
  | InsertChars "nat list" | DeleteChars "nat list" | EraseChars "nat list" | RepeatPrecedingCharacter "nat list"
  | EraseInDisplay "nat list" | EraseInLine "nat list" | InsertLines "nat list" | DeleteLines "nat list"
  | ScrollUp "nat list" | ScrollDown "nat list" string | ScrollLines int bool | ScrollPages int
  | ScrollToTop | ScrollToBottom | ScrollToLine int

fun input_step :: "input \<Rightarrow> screen \<Rightarrow> screen outcome" where
  "input_step (Move op) s = Done (cursor_step op s)"
| "input_step (Attributes ps) s = Done (charAttributes ps s)"
| "input_step (Print data) s = print data s"
| "input_step LineFeed s = lineFeed s"
| "input_step Index s = index s"
| "input_step NextLine s = nextLine s"
| "input_step ReverseIndex s = reverseIndex s"
| "input_step (InsertChars ps) s = insertChars ps s"
| "input_step (DeleteChars ps) s = deleteChars ps s"
| "input_step (EraseChars ps) s = eraseChars ps s"
| "input_step (RepeatPrecedingCharacter ps) s = repeatPrecedingCharacter ps s"
| "input_step (EraseInDisplay ps) s = eraseInDisplay ps s"
| "input_step (EraseInLine ps) s = eraseInLine ps s"
| "input_step (InsertLines ps) s = Done (insertLines ps s)"
| "input_step (DeleteLines ps) s = Done (deleteLines ps s)"
| "input_step (ScrollUp ps) s = Done (scrollUp ps s)"
| "input_step (ScrollDown ps collect) s = Done (scrollDown ps collect s)"
| "input_step (ScrollLines n b) s = Done (scrollLines n b s)"
| "input_step (ScrollPages n) s = Done (scrollPages n s)"
| "input_step ScrollToTop s = Done (scrollToTop s)"
| "input_step ScrollToBottom s = Done (scrollToBottom s)"
| "input_step (ScrollToLine n) s = Done (scrollToLine n s)"

fun region_given :: "int \<Rightarrow> cursor_op \<Rightarrow> bool" where
  "region_given rows (SetScrollRegion ps collect) \<longleftrightarrow>
     int (or_one ps) \<le> (if 2 \<le> length ps \<and> ps ! 1 \<noteq> 0 \<and> int (ps ! 1) \<le> rows then int (ps ! 1) else rows)"
| "region_given rows _ \<longleftrightarrow> True"

fun safe :: "input \<Rightarrow> screen \<Rightarrow> bool" where
  "safe (Move op) s \<longleftrightarrow> region_given (cu_rows s) op"
| "safe ReverseIndex s \<longleftrightarrow> cu_y s = scrollTop s \<or> 0 < cu_y s"
| "safe (EraseInDisplay ps) s \<longleftrightarrow>
     (case cu_x s of None \<Rightarrow> True
      | Some x \<Rightarrow> hd ps = 1 \<and> cu_cols s \<le> x + 1 \<longrightarrow> cu_y s + 1 < cl_length (lines s))"
| "safe _ s \<longleftrightarrow> True"

subsection \<open>Moving the cursor\<close>

lemma clamp_column_nonneg: "0 < cols \<Longrightarrow> 0 \<le> clamp_column cols x"
  using clamp_column_range by blast

lemma place_ok_stops:
  assumes "place_ok c"
  shows "place_ok (((\<lambda>c. c\<lparr>cu_x := nextStop (cu_x c) c\<rparr>) ^^ n) c)"
    "place_ok (((\<lambda>c. c\<lparr>cu_x := prevStop (cu_x c) c\<rparr>) ^^ n) c)"
proof -
  have step: "place_ok (c\<lparr>cu_x := nextStop (cu_x c) c\<rparr>)" "place_ok (c\<lparr>cu_x := prevStop (cu_x c) c\<rparr>)"
    if "place_ok c" for c :: "'a cursor_scheme"
    using that by (auto simp: nextStop_def prevStop_def place_ok_def clamp_column_nonneg)
  show "place_ok (((\<lambda>c. c\<lparr>cu_x := nextStop (cu_x c) c\<rparr>) ^^ n) c)" using assms by (induction n) (simp_all add: step)
  show "place_ok (((\<lambda>c. c\<lparr>cu_x := prevStop (cu_x c) c\<rparr>) ^^ n) c)" using assms by (induction n) (simp_all add: step)
qed

lemma place_ok_put:
  assumes "place_ok c" and "\<And>k. x = Some k \<Longrightarrow> 0 \<le> k" and "0 \<le> y" and "y < cu_rows c"
  shows "place_ok (c\<lparr>cu_x := x, cu_y := y\<rparr>)" "place_ok (c\<lparr>cu_y := y, cu_x := x\<rparr>)"
  using assms by (simp_all add: place_ok_def)

lemma place_ok_column: "place_ok c \<Longrightarrow> (\<And>k. x = Some k \<Longrightarrow> 0 \<le> k) \<Longrightarrow> place_ok (c\<lparr>cu_x := x\<rparr>)"
  by (simp add: place_ok_def)

lemma place_ok_row: "place_ok c \<Longrightarrow> 0 \<le> y \<Longrightarrow> y < cu_rows c \<Longrightarrow> place_ok (c\<lparr>cu_y := y\<rparr>)"
  by (simp add: place_ok_def)

lemma place_ok_step:
  assumes "place_ok c" and "region_given (cu_rows c) op"
  shows "place_ok (cursor_step op c)"
proof -
  have y: "0 \<le> cu_y c" "cu_y c < cu_rows c" and size: "0 < cu_cols c" "0 < cu_rows c" and x: "\<And>k. cu_x c = Some k \<Longrightarrow> 0 \<le> k"
    using assms by (auto simp: place_ok_def)
  note put = place_ok_put [OF assms(1)] place_ok_column [OF assms(1)] place_ok_row [OF assms(1)]
  show ?thesis
  proof (cases op)
    case (SetScrollRegion ps collect)
    then show ?thesis using assms by (auto simp: place_ok_def setScrollRegion_def Let_def or_one_def)
  next
    case RestoreCursor
    then show ?thesis using assms by (auto simp: place_ok_def restoreCursor_def or_zero_def split: option.splits)
  next
    case (CursorForwardTab ps)
    then show ?thesis using assms by (simp add: cursorForwardTab_def place_ok_stops)
  next
    case (CursorBackwardTab ps)
    then show ?thesis using assms by (simp add: cursorBackwardTab_def place_ok_stops)
  next
    case SaveCursor
    then show ?thesis using assms by (simp add: place_ok_def saveCursor_def)
  next
    case TabSet
    then show ?thesis using assms by (simp add: place_ok_def tabSet_def set_tab_def split: option.split)
  next
    case (TabClear ps)
    then show ?thesis using assms by (simp add: place_ok_def tabClear_def set_tab_def split: option.split)
  next
    case (DeviceStatus ps collect)
    then show ?thesis using assms by (simp add: place_ok_def deviceStatus_def report_def Let_def)
  next
    case Tab
    then show ?thesis using place_ok_stops(1) [OF assms(1), of 1] by (simp add: tab_def)
  qed (use x y size in \<open>auto simp: cursor_defs Let_def intro!: put split: if_splits\<close>)
qed

text \<open>A change of the cursor leaves the lines.\<close>

lemma cursor_step_lines:
  "lines (cursor_step op s) = lines s \<and> ybase (cursor_step op s) = ybase s \<and> ydisp (cursor_step op s) = ydisp s \<and>
   blankLine (cursor_step op s) = blankLine s" for s :: screen
proof -
  have stops: "screen.lines (((\<lambda>c. c\<lparr>cu_x := f c\<rparr>) ^^ n) s) = lines s \<and> ybase (((\<lambda>c. c\<lparr>cu_x := f c\<rparr>) ^^ n) s) = ybase s \<and>
      ydisp (((\<lambda>c. c\<lparr>cu_x := f c\<rparr>) ^^ n) s) = ydisp s \<and> blankLine (((\<lambda>c. c\<lparr>cu_x := f c\<rparr>) ^^ n) s) = blankLine s"
    for f :: "screen \<Rightarrow> int option" and n
    by (induction n) simp_all
  show ?thesis
    by (cases op) (simp_all add: stops cursor_defs cursorForwardTab_def cursorBackwardTab_def Let_def split: option.split)
qed

lemma move_ok: "screen_ok s \<Longrightarrow> region_given (cu_rows s) op \<Longrightarrow> screen_ok (cursor_step op s)"
  using cursor_step_lines [of op s] by (simp add: screen_ok_def place_ok_step buffer_ok_def)

subsection \<open>The handlers keep screens well-formed\<close>

definition fine :: "screen outcome \<Rightarrow> bool" where
  "fine m \<longleftrightarrow> (\<exists>s. m = Done s \<and> screen_ok s)"

lemma fine_Done [simp]: "fine (Done s) = screen_ok s"
  by (simp add: fine_def)

lemma fine_and_then: "fine m \<Longrightarrow> (\<And>s. screen_ok s \<Longrightarrow> fine (f s)) \<Longrightarrow> fine (and_then m f)"
  by (auto simp: fine_def)

lemma fine_each: "screen_ok s \<Longrightarrow> (\<And>x s. x \<in> set xs \<Longrightarrow> screen_ok s \<Longrightarrow> fine (f x s)) \<Longrightarrow> fine (each f xs s)"
  unfolding fine_def by (rule each_Done)

lemma screen_ok_updateRange [simp]: "screen_ok (updateRange y s) = screen_ok s"
  by (simp add: screen_ok_def place_ok_def)

lemma screen_ok_column: "screen_ok s \<Longrightarrow> (\<And>k. x = Some k \<Longrightarrow> 0 \<le> k) \<Longrightarrow> screen_ok (s\<lparr>cu_x := x\<rparr>)"
  by (simp add: screen_ok_def place_ok_column buffer_ok_def)

lemma screen_ok_row: "screen_ok s \<Longrightarrow> 0 \<le> y \<Longrightarrow> y < cu_rows s \<Longrightarrow> screen_ok (s\<lparr>cu_y := y\<rparr>)"
  by (simp add: screen_ok_def place_ok_row buffer_ok_def)

lemma screen_ok_ranges:
  assumes "screen_ok s"
  shows "0 \<le> cu_y s" "cu_y s < cu_rows s" "0 < cu_cols s" "0 < cu_rows s" "\<And>x. cu_x s = Some x \<Longrightarrow> 0 \<le> x" "0 \<le> ybase s"
    "0 \<le> scrollTop s" "scrollTop s \<le> scrollBottom s" "scrollBottom s < cu_rows s" "cl_length (lines s) = ybase s + cu_rows s"
  using assms by (auto simp: screen_ok_def place_ok_def buffer_ok_def)

lemma fine_on_row:
  assumes "screen_ok s" and "\<And>l. good_line (cu_cols s) l \<Longrightarrow> good_line (cu_cols s) (f l)"
  shows "fine (on_line (row s) f s)"
proof -
  have "\<exists>s' l. on_line (row s) f s = Done s' \<and> screen_ok s'"
    using on_row_ok [OF assms(1) screen_ok_ranges(1,2) [OF assms(1)], of f] assms(2) by blast
  then show ?thesis by (auto simp: fine_def)
qed

lemma fine_scroll: "screen_ok s \<Longrightarrow> fine (scroll w s)"
  using scroll_views [of s w] by (auto simp: fine_def)

lemma step_inside_ok: "screen_ok s \<Longrightarrow> screen_ok (step_inside s)"
  unfolding step_inside_def using screen_ok_ranges [of s] by (intro screen_ok_column) (auto simp: step_back_def split: if_splits)

lemma fine_down:
  assumes "screen_ok s"
  shows "fine (if cu_y s + 1 > scrollBottom s then scroll w (s\<lparr>cu_y := cu_y s\<rparr>) else Done (s\<lparr>cu_y := cu_y s + 1\<rparr>))"
  using assms screen_ok_ranges [OF assms] by (auto simp: fine_scroll intro!: screen_ok_row)

lemma fine_index: "screen_ok s \<Longrightarrow> fine (index s)"
  using fine_down [of s False] by (auto simp: index_def Let_def step_inside_ok intro!: fine_and_then)

lemma fine_nextLine: "screen_ok s \<Longrightarrow> fine (nextLine s)"
  unfolding nextLine_def by (rule fine_index) (rule screen_ok_column, simp_all)

lemma screen_ok_fields [simp]:
  "screen_ok (s\<lparr>lineFeeds := n\<rparr>) = screen_ok s" "screen_ok (s\<lparr>curAttrData := a\<rparr>) = screen_ok s"
  "screen_ok (s\<lparr>userScrolling := b\<rparr>) = screen_ok s" "screen_ok (s\<lparr>scrolled := e\<rparr>) = screen_ok s"
  by (simp_all add: screen_ok_def place_ok_def buffer_ok_def)

lemma fine_lineFeed: "screen_ok s \<Longrightarrow> fine (lineFeed s)"
proof -
  assume s: "screen_ok s"
  define t where "t = (if convertEol s then s\<lparr>cu_x := Some 0\<rparr> else s)"
  have t: "screen_ok t" using s by (auto simp: t_def intro!: screen_ok_column)
  show ?thesis
    using fine_down [OF t, of False] by (auto simp: lineFeed_def t_def [symmetric] Let_def step_inside_ok intro!: fine_and_then)
qed

lemma fine_wrap:
  assumes "screen_ok s"
  shows "fine (wrap s)"
proof -
  note r = screen_ok_ranges [OF assms]
  have x: "screen_ok (s\<lparr>cu_x := Some 0\<rparr>)" using assms by (rule screen_ok_column) simp
  show ?thesis
  proof (cases "cu_y s + 1 > scrollBottom s")
    case True
    then show ?thesis using fine_scroll [OF x, of True] by (simp add: wrap_def Let_def)
  next
    case False
    have "screen_ok (s\<lparr>cu_x := Some 0, cu_y := cu_y s + 1\<rparr>)"
      using screen_ok_row [OF x, of "cu_y s + 1"] False r by simp
    from mark_line_ok [OF this, of "cu_y s + 1" True] show ?thesis
      using False r by (auto simp: wrap_def Let_def fine_def erases_def)
  qed
qed

lemma good_put:
  "good_line n l \<Longrightarrow> good_line n (for_up a b (\<lambda>i l. setCellFromCodePoint l (x + i) 0 0 fg bg) l)"
  by (rule for_up_inv) (simp_all add: good_code_point)

lemma fine_put_char: "screen_ok s \<Longrightarrow> fine (put_char code w s)"
  unfolding put_char_def Let_def
proof (rule fine_and_then)
  assume s: "screen_ok s"
  show "fine (on_line (row s) (at_column (cu_x s) (\<lambda>x l.
      for_up 1 (int w) (\<lambda>i l. setCellFromCodePoint l (x + i) 0 0 (ad_fg (curAttrData s)) (ad_bg (curAttrData s)))
        (setCellFromCodePoint l x code (of_nat w) (ad_fg (curAttrData s)) (ad_bg (curAttrData s))))) s)"
    using s by (rule fine_on_row) (rule good_at_column, assumption, rule good_put, rule good_code_point)
next
  fix t assume "screen_ok t"
  then show "fine (Done (t\<lparr>cu_x := map_option (\<lambda>x. x + int (max 1 w)) (cu_x t)\<rparr>))"
    using screen_ok_ranges(5) [of t] by (auto intro!: screen_ok_column)
qed

lemma fine_insert_gap: "screen_ok s \<Longrightarrow> fine (insert_gap w s)"
  unfolding insert_gap_def Let_def
  by (rule fine_on_row, assumption) (simp add: good_at_column good_insertCells good_code_point)

lemma fine_print_one: "screen_ok s \<Longrightarrow> fine (print_one c s)"
proof -
  assume s: "screen_ok s"
  have mark: "fine (add_mark code x s)" for code x
    unfolding add_mark_def using s by (rule fine_on_row) (simp add: good_addCodepoint)
  have gap: "fine (and_then (if insertMode t then insert_gap w t else Done t) (put_char code w))" if "screen_ok t" for t w code
    using that by (intro fine_and_then) (simp_all add: fine_insert_gap fine_put_char)
  show ?thesis
    using s mark gap fine_wrap [OF s]
    by (auto simp: print_one_def Let_def fine_insert_gap fine_put_char split: option.split intro!: fine_and_then)
qed

lemma fine_print: "screen_ok s \<Longrightarrow> fine (print data s)"
  unfolding print_def by (rule fine_and_then, rule fine_each) (simp_all add: fine_print_one)

lemma fine_reverseIndex: "screen_ok s \<Longrightarrow> cu_y s = scrollTop s \<or> 0 < cu_y s \<Longrightarrow> fine (reverseIndex s)"
proof (cases "cu_y s = scrollTop s")
  case True
  assume "screen_ok s"
  from reverseIndex_views [OF this True] show ?thesis by (auto simp: fine_def)
next
  case False
  assume "screen_ok s" and "cu_y s = scrollTop s \<or> 0 < cu_y s"
  then show ?thesis using False screen_ok_ranges [of s] by (auto simp: reverseIndex_def intro!: screen_ok_row)
qed

lemma same_rest_row: "same_rest s t \<Longrightarrow> ybase t = ybase s \<Longrightarrow> row t = row s"
  by (simp add: same_rest_cursor)

lemma fine_edit:
  assumes "screen_ok s" and "\<And>l. good_line (cu_cols s) l \<Longrightarrow> good_line (cu_cols s) (f l)"
  shows "fine (on_line (row (take_eraseAttr s)) f (take_eraseAttr s))"
  using fine_on_row [of "take_eraseAttr s" f] assms by (simp add: take_eraseAttr_ok)

lemma fine_insertChars: "screen_ok s \<Longrightarrow> fine (insertChars ps s)"
  unfolding insertChars_def Let_def
  by (rule fine_and_then, rule fine_edit) (simp_all add: good_at_column good_insertCells)

lemma fine_deleteChars: "screen_ok s \<Longrightarrow> fine (deleteChars ps s)"
  unfolding deleteChars_def Let_def
  by (rule fine_and_then, rule fine_edit) (simp_all add: good_at_column good_deleteCells)

lemma fine_eraseChars: "screen_ok s \<Longrightarrow> fine (eraseChars ps s)"
  unfolding eraseChars_def Let_def by (rule fine_edit) (simp_all add: good_replace_span)

lemma fine_repeat: "screen_ok s \<Longrightarrow> fine (repeatPrecedingCharacter ps s)"
  unfolding repeatPrecedingCharacter_def
  by (rule fine_on_row) (simp_all add: good_at_column good_replaceCells)

lemma fine_erase_line: "screen_ok s \<Longrightarrow> 0 \<le> y \<Longrightarrow> y < cu_rows s \<Longrightarrow> fine (eraseInBufferLine y a b cw s)"
  using erase_line_ok(1) [of s y a b cw] by (auto simp: fine_def)

lemma fine_eraseInLine: "screen_ok s \<Longrightarrow> fine (eraseInLine ps s)"
  unfolding eraseInLine_def
  by (rule fine_and_then) (use screen_ok_ranges [of s] in \<open>auto intro!: fine_erase_line\<close>)

lemma fine_resets: "screen_ok s \<Longrightarrow> set ys \<subseteq> {0..<cu_rows s} \<Longrightarrow> fine (each resetBufferLine ys s)"
  using reset_rows [of s ys] by (auto simp: fine_def erases_def)

text \<open>With the column \<open>NaN\<close> the row of the cursor is not touched.\<close>

lemma fine_eraseInDisplay:
  assumes s: "screen_ok s" and "safe (EraseInDisplay ps) s"
  shows "fine (eraseInDisplay ps s)"
proof -
  note r = screen_ok_ranges [OF s]
  have three: "fine (eraseInDisplay ps s)" if "hd ps = 3"
  proof (cases "cl_length (lines s) - cu_rows s > 0")
    case True
    have ok: "buffer_ok s" "cl_inv (lines s)" "0 \<le> ybase s" using s by (auto simp: screen_ok_def buffer_ok_def lines_ok_def)
    note trim = cl_trimStart_spec [OF ok(2), of "cl_length (lines s) - cu_rows s"]
    have "cl_length (fst (cl_trimStart (lines s) (cl_length (lines s) - cu_rows s))) = cu_rows s"
      using r by (simp add: cl_trimStart_def Let_def)
    moreover have "lines_ok (cu_cols s) (fst (cl_trimStart (lines s) (cl_length (lines s) - cu_rows s)))"
      using trim True ok(1) by (auto simp: lines_ok_def buffer_ok_def dest: in_set_dropD)
    ultimately show ?thesis
      using that True s r by (auto simp: eraseInDisplay_def Let_def screen_ok_def buffer_ok_def place_ok_def)
  next
    case False
    then show ?thesis using that s by (simp add: eraseInDisplay_def Let_def)
  qed
  show ?thesis
  proof (cases "hd ps \<le> 2")
    case True
    show ?thesis
    proof (cases "cu_x s")
      case (Some x)
      then show ?thesis
        using erase_in_display [OF s Some refl True] assms(2) by (auto simp: fine_def erases_def)
    next
      case None
      have row: "fine (eraseInBufferLine (cu_y s) a b cw (updateRange (cu_y s) s))" for a b cw
        using s r by (intro fine_erase_line) simp_all
      obtain s1 where s1: "\<And>m. eraseInBufferLine (cu_y s) None (Some (cu_cols s)) False (updateRange (cu_y s) s) = Done s1"
        "screen_ok s1" "same_rest s s1"
        using erase_line_ok(1) [of "updateRange (cu_y s) s" "cu_y s" None "Some (cu_cols s)" False] s r
          rest_trans [OF same_rest_updateRange] by auto
      obtain s2 where s2: "eraseInBufferLine (cu_y s) (Some 0) None True (updateRange (cu_y s) s) = Done s2"
        "screen_ok s2" "same_rest s s2"
        using erase_line_ok(1) [of "updateRange (cu_y s) s" "cu_y s" "Some 0" None True] s r
          rest_trans [OF same_rest_updateRange] by auto
      have "fine (and_then (each resetBufferLine ys t) (\<lambda>u. Done (updateRange (k u) u)))"
        if "screen_ok t" "set ys \<subseteq> {0..<cu_rows t}" for t ys and k :: "screen \<Rightarrow> int"
        using fine_resets [OF that] by (rule fine_and_then) simp
      note resets = this
      have "set [cu_y s + 1..cu_rows s - 1] \<subseteq> {0..<cu_rows s}" "set (rev [0..cu_y s - 1]) \<subseteq> {0..<cu_rows s}"
        "set (rev [0..cu_rows s - 1]) \<subseteq> {0..<cu_rows s}" using r by auto
      note range = this
      have "fine (eraseInDisplay ps s)" if "hd ps = 0"
        using that None s1 resets [OF s1(2), of "[cu_y s + 1..cu_rows s - 1]" "\<lambda>u. max (cu_y u + 1) (cu_rows u)"] range(1)
        by (simp add: eraseInDisplay_def same_rest_cursor [OF s1(3)])
      moreover have "fine (eraseInDisplay ps s)" if "hd ps = 1"
        using that None s2 resets [OF s2(2), of "rev [0..cu_y s - 1]" "\<lambda>u. 0"] range(2) r
        by (simp add: eraseInDisplay_def reset_down_def same_rest_cursor [OF s2(3)])
      moreover have "fine (eraseInDisplay ps s)" if "hd ps = 2"
        using that resets [of "updateRange (cu_rows s - 1) s" "rev [0..cu_rows s - 1]" "\<lambda>u. 0"] s range(3) r
        by (simp add: eraseInDisplay_def reset_down_def)
      ultimately show ?thesis using True by linarith
    qed
  next
    case False
    then show ?thesis using three s by (cases "hd ps = 3") (simp_all add: eraseInDisplay_def)
  qed
qed

lemma scrollLines_ok: "screen_ok s \<Longrightarrow> screen_ok (scrollLines n b s)"
proof -
  assume s: "screen_ok s"
  have "screen_ok (t\<lparr>ydisp := max (min y (ybase t)) 0\<rparr>)" if "screen_ok t" for t y
    using that by (auto simp: screen_ok_def buffer_ok_def place_ok_def)
  then show ?thesis using s by (simp add: scrollLines_def Let_def)
qed

lemma input_ok:
  assumes "screen_ok s" and "safe i s"
  shows "fine (input_step i s)"
proof (cases i)
  case (Move op)
  then show ?thesis using assms move_ok by simp
next
  case (ScrollDown ps collect)
  then show ?thesis
    using assms(1) scroll_up_down_views(2) [OF assms(1), of ps]
    by (cases "length ps < 2 \<and> collect = []") (auto simp: scrollDown_def)
next
  case ReverseIndex
  then show ?thesis using assms fine_reverseIndex by simp
next
  case (EraseInDisplay ps)
  then show ?thesis using assms fine_eraseInDisplay by simp
qed (use assms(1) in \<open>simp_all add: fine_print fine_lineFeed fine_index fine_nextLine fine_insertChars fine_deleteChars
      fine_eraseChars fine_repeat fine_eraseInLine lines_handlers_ok scroll_up_down_views(1) charAttributes_def scrollLines_ok
      scrollPages_def scrollToTop_def scrollToBottom_def scrollToLine_def Let_def\<close>)

fun safe_run :: "input list \<Rightarrow> screen \<Rightarrow> bool" where
  "safe_run [] s = True"
| "safe_run (i # is) s = (safe i s \<and> safe_run is (outcome_state (input_step i s)))"

lemma run_ok: "screen_ok s \<Longrightarrow> safe_run is s \<Longrightarrow> fine (each input_step is s)"
proof (induction "is" arbitrary: s)
  case (Cons i "is")
  then obtain t where "input_step i s = Done t" "screen_ok t" using input_ok [of s i] by (auto simp: fine_def)
  with Cons show ?case by simp
qed simp

end
