(* ===== verification/Screen_Text.thy ===== *)
theory Screen_Text
  imports Screen_Safety
begin

text \<open>
  A new screen, what printing writes on it, and the properties of the screen as a whole.
\<close>

subsection \<open>A new screen\<close>

definition blank_screen :: "int \<Rightarrow> int \<Rightarrow> screen" where
  "blank_screen cols rows =
     \<lparr>cu_x = Some 0, cu_y = 0, cu_cols = cols, cu_rows = rows, scrollTop = 0, scrollBottom = 0, tabs = (\<lambda>_. False),
      tabStopWidth = 8, savedX = None, savedY = None, curAttrData = DEFAULT_ATTR_DATA,
      savedCurAttrData = DEFAULT_ATTR_DATA, reports = [], lines = cl_new 0, ybase = 0, ydisp = 0,
      eraseAttr = DEFAULT_ATTR_DATA, blankLine = None, userScrolling = False, refreshStart = 0, refreshEnd = 0,
      charset = (\<lambda>_. None), insertMode = False, wraparoundMode = True, convertEol = False, scrolled = [], lineFeeds = 0\<rparr>"

definition new_screen :: "int \<Rightarrow> int \<Rightarrow> int \<Rightarrow> screen" where
  "new_screen cols rows scrollback =
     (case buffer_clear True scrollback (blank_screen cols rows) of
        None \<Rightarrow> blank_screen cols rows | Some s \<Rightarrow> fillViewportRows None s)"

lemma cl_new_fields: "cl_maxLength (cl_new m) = m" "cl_length (cl_new m) = 0"
  by (simp_all add: cl_new_def)

lemma fill_rows:
  assumes "cl_inv c" and "cl_list c = replicate k v" and "int k + int n \<le> cl_maxLength c"
  shows "\<exists>c'. for_down (int n - 1) 0 (\<lambda>i s. s\<lparr>lines := fst (cl_push (lines s) v)\<rparr>) (s\<lparr>lines := c\<rparr>) = s\<lparr>lines := c'\<rparr>
    \<and> cl_inv c' \<and> cl_list c' = replicate (k + n) v \<and> cl_maxLength c' = cl_maxLength c"
  using assms
proof (induction n arbitrary: k c)
  case 0
  then show ?case by auto
next
  case (Suc n)
  have "cl_length c = int k" using cl_length_list [OF Suc.prems(1)] Suc.prems(2) by simp
  then have "cl_list (fst (cl_push c v)) = replicate (Suc k) v"
    using cl_push_list [OF Suc.prems(1), of v] Suc.prems(2,3) by (simp add: cl_isFull_def replicate_append_same)
  from Suc.IH [OF cl_push_inv [OF Suc.prems(1)] this] Suc.prems(3) show ?case
    by (simp add: for_down_step)
qed

lemma new_screen_ok:
  assumes "0 < cols" and "0 < rows" and "0 \<le> scrollback" and "rows \<le> MAX_BUFFER_SIZE"
  shows "screen_ok (new_screen cols rows scrollback)"
    and "viewport (new_screen cols rows scrollback) = replicate (nat rows) (Some (getBlankLine cols DEFAULT_ATTR_DATA False))"
    and "history (new_screen cols rows scrollback) = []"
    and "scrollTop (new_screen cols rows scrollback) = 0" "scrollBottom (new_screen cols rows scrollback) = rows - 1"
      "cu_rows (new_screen cols rows scrollback) = rows" "cu_cols (new_screen cols rows scrollback) = cols"
      "cu_x (new_screen cols rows scrollback) = Some 0" "cu_y (new_screen cols rows scrollback) = 0"
      "ybase (new_screen cols rows scrollback) = 0" "insertMode (new_screen cols rows scrollback) = False"
      "charset (new_screen cols rows scrollback) = (\<lambda>_. None)" "curAttrData (new_screen cols rows scrollback) = DEFAULT_ATTR_DATA"
      "cl_maxLength (lines (new_screen cols rows scrollback)) = getCorrectBufferLength True scrollback rows"
proof -
  let ?v = "Some (getBlankLine cols DEFAULT_ATTR_DATA False)" and ?m = "getCorrectBufferLength True scrollback rows"
  have m: "0 < ?m" "rows \<le> ?m" using assms by (auto simp: getCorrectBufferLength_def Let_def)
  define s0 where "s0 = (blank_screen cols rows)\<lparr>ydisp := 0, ybase := 0, cu_y := 0, cu_x := Some 0,
       lines := cl_new ?m, scrollTop := 0, scrollBottom := rows - 1\<rparr>"
  obtain ts where ts: "buffer_clear True scrollback (blank_screen cols rows) = Some (s0\<lparr>tabs := ts\<rparr>)"
    by (auto simp: buffer_clear_def setupTabStops_def s0_def blank_screen_def tab_loop_sets)
  define s1 where "s1 = s0\<lparr>tabs := ts\<rparr>"
  obtain c where c: "for_down (int (nat rows) - 1) 0 (\<lambda>i s. s\<lparr>lines := fst (cl_push (lines s) ?v)\<rparr>) (s1\<lparr>lines := cl_new ?m\<rparr>) = s1\<lparr>lines := c\<rparr>"
    "cl_inv c" "cl_list c = replicate (0 + nat rows) ?v" "cl_maxLength c = ?m"
    using fill_rows [of "cl_new ?m" 0 ?v "nat rows" s1] cl_new_inv [OF m(1)] m(2) assms(2) by (auto simp: cl_new_fields)
  have s1: "s1\<lparr>lines := cl_new ?m\<rparr> = s1" "cl_length (lines s1) = 0" "cu_rows s1 = rows" "cu_cols s1 = cols"
    by (simp_all add: s1_def s0_def blank_screen_def cl_new_def)
  have loop: "for_down (rows - 1) 0 (\<lambda>i s. s\<lparr>lines := fst (cl_push (lines s) (Some (getBlankLine (cu_cols s) DEFAULT_ATTR_DATA False)))\<rparr>) s1 = s1\<lparr>lines := c\<rparr>"
  proof -
    have "fold (\<lambda>i s. s\<lparr>lines := fst (cl_push (lines s) (Some (getBlankLine (cu_cols s) DEFAULT_ATTR_DATA False)))\<rparr>) xs t =
        fold (\<lambda>i s. s\<lparr>lines := fst (cl_push (lines s) ?v)\<rparr>) xs t" if "cu_cols t = cols" for xs :: "int list" and t :: screen
      using that by (induction xs arbitrary: t) simp_all
    then show ?thesis using c(1) s1 assms(2) by (simp add: for_down_def)
  qed
  have eq: "new_screen cols rows scrollback = s1\<lparr>lines := c\<rparr>"
    using loop s1 by (simp add: new_screen_def ts s1_def [symmetric] fillViewportRows_def)
  have len: "cl_length c = rows" using cl_length_list [OF c(2)] c(3) assms(2) by simp
  have good: "lines_ok cols c" using c(2,3) good_blank [of cols] assms(1) by (auto simp: lines_ok_def)
  show "screen_ok (new_screen cols rows scrollback)"
    using assms len good unfolding eq
    by (simp add: screen_ok_def place_ok_def buffer_ok_def s1_def s0_def blank_screen_def)
  show "viewport (new_screen cols rows scrollback) = replicate (nat rows) ?v" "history (new_screen cols rows scrollback) = []"
    using c(3) unfolding eq by (simp_all add: viewport_def history_def s1_def s0_def blank_screen_def)
  show "scrollTop (new_screen cols rows scrollback) = 0" "scrollBottom (new_screen cols rows scrollback) = rows - 1"
    "cu_rows (new_screen cols rows scrollback) = rows" "cu_cols (new_screen cols rows scrollback) = cols"
    "cu_x (new_screen cols rows scrollback) = Some 0" "cu_y (new_screen cols rows scrollback) = 0"
    "ybase (new_screen cols rows scrollback) = 0" "insertMode (new_screen cols rows scrollback) = False"
    "charset (new_screen cols rows scrollback) = (\<lambda>_. None)" "curAttrData (new_screen cols rows scrollback) = DEFAULT_ATTR_DATA"
    "cl_maxLength (lines (new_screen cols rows scrollback)) = ?m"
    using c(4) unfolding eq by (simp_all add: s1_def s0_def blank_screen_def)
qed

lemma MAX_BUFFER_SIZE_large: "n \<le> 1000 \<Longrightarrow> n \<le> MAX_BUFFER_SIZE"
  by (simp add: MAX_BUFFER_SIZE_def)

lemmas small_screen = new_screen_ok [of 4 3 5, OF _ _ _ MAX_BUFFER_SIZE_large, simplified]

subsection \<open>Printing a run of characters that fits\<close>

definition run_of :: "screen \<Rightarrow> nat list \<Rightarrow> (nat \<times> nat) list" where
  "run_of s data = map (\<lambda>c. (map_charset s c, wcwidth c)) data"

lemma columns_append: "columns (cs @ ds) = columns cs + columns ds"
  by (simp add: columns_def)

lemma put_fits:
  assumes "screen_ok s" and "cu_x s = Some x" and "w = 1 \<or> w = 2"
  shows "\<exists>s' l. put_char code w s = Done (s'\<lparr>cu_x := Some (x + int w)\<rparr>) \<and> screen_ok s' \<and> same_rest s s'
    \<and> viewport s ! nat (cu_y s) = Some l \<and> good_line (cu_cols s) l
    \<and> viewport s' = (viewport s)[nat (cu_y s) := Some (write_chars l x (ad_fg (curAttrData s)) (ad_bg (curAttrData s)) [(code, w)])]
    \<and> history s' = history s"
proof -
  let ?a = "curAttrData s"
  let ?f = "at_column (cu_x s) (\<lambda>x l. for_up 1 (int w) (\<lambda>i l. setCellFromCodePoint l (x + i) 0 0 (ad_fg ?a) (ad_bg ?a))
        (setCellFromCodePoint l x code (of_nat w) (ad_fg ?a) (ad_bg ?a)))"
  have f: "?f l = write_chars l x (ad_fg ?a) (ad_bg ?a) [(code, w)]" for l
    using assms(2,3) by (auto simp: at_column_def write_chars.simps(2) for_up_step)
  have good: "good_line (cu_cols s) (?f l)" if "good_line (cu_cols s) l" for l
    using that by (intro good_at_column good_put good_code_point)
  obtain s' l where s': "on_line (row s) ?f s = Done s'" "screen_ok s'" "same_rest s s'" "viewport s ! nat (cu_y s) = Some l"
    "good_line (cu_cols s) l" "viewport s' = (viewport s)[nat (cu_y s) := Some (?f l)]" "history s' = history s"
    using on_row_ok [OF assms(1) screen_ok_ranges(1,2) [OF assms(1)], of ?f] good by blast
  have "put_char code w s = Done (s'\<lparr>cu_x := Some (x + int w)\<rparr>)"
    using s'(1) assms(2,3) same_rest_cursor(1) [OF s'(3)] by (auto simp: put_char_def Let_def)
  then show ?thesis using s' by (auto simp: f)
qed

lemma print_one_fits:
  assumes "screen_ok s" and "cu_x s = Some x" and "\<not> insertMode s" and "wcwidth c = 1 \<or> wcwidth c = 2"
    and "x + int (wcwidth c) \<le> cu_cols s"
  shows "\<exists>s' l. print_one c s = Done (s'\<lparr>cu_x := Some (x + int (wcwidth c))\<rparr>) \<and> screen_ok s' \<and> same_rest s s'
    \<and> viewport s ! nat (cu_y s) = Some l \<and> good_line (cu_cols s) l
    \<and> viewport s' = (viewport s)[nat (cu_y s) := Some (write_chars l x (ad_fg (curAttrData s)) (ad_bg (curAttrData s))
        [(map_charset s c, wcwidth c)])]
    \<and> history s' = history s"
proof -
  have "print_one c s = put_char (map_charset s c) (wcwidth c) s"
    using assms(2-5) by (auto simp: print_one_def Let_def)
  then show ?thesis using put_fits [OF assms(1,2,4)] by simp
qed

lemma print_fits:
  assumes "screen_ok s" and "cu_x s = Some x" and "\<not> insertMode s"
    and "list_all printable (run_of s data)" and "x + int (columns (run_of s data)) \<le> cu_cols s"
    and "viewport s ! nat (cu_y s) = Some l"
  shows "\<exists>s'. each print_one data s = Done s' \<and> screen_ok s' \<and> cu_x s' = Some (x + int (columns (run_of s data)))
    \<and> cu_y s' = cu_y s \<and> curAttrData s' = curAttrData s
    \<and> viewport s' = (viewport s)[nat (cu_y s) := Some (write_chars l x (ad_fg (curAttrData s)) (ad_bg (curAttrData s)) (run_of s data))]
    \<and> history s' = history s"
  using assms
proof (induction data arbitrary: s x l)
  case Nil
  then show ?case using list_update_id [of "viewport s" "nat (cu_y s)"] by (simp add: run_of_def)
next
  case (Cons c data)
  let ?a = "curAttrData s"
  have w: "wcwidth c = 1 \<or> wcwidth c = 2" and fits: "x + int (wcwidth c) \<le> cu_cols s"
    using Cons.prems(4,5) by (auto simp: run_of_def printable_def)
  obtain t where t: "print_one c s = Done (t\<lparr>cu_x := Some (x + int (wcwidth c))\<rparr>)" "screen_ok t" "same_rest s t" "good_line (cu_cols s) l"
    "viewport t = (viewport s)[nat (cu_y s) := Some (write_chars l x (ad_fg ?a) (ad_bg ?a) [(map_charset s c, wcwidth c)])]"
    "history t = history s"
    using print_one_fits [OF Cons.prems(1,2,3) w fits] Cons.prems(6) by auto
  define u where "u = t\<lparr>cu_x := Some (x + int (wcwidth c))\<rparr>"
  have x: "0 \<le> x" using screen_ok_ranges(5) [OF Cons.prems(1) Cons.prems(2)] .
  have u: "screen_ok u" unfolding u_def using t(2) x by (intro screen_ok_column) auto
  have same: "cu_y u = cu_y s" "cu_cols u = cu_cols s" "curAttrData u = ?a" "insertMode u = insertMode s" "run_of u data = run_of s data"
    using same_rest_cursor [OF t(3)] by (simp_all add: u_def run_of_def map_charset_def)
  have view: "viewport u = viewport t" "history u = history t" by (simp_all add: u_def viewport_def history_def)
  have len: "nat (cu_y s) < length (viewport s)"
    using length_viewport [of s] screen_ok_ranges [OF Cons.prems(1)] Cons.prems(1) by (simp add: screen_ok_def)
  have row: "viewport u ! nat (cu_y u) = Some (write_chars l x (ad_fg ?a) (ad_bg ?a) [(map_charset s c, wcwidth c)])"
    using len by (simp add: view t(5) same)
  have run: "run_of s (c # data) = (map_charset s c, wcwidth c) # run_of s data" by (simp add: run_of_def)
  have xu: "cu_x u = Some (x + int (wcwidth c))" by (simp add: u_def)
  have pr: "list_all printable (run_of u data)" using Cons.prems(4) by (simp add: same run)
  have fit: "x + int (wcwidth c) + int (columns (run_of u data)) \<le> cu_cols u" using Cons.prems(5) by (simp add: same run)
  obtain s' where "each print_one data u = Done s'" "screen_ok s'"
    "cu_x s' = Some (x + int (wcwidth c) + int (columns (run_of u data)))" "cu_y s' = cu_y u" "curAttrData s' = curAttrData u"
    "viewport s' = (viewport u)[nat (cu_y u) := Some (write_chars (write_chars l x (ad_fg ?a) (ad_bg ?a) [(map_charset s c, wcwidth c)])
        (x + int (wcwidth c)) (ad_fg (curAttrData u)) (ad_bg (curAttrData u)) (run_of u data))]"
    "history s' = history u"
    using Cons.IH [OF u xu _ pr fit row] Cons.prems(3) same(4) by blast
  then show ?case
    using t(1,6) same view t(5) run by (simp add: u_def [symmetric] write_chars.simps(2) Let_def add.assoc)
qed

subsection \<open>Line feeds at the bottom\<close>

lemma scroll_eraseAttr:
  assumes "scroll w s = Done s'"
  shows "eraseAttr s' = eraseAttrData (eraseAttr s) (curAttrData s)"
proof -
  let ?s1 = "scroll_line w (take_eraseAttr s)"
  have append: "eraseAttr t = eraseAttr u" if "scroll_append l u = Done t" for l t u
    using that by (auto simp: scroll_append_def Let_def split: if_splits sum.splits prod.splits option.splits)
  have region: "eraseAttr t = eraseAttr u" if "scroll_region l u = Done t" for l t u
    using that by (auto simp: scroll_region_def Let_def split: sum.splits prod.splits)
  have line: "eraseAttr ?s1 = eraseAttrData (eraseAttr s) (curAttrData s)" by (simp add: scroll_line_def Let_def)
  have count: "eraseAttr (scroll_counters b t) = eraseAttr t" for b t by (simp add: scroll_counters_def Let_def)
  define moved where "moved = (if scrollTop ?s1 = 0
      then and_then (scroll_append (the (blankLine ?s1)) ?s1) (\<lambda>s2. Done (scroll_counters (cl_isFull (lines ?s1)) s2))
      else scroll_region (the (blankLine ?s1)) ?s1)"
  have "scroll w s = and_then moved (\<lambda>s2.
      let s3 = (if \<not> userScrolling s2 then s2\<lparr>ydisp := ybase s2\<rparr> else s2);
          s4 = updateRange (scrollBottom s3) (updateRange (scrollTop s3) s3)
      in Done (s4\<lparr>scrolled := scrolled s4 @ [ydisp s4]\<rparr>))"
    by (simp only: scroll_def Let_def moved_def)
  with assms obtain s2 where s2: "moved = Done s2" "eraseAttr s' = eraseAttr s2"
    by (cases moved) (auto simp: Let_def)
  have "eraseAttr s2 = eraseAttr ?s1"
  proof (cases "scrollTop ?s1 = 0")
    case True
    with s2(1) obtain t where "scroll_append (the (blankLine ?s1)) ?s1 = Done t" "s2 = scroll_counters (cl_isFull (lines ?s1)) t"
      by (auto simp: moved_def and_then_Done_iff)
    then show ?thesis using append count by simp
  next
    case False
    then show ?thesis using s2(1) region by (simp add: moved_def)
  qed
  then show ?thesis using s2(2) line by simp
qed

definition feeds :: "nat \<Rightarrow> screen \<Rightarrow> screen outcome" where
  "feeds k s = each (\<lambda>_. lineFeed) (replicate k ()) s"

lemma feeds_Suc: "feeds (Suc k) s = and_then (feeds k s) lineFeed"
proof -
  have "feeds (Suc k) s = each (\<lambda>_. lineFeed) (replicate k () @ [()]) s"
    unfolding feeds_def by (simp add: replicate_append_same [symmetric] del: replicate_append_same)
  moreover have "and_then m (each (\<lambda>_. lineFeed) [()]) = and_then m lineFeed" for m
    by (cases m) (simp_all, metis and_then.simps each.simps(1) outcome.exhaust)
  ultimately show ?thesis by (simp only: each_append feeds_def)
qed

lemma feed_bottom:
  assumes "screen_ok s" and "scrollTop s = 0" and "cu_y s = scrollBottom s" and "scrollBottom s = cu_rows s - 1"
  shows "\<exists>s'. lineFeed s = Done s' \<and> screen_ok s' \<and> cu_y s' = cu_y s \<and> scrollTop s' = 0 \<and> scrollBottom s' = scrollBottom s
    \<and> cu_rows s' = cu_rows s \<and> cu_cols s' = cu_cols s \<and> incoming False s' = incoming False s
    \<and> cl_maxLength (lines s') = cl_maxLength (lines s) \<and> viewport s' = tl (viewport s) @ [Some (incoming False s)]
    \<and> history s' = keep_last (nat (cl_maxLength (lines s) - cu_rows s)) (history s @ [hd (viewport s)])"
proof -
  define t where "t = (if convertEol s then s\<lparr>cu_x := Some 0\<rparr> else s)"
  have t: "screen_ok t" using assms(1) by (auto simp: t_def intro!: screen_ok_column)
  have same: "cu_y t = cu_y s" "scrollTop t = scrollTop s" "scrollBottom t = scrollBottom s" "cu_rows t = cu_rows s"
    "cu_cols t = cu_cols s" "curAttrData t = curAttrData s" "eraseAttr t = eraseAttr s" "lines t = lines s"
    "viewport t = viewport s" "history t = history s"
    by (simp_all add: t_def viewport_def history_def)
  obtain u where u: "scroll False t = Done u" "same_rest t u" "screen_ok u" "cl_maxLength (lines u) = cl_maxLength (lines t)"
    "viewport u = scrolled_up (nat (scrollTop t)) (nat (scrollBottom t)) (Some (incoming False t)) (viewport t)"
    "history u = keep_last (nat (cl_maxLength (lines t) - cu_rows t)) (history t @ [hd (viewport t)])"
    using scroll_views [OF t, of False] assms(2) same by auto
  note rest = same_rest_cursor [OF u(2)]
  have inc: "incoming False t = incoming False s" by (simp add: incoming_def same)
  have "incoming False u = incoming False s"
    using scroll_eraseAttr [OF u(1)] rest by (simp add: incoming_def same erase_again)
  moreover have "viewport u = tl (viewport s) @ [Some (incoming False s)]"
  proof -
    have "length (viewport s) = nat (scrollBottom s) + 1"
      using length_viewport [of s] assms screen_ok_ranges [OF assms(1)] by (simp add: screen_ok_def)
    then show ?thesis using u(5) assms(2) by (simp add: scrolled_up_def same inc drop_Suc)
  qed
  moreover have "lineFeed s = Done ((step_inside u)\<lparr>lineFeeds := lineFeeds u + 1\<rparr>)"
  proof -
    have "t\<lparr>cu_y := cu_y t\<rparr> = t" by simp
    then have "t\<lparr>cu_y := scrollBottom s\<rparr> = t" unfolding same(1) assms(3) .
    then have "scroll False (t\<lparr>cu_y := scrollBottom s\<rparr>) = Done u" by (simp only: u(1))
    then show ?thesis using assms(3) same by (simp add: lineFeed_def t_def [symmetric] Let_def step_inside_def)
  qed
  moreover define r where "r = (step_inside u)\<lparr>lineFeeds := lineFeeds u + 1\<rparr>"
  have "screen_ok r" using u(3) by (simp add: r_def step_inside_ok)
  moreover have "viewport r = viewport u" "history r = history u" "incoming False r = incoming False u" "cu_y r = cu_y u"
    "scrollTop r = scrollTop u" "scrollBottom r = scrollBottom u" "cu_rows r = cu_rows u" "cu_cols r = cu_cols u" "lines r = lines u"
    by (simp_all add: r_def step_inside_def viewport_def history_def incoming_def)
  ultimately show ?thesis using u(4,6) rest same assms(2) unfolding r_def by simp
qed

lemma feeds_views:
  assumes "screen_ok s" and "scrollTop s = 0" and "cu_y s = scrollBottom s" and "scrollBottom s = cu_rows s - 1"
  defines "W k \<equiv> viewport s @ replicate k (Some (incoming False s))"
  shows "\<exists>s'. feeds k s = Done s' \<and> screen_ok s' \<and> cu_y s' = cu_y s \<and> scrollTop s' = 0 \<and> scrollBottom s' = scrollBottom s
    \<and> cu_rows s' = cu_rows s \<and> incoming False s' = incoming False s
    \<and> cl_maxLength (lines s') = cl_maxLength (lines s) \<and> viewport s' = drop k (W k)
    \<and> history s' = keep_last (nat (cl_maxLength (lines s) - cu_rows s)) (history s @ take k (W k))"
proof (induction k)
  case 0
  have "length (history s) \<le> nat (cl_maxLength (lines s) - cu_rows s)"
    using length_history [of s] assms(1) screen_ok_ranges [OF assms(1)]
    by (auto simp: screen_ok_def buffer_ok_def lines_ok_def cl_inv_def)
  then show ?case using assms by (simp add: feeds_def W_def keep_last_short)
next
  case (Suc k)
  then obtain t where t: "feeds k s = Done t" "screen_ok t" "cu_y t = cu_y s" "scrollTop t = 0" "scrollBottom t = scrollBottom s"
    "cu_rows t = cu_rows s" "incoming False t = incoming False s" "cl_maxLength (lines t) = cl_maxLength (lines s)"
    "viewport t = drop k (W k)" "history t = keep_last (nat (cl_maxLength (lines s) - cu_rows s)) (history s @ take k (W k))"
    by blast
  have len: "0 < length (viewport s)"
    using length_viewport [of s] assms(1) screen_ok_ranges [OF assms(1)] by (simp add: screen_ok_def)
  have W: "W (Suc k) = W k @ [Some (incoming False s)]" by (simp add: W_def replicate_append_same)
  have k: "k < length (W k)" using len by (simp add: W_def)
  have "hd (drop k (W k)) = W k ! k" "tl (drop k (W k)) = drop (Suc k) (W k)"
    using k by (simp_all add: hd_drop_conv_nth drop_Suc tl_drop)
  moreover have "take (Suc k) (W (Suc k)) = take k (W k) @ [W k ! k]" using k by (simp add: W take_Suc_conv_app_nth)
  moreover have "drop (Suc k) (W (Suc k)) = drop (Suc k) (W k) @ [Some (incoming False s)]" using k by (simp add: W)
  ultimately show ?case
    using feed_bottom [OF t(2,4)] t assms(3,4) by (auto simp: feeds_Suc keep_last_append)
qed

subsection \<open>Properties\<close>

text \<open>
  C18. The handlers are sound for well-formed screens: no sequence of inputs that avoids the three unsafe
  ones throws, and the screen it leaves is well-formed again: all rows are there, each as wide as the
  screen, and the cursor is in one of them.
\<close>

theorem screen_handlers_sound:
  assumes "screen_ok s" and "safe_run is s"
  shows "\<exists>s'. each input_step is s = Done s' \<and> screen_ok s' \<and> 0 \<le> cu_y s' \<and> cu_y s' < cu_rows s' \<and>
    length (viewport s') = nat (cu_rows s') \<and>
    (\<forall>v \<in> set (viewport s'). \<exists>l. v = Some l \<and> line_ok l \<and> bl_length l = cu_cols s')"
proof -
  obtain s' where s': "each input_step is s = Done s'" "screen_ok s'" using run_ok [OF assms] by (auto simp: fine_def)
  have "\<forall>v \<in> set (viewport s'). \<exists>l. v = Some l \<and> line_ok l \<and> bl_length l = cu_cols s'"
    using s'(2) by (auto simp: screen_ok_def buffer_ok_def lines_ok_def good_line_def viewport_def dest!: in_set_dropD)
  then show ?thesis
    using s' screen_ok_ranges [OF s'(2)] length_viewport [of s'] by (auto simp: screen_ok_def)
qed

theorem screen_handlers_sound_witness:
  "\<exists>s'. each input_step [Print [104, 0x4E2D, 0x301], Index, InsertLines [2], EraseInLine [1], ScrollUp [9]] (new_screen 4 3 5) = Done s'
    \<and> screen_ok s'"
  using screen_handlers_sound [OF small_screen(1),
      of "[Print [104, 0x4E2D, 0x301], Index, InsertLines [2], EraseInLine [1], ScrollUp [9]]"] by auto

text \<open>
  C19. Scrolling in the ring implements scrolling of rows: the rows of the scroll region move up by one,
  a blank line in the erase attributes comes in at its bottom, the other rows stay, and the
  row that leaves goes to the history, which keeps its most recent lines, when the region begins at
  the top of the screen; otherwise the history stays. This holds whether the ring recycles, grows or is spliced.
\<close>

theorem scroll_refines_rows:
  assumes "screen_ok s"
  shows "\<exists>s'. scroll w s = Done s' \<and>
    viewport s' = scrolled_up (nat (scrollTop s)) (nat (scrollBottom s)) (Some (incoming w s)) (viewport s) \<and>
    history s' = (if scrollTop s = 0
      then keep_last (nat (cl_maxLength (lines s) - cu_rows s)) (history s @ [hd (viewport s)]) else history s) \<and>
    cursor.truncate s' = cursor.truncate s"
  using scroll_views [OF assms, of w] by (auto simp: same_rest_def)

theorem scroll_refines_rows_witness:
  "\<exists>s'. scroll False (new_screen 4 3 5) = Done s' \<and>
    cursor.truncate s' = cursor.truncate (new_screen 4 3 5)"
  using scroll_refines_rows [OF small_screen(1), of False] by auto

text \<open>
  C20. Line feeds in the last row of a screen without scroll region move the rows to the history one by one:
  after \<open>k\<close> of them the history is what was there followed by the rows that left, cut to the size of the scrollback
  from the front, and the rest of the rows is followed by blank lines. The cursor stays in the last row.
\<close>

theorem line_feeds_fill_history:
  assumes "screen_ok s" and "scrollTop s = 0" and "cu_y s = scrollBottom s" and "scrollBottom s = cu_rows s - 1"
  shows "\<exists>s'. feeds k s = Done s' \<and> cu_y s' = cu_y s \<and>
    viewport s' = drop k (viewport s @ replicate k (Some (incoming False s))) \<and>
    history s' = keep_last (nat (cl_maxLength (lines s) - cu_rows s))
      (history s @ take k (viewport s @ replicate k (Some (incoming False s))))"
  using feeds_views [OF assms, of k] by auto

theorem line_feeds_fill_history_witness:
  "\<exists>s'. feeds 7 (cursor_step (CursorPosition [3, 1]) (new_screen 4 3 5)) = Done s' \<and> cu_y s' = 2"
proof -
  let ?s = "cursor_step (CursorPosition [3, 1]) (new_screen 4 3 5)"
  have ok: "screen_ok ?s" using move_ok [OF small_screen(1), of "CursorPosition [3, 1]"] by simp
  have "scrollTop ?s = 0" "cu_y ?s = scrollBottom ?s" "scrollBottom ?s = cu_rows ?s - 1" "cu_y ?s = 2"
    by (simp_all add: cursorPosition_def param_def Let_def small_screen)
  then show ?thesis using line_feeds_fill_history [OF ok, of 7] by auto
qed

text \<open>
  C21. Inserting and deleting lines at the cursor, inside the scroll region, and scrolling the region by a
  sequence: the rows between there and the bottom of the region shift by the number of lines, as many blank
  ones come in, and rows outside and the history stay. Lines inserted and deleted are blank in the erase attributes,
  lines scrolled in are blank in the default ones.
\<close>

theorem line_edits_shift_rows:
  assumes "screen_ok s" and "cu_y s \<le> scrollBottom s"
  shows "viewport (insertLines params s) = rows_inserted (nat (at_least_one params)) (nat (cu_y s)) (nat (scrollBottom s))
      (Some (incoming False s)) (viewport s) \<and>
    viewport (deleteLines params s) = rows_deleted (nat (at_least_one params)) (nat (cu_y s)) (nat (scrollBottom s))
      (Some (incoming False s)) (viewport s) \<and>
    viewport (scrollUp params s) = rows_deleted (or_one params) (nat (scrollTop s)) (nat (scrollBottom s))
      (Some (getBlankLine (cu_cols s) DEFAULT_ATTR_DATA False)) (viewport s) \<and>
    history (insertLines params s) = history s \<and> history (deleteLines params s) = history s \<and>
    history (scrollUp params s) = history s"
  using insert_delete_lines_views [OF assms, of params] scroll_up_down_views(1) [OF assms(1), of params] by simp

theorem line_edits_shift_rows_witness:
  "viewport (insertLines [2] (new_screen 4 3 5)) =
     rows_inserted 2 0 2 (Some (incoming False (new_screen 4 3 5))) (viewport (new_screen 4 3 5))"
  using line_edits_shift_rows [OF small_screen(1), of "[2]"] by (simp add: small_screen at_least_one_def param_def)

text \<open>
  C22. Erasing in the display clears exactly the cells from the cursor to the end of the screen, or from its
  start to the cursor, or all of them, and every other cell keeps its content. The one input excluded is the
  erase up to a cursor in the last column, or beyond, of the last line of the ring.
\<close>

theorem erase_in_display_cells:
  assumes "screen_ok s" and "cu_x s = Some x" and "p \<le> 2"
    and "p = 1 \<longrightarrow> x + 1 < cu_cols s \<or> cu_y s + 1 < cl_length (lines s)"
  shows "\<exists>s'. eraseInDisplay (p # ps) s = Done s' \<and> (\<forall>j i. 0 \<le> j \<and> j < cu_rows s \<and> 0 \<le> i \<and> i < cu_cols s \<longrightarrow>
    cell_of s' j i =
      (if (p = 0 \<and> (j > cu_y s \<or> j = cu_y s \<and> i \<ge> x)) \<or> (p = 1 \<and> (j < cu_y s \<or> j = cu_y s \<and> i \<le> x)) \<or> p = 2
       then getNullCell (Some (eraseAttrData (eraseAttr s) (curAttrData s))) else cell_of s j i))"
proof -
  obtain s' where s': "eraseInDisplay (p # ps) s = Done s'" "erases (covered p (cu_y s) x) s s'"
    using erase_in_display [OF assms(1,2), of "p # ps" p] assms(3,4) by auto
  then show ?thesis by (intro exI [of _ s']) (auto simp: erases_def covered_def)
qed

theorem erase_in_display_cells_witness:
  "\<exists>s'. eraseInDisplay [2] (new_screen 4 3 5) = Done s' \<and> cell_of s' 1 3 = getNullCell (Some (eraseAttrData (eraseAttr (new_screen 4 3 5)) DEFAULT_ATTR_DATA))"
  using erase_in_display_cells [OF small_screen(1,8), of 2 "[]"] by (auto simp: small_screen)

text \<open>
  C23. Text printed in a row where it fits is in the row afterwards: reading the columns it was written to
  gives the text, after mapping by the character set, wide characters included; the cursor is right behind it,
  and every other row and the history are as before.
\<close>

theorem printed_text_reads_back:
  assumes "screen_ok s" and "cu_x s = Some x" and "\<not> insertMode s"
    and "list_all printable (run_of s data)" and "x + int (columns (run_of s data)) \<le> cu_cols s"
  shows "\<exists>s' l. print data s = Done s' \<and> viewport s' = (viewport s)[nat (cu_y s) := Some l] \<and> history s' = history s \<and>
    cu_x s' = Some (x + int (columns (run_of s data))) \<and>
    translateToString l False x (Some (x + int (columns (run_of s data)))) =
      Some (utf32ToString (map (map_charset s) data) 0 (length data))"
proof -
  let ?t = "updateRange (cu_y s) s" and ?a = "curAttrData s"
  have t: "screen_ok ?t" "cu_x ?t = Some x" "\<not> insertMode ?t" "run_of ?t data = run_of s data"
    using assms by (simp_all add: run_of_def map_charset_def)
  have len: "nat (cu_y s) < length (viewport s)"
    using length_viewport [of s] screen_ok_ranges [OF assms(1)] assms(1) by (simp add: screen_ok_def)
  obtain l where l: "viewport s ! nat (cu_y s) = Some l" "good_line (cu_cols s) l"
    using on_row_ok [OF assms(1) screen_ok_ranges(1,2) [OF assms(1)], of id] by auto
  let ?l = "write_chars l x (ad_fg ?a) (ad_bg ?a) (run_of s data)"
  obtain s' where s': "each print_one data ?t = Done s'" "cu_x s' = Some (x + int (columns (run_of s data)))"
    "viewport s' = (viewport s)[nat (cu_y s) := Some ?l]" "history s' = history s"
    using print_fits [OF t(1,2,3), of data l] assms(4,5) l(1) t(4) by auto
  have "translate_loop ?l x (x + int (columns (run_of s data))) [] = Some (concat (map (\<lambda>c. stringFromCodePoint (fst c)) (run_of s data)))"
    using translate_written [OF assms(4), of l x "ad_fg ?a" "ad_bg ?a" "[]"] l(2) assms(5) screen_ok_ranges(5) [OF assms(1,2)]
    by (simp add: good_line_def)
  then have "translateToString ?l False x (Some (x + int (columns (run_of s data)))) =
      Some (utf32ToString (map (map_charset s) data) 0 (length data))"
    by (simp add: translateToString_def utf32ToString_concat run_of_def comp_def)
  then show ?thesis using s' by (intro exI [of _ "updateRange (cu_y s') s'"] exI [of _ ?l]) (simp add: print_def)
qed

theorem printed_text_reads_back_witness:
  "\<exists>s' l. print [104, 105] (new_screen 4 3 5) = Done s' \<and> translateToString l False 0 (Some 2) = Some [104, 105]"
proof -
  have w: "wcwidth 104 = 1 \<and> wcwidth 105 = 1" by code_simp
  then have run: "run_of (new_screen 4 3 5) [104, 105] = [(104, 1), (105, 1)]"
    by (simp add: run_of_def map_charset_def small_screen)
  have "map (map_charset (new_screen 4 3 5)) [104, 105] = [104, 105]" by (simp add: map_charset_def small_screen)
  with printed_text_reads_back [OF small_screen(1,8), of "[104, 105]"] show ?thesis
    unfolding run by (auto simp: small_screen printable_def utf32ToString_concat stringFromCodePoint_def)
qed

text \<open>
  Wrapping to the next row marks a line as wrapped that is not the one the text goes on in, once the screen has
  a history: it takes the row of the screen for an index of the ring. The new row keeps its mark,
  and the line of the ring with the number of the row gets one.
\<close>

theorem wrap_marks_other_line:
  assumes "screen_ok s" and "0 < ybase s" and "cu_y s < scrollBottom s"
  shows "\<exists>s' l. wrap s = Done s' \<and> cu_y s' = cu_y s + 1 \<and>
    viewport s' ! nat (cu_y s + 1) = viewport s ! nat (cu_y s + 1) \<and>
    cl_list (lines s') ! nat (cu_y s + 1) = Some l \<and> bl_isWrapped l"
proof -
  note r = screen_ok_ranges [OF assms(1)]
  let ?t = "s\<lparr>cu_x := Some 0, cu_y := cu_y s + 1\<rparr>" and ?k = "nat (cu_y s + 1)"
  have x: "screen_ok (s\<lparr>cu_x := Some 0\<rparr>)" using assms(1) by (rule screen_ok_column) simp
  have t: "screen_ok ?t" using screen_ok_row [OF x, of "cu_y s + 1"] r assms(3) by simp
  obtain s' where s': "on_line (cu_y s + 1) (\<lambda>l. l\<lparr>bl_isWrapped := True\<rparr>) ?t = Done s'" "erases {} ?t s'"
    "\<And>i l. i < length (cl_list (lines s)) \<Longrightarrow> cl_list (lines s) ! i = Some l \<Longrightarrow>
      cl_list (lines s') ! i = Some (if i = ?k then l\<lparr>bl_isWrapped := True\<rparr> else l)"
    using mark_line_ok [OF t, of "cu_y s + 1" True] r assms(3) by auto
  have all: "\<exists>l. cl_list (lines s) ! i = Some l" if "i < length (cl_list (lines s))" for i
    using assms(1) nth_mem [OF that] by (auto simp: screen_ok_def buffer_ok_def lines_ok_def)
  have i: "?k < length (cl_list (lines s))" "nat (ybase s) + ?k < length (cl_list (lines s))" "nat (ybase s) + ?k \<noteq> ?k"
    using r assms(2,3) by (simp_all add: nat_add_distrib [symmetric])
  obtain l m where l: "cl_list (lines s) ! ?k = Some l" "cl_list (lines s) ! (nat (ybase s) + ?k) = Some m" using all i by meson
  have "cl_list (lines s') ! ?k = Some (l\<lparr>bl_isWrapped := True\<rparr>)" using s'(3) [OF i(1) l(1)] by simp
  moreover have "cl_list (lines s') ! (nat (ybase s) + ?k) = Some m" using s'(3) [OF i(2) l(2)] i(3) by simp
  then have "viewport s' ! ?k = viewport s ! ?k"
    using s'(2) i(2) l(2) by (simp add: viewport_def erases_def)
  moreover have "wrap s = Done s'" using s'(1) assms(3) by (simp add: wrap_def)
  moreover have "cu_y s' = cu_y s + 1" using s'(2) same_rest_cursor(2) [of ?t s'] by (simp add: erases_def)
  ultimately show ?thesis by auto
qed

lemma write_beyond:
  "good_line n l \<Longrightarrow> n \<le> x \<Longrightarrow> write_chars l x fg bg [(code, 1)] = l"
  by (simp add: write_chars.simps(2) setCellFromCodePoint_def wr_def good_line_def line_ok_def)

text \<open>
  Without wraparound mode, printing beyond the right end of the screen changes no cell and moves the cursor on
  for every character, without bound.
\<close>

theorem nowrap_cursor_runs_off:
  assumes "screen_ok s" and "\<not> wraparoundMode s" and "\<not> insertMode s" and "cu_x s = Some x" and "cu_cols s \<le> x"
    and "list_all (\<lambda>c. wcwidth c = 1) data"
  shows "\<exists>s'. print data s = Done s' \<and> viewport s' = viewport s \<and> cu_x s' = Some (x + int (length data))"
proof -
  have "\<exists>s'. each print_one data s = Done s' \<and> viewport s' = viewport s \<and> cu_x s' = Some (x + int (length data))"
    if "screen_ok s" "\<not> wraparoundMode s" "\<not> insertMode s" "cu_x s = Some x" "cu_cols s \<le> x" "list_all (\<lambda>c. wcwidth c = 1) data"
    for s x
    using that
  proof (induction data arbitrary: s x)
    case (Cons c data)
    have "print_one c s = put_char (map_charset s c) 1 s" using Cons.prems by (auto simp: print_one_def Let_def)
    then obtain t l where t: "print_one c s = Done (t\<lparr>cu_x := Some (x + 1)\<rparr>)" "screen_ok t" "same_rest s t"
      "viewport s ! nat (cu_y s) = Some l" "good_line (cu_cols s) l"
      "viewport t = (viewport s)[nat (cu_y s) := Some (write_chars l x (ad_fg (curAttrData s)) (ad_bg (curAttrData s)) [(map_charset s c, 1)])]"
      using put_fits [OF Cons.prems(1,4), of 1 "map_charset s c"] by auto
    have same: "viewport t = viewport s"
      using t(4,6) write_beyond [OF t(5) Cons.prems(5)] list_update_id [of "viewport s" "nat (cu_y s)"] by simp
    let ?u = "t\<lparr>cu_x := Some (x + 1)\<rparr>"
    have "screen_ok ?u" using t(2) screen_ok_ranges(5) [OF Cons.prems(1,4)] by (intro screen_ok_column) auto
    with Cons.IH [of ?u "x + 1"] Cons.prems show ?case
      using t(1) same same_rest_cursor [OF t(3)] by (auto simp: viewport_def add.assoc add.commute)
  qed simp
  from this [of "updateRange (cu_y s) s" x] assms obtain s' where
    "each print_one data (updateRange (cu_y s) s) = Done s'" "viewport s' = viewport s" "cu_x s' = Some (x + int (length data))" by auto
  then show ?thesis by (simp add: print_def)
qed

theorem nowrap_cursor_runs_off_witness:
  "\<exists>s'. print [104, 105] ((new_screen 4 3 5)\<lparr>wraparoundMode := False, cu_x := Some 4\<rparr>) = Done s' \<and> cu_x s' = Some 6"
proof -
  have w: "wcwidth 104 = 1 \<and> wcwidth 105 = 1" by code_simp
  have "screen_ok ((new_screen 4 3 5)\<lparr>wraparoundMode := False, cu_x := Some 4\<rparr>)"
    using small_screen(1) by (auto simp: screen_ok_def place_ok_def buffer_ok_def)
  from nowrap_cursor_runs_off [OF this, of 4 "[104, 105]"] w show ?thesis by (auto simp: small_screen)
qed

theorem wrap_marks_other_line_witness:
  "\<exists>s s' l. screen_ok s \<and> wrap s = Done s' \<and> cl_list (lines s') ! 1 = Some l \<and> bl_isWrapped l"
proof -
  let ?b = "cursor_step (CursorPosition [3, 1]) (new_screen 4 3 5)"
  have ok: "screen_ok ?b" using move_ok [OF small_screen(1), of "CursorPosition [3, 1]"] by simp
  have b: "scrollTop ?b = 0" "cu_y ?b = scrollBottom ?b" "scrollBottom ?b = cu_rows ?b - 1" "cu_rows ?b = 3"
    by (simp_all add: cursorPosition_def param_def Let_def small_screen)
  obtain t where t: "screen_ok t" "scrollBottom t = scrollBottom ?b"
    "history t = keep_last (nat (cl_maxLength (lines ?b) - cu_rows ?b)) (history ?b @ take 1 (viewport ?b @ replicate 1 (Some (incoming False ?b))))"
    using feeds_views [OF ok b(1-3), of 1] by blast
  have "cl_maxLength (lines ?b) = 8" "history ?b = []" "viewport ?b \<noteq> []"
    using small_screen(2,3,14) cursor_step_lines [of "CursorPosition [3, 1]" "new_screen 4 3 5"]
    by (simp_all add: getCorrectBufferLength_def MAX_BUFFER_SIZE_def history_def viewport_def)
  then have "length (history t) = 1" using t(3) b by (cases "viewport ?b") (simp_all add: keep_last_def)
  then have yb: "ybase t = 1" using length_history [of t] t(1) screen_ok_ranges [OF t(1)] by (simp add: screen_ok_def)
  let ?u = "cursor_step (CursorPosition [1, 1]) t"
  have u: "screen_ok ?u" using move_ok [OF t(1), of "CursorPosition [1, 1]"] by simp
  have "ybase ?u = 1" "cu_y ?u = 0" "scrollBottom ?u = 2"
    using yb t(2) b screen_ok_ranges [OF t(1)] by (simp_all add: cursorPosition_def param_def Let_def)
  with wrap_marks_other_line [OF u] u show ?thesis by auto
qed

text \<open>A ring in which nothing has moved: its array holds its lines from the start on, and nothing else.\<close>

definition packed :: "'a circular_list \<Rightarrow> bool" where
  "packed c \<longleftrightarrow> cl_startIndex c = 0 \<and> (\<forall>k. cl_array c k \<noteq> None \<longrightarrow> 0 \<le> k \<and> k < cl_length c)"

lemma packed_outside:
  assumes "packed c" and "cl_inv c" and "k = - 1 \<and> 1 < cl_maxLength c \<or> cl_length c \<le> k \<and> k < cl_maxLength c"
  shows "cl_get c k = None"
proof -
  have "cl_get c k = cl_array c k" using assms by (auto simp: packed_def cl_get_def cl_getCyclicIndex_def js_rem_def cl_inv_def)
  moreover have "\<not> (0 \<le> k \<and> k < cl_length c)" using assms(3) by auto
  ultimately show ?thesis using assms(1) unfolding packed_def by metis
qed

lemma small_screen_packed: "packed (lines (new_screen 4 3 5))"
proof -
  let ?p = "\<lambda>c. fst (cl_push c (Some (getBlankLine 4 DEFAULT_ATTR_DATA False)))"
  have "lines (new_screen 4 3 5) = ?p (?p (?p (cl_new 8)))"
    using tab_loop_sets [of 8 0 4]
    by (simp add: new_screen_def buffer_clear_def setupTabStops_def blank_screen_def fillViewportRows_def cl_new_fields
        getCorrectBufferLength_def MAX_BUFFER_SIZE_def for_down_def upto.simps)
  then show ?thesis
    by (simp add: packed_def cl_push_def cl_new_def Let_def cl_getCyclicIndex_def js_rem_def)
qed

lemma line_there:
  assumes "screen_ok s"
  shows "\<exists>l. cl_get (lines s) (ybase s + cu_y s) = Some l"
proof -
  have "on_line (cu_y s + ybase s) id s \<noteq> Throw TypeError s"
    using on_row_ok [OF assms screen_ok_ranges(1,2) [OF assms], of id] by auto
  then show ?thesis by (auto simp: on_line_def add.commute split: option.splits)
qed

text \<open>
  C39. The exclusions are needed. While nothing has scrolled off the screen, a reverse index in the top row, above a scroll
  region that does not hold it, moves the cursor to row \<open>- 1\<close>, and printing there a character that needs no wrap
  throws; and erasing up to a cursor in the last column, or beyond, of the last row throws when the ring has room for
  a line more.
\<close>

theorem unsafe_inputs_throw:
  assumes "screen_ok s" and "ybase s = 0" and "packed (lines s)" and "cu_x s = Some x"
  shows "(cu_y s = 0 \<and> 0 < scrollTop s \<and> x + int (wcwidth c) \<le> cu_cols s \<longrightarrow>
      (\<exists>s1 s2. reverseIndex s = Done s1 \<and> cu_y s1 = -1 \<and> print (c # cs) s1 = Throw TypeError s2)) \<and>
    (cu_y s + 1 = cu_rows s \<and> cu_cols s \<le> x + 1 \<and> cu_rows s < cl_maxLength (lines s) \<longrightarrow>
      (\<exists>s2. eraseInDisplay (1 # ps) s = Throw TypeError s2))"
proof (intro conjI impI)
  have inv: "cl_inv (lines s)" and len: "cl_length (lines s) = cu_rows s" "cl_length (lines s) \<le> cl_maxLength (lines s)"
    using assms(1,2) by (auto simp: screen_ok_def buffer_ok_def lines_ok_def cl_inv_def)
  {
    assume h: "cu_y s = 0 \<and> 0 < scrollTop s \<and> x + int (wcwidth c) \<le> cu_cols s"
    let ?s = "updateRange (- 1) (s\<lparr>cu_y := - 1\<rparr>)"
    have "1 < cl_maxLength (lines s)" using len h screen_ok_ranges(8,9) [OF assms(1)] by linarith
    then have none: "cl_get (lines s) (- 1) = None" using packed_outside [OF assms(3) inv] by auto
    have fits: "\<not> cu_cols s \<le> x + int (wcwidth c) - 1" using h by simp
    have "\<exists>s2. print_one c ?s = Throw TypeError s2"
      using none fits assms(2,4) by (simp add: print_one_def Let_def add_mark_def put_char_def insert_gap_def on_line_def)
    then show "\<exists>s1 s2. reverseIndex s = Done s1 \<and> cu_y s1 = -1 \<and> print (c # cs) s1 = Throw TypeError s2"
      using h by (auto simp: reverseIndex_def print_def)
  }
  assume h: "cu_y s + 1 = cu_rows s \<and> cu_cols s \<le> x + 1 \<and> cu_rows s < cl_maxLength (lines s)"
  obtain l where l: "cl_get (lines s) (cu_y s) = Some l" using line_there [OF assms(1)] assms(2) by auto
  have none: "cl_get (cl_set (lines s) (cu_y s) v) (cu_y s + 1) = None" for v
    using packed_outside [OF assms(3) inv, of "cu_y s + 1"] h len inv screen_ok_ranges(1) [OF assms(1)]
    by (auto simp: cl_get_set cl_inv_def)
  show "\<exists>s2. eraseInDisplay (1 # ps) s = Throw TypeError s2"
    using h l none assms(2,4)
    by (simp add: eraseInDisplay_def eraseInBufferLine_def on_line_def take_eraseAttr_def Let_def)
qed

theorem unsafe_inputs_throw_witness:
  "(\<exists>s1 s2. reverseIndex (setScrollRegion [2, 3] [] (new_screen 4 3 5)) = Done s1 \<and> print [97] s1 = Throw TypeError s2) \<and>
   (\<exists>s2. eraseInDisplay [1] (cursorPosition [3, 4] (new_screen 4 3 5)) = Throw TypeError s2)"
proof
  have w: "wcwidth 97 = 1" by code_simp
  let ?r = "setScrollRegion [2, 3] [] (new_screen 4 3 5)" and ?p = "cursorPosition [3, 4] (new_screen 4 3 5)"
  have ok: "screen_ok ?r" "screen_ok ?p"
    using move_ok [OF small_screen(1), of "SetScrollRegion [2, 3] []"] move_ok [OF small_screen(1), of "CursorPosition [3, 4]"]
    by (simp_all add: small_screen or_one_def)
  have len: "cl_maxLength (lines (new_screen 4 3 5)) = 8"
    by (simp add: small_screen getCorrectBufferLength_def MAX_BUFFER_SIZE_def)
  show "\<exists>s1 s2. reverseIndex ?r = Done s1 \<and> print [97] s1 = Throw TypeError s2"
    using unsafe_inputs_throw [OF ok(1), of 0 97 "[]"] small_screen_packed w
    by (auto simp: setScrollRegion_def small_screen or_one_def Let_def)
  show "\<exists>s2. eraseInDisplay [1] ?p = Throw TypeError s2"
    using unsafe_inputs_throw [OF ok(2), of 3 97 "[]" "[]"] small_screen_packed len
    by (auto simp: cursorPosition_def small_screen param_def Let_def)
qed

end
