(* ===== verification/Resize.thy ===== *)
theory Resize
  imports Reflow Screen_Text
begin

text \<open>
  Resizing: what a change of the number of rows does to the lines and the cursor, the lengths of the lines
  of a paragraph on a narrower screen, and a resize that throws.
\<close>

subsection \<open>More or fewer rows\<close>

definition fresh_row :: "int \<Rightarrow> buffer_line" where
  "fresh_row cols = getBlankLine cols DEFAULT_ATTR_DATA False"

lemma new_line_fresh: "new_line (nat cols) (Some (getNullCell (Some DEFAULT_ATTR_DATA))) False = fresh_row cols"
  by (simp add: fresh_row_def getBlankLine_def)

lemma add_rows:
  assumes "cl_inv (lines s)" and "cl_length (lines s) = ybase s + cu_rows s" and "0 \<le> ydisp s" and "ydisp s \<le> ybase s"
    and "cu_rows s + int k \<le> newRows" and "ybase s + newRows \<le> cl_maxLength (lines s)" and "0 \<le> cu_rows s"
  shows "\<exists>c yb yd b. (add_row newCols newRows ^^ k) (s, 0) = (s\<lparr>lines := c, ybase := yb, ydisp := yd\<rparr>, ybase s - yb)
    \<and> cl_inv c \<and> cl_maxLength c = cl_maxLength (lines s) \<and> cl_length c = yb + cu_rows s + int k
    \<and> cl_list c = cl_list (lines s) @ replicate b (Some (fresh_row newCols))
    \<and> 0 \<le> yb \<and> yb \<le> ybase s \<and> 0 \<le> yd \<and> yd \<le> yb"
  using assms(5)
proof (induction k)
  case 0
  from assms show ?case
    by (intro exI [of _ "lines s"] exI [of _ "ybase s"] exI [of _ "ydisp s"] exI [of _ 0]) simp
next
  case (Suc k)
  then obtain c yb yd b where r: "(add_row newCols newRows ^^ k) (s, 0) = (s\<lparr>lines := c, ybase := yb, ydisp := yd\<rparr>, ybase s - yb)"
    and c: "cl_inv c" "cl_maxLength c = cl_maxLength (lines s)" "cl_length c = yb + cu_rows s + int k"
    and l: "cl_list c = cl_list (lines s) @ replicate b (Some (fresh_row newCols))"
    and y: "0 \<le> yb" "yb \<le> ybase s" "0 \<le> yd" "yd \<le> yb" by auto
  let ?t = "s\<lparr>lines := c, ybase := yb, ydisp := yd\<rparr>"
  show ?case
  proof (cases "yb > 0 \<and> cl_length c \<le> ybase s + cu_y s + 1")
    case True
    then have step: "(add_row newCols newRows ^^ Suc k) (s, 0) =
        (s\<lparr>lines := c, ybase := yb - 1, ydisp := (if yd > 0 then yd - 1 else yd)\<rparr>, ybase s - (yb - 1))"
      using r c(3) Suc.prems by (simp add: add_row_def)
    show ?thesis
      by (intro exI [of _ c] exI [of _ "yb - 1"] exI [of _ "if yd > 0 then yd - 1 else yd"] exI [of _ b] conjI, rule step)
        (use True c y in \<open>auto simp only: l split: if_splits\<close>)
  next
    case False
    let ?c = "fst (cl_push c (Some (fresh_row newCols)))"
    have room: "cl_length c < cl_maxLength c" using c Suc.prems assms(6) y by simp
    have step: "(add_row newCols newRows ^^ Suc k) (s, 0) = (s\<lparr>lines := ?c, ybase := yb, ydisp := yd\<rparr>, ybase s - yb)"
      using False r c(3) Suc.prems by (auto simp: add_row_def new_line_fresh)
    have "cl_list ?c = cl_list (lines s) @ replicate (Suc b) (Some (fresh_row newCols))"
      using cl_push_list [OF c(1), of "Some (fresh_row newCols)"] room l
      by (simp add: cl_isFull_def replicate_append_same)
    moreover have "cl_inv ?c" "cl_maxLength ?c = cl_maxLength c" using cl_push_inv [OF c(1)] by (blast, simp add: cl_push_eq Let_def)
    moreover have "cl_length ?c = cl_length c + 1" using room by (simp add: cl_push_def cl_isFull_def)
    ultimately show ?thesis using c y
      by (intro exI [of _ ?c] exI [of _ yb] exI [of _ yd] exI [of _ "Suc b"] conjI, intro step) simp_all
  qed
qed

lemma remove_rows:
  assumes "cl_inv (lines s)" and "cl_length (lines s) = ybase s + cu_rows s" and "0 \<le> ydisp s" and "ydisp s \<le> ybase s"
    and "newRows + int k \<le> cu_rows s" and "0 < newRows" and "0 \<le> cu_y s" and "cu_y s < cu_rows s" and "0 \<le> ybase s"
  shows "\<exists>c yb yd. (remove_row newRows ^^ k) s = s\<lparr>lines := c, ybase := yb, ydisp := yd\<rparr>
    \<and> cl_inv c \<and> cl_maxLength c = cl_maxLength (lines s) \<and> cl_length c = yb + cu_rows s - int k
    \<and> cl_list c = take (nat (cl_length c)) (cl_list (lines s)) \<and> row s < cl_length c
    \<and> ybase s \<le> yb \<and> (yb = ybase s \<or> cl_length c = row s + 1) \<and> 0 \<le> yd \<and> yd \<le> yb"
  using assms(5)
proof (induction k)
  case 0
  from assms show ?case by (intro exI [of _ "lines s"] exI [of _ "ybase s"] exI [of _ "ydisp s"]) simp
next
  case (Suc k)
  then have "newRows + int k \<le> cu_rows s" by simp
  from Suc.IH [OF this] obtain c yb yd where r: "(remove_row newRows ^^ k) s = s\<lparr>lines := c, ybase := yb, ydisp := yd\<rparr>"
    and c: "cl_inv c" "cl_maxLength c = cl_maxLength (lines s)" "cl_length c = yb + cu_rows s - int k"
    and l: "cl_list c = take (nat (cl_length c)) (cl_list (lines s))" "row s < cl_length c"
    and y: "ybase s \<le> yb" "yb = ybase s \<or> cl_length c = row s + 1" "0 \<le> yd" "yd \<le> yb" by (elim exE conjE)
  show ?case
  proof (cases "cl_length c > yb + cu_y s + 1")
    case True
    let ?c = "fst (cl_pop c)"
    have step: "(remove_row newRows ^^ Suc k) s = s\<lparr>lines := ?c, ybase := yb, ydisp := yd\<rparr>"
      using True r c(3) Suc.prems by (simp add: remove_row_def)
    have pop: "cl_inv ?c" "cl_list ?c = butlast (cl_list c)" "cl_length ?c = cl_length c - 1" "cl_maxLength ?c = cl_maxLength c"
      using cl_pop_spec [OF c(1)] l(2) assms(7,9) by (simp_all add: cl_pop_def)
    have "nat (cl_length c) \<le> length (cl_list (lines s))"
      using arg_cong [OF l(1), of length] by simp
    then have cut: "butlast (cl_list c) = take (nat (cl_length c - 1)) (cl_list (lines s))"
      by (subst l(1)) (simp only: butlast_take, simp add: nat_diff_distrib nat_minus_as_int)
    show ?thesis
      by (intro exI [of _ ?c] exI [of _ yb] exI [of _ yd] conjI, rule step)
        (use True c(2,3) l(2) y assms(7) in \<open>simp_all add: pop cut\<close>)
  next
    case False
    then have step: "(remove_row newRows ^^ Suc k) s = s\<lparr>lines := c, ybase := yb + 1, ydisp := yd + 1\<rparr>"
      using r c(3) Suc.prems by (simp add: remove_row_def)
    have "cl_length c = row s + 1" using False l(2) y by linarith
    then show ?thesis
      by (intro exI [of _ c] exI [of _ "yb + 1"] exI [of _ "yd + 1"] conjI, intro step)
        (use c y l in \<open>simp_all\<close>)
  qed
qed

lemma trimmed_ring:
  assumes "cl_inv c" and "cl_length c = yb + newRows" and "0 < newRows" and "0 \<le> sb" and "0 \<le> yb" and "0 \<le> yd" and "yd \<le> yb"
    and "newRows + sb \<le> cl_maxLength c"
  shows "\<exists>c' n. trim_ring (newRows + sb) (s\<lparr>lines := c, ybase := yb, ydisp := yd\<rparr>) =
      s\<lparr>lines := c', ybase := yb - int n, ydisp := max (yd - int n) 0\<rparr>
    \<and> cl_inv c' \<and> cl_maxLength c' = newRows + sb \<and> cl_list c' = drop n (cl_list c) \<and> cl_length c' = yb - int n + newRows
    \<and> int n \<le> yb \<and> (0 < n \<longrightarrow> yb - int n = sb)"
proof -
  let ?m = "newRows + sb"
  consider "cl_maxLength c = ?m" | "?m < cl_maxLength c" "cl_length c \<le> ?m" | "?m < cl_maxLength c" "?m < cl_length c"
    using assms(8) by linarith
  then show ?thesis
  proof cases
    case 1
    with assms show ?thesis by (intro exI [of _ c] exI [of _ 0]) (simp add: trim_ring_def)
  next
    case 2
    with assms cl_setMaxLength_spec [OF assms(1), of ?m] show ?thesis
      by (intro exI [of _ "cl_setMaxLength c ?m"] exI [of _ 0])
        (simp add: trim_ring_def Let_def, simp add: cl_setMaxLength_def)
  next
    case 3
    let ?n = "cl_length c - ?m" and ?c = "fst (cl_trimStart c (cl_length c - ?m))"
    have c: "cl_inv ?c" "cl_list ?c = drop (nat ?n) (cl_list c)" using cl_trimStart_spec [OF assms(1), of ?n] 3 by simp_all
    have len: "cl_length ?c = ?m" using 3 assms(3,4) by (simp add: cl_trimStart_def Let_def)
    have m: "cl_inv (cl_setMaxLength ?c ?m)" "cl_maxLength (cl_setMaxLength ?c ?m) = ?m" "cl_list (cl_setMaxLength ?c ?m) = cl_list ?c"
      using cl_setMaxLength_spec [OF c(1), of ?m] assms(3,4) len by simp_all
    have "cl_length (cl_setMaxLength ?c ?m) = ?m" using len by (simp add: cl_setMaxLength_def)
    moreover have "max (yb - ?n) 0 = yb - int (nat ?n)" "yb - int (nat ?n) = sb" using 3 assms by simp_all
    ultimately show ?thesis using 3 assms m c
      by (intro exI [of _ "cl_setMaxLength ?c ?m"] exI [of _ "nat ?n"]) (simp add: trim_ring_def Let_def)
  qed
qed

text \<open>The number of lines the ring is to hold.\<close>

definition room :: "bool \<Rightarrow> int \<Rightarrow> int" where
  "room hasScrollback scrollback = (if hasScrollback then scrollback else 0)"

lemma buffer_length: "rows + scrollback \<le> MAX_BUFFER_SIZE \<Longrightarrow>
    getCorrectBufferLength hasScrollback scrollback rows = rows + room hasScrollback scrollback"
  by (simp add: getCorrectBufferLength_def room_def)

text \<open>
  What a change of the rows leaves: of the lines the first \<open>k\<close>, which include the cursor's, then \<open>b\<close> blank
  ones, less the \<open>n\<close> oldest, which do not fit in the scrollback.
\<close>

definition rows_resized :: "screen \<Rightarrow> int \<Rightarrow> int \<Rightarrow> nat \<Rightarrow> nat \<Rightarrow> nat \<Rightarrow> screen \<Rightarrow> bool" where
  "rows_resized s newRows sb k b n s' \<longleftrightarrow>
    cl_list (lines s') = drop n (take k (cl_list (lines s)) @ replicate b (Some (fresh_row (cu_cols s)))) \<and>
    row s < int k \<and> row s' = row s - int n \<and> (0 < n \<longrightarrow> ybase s' = sb) \<and>
    cl_inv (lines s') \<and> cl_maxLength (lines s') = newRows + sb \<and> cl_length (lines s') = ybase s' + newRows \<and>
    0 \<le> ybase s' \<and> ybase s' \<le> sb \<and> 0 \<le> ydisp s' \<and> ydisp s' \<le> ybase s' \<and> 0 \<le> cu_y s' \<and> cu_y s' < newRows \<and>
    cu_x s' = map_option (\<lambda>x. min x (cu_cols s - 1)) (cu_x s) \<and> savedX s' = map_option (\<lambda>x. min x (cu_cols s - 1)) (savedX s) \<and>
    savedY s' = map_option (\<lambda>y. min y (newRows - 1)) (savedY s) \<and> scrollTop s' = 0 \<and> cu_cols s' = cu_cols s \<and> blankLine s' = blankLine s"

lemma resize_rows_spec:
  assumes "screen_ok s" and "0 < newRows" and "0 \<le> sb" and "cl_maxLength (lines s) = max (cu_rows s) newRows + sb" and "ybase s \<le> sb"
  shows "\<exists>k b n. rows_resized s newRows sb k b n (resize_rows (cu_cols s) newRows (newRows + sb) s)"
proof -
  have ok: "cl_inv (lines s)" "cl_length (lines s) = ybase s + cu_rows s" "0 \<le> ydisp s" "ydisp s \<le> ybase s" "0 \<le> ybase s"
    "0 \<le> cu_y s" "cu_y s < cu_rows s" "0 < cu_rows s"
    using assms(1) by (auto simp: screen_ok_def buffer_ok_def lines_ok_def place_ok_def)
  show ?thesis
  proof (cases "cu_rows s < newRows")
    case True
    let ?k = "nat (newRows - cu_rows s)"
    obtain c yb yd b where r: "(add_row (cu_cols s) newRows ^^ ?k) (s, 0) = (s\<lparr>lines := c, ybase := yb, ydisp := yd\<rparr>, ybase s - yb)"
      and c: "cl_inv c" "cl_maxLength c = newRows + sb" "cl_length c = yb + newRows"
      "cl_list c = cl_list (lines s) @ replicate b (Some (fresh_row (cu_cols s)))"
      and y: "0 \<le> yb" "yb \<le> ybase s" "0 \<le> yd" "yd \<le> yb"
      using add_rows [OF ok(1-4), of ?k newRows "cu_cols s"] True assms(4,5) ok by auto
    have "nat (cl_length c) = nat (cl_length (lines s)) + b" using arg_cong [OF c(4), of length] by simp
    then have "row s < cl_length c" using ok by linarith
    moreover have res: "resize_rows (cu_cols s) newRows (newRows + sb) s =
        s\<lparr>lines := c, ybase := yb, ydisp := yd, cu_x := map_option (\<lambda>x. min x (cu_cols s - 1)) (cu_x s), cu_y := cu_y s + (ybase s - yb),
          savedY := map_option (\<lambda>y. min y (newRows - 1)) (savedY s), savedX := map_option (\<lambda>x. min x (cu_cols s - 1)) (savedX s), scrollTop := 0\<rparr>"
      using True r c(2) ok by (simp add: resize_rows_def trim_ring_def)
    ultimately have "rows_resized s newRows sb (length (cl_list (lines s))) b 0 (resize_rows (cu_cols s) newRows (newRows + sb) s)"
      using c y ok assms(5) by (simp add: rows_resized_def)
    then show ?thesis by blast
  next
    case False
    let ?k = "nat (cu_rows s - newRows)"
    have k: "newRows + int ?k \<le> cu_rows s" "cu_rows s - int ?k = newRows" "cl_maxLength (lines s) = cu_rows s + sb"
      using False assms(4) by simp_all
    from remove_rows [OF ok(1-4) k(1) assms(2) ok(6,7,5)]
    obtain c yb yd where r: "(remove_row newRows ^^ ?k) s = s\<lparr>lines := c, ybase := yb, ydisp := yd\<rparr>"
      and c: "cl_inv c" "cl_maxLength c = cl_maxLength (lines s)" "cl_length c = yb + cu_rows s - int ?k"
      and l: "cl_list c = take (nat (cl_length c)) (cl_list (lines s))" "row s < cl_length c"
      and y: "ybase s \<le> yb" "yb = ybase s \<or> cl_length c = row s + 1" "0 \<le> yd" "yd \<le> yb" by (elim exE conjE)
    have c: "cl_inv c" "cl_maxLength c = cu_rows s + sb" "cl_length c = yb + newRows" "row s < cl_length c"
      using c k(2,3) l(2) by (simp_all only: add_diff_eq [symmetric])
    note l = l(1)
    have cap: "newRows + sb \<le> cl_maxLength c" "0 \<le> yb" using False c(2) y ok by simp_all
    obtain c' n where t: "trim_ring (newRows + sb) (s\<lparr>lines := c, ybase := yb, ydisp := yd\<rparr>) =
        s\<lparr>lines := c', ybase := yb - int n, ydisp := max (yd - int n) 0\<rparr>"
      and c': "cl_inv c'" "cl_maxLength c' = newRows + sb" "cl_list c' = drop n (cl_list c)" "cl_length c' = yb - int n + newRows"
      "int n \<le> yb" "0 < n \<longrightarrow> yb - int n = sb"
      using trimmed_ring [OF c(1,3) assms(2,3) cap(2) y(3,4) cap(1)] by blast
    have cursor: "yb + min (cu_y s) (newRows - 1) = row s" using y c(3,4) by linarith
    have res: "resize_rows (cu_cols s) newRows (newRows + sb) s =
        s\<lparr>lines := c', ybase := yb - int n, ydisp := max (yd - int n) 0, cu_x := map_option (\<lambda>x. min x (cu_cols s - 1)) (cu_x s),
          cu_y := min (cu_y s) (newRows - 1),
          savedY := map_option (\<lambda>y. min y (newRows - 1)) (savedY s), savedX := map_option (\<lambda>x. min x (cu_cols s - 1)) (savedX s), scrollTop := 0\<rparr>"
      using False r t by (simp add: resize_rows_def)
    moreover have "yb - int n \<le> sb" using c'(1,2,4) by (simp add: cl_inv_def)
    ultimately have "rows_resized s newRows sb (nat (cl_length c)) 0 n (resize_rows (cu_cols s) newRows (newRows + sb) s)"
      using c' c(4) y ok assms(2) cursor by (simp add: rows_resized_def l [symmetric])
    then show ?thesis by blast
  qed
qed

lemma raise_maxLength:
  assumes "screen_ok s" and "cl_maxLength (lines s) \<le> m"
  shows "screen_ok (s\<lparr>lines := cl_setMaxLength (lines s) m\<rparr>) \<and> cl_list (cl_setMaxLength (lines s) m) = cl_list (lines s)
    \<and> cl_maxLength (cl_setMaxLength (lines s) m) = m"
proof -
  have c: "cl_inv (lines s)" using assms(1) by (simp add: screen_ok_def buffer_ok_def lines_ok_def)
  then have "0 < m" "cl_length (lines s) \<le> m" using assms(2) by (simp_all add: cl_inv_def cl_wf_def)
  from cl_setMaxLength_spec [OF c this] have m: "cl_inv (cl_setMaxLength (lines s) m)"
    "cl_list (cl_setMaxLength (lines s) m) = cl_list (lines s)" "cl_maxLength (cl_setMaxLength (lines s) m) = m" by simp_all
  have "cl_length (cl_setMaxLength (lines s) m) = cl_length (lines s)" by (simp add: cl_setMaxLength_def)
  with assms(1) m show ?thesis by (simp add: screen_ok_def place_ok_def buffer_ok_def lines_ok_def)
qed

lemma rows_resized_ok:
  assumes "screen_ok s" and "rows_resized s newRows sb k b n s'" and "0 < newRows"
  shows "screen_ok (s'\<lparr>scrollBottom := newRows - 1, cu_cols := cu_cols s, cu_rows := newRows\<rparr>)"
proof -
  have cols: "0 < cu_cols s" using assms(1) by (simp add: screen_ok_def place_ok_def)
  have "good_line (cu_cols s) (fresh_row (cu_cols s))" using cols by (simp add: fresh_row_def good_blank)
  then have "\<exists>l. v = Some l \<and> good_line (cu_cols s) l" if "v \<in> set (cl_list (lines s'))" for v
    using that assms(1,2) by (auto simp: rows_resized_def screen_ok_def buffer_ok_def lines_ok_def dest!: in_set_takeD in_set_dropD split: if_splits)
  with assms cols show ?thesis
    by (auto simp: rows_resized_def screen_ok_def buffer_ok_def lines_ok_def place_ok_def)
qed

text \<open>
  C16. Changing the number of rows keeps the lines. Of the old lines only lines below the cursor are dropped from
  the end and, when the scrollback is full afterwards, lines from the front; rows that are added are blank or come back from the
  history. The cursor stays on its line, nothing throws, and the screen is well-formed again, whether the buffer has a
  scrollback or not.
\<close>

theorem row_resize_keeps_lines:
  assumes "screen_ok s" and "0 < newRows" and "0 \<le> scrollback" and "max (cu_rows s) newRows + scrollback \<le> MAX_BUFFER_SIZE"
    and "cl_maxLength (lines s) = getCorrectBufferLength hasScrollback scrollback (cu_rows s)"
  shows "\<exists>s' k b n. buffer_resize hasScrollback scrollback windowsMode (cu_cols s) newRows s = Some (Inr s') \<and> screen_ok s' \<and>
    cu_rows s' = newRows \<and> cu_cols s' = cu_cols s \<and>
    cl_list (lines s') = drop n (take k (cl_list (lines s)) @ replicate b (Some (fresh_row (cu_cols s)))) \<and>
    row s < int k \<and> row s' = row s - int n \<and> (0 < n \<longrightarrow> ybase s' = room hasScrollback scrollback)"
proof -
  let ?sb = "room hasScrollback scrollback"
  let ?m = "newRows + ?sb"
  have m: "getCorrectBufferLength hasScrollback scrollback newRows = ?m" "cl_maxLength (lines s) = cu_rows s + ?sb" "0 \<le> ?sb"
    using assms(3-5) buffer_length [of "cu_rows s" scrollback] buffer_length [of newRows scrollback] by (auto simp: room_def)
  define s0 where "s0 = (if ?m > cl_maxLength (lines s) then s\<lparr>lines := cl_setMaxLength (lines s) ?m\<rparr> else s)"
  have s0: "screen_ok s0" "cl_list (lines s0) = cl_list (lines s)" "cl_maxLength (lines s0) = max (cu_rows s0) newRows + ?sb"
    "row s0 = row s" "cu_cols s0 = cu_cols s" "ybase s0 \<le> ?sb"
    using raise_maxLength [OF assms(1), of ?m] assms(1) m
    by (auto simp: s0_def screen_ok_def buffer_ok_def lines_ok_def cl_inv_def max_def)
  obtain k b n where r: "rows_resized s0 newRows ?sb k b n (resize_rows (cu_cols s0) newRows ?m s0)"
    using resize_rows_spec [OF s0(1) assms(2) m(3) s0(3,6)] by blast
  define s1 where "s1 = resize_rows (cu_cols s0) newRows ?m s0"
  let ?s' = "s1\<lparr>scrollBottom := newRows - 1, cu_cols := cu_cols s, cu_rows := newRows\<rparr>"
  have s1: "cu_cols s1 = cu_cols s" "resize_rows (cu_cols s) newRows ?m s0 = s1"
    using r s0(5) by (simp_all add: rows_resized_def s1_def)
  have "0 < cl_length (lines s0)" using s0(1) by (auto simp: screen_ok_def buffer_ok_def place_ok_def)
  then have "buffer_resize hasScrollback scrollback windowsMode (cu_cols s) newRows s = Some (Inr ?s')"
    unfolding buffer_resize_def m(1) Let_def s0_def [symmetric] by (simp add: reflow_def s1)
  moreover have "screen_ok ?s'" using rows_resized_ok [OF s0(1) r assms(2)] s0(5) by (simp add: s1_def)
  ultimately show ?thesis using r s0 unfolding s1_def [symmetric]
    by (intro exI [of _ ?s'] exI [of _ k] exI [of _ b] exI [of _ n]) (simp add: rows_resized_def)
qed

theorem row_resize_keeps_lines_witness:
  "\<exists>s' k b n. buffer_resize True 5 False 4 2 (new_screen 4 3 5) = Some (Inr s') \<and> screen_ok s' \<and> cu_rows s' = 2 \<and>
    cl_list (lines s') = drop n (take k (cl_list (lines (new_screen 4 3 5))) @ replicate b (Some (fresh_row 4)))"
  using row_resize_keeps_lines [OF small_screen(1), of 2 5 True False] small_screen
  by (auto simp: getCorrectBufferLength_def MAX_BUFFER_SIZE_def)

subsection \<open>The lines of a paragraph on a narrower screen\<close>

abbreviation share :: "buffer_line list \<Rightarrow> int \<Rightarrow> nat \<Rightarrow> int" where
  "share ws oldCols i \<equiv> getWrappedLineTrimmedLength ws (int i) oldCols"

lemma share_inner: "Suc i < length ws \<Longrightarrow> oldCols - 1 \<le> share ws oldCols i \<and> share ws oldCols i \<le> oldCols"
  by (auto simp: getWrappedLineTrimmedLength_def Let_def)

lemma share_last: "ws \<noteq> [] \<Longrightarrow> share ws oldCols (length ws - 1) = getTrimmedLength (last ws)"
  by (cases ws rule: rev_cases) (simp_all add: getWrappedLineTrimmedLength_def)

lemma cells_needed_sum: "cells_needed oldCols ws = (\<Sum>i<length ws. share ws oldCols i)"
  by (simp add: cells_needed_def interv_sum_list_conv_sum_set_nat lessThan_atLeast0)

text \<open>The place reached in the paragraph lies in a line, and one more line of the new width still fits behind it.\<close>

lemma next_place:
  assumes "i < length ws" and "col \<le> share ws oldCols i" and "0 \<le> col" and "0 < newCols" and "newCols < oldCols"
    and "(\<Sum>j<i. share ws oldCols j) + col + newCols \<le> cells_needed oldCols ws" and "share ws oldCols i < col + newCols"
  shows "Suc i < length ws \<and> col + newCols - share ws oldCols i \<le> share ws oldCols (Suc i)"
proof -
  have sum: "(\<Sum>j<Suc i. share ws oldCols j) < cells_needed oldCols ws" using assms(6,7) by simp
  then have i: "Suc i < length ws" using assms(1) by (cases "Suc i = length ws") (auto simp: cells_needed_sum)
  show ?thesis
  proof (cases "Suc (Suc i) < length ws")
    case True
    with share_inner [OF True, of oldCols] assms(2,5) i show ?thesis by linarith
  next
    case False
    with i have "length ws = Suc (Suc i)" by simp
    then have "cells_needed oldCols ws = (\<Sum>j<i. share ws oldCols j) + share ws oldCols i + share ws oldCols (Suc i)"
      by (simp add: cells_needed_sum)
    with assms(6) i show ?thesis by simp
  qed
qed

lemma new_lengths_spec:
  assumes "2 \<le> newCols" and "newCols < oldCols" and "i < length ws" and "0 \<le> col" and "col \<le> share ws oldCols i"
    and "avail = (\<Sum>j<i. share ws oldCols j) + col" and "avail \<le> cells_needed oldCols ws"
  shows "\<exists>ls. new_lengths oldCols newCols ws (cells_needed oldCols ws) col (int i) avail acc = Some (Inr (acc @ ls)) \<and>
    sum_list ls = cells_needed oldCols ws - avail \<and> (\<forall>k\<in>set ls. 0 < k \<and> k \<le> newCols) \<and> (\<forall>k\<in>set (butlast ls). newCols - 1 \<le> k) \<and>
    ((\<forall>l\<in>set ws. \<forall>c. line_getWidth l c \<noteq> 2) \<longrightarrow> (\<forall>k\<in>set (butlast ls). k = newCols))"
  using assms(3-7)
proof (induction "nat (cells_needed oldCols ws - avail)" arbitrary: i col avail acc rule: less_induct)
  case less
  let ?need = "cells_needed oldCols ws"
  show ?case
  proof (cases "?need - avail < newCols")
    case True
    with less.prems show ?thesis
      by (subst new_lengths.simps)
        (rule exI [of _ "if avail < ?need then [?need - avail] else []"], simp)
  next
    case False
    define over where "over = (share ws oldCols i < col + newCols)"
    define i1 where "i1 = (if over then Suc i else i)"
    define col1 where "col1 = (if over then col + newCols - share ws oldCols i else col + newCols)"
    have place: "i1 < length ws" "0 < col1" "col1 \<le> share ws oldCols i1"
      "avail + newCols = (\<Sum>j<i1. share ws oldCols j) + col1"
      using next_place [of i ws col oldCols newCols] less.prems False assms(1,2)
      by (auto simp: i1_def col1_def over_def)
    define wide where "wide = (line_getWidth (ws ! i1) (col1 - 1) = 2)"
    let ?len = "if wide then newCols - 1 else newCols" and ?col = "if wide then col1 - 1 else col1"
    have step: "new_lengths oldCols newCols ws ?need col (int i) avail acc =
        new_lengths oldCols newCols ws ?need ?col (int i1) (avail + ?len) (acc @ [?len])"
    proof -
      have go: "avail < ?need" "\<not> ?need - avail < newCols" "is_line ws (int i)" "is_line ws (int i1)"
        using False assms(1) less.prems(1) place(1) by (simp_all add: is_line_def)
      have vals: "(if share ws oldCols i < col + newCols then col + newCols - share ws oldCols i else col + newCols) = col1"
        "(if share ws oldCols i < col + newCols then int i + 1 else int i) = int i1" "nat (int i1) = i1"
        by (simp_all add: over_def col1_def i1_def)
      show ?thesis
        by (subst new_lengths.simps) (simp only: go vals Let_def wide_def if_True not_True_eq_False if_False)
    qed
    have "nat (?need - (avail + ?len)) < nat (?need - avail)" using False assms(1) by auto
    moreover have "0 \<le> ?col" "?col \<le> share ws oldCols i1" "avail + ?len = (\<Sum>j<i1. share ws oldCols j) + ?col" "avail + ?len \<le> ?need"
      using place False by auto
    ultimately obtain ls where ls: "new_lengths oldCols newCols ws ?need ?col (int i1) (avail + ?len) (acc @ [?len]) = Some (Inr ((acc @ [?len]) @ ls))"
      "sum_list ls = ?need - (avail + ?len)" "\<forall>k\<in>set ls. 0 < k \<and> k \<le> newCols" "\<forall>k\<in>set (butlast ls). newCols - 1 \<le> k"
      "(\<forall>l\<in>set ws. \<forall>c. line_getWidth l c \<noteq> 2) \<longrightarrow> (\<forall>k\<in>set (butlast ls). k = newCols)"
      using less.hyps [of "avail + ?len" i1 ?col "acc @ [?len]"] place(1) by blast
    have "\<not> wide" if "\<forall>l\<in>set ws. \<forall>c. line_getWidth l c \<noteq> 2" using that place(1) by (simp add: wide_def)
    with ls assms(1) show ?thesis unfolding step
      by (intro exI [of _ "?len # ls"]) auto
  qed
qed

text \<open>
  C17. On a narrower screen the cells of a paragraph are dealt out without loss: the loop that computes the new
  line lengths ends and throws nothing, the lengths add up to the cells of the paragraph, none is empty or longer than the
  screen, every line but the last is full up to one cell, and exactly full when the paragraph has no wide character.
\<close>

theorem reflow_deals_out_cells:
  assumes "ws \<noteq> []" and "2 \<le> newCols" and "newCols < oldCols" and "0 \<le> getTrimmedLength (last ws)"
  shows "\<exists>lens. reflowSmallerGetNewLineLengths ws oldCols newCols = Some (Inr lens) \<and>
    sum_list lens = cells_needed oldCols ws \<and> (\<forall>k\<in>set lens. 0 < k \<and> k \<le> newCols) \<and> (\<forall>k\<in>set (butlast lens). newCols - 1 \<le> k) \<and>
    ((\<forall>l\<in>set ws. \<forall>c. line_getWidth l c \<noteq> 2) \<longrightarrow> (\<forall>k\<in>set (butlast lens). k = newCols))"
proof -
  have pos: "0 \<le> share ws oldCols i" if "i < length ws" for i
  proof (cases "Suc i < length ws")
    case True
    then show ?thesis using share_inner [of i ws oldCols] assms(2,3) by simp
  next
    case False
    with that have "i = length ws - 1" by simp
    then show ?thesis using share_last [OF assms(1)] assms(4) by simp
  qed
  then have "0 \<le> cells_needed oldCols ws" unfolding cells_needed_sum by (intro sum_nonneg) simp
  with new_lengths_spec [OF assms(2,3), of 0 ws 0 0 "[]"] pos [of 0] assms(1) show ?thesis
    by (simp add: reflowSmallerGetNewLineLengths_def)
qed

lemma blank_trimmed:
  assumes "0 \<le> cols"
  shows "getTrimmedLength (getBlankLine cols a w) = 0"
proof -
  have word: "rd (bl_data (getBlankLine cols a w)) (int i * 3) = 4194304" if "int i < cols" for i
    using blank_cells [of "int i" cols a w] that
    by (simp add: cell_at_fields getNullCell_def fromCharData_def setFromCharData_def char_code_def Let_def)
  have "trimmed_loop (getBlankLine cols a w) k = 0" if "int k \<le> cols" for k
    using that by (induction k) (simp_all add: word)
  from this [of "nat cols"] assms good_blank [OF assms, of a w] show ?thesis
    by (simp add: getTrimmedLength_def good_line_def)
qed

theorem reflow_deals_out_cells_witness:
  "\<exists>lens. reflowSmallerGetNewLineLengths [fresh_row 4, fresh_row 4] 4 3 = Some (Inr lens) \<and>
    sum_list lens = cells_needed 4 [fresh_row 4, fresh_row 4]"
  using reflow_deals_out_cells [of "[fresh_row 4, fresh_row 4]" 3 4] by (auto simp: fresh_row_def blank_trimmed)

subsection \<open>A resize that throws\<close>

lemma blank_paragraph_throws:
  assumes "getTrimmedLength l = 0"
  shows "smaller_paragraph oldCols newCols nullCell [l] = Some (Inl TypeError)"
proof -
  have "reflowSmallerGetNewLineLengths [l] oldCols newCols = Some (Inr [])"
    using assms by (simp add: reflowSmallerGetNewLineLengths_def cells_needed_def getWrappedLineTrimmedLength_def new_lengths.simps)
  moreover have "smaller_copy oldCols [] (-1) (entry_at [] (-1)) 1 0 [l] = Some (Inl TypeError)"
    by (subst smaller_copy.simps) (simp add: is_line_def)
  ultimately show ?thesis using assms by (simp add: smaller_paragraph_def Let_def)
qed

lemma loop_reaches_first:
  assumes "\<forall>k. 0 < k \<and> k \<le> y \<longrightarrow> (\<exists>l. cl_get (lines s) k = Some l \<and> \<not> bl_isWrapped l \<and> getTrimmedLength l \<le> newCols)" and "0 \<le> y"
  shows "smaller_loop newCols newRows y s [] 0 = smaller_loop newCols newRows 0 s [] 0"
  using assms
proof (induction "nat y" arbitrary: y)
  case (Suc n)
  then have "0 < y" by simp
  with Suc.prems obtain l where "cl_get (lines s) y = Some l" "\<not> bl_isWrapped l" "getTrimmedLength l \<le> newCols" by blast
  then have "smaller_loop newCols newRows y s [] 0 = smaller_loop newCols newRows (y - 1) s [] 0"
    using \<open>0 < y\<close> by (subst smaller_loop.simps) simp
  with Suc.hyps(1) [of "y - 1"] Suc.hyps(2) Suc.prems show ?case by auto
qed simp

text \<open>
  C38. Narrowing the normal screen, in the mode in which lines are reflowed and with its rows and scrollback kept, throws a
  \<open>TypeError\<close> when the first line of the ring is blank and still marked as the continuation of a line that is gone, the
  cursor is not in it, and every other line is no continuation and has no text beyond the new width: a paragraph without
  cells gets no line, and the copy loop indexes the lines before the first one. Such a first line is left when the line it
  continues leaves the scrollback, since erasing a line keeps its mark.
\<close>

theorem narrowing_blank_continuation_throws:
  assumes "screen_ok s" and "newCols < cu_cols s" and "0 \<le> scrollback" and "cu_rows s + scrollback \<le> MAX_BUFFER_SIZE"
    and "cl_maxLength (lines s) = cu_rows s + scrollback" and "cl_get (lines s) 0 = Some l" and "bl_isWrapped l" and "getTrimmedLength l = 0"
    and "row s \<noteq> 0"
    and "\<forall>k. 0 < k \<and> k < cl_length (lines s) \<longrightarrow> (\<exists>l. cl_get (lines s) k = Some l \<and> \<not> bl_isWrapped l \<and> getTrimmedLength l \<le> newCols)"
  shows "buffer_resize True scrollback False newCols (cu_rows s) s = Some (Inl TypeError)"
proof -
  define s1 where "s1 = (resize_rows newCols (cu_rows s) (cu_rows s + scrollback) s)\<lparr>scrollBottom := cu_rows s - 1\<rparr>"
  have ok: "0 < cl_length (lines s)" "cu_y s < cu_rows s"
    using assms(1) by (auto simp: screen_ok_def buffer_ok_def place_ok_def)
  have s1: "lines s1 = lines s" "row s1 = row s" "cu_cols s1 = cu_cols s"
    using assms(5) ok(2) by (simp_all add: s1_def resize_rows_def trim_ring_def)
  have "smaller_loop newCols (cu_rows s) 0 s1 [] 0 = Some (Inl TypeError)"
    using assms(6-9) blank_paragraph_throws [OF assms(8)] s1
    by (subst smaller_loop.simps) (auto simp: wrapped_down.simps)
  then have "reflowSmaller newCols (cu_rows s) s1 = Some (Inl TypeError)"
    using loop_reaches_first [of "cl_length (lines s1) - 1" s1 newCols] assms(10) ok(1) s1
    by (simp add: reflowSmaller_def)
  then have "reflow newCols (cu_rows s) s1 = Some (Inl TypeError)" using assms(2) s1(3) by (simp add: reflow_def)
  then show ?thesis
    using assms(2,5) ok(1) buffer_length [OF assms(4), of True]
    by (simp add: buffer_resize_def room_def Let_def s1_def [symmetric])
qed

lemma blank_mark: "bl_isWrapped (getBlankLine cols a w) = w"
  by (subst blank_wrapped [symmetric, where w = w]) simp

text \<open>A screen with such a line, and the cursor in the row below.\<close>

definition stale_screen :: screen where
  "stale_screen = (let s = new_screen 4 3 5
     in s\<lparr>cu_y := 1, lines := cl_set (lines s) 0 (Some (getBlankLine 4 DEFAULT_ATTR_DATA True))\<rparr>)"

lemma stale_screen_lines:
  "screen_ok stale_screen" "cl_get (lines stale_screen) 0 = Some (getBlankLine 4 DEFAULT_ATTR_DATA True)"
  "0 < k \<Longrightarrow> k < 3 \<Longrightarrow> cl_get (lines stale_screen) k = Some (getBlankLine 4 DEFAULT_ATTR_DATA False)"
  "cl_length (lines stale_screen) = 3" "cl_maxLength (lines stale_screen) = 8"
  "cu_rows stale_screen = 3" "cu_cols stale_screen = 4" "row stale_screen = 1"
proof -
  let ?s = "new_screen 4 3 5"
  have ok: "screen_ok ?s" "cl_inv (lines ?s)" "cl_length (lines ?s) = 3" "cl_maxLength (lines ?s) = 8"
    using small_screen by (auto simp: screen_ok_def buffer_ok_def lines_ok_def getCorrectBufferLength_def MAX_BUFFER_SIZE_def)
  have rows: "cl_list (lines ?s) = replicate 3 (Some (getBlankLine 4 DEFAULT_ATTR_DATA False))"
    using small_screen by (simp add: viewport_def numeral_3_eq_3)
  have get: "cl_get (cl_set (lines ?s) 0 v) k = (if k = 0 then v else cl_get (lines ?s) k)" if "0 \<le> k" "k < 3" for k v
    using cl_get_set [of "lines ?s" 0 k v] ok that by (auto simp: cl_inv_def)
  have row: "cl_get (lines ?s) k = Some (getBlankLine 4 DEFAULT_ATTR_DATA False)" if "0 \<le> k" "k < 3" for k
    using arg_cong [OF rows, of "\<lambda>l. l ! nat k"] ok that by (simp add: cl_list_nth)
  show "cl_get (lines stale_screen) 0 = Some (getBlankLine 4 DEFAULT_ATTR_DATA True)"
    "0 < k \<Longrightarrow> k < 3 \<Longrightarrow> cl_get (lines stale_screen) k = Some (getBlankLine 4 DEFAULT_ATTR_DATA False)"
    "cl_length (lines stale_screen) = 3" "cl_maxLength (lines stale_screen) = 8"
    "cu_rows stale_screen = 3" "cu_cols stale_screen = 4" "row stale_screen = 1"
    using ok get row small_screen by (simp_all add: stale_screen_def Let_def)
  show "screen_ok stale_screen"
  proof -
    have "lines_ok 4 (cl_set (lines ?s) 0 (Some (getBlankLine 4 DEFAULT_ATTR_DATA True)))"
      using ok(2,3) rows good_blank [of 4] by (auto simp: lines_ok_def cl_inv_set cl_list_set numeral_3_eq_3)
    then show ?thesis using ok small_screen
      by (simp add: stale_screen_def Let_def screen_ok_def place_ok_def buffer_ok_def)
  qed
qed

theorem narrowing_blank_continuation_throws_witness:
  "buffer_resize True 5 False 3 3 stale_screen = Some (Inl TypeError)"
  using narrowing_blank_continuation_throws [OF stale_screen_lines(1), of 3 5 "getBlankLine 4 DEFAULT_ATTR_DATA True"]
  by (simp add: stale_screen_lines blank_trimmed blank_mark MAX_BUFFER_SIZE_def)

end
