(* ===== verification/EscapeSequenceParser.thy ===== *)
theory EscapeSequenceParser
  imports TextDecoder Settings
begin

text \<open>
  The parser of the terminal's input (\<open>EscapeSequenceParser\<close> in \<open>xterm.js\<close>): a table-driven state
  machine over code points, with shortcuts for printable text, digits and OSC strings. A handler is
  a name of type \<open>'h\<close>; a call of it is an entry of the list of calls the parser makes. A handler is
  code outside the parser: it does not touch the parser, and whether a CSI or OSC handler answers
  \<open>false\<close> and an error handler asks for \<open>abort\<close> is a function of what it is given. Numbers of a
  sequence are natural numbers (the source's are exact up to 2^53).
\<close>

subsection \<open>The transition table\<close>

text \<open>\<open>table[state << 8 | code]\<close> with \<open>code < 256\<close>: a function of state and code.\<close>

type_synonym transitions = "nat \<Rightarrow> nat \<Rightarrow> nat"

definition r_range :: "nat \<Rightarrow> nat \<Rightarrow> nat list" where
  "r_range low high = [low..<high]"

definition tt_new :: transitions where
  "tt_new = (\<lambda>state code. 0)"

definition tt_add :: "nat \<Rightarrow> nat \<Rightarrow> nat \<Rightarrow> nat \<Rightarrow> transitions \<Rightarrow> transitions" where
  "tt_add code state action nxt t =
     (\<lambda>s c. if s = state \<and> c = code then push_bit 4 action OR nxt else t s c)"

definition addMany :: "nat list \<Rightarrow> nat \<Rightarrow> nat \<Rightarrow> nat \<Rightarrow> transitions \<Rightarrow> transitions" where
  "addMany codes state action nxt = fold (\<lambda>code. tt_add code state action nxt) codes"

definition PRINTABLES :: "nat list" where "PRINTABLES = r_range 0x20 0x7f"

definition EXECUTABLES :: "nat list" where "EXECUTABLES = r_range 0x00 0x18 @ [0x19] @ r_range 0x1c 0x20"

definition NON_ASCII_PRINTABLE :: nat where "NON_ASCII_PRINTABLE = 0xA0"

text \<open>The writes of the table in their order: codes, state, action and next state.\<close>

definition any_state :: "nat \<Rightarrow> (nat list \<times> nat \<times> nat \<times> nat) list" where
  "any_state state =
    [([0x18, 0x1a, 0x99, 0x9a], state, 3, 0), (r_range 0x80 0x90, state, 3, 0), (r_range 0x90 0x98, state, 3, 0),
     ([0x9c], state, 0, 0), ([0x1b], state, 11, 1), ([0x9d], state, 4, 8),
     ([0x98, 0x9e, 0x9f], state, 0, 7), ([0x9b], state, 11, 3), ([0x90], state, 11, 9)]"

definition vt_writes :: "(nat list \<times> nat \<times> nat \<times> nat) list" where
  "vt_writes =
    map (\<lambda>state. (r_range 0 (NON_ASCII_PRINTABLE + 1), state, 1, 0)) (r_range 0 14) @
    [(PRINTABLES, 0, 2, 0)] @
    concat (map any_state (r_range 0 14)) @
    [(EXECUTABLES, 0, 3, 0), (EXECUTABLES, 1, 3, 1), ([0x7f], 1, 0, 1), (EXECUTABLES, 8, 0, 8),
     (EXECUTABLES, 3, 3, 3), ([0x7f], 3, 0, 3), (EXECUTABLES, 4, 3, 4), ([0x7f], 4, 0, 4),
     (EXECUTABLES, 6, 3, 6), (EXECUTABLES, 5, 3, 5), ([0x7f], 5, 0, 5), (EXECUTABLES, 2, 3, 2),
     ([0x7f], 2, 0, 2), ([0x5d], 1, 4, 8), (PRINTABLES, 8, 5, 8), ([0x7f], 8, 5, 8),
     ([0x9c, 0x1b, 0x18, 0x1a, 0x07], 8, 6, 0), (r_range 0x1c 0x20, 8, 0, 8), ([0x58, 0x5e, 0x5f], 1, 0, 7),
     (PRINTABLES, 7, 0, 7), (EXECUTABLES, 7, 0, 7), ([0x9c], 7, 0, 0), ([0x7f], 7, 0, 7),
     ([0x5b], 1, 11, 3), (r_range 0x40 0x7f, 3, 7, 0), (r_range 0x30 0x3a, 3, 8, 4), ([0x3b], 3, 8, 4),
     ([0x3c, 0x3d, 0x3e, 0x3f], 3, 9, 4), (r_range 0x30 0x3a, 4, 8, 4), ([0x3b], 4, 8, 4),
     (r_range 0x40 0x7f, 4, 7, 0), ([0x3a, 0x3c, 0x3d, 0x3e, 0x3f], 4, 0, 6), (r_range 0x20 0x40, 6, 0, 6),
     ([0x7f], 6, 0, 6), (r_range 0x40 0x7f, 6, 0, 0), ([0x3a], 3, 0, 6), (r_range 0x20 0x30, 3, 9, 5),
     (r_range 0x20 0x30, 5, 9, 5), (r_range 0x30 0x40, 5, 0, 6), (r_range 0x40 0x7f, 5, 7, 0), (r_range 0x20 0x30, 4, 9, 5),
     (r_range 0x20 0x30, 1, 9, 2), (r_range 0x20 0x30, 2, 9, 2), (r_range 0x30 0x7f, 2, 10, 0), (r_range 0x30 0x50, 1, 10, 0),
     (r_range 0x51 0x58, 1, 10, 0), ([0x59, 0x5a, 0x5c], 1, 10, 0), (r_range 0x60 0x7f, 1, 10, 0),
     ([0x50], 1, 11, 9), (EXECUTABLES, 9, 0, 9), ([0x7f], 9, 0, 9), (r_range 0x1c 0x20, 9, 0, 9),
     (r_range 0x20 0x30, 9, 9, 12), ([0x3a], 9, 0, 11), (r_range 0x30 0x3a, 9, 8, 10), ([0x3b], 9, 8, 10),
     ([0x3c, 0x3d, 0x3e, 0x3f], 9, 9, 10), (EXECUTABLES, 11, 0, 11), (r_range 0x20 0x80, 11, 0, 11),
     (r_range 0x1c 0x20, 11, 0, 11), (EXECUTABLES, 10, 0, 10), ([0x7f], 10, 0, 10), (r_range 0x1c 0x20, 10, 0, 10),
     (r_range 0x30 0x3a, 10, 8, 10), ([0x3b], 10, 8, 10), ([0x3a, 0x3c, 0x3d, 0x3e, 0x3f], 10, 0, 11),
     (r_range 0x20 0x30, 10, 9, 12), (EXECUTABLES, 12, 0, 12), ([0x7f], 12, 0, 12), (r_range 0x1c 0x20, 12, 0, 12),
     (r_range 0x20 0x30, 12, 9, 12), (r_range 0x30 0x40, 12, 0, 11), (r_range 0x40 0x7f, 12, 12, 13),
     (r_range 0x40 0x7f, 10, 12, 13), (r_range 0x40 0x7f, 9, 12, 13), (EXECUTABLES, 13, 13, 13),
     (PRINTABLES, 13, 13, 13), ([0x7f], 13, 0, 13), ([0x1b, 0x9c], 13, 14, 0),
     ([NON_ASCII_PRINTABLE], 8, 5, 8)]"

definition VT500_TRANSITION_TABLE :: transitions where
  "VT500_TRANSITION_TABLE = fold (\<lambda>(codes, state, action, nxt). addMany codes state action nxt) vt_writes tt_new"

subsection \<open>The parser and its handlers\<close>

text \<open>What the error handler is given.\<close>

record error_state =
  es_position :: nat
  es_code :: nat
  es_currentState :: nat
  es_print :: "nat option"
  es_dcs :: "nat option"
  es_osc :: units
  es_collect :: units
  es_params :: "nat list"

text \<open>
  The calls the parser makes. The fallbacks are \<open>None\<close> as long as they are the constructor's, which do
  nothing. The identifier of an OSC sequence is \<open>None\<close> when it is not a number.
\<close>

datatype 'h called =
    Print "'h option" "nat list"
  | Execute 'h | ExecuteFb "'h option" nat
  | Csi 'h "nat list" units | CsiFb "'h option" units "nat list" nat
  | Esc 'h units nat | EscFb "'h option" units nat
  | Osc 'h units | OscFb "'h option" "int option" units
  | Hook "'h option" units "nat list" nat | Put "'h option" "nat list" | Unhook "'h option"
  | ErrorCall error_state

record 'h parser =
  initialState :: nat
  currentState :: nat
  p_osc :: units
  p_params :: "nat list"
  p_collect :: units
  activeDcs :: "'h option option"
  printHandler :: "'h option"
  executeHandlers :: "nat \<rightharpoonup> 'h"
  executeHandlerFb :: "'h option"
  csiHandlers :: "nat \<rightharpoonup> 'h list"
  csiHandlerFb :: "'h option"
  escHandlers :: "units \<rightharpoonup> 'h"
  escHandlerFb :: "'h option"
  oscHandlers :: "int option \<rightharpoonup> 'h list"
  oscHandlerFb :: "'h option"
  dcsHandlers :: "units \<rightharpoonup> 'h"
  dcsHandlerFb :: "'h option"
  errorHandler :: "error_state \<Rightarrow> bool"

text \<open>The constructor; \<open>nop\<close> names the empty function it registers for the string terminator.\<close>

definition new_parser :: "'h \<Rightarrow> 'h parser" where
  "new_parser nop =
    \<lparr>initialState = 0, currentState = 0, p_osc = [], p_params = [0], p_collect = [], activeDcs = None,
     printHandler = None, executeHandlers = (\<lambda>_. None), executeHandlerFb = None,
     csiHandlers = (\<lambda>_. None), csiHandlerFb = None, escHandlers = [[92] \<mapsto> nop], escHandlerFb = None,
     oscHandlers = (\<lambda>_. None), oscHandlerFb = None, dcsHandlers = (\<lambda>_. None), dcsHandlerFb = None,
     errorHandler = (\<lambda>_. False)\<rparr>"

text \<open>A \<open>flag\<close> is given by its first code unit.\<close>

definition setPrintHandler :: "'h \<Rightarrow> 'h parser \<Rightarrow> 'h parser" where
  "setPrintHandler h p = p\<lparr>printHandler := Some h\<rparr>"
definition clearPrintHandler :: "'h parser \<Rightarrow> 'h parser" where
  "clearPrintHandler p = p\<lparr>printHandler := None\<rparr>"
definition setExecuteHandler :: "nat \<Rightarrow> 'h \<Rightarrow> 'h parser \<Rightarrow> 'h parser" where
  "setExecuteHandler flag h p = p\<lparr>executeHandlers := (executeHandlers p)(flag \<mapsto> h)\<rparr>"
definition clearExecuteHandler :: "nat \<Rightarrow> 'h parser \<Rightarrow> 'h parser" where
  "clearExecuteHandler flag p = p\<lparr>executeHandlers := (executeHandlers p)(flag := None)\<rparr>"
definition setExecuteHandlerFallback :: "'h \<Rightarrow> 'h parser \<Rightarrow> 'h parser" where
  "setExecuteHandlerFallback h p = p\<lparr>executeHandlerFb := Some h\<rparr>"

definition push_handler :: "'h \<Rightarrow> 'h list option \<Rightarrow> 'h list option" where
  "push_handler h hs = Some ((case hs of None \<Rightarrow> [] | Some l \<Rightarrow> l) @ [h])"

definition addCsiHandler :: "nat \<Rightarrow> 'h \<Rightarrow> 'h parser \<Rightarrow> 'h parser" where
  "addCsiHandler flag h p = p\<lparr>csiHandlers := (csiHandlers p)(flag := push_handler h (csiHandlers p flag))\<rparr>"
definition setCsiHandler :: "nat \<Rightarrow> 'h \<Rightarrow> 'h parser \<Rightarrow> 'h parser" where
  "setCsiHandler flag h p = p\<lparr>csiHandlers := (csiHandlers p)(flag \<mapsto> [h])\<rparr>"
definition clearCsiHandler :: "nat \<Rightarrow> 'h parser \<Rightarrow> 'h parser" where
  "clearCsiHandler flag p = p\<lparr>csiHandlers := (csiHandlers p)(flag := None)\<rparr>"
definition setCsiHandlerFallback :: "'h \<Rightarrow> 'h parser \<Rightarrow> 'h parser" where
  "setCsiHandlerFallback h p = p\<lparr>csiHandlerFb := Some h\<rparr>"
definition setEscHandler :: "units \<Rightarrow> 'h \<Rightarrow> 'h parser \<Rightarrow> 'h parser" where
  "setEscHandler collectAndFlag h p = p\<lparr>escHandlers := (escHandlers p)(collectAndFlag \<mapsto> h)\<rparr>"
definition clearEscHandler :: "units \<Rightarrow> 'h parser \<Rightarrow> 'h parser" where
  "clearEscHandler collectAndFlag p = p\<lparr>escHandlers := (escHandlers p)(collectAndFlag := None)\<rparr>"
definition setEscHandlerFallback :: "'h \<Rightarrow> 'h parser \<Rightarrow> 'h parser" where
  "setEscHandlerFallback h p = p\<lparr>escHandlerFb := Some h\<rparr>"
definition addOscHandler :: "int \<Rightarrow> 'h \<Rightarrow> 'h parser \<Rightarrow> 'h parser" where
  "addOscHandler ident h p =
     p\<lparr>oscHandlers := (oscHandlers p)(Some ident := push_handler h (oscHandlers p (Some ident)))\<rparr>"
definition setOscHandler :: "int \<Rightarrow> 'h \<Rightarrow> 'h parser \<Rightarrow> 'h parser" where
  "setOscHandler ident h p = p\<lparr>oscHandlers := (oscHandlers p)(Some ident \<mapsto> [h])\<rparr>"
definition clearOscHandler :: "int \<Rightarrow> 'h parser \<Rightarrow> 'h parser" where
  "clearOscHandler ident p = p\<lparr>oscHandlers := (oscHandlers p)(Some ident := None)\<rparr>"
definition setOscHandlerFallback :: "'h \<Rightarrow> 'h parser \<Rightarrow> 'h parser" where
  "setOscHandlerFallback h p = p\<lparr>oscHandlerFb := Some h\<rparr>"
definition setDcsHandler :: "units \<Rightarrow> 'h \<Rightarrow> 'h parser \<Rightarrow> 'h parser" where
  "setDcsHandler collectAndFlag h p = p\<lparr>dcsHandlers := (dcsHandlers p)(collectAndFlag \<mapsto> h)\<rparr>"
definition clearDcsHandler :: "units \<Rightarrow> 'h parser \<Rightarrow> 'h parser" where
  "clearDcsHandler collectAndFlag p = p\<lparr>dcsHandlers := (dcsHandlers p)(collectAndFlag := None)\<rparr>"
definition setDcsHandlerFallback :: "'h \<Rightarrow> 'h parser \<Rightarrow> 'h parser" where
  "setDcsHandlerFallback h p = p\<lparr>dcsHandlerFb := Some h\<rparr>"
definition setErrorHandler :: "(error_state \<Rightarrow> bool) \<Rightarrow> 'h parser \<Rightarrow> 'h parser" where
  "setErrorHandler f p = p\<lparr>errorHandler := f\<rparr>"
definition clearErrorHandler :: "'h parser \<Rightarrow> 'h parser" where
  "clearErrorHandler p = p\<lparr>errorHandler := (\<lambda>_. False)\<rparr>"
definition parser_reset :: "'h parser \<Rightarrow> 'h parser" where
  "parser_reset p = p\<lparr>currentState := initialState p, p_osc := [], p_params := [0], p_collect := [], activeDcs := None\<rparr>"

subsection \<open>Parsing\<close>

text \<open>The local variables of \<open>parse\<close>, with the calls made so far; \<open>-1\<close> is \<open>None\<close>.\<close>

record 'h plocal =
  l_state :: nat
  l_print :: "nat option"
  l_dcs :: "nat option"
  l_osc :: units
  l_collect :: units
  l_params :: "nat list"
  l_dcsHandler :: "'h option option"
  l_calls :: "'h called list"

definition make_call :: "'h called \<Rightarrow> 'h plocal \<Rightarrow> 'h plocal" where
  "make_call c s = s\<lparr>l_calls := l_calls s @ [c]\<rparr>"

definition slice :: "'a list \<Rightarrow> nat \<Rightarrow> nat \<Rightarrow> 'a list" where
  "slice data a b = take (b - a) (drop a data)"

definition start_at :: "nat \<Rightarrow> nat option \<Rightarrow> nat option" where
  "start_at i k = (case k of Some p \<Rightarrow> Some p | None \<Rightarrow> Some i)"

text \<open>The first index from \<open>j\<close> on where the test fails, at most the length.\<close>

definition scan :: "('a \<Rightarrow> bool) \<Rightarrow> 'a list \<Rightarrow> nat \<Rightarrow> nat" where
  "scan test data j = j + length (takeWhile test (drop j data))"

definition ascii_printable :: "nat \<Rightarrow> bool" where
  "ascii_printable code = (0x1f < code \<and> code < 0x80)"

definition osc_part :: "nat \<Rightarrow> bool" where
  "osc_part code = (\<not> (code < 0x20 \<or> 0x7f < code \<and> code \<le> 0x9f))"

definition flush_print :: "'h parser \<Rightarrow> nat list \<Rightarrow> nat \<Rightarrow> 'h plocal \<Rightarrow> 'h plocal" where
  "flush_print p data i s =
     (case l_print s of None \<Rightarrow> s
      | Some k \<Rightarrow> (make_call (Print (printHandler p) (slice data k i)) s)\<lparr>l_print := None\<rparr>)"

definition clear_sequence :: "'h plocal \<Rightarrow> 'h plocal" where
  "clear_sequence s = s\<lparr>l_osc := [], l_params := [0], l_collect := [], l_dcs := None\<rparr>"

text \<open>
  The outcome of one round of the loop: the locals, the transition (whose low four bits are the next
  state) and the index of the next code point, an abort, or a \<open>TypeError\<close>.
\<close>

datatype 'h round = Next "'h plocal" nat nat | Abort "'h plocal" | Crash "'h plocal"

definition act_execute :: "'h parser \<Rightarrow> nat list \<Rightarrow> nat \<Rightarrow> nat \<Rightarrow> 'h plocal \<Rightarrow> 'h plocal" where
  "act_execute p data i code s =
     make_call (case executeHandlers p code of Some h \<Rightarrow> Execute h | None \<Rightarrow> ExecuteFb (executeHandlerFb p) code)
       (flush_print p data i s)"

definition act_ignore :: "'h parser \<Rightarrow> nat list \<Rightarrow> nat \<Rightarrow> nat \<Rightarrow> 'h plocal \<Rightarrow> 'h round" where
  "act_ignore p data i transition s =
     (if l_print s \<noteq> None then Next (flush_print p data i s) transition (i + 1)
      else (case l_dcs s of None \<Rightarrow> Next s transition (i + 1)
        | Some d \<Rightarrow> (case l_dcsHandler s of None \<Rightarrow> Crash s
            | Some h \<Rightarrow> Next ((make_call (Put h (slice data d i)) s)\<lparr>l_dcs := None\<rparr>) transition (i + 1))))"

definition report_error :: "'h parser \<Rightarrow> nat \<Rightarrow> nat \<Rightarrow> nat \<Rightarrow> 'h plocal \<Rightarrow> 'h round" where
  "report_error p i code transition s =
     (let e = \<lparr>es_position = i, es_code = code, es_currentState = l_state s, es_print = l_print s, es_dcs = l_dcs s,
               es_osc = l_osc s, es_collect = l_collect s, es_params = l_params s\<rparr>;
          s' = make_call (ErrorCall e) s
      in if errorHandler p e then Abort s' else Next s' transition (i + 1))"

definition act_error :: "'h parser \<Rightarrow> nat \<Rightarrow> nat \<Rightarrow> nat \<Rightarrow> 'h plocal \<Rightarrow> 'h round" where
  "act_error p i code transition s =
     (if code > 0x9f \<and> code \<noteq> undefined_code then
        (if l_state s = 0 then Next (s\<lparr>l_print := start_at i (l_print s)\<rparr>) transition (i + 1)
         else if l_state s = 6 then Next s (transition OR 6) (i + 1)
         else if l_state s = 11 then Next s (transition OR 11) (i + 1)
         else if l_state s = 13 then Next (s\<lparr>l_dcs := start_at i (l_dcs s)\<rparr>) (transition OR 13) (i + 1)
         else report_error p i code transition s)
      else report_error p i code transition s)"

text \<open>
  Handlers are tried from the last one registered; \<open>ok h\<close> says that \<open>h\<close> answers something else than
  \<open>false\<close>. The result is the handlers called and whether one of them was satisfied.
\<close>

fun try_handlers :: "('h \<Rightarrow> bool) \<Rightarrow> 'h list \<Rightarrow> 'h list \<times> bool" where
  "try_handlers ok [] = ([], False)"
| "try_handlers ok (h # hs) =
     (if ok h then ([h], True) else (let (called, found) = try_handlers ok hs in (h # called, found)))"

definition handlers_of :: "'h list option \<Rightarrow> 'h list" where
  "handlers_of hs = (case hs of None \<Rightarrow> [] | Some l \<Rightarrow> rev l)"

definition act_csi :: "('h \<Rightarrow> nat list \<Rightarrow> units \<Rightarrow> bool) \<Rightarrow> 'h parser \<Rightarrow> nat \<Rightarrow> 'h plocal \<Rightarrow> 'h plocal" where
  "act_csi csi_ok p code s =
     (let (called, found) = try_handlers (\<lambda>h. csi_ok h (l_params s) (l_collect s)) (handlers_of (csiHandlers p code));
          s' = fold (\<lambda>h. make_call (Csi h (l_params s) (l_collect s))) called s
      in if found then s' else make_call (CsiFb (csiHandlerFb p) (l_collect s) (l_params s) code) s')"

definition add_digit :: "nat \<Rightarrow> nat list \<Rightarrow> nat list" where
  "add_digit code params = params[length params - 1 := params ! (length params - 1) * 10 + (code - 48)]"

definition act_param :: "nat \<Rightarrow> 'h plocal \<Rightarrow> 'h plocal" where
  "act_param code s =
     s\<lparr>l_params := (if code = 0x3b then l_params s @ [0] else add_digit code (l_params s))\<rparr>"

definition act_esc :: "'h parser \<Rightarrow> nat \<Rightarrow> 'h plocal \<Rightarrow> 'h plocal" where
  "act_esc p code s =
     make_call (case escHandlers p (l_collect s @ [code]) of Some h \<Rightarrow> Esc h (l_collect s) code
       | None \<Rightarrow> EscFb (escHandlerFb p) (l_collect s) code) s"

definition act_clear :: "'h parser \<Rightarrow> nat list \<Rightarrow> nat \<Rightarrow> 'h plocal \<Rightarrow> 'h plocal" where
  "act_clear p data i s = clear_sequence (flush_print p data i s)"

definition act_hook :: "'h parser \<Rightarrow> nat \<Rightarrow> 'h plocal \<Rightarrow> 'h plocal" where
  "act_hook p code s =
     (let h = (case dcsHandlers p (l_collect s @ [code]) of Some h \<Rightarrow> Some h | None \<Rightarrow> dcsHandlerFb p)
      in make_call (Hook h (l_collect s) (l_params s) code) (s\<lparr>l_dcsHandler := Some h\<rparr>))"

definition act_unhook :: "nat list \<Rightarrow> nat \<Rightarrow> 'h plocal \<Rightarrow> 'h plocal" where
  "act_unhook data i s =
     clear_sequence (case l_dcsHandler s of None \<Rightarrow> s
       | Some h \<Rightarrow> (make_call (Unhook h)
           (case l_dcs s of None \<Rightarrow> s | Some d \<Rightarrow> make_call (Put h (slice data d i)) s))\<lparr>l_dcsHandler := None\<rparr>)"

text \<open>
  \<open>parseInt\<close> of the identifier: leading white space, a sign, the radix prefix of hexadecimal numbers,
  then the longest run of digits.
\<close>

definition unit_space :: "nat \<Rightarrow> bool" where
  "unit_space u = (u \<in> {9, 10, 11, 12, 13, 32, 0xA0, 0x1680, 0x2028, 0x2029, 0x202F, 0x205F, 0x3000, 0xFEFF} \<or>
     0x2000 \<le> u \<and> u \<le> 0x200A)"

definition unit_digit :: "nat \<Rightarrow> nat \<Rightarrow> nat option" where
  "unit_digit radix u =
     (let d = (if 48 \<le> u \<and> u \<le> 57 then u - 48 else if 97 \<le> u \<and> u \<le> 102 then u - 87
               else if 65 \<le> u \<and> u \<le> 70 then u - 55 else 16)
      in if d < radix then Some d else None)"

fun digits_value :: "nat \<Rightarrow> nat \<Rightarrow> units \<Rightarrow> nat" where
  "digits_value radix acc [] = acc"
| "digits_value radix acc (u # us) =
     (case unit_digit radix u of None \<Rightarrow> acc | Some d \<Rightarrow> digits_value radix (radix * acc + d) us)"

definition parse_unsigned :: "units \<Rightarrow> nat option" where
  "parse_unsigned us =
     (let hex = (2 \<le> length us \<and> us ! 0 = 48 \<and> (us ! 1 = 120 \<or> us ! 1 = 88));
          radix = (if hex then 16 else 10); us = (if hex then drop 2 us else us)
      in if us \<noteq> [] \<and> unit_digit radix (hd us) \<noteq> None then Some (digits_value radix 0 us) else None)"

definition units_parseInt :: "units \<Rightarrow> int option" where
  "units_parseInt s =
     (let us = dropWhile unit_space s
      in if us \<noteq> [] \<and> hd us = 45 then map_option (\<lambda>n. - int n) (parse_unsigned (tl us))
         else if us \<noteq> [] \<and> hd us = 43 then map_option int (parse_unsigned (tl us))
         else map_option int (parse_unsigned us))"

definition osc_dispatch :: "('h \<Rightarrow> units \<Rightarrow> bool) \<Rightarrow> 'h parser \<Rightarrow> 'h plocal \<Rightarrow> 'h plocal" where
  "osc_dispatch osc_ok p s =
     (let osc = l_osc s
      in if 59 \<notin> set osc then make_call (OscFb (oscHandlerFb p) (Some (-1)) osc) s
         else
           (let identifier = units_parseInt (takeWhile (\<lambda>u. u \<noteq> 59) osc);
                content = tl (dropWhile (\<lambda>u. u \<noteq> 59) osc);
                (called, found) = try_handlers (\<lambda>h. osc_ok h content) (handlers_of (oscHandlers p identifier));
                s' = fold (\<lambda>h. make_call (Osc h content)) called s
            in if found then s' else make_call (OscFb (oscHandlerFb p) identifier content) s'))"

definition act_osc_end :: "('h \<Rightarrow> units \<Rightarrow> bool) \<Rightarrow> 'h parser \<Rightarrow> nat \<Rightarrow> 'h plocal \<Rightarrow> 'h plocal" where
  "act_osc_end osc_ok p code s =
     clear_sequence (if l_osc s \<noteq> [] \<and> code \<noteq> 0x18 \<and> code \<noteq> 0x1a then osc_dispatch osc_ok p s else s)"

text \<open>The switch over the action; an action the source does not name does nothing.\<close>

definition do_action ::
  "('h \<Rightarrow> nat list \<Rightarrow> units \<Rightarrow> bool) \<Rightarrow> ('h \<Rightarrow> units \<Rightarrow> bool) \<Rightarrow> 'h parser \<Rightarrow> nat list \<Rightarrow> nat \<Rightarrow> nat \<Rightarrow> nat \<Rightarrow> 'h plocal \<Rightarrow> 'h round" where
  "do_action csi_ok osc_ok p data i code transition s =
     (let action = drop_bit 4 transition; go = (\<lambda>s. Next s transition (i + 1));
          restart = (if code = 0x1b then transition OR 1 else transition)
      in if action = 2 then go (s\<lparr>l_print := start_at i (l_print s)\<rparr>)
         else if action = 3 then go (act_execute p data i code s)
         else if action = 0 then act_ignore p data i transition s
         else if action = 1 then act_error p i code transition s
         else if action = 7 then go (act_csi csi_ok p code s)
         else if action = 8 then go (act_param code s)
         else if action = 9 then go (s\<lparr>l_collect := l_collect s @ [code]\<rparr>)
         else if action = 10 then go (act_esc p code s)
         else if action = 11 then go (act_clear p data i s)
         else if action = 12 then go (act_hook p code s)
         else if action = 13 then go (s\<lparr>l_dcs := start_at i (l_dcs s)\<rparr>)
         else if action = 14 then Next (act_unhook data i s) restart (i + 1)
         else if action = 4 then go ((flush_print p data i s)\<lparr>l_osc := []\<rparr>)
         else if action = 5 then
           (let j = scan osc_part data (i + 1)
            in Next (s\<lparr>l_osc := l_osc s @ utf32ToString data i j\<rparr>) transition j)
         else if action = 6 then Next (act_osc_end osc_ok p code s) restart (i + 1)
         else go s)"

text \<open>One round of the loop, the two shortcuts first; they keep the state.\<close>

definition parse_round ::
  "transitions \<Rightarrow> ('h \<Rightarrow> nat list \<Rightarrow> units \<Rightarrow> bool) \<Rightarrow> ('h \<Rightarrow> units \<Rightarrow> bool) \<Rightarrow> 'h parser \<Rightarrow> nat list \<Rightarrow> nat \<Rightarrow> 'h plocal \<Rightarrow> 'h round" where
  "parse_round table csi_ok osc_ok p data i s =
     (let code = data ! i; st = l_state s
      in if st = 0 \<and> code > 0x1f \<and> code < 0x80
         then Next (s\<lparr>l_print := start_at i (l_print s)\<rparr>) st (scan ascii_printable data (i + 1))
         else if st = 4 \<and> code > 0x2f \<and> code < 0x39
         then Next (s\<lparr>l_params := add_digit code (l_params s)\<rparr>) st (i + 1)
         else do_action csi_ok osc_ok p data i code (table st (if code < 0xa0 then code else NON_ASCII_PRINTABLE)) s)"

lemma round_advances:
  assumes "parse_round table csi_ok osc_ok p data i s = Next s' t j"
  shows "i < j"
  using assms
  by (auto simp: parse_round_def do_action_def Let_def act_ignore_def act_error_def report_error_def scan_def
      split: if_splits option.splits)

function parse_loop ::
  "transitions \<Rightarrow> ('h \<Rightarrow> nat list \<Rightarrow> units \<Rightarrow> bool) \<Rightarrow> ('h \<Rightarrow> units \<Rightarrow> bool) \<Rightarrow> 'h parser \<Rightarrow> nat list \<Rightarrow> nat \<Rightarrow> 'h plocal \<Rightarrow> 'h round" where
  "parse_loop table csi_ok osc_ok p data i s =
     (if i < length data then
        (case parse_round table csi_ok osc_ok p data i s of
           Next s' transition j \<Rightarrow> parse_loop table csi_ok osc_ok p data j (s'\<lparr>l_state := transition AND 15\<rparr>)
         | Abort s' \<Rightarrow> Abort s'
         | Crash s' \<Rightarrow> Crash s')
      else Next s (l_state s) i)"
  by pat_completeness auto
termination
  by (relation "measure (\<lambda>(table, csi_ok, osc_ok, p, data, i, s). length data - i)")
    (auto dest!: round_advances)

declare parse_loop.simps [simp del]

text \<open>What is still pending at the end of the data.\<close>

definition parse_end :: "'h parser \<Rightarrow> nat list \<Rightarrow> 'h plocal \<Rightarrow> 'h plocal" where
  "parse_end p data s =
     (if l_state s = 0 \<and> l_print s \<noteq> None then flush_print p data (length data) s
      else (case (l_state s = 13, l_dcs s, l_dcsHandler s) of
          (True, Some d, Some h) \<Rightarrow> make_call (Put h (slice data d (length data))) s
        | _ \<Rightarrow> s))"

definition parse_start :: "'h parser \<Rightarrow> 'h plocal" where
  "parse_start p =
     \<lparr>l_state = currentState p, l_print = None, l_dcs = None, l_osc = p_osc p, l_collect = p_collect p,
      l_params = p_params p, l_dcsHandler = activeDcs p, l_calls = []\<rparr>"

text \<open>
  \<open>parse(data, length)\<close>, given the first \<open>length\<close> code points: the parser afterwards, the calls made, and whether a \<open>TypeError\<close> was thrown. An abort
  returns, and an exception leaves, before the parser's fields are written. (The array of parameters is changed in
  place: after an abort or an exception the source keeps digits added since the call began. The error handler of the program
  never aborts.)
\<close>

definition parse ::
  "transitions \<Rightarrow> ('h \<Rightarrow> nat list \<Rightarrow> units \<Rightarrow> bool) \<Rightarrow> ('h \<Rightarrow> units \<Rightarrow> bool) \<Rightarrow> nat list \<Rightarrow> 'h parser \<Rightarrow> 'h parser \<times> 'h called list \<times> bool" where
  "parse table csi_ok osc_ok data p =
     (case parse_loop table csi_ok osc_ok p data 0 (parse_start p) of
        Crash s \<Rightarrow> (p, l_calls s, True)
      | Abort s \<Rightarrow> (p, l_calls s, False)
      | Next s _ _ \<Rightarrow>
          (let s = parse_end p data s
           in (p\<lparr>p_osc := l_osc s, p_collect := l_collect s, p_params := l_params s, activeDcs := l_dcsHandler s,
                 currentState := l_state s\<rparr>, l_calls s, False)))"

end
