(* ===== verification/Parser_Chunks.thy ===== *)
theory Parser_Chunks
  imports EscapeSequenceParser
begin

text \<open>
  The escape sequence parser is a machine over single code points: its shortcuts and its pending
  ranges change neither its state nor what its calls show, so that chunks of input may be cut
  anywhere. Then that no input makes it throw, and that control sequences reach their handlers.
\<close>

subsection \<open>Reading the table\<close>

definition entry_value :: "nat \<Rightarrow> nat \<Rightarrow> (nat list \<times> nat \<times> nat \<times> nat) list \<Rightarrow> nat" where
  "entry_value s c ws = fold (\<lambda>(codes, st, a, n) v. if c \<in> set codes then push_bit 4 a OR n else v)
     (filter (\<lambda>(codes, st, a, n). st = s) ws) 0"

lemma addMany_apply: "addMany codes st a n t s c = (if s = st \<and> c \<in> set codes then push_bit 4 a OR n else t s c)"
  unfolding addMany_def by (induction codes arbitrary: t) (auto simp: tt_add_def)

lemma table_fold:
  "fold (\<lambda>(codes, st, a, n). addMany codes st a n) ws t s c =
   fold (\<lambda>(codes, st, a, n) v. if c \<in> set codes then push_bit 4 a OR n else v)
     (filter (\<lambda>(codes, st, a, n). st = s) ws) (t s c)"
proof (induction ws arbitrary: t)
  case (Cons w ws)
  then show ?case by (cases w) (simp add: addMany_apply)
qed simp

lemma table_entries: "VT500_TRANSITION_TABLE s c = entry_value s c vt_writes"
  by (simp add: VT500_TRANSITION_TABLE_def entry_value_def table_fold tt_new_def)

text \<open>A property of every write that holds of an untouched cell holds of the table.\<close>

lemma table_all:
  assumes "list_all (\<lambda>(codes, st, a, n). Q st (push_bit 4 a OR n)) vt_writes" and "Q s 0"
  shows "Q s (VT500_TRANSITION_TABLE s c)"
proof -
  have "Q s (fold (\<lambda>(codes, st, a, n) v. if c \<in> set codes then push_bit 4 a OR n else v)
     (filter (\<lambda>(codes, st, a, n). st = s) ws) v)"
    if "list_all (\<lambda>(codes, st, a, n). Q st (push_bit 4 a OR n)) ws" "Q s v" for ws v
    using that by (induction ws arbitrary: v) auto
  with assms show ?thesis by (simp add: table_entries entry_value_def)
qed

definition sane_entry :: "nat \<Rightarrow> nat \<Rightarrow> bool" where
  "sane_entry st t = (let a = drop_bit 4 t; n = t AND 15 in
     (a = 1 \<longrightarrow> n = 0) \<and> (a = 2 \<longrightarrow> st = 0 \<and> n = 0) \<and> (a = 13 \<longrightarrow> st = 13 \<and> n = 13) \<and>
     (n = 13 \<longrightarrow> a = 12 \<or> st = 13) \<and> (a = 5 \<longrightarrow> st = 8 \<and> n = 8) \<and> (a = 12 \<longrightarrow> n = 13) \<and>
     (a = 6 \<or> a = 14 \<longrightarrow> n = 0))"

lemma all_states: "r_range 0 14 = [0, 1, 2, 3, 4, 5, 6, 7, 8, 9, 10, 11, 12, 13]"
  by code_simp

lemma vt_writes_sane: "list_all (\<lambda>(codes, st, a, n). sane_entry st (push_bit 4 a OR n)) vt_writes"
  by (simp add: vt_writes_def any_state_def all_states sane_entry_def Let_def)

lemma table_sane: "sane_entry s (VT500_TRANSITION_TABLE s c)"
  by (rule table_all [OF vt_writes_sane]) (simp add: sane_entry_def)

lemma state_writes:
  "filter (\<lambda>(codes, st, a, n). st = 0) vt_writes =
    (r_range 0 (NON_ASCII_PRINTABLE + 1), 0, 1, 0) # (PRINTABLES, 0, 2, 0) # any_state 0 @ [(EXECUTABLES, 0, 3, 0)]"
  "filter (\<lambda>(codes, st, a, n). st = 13) vt_writes =
    (r_range 0 (NON_ASCII_PRINTABLE + 1), 13, 1, 0) # any_state 13 @
      [(EXECUTABLES, 13, 13, 13), (PRINTABLES, 13, 13, 13), ([0x7f], 13, 0, 13), ([0x1b, 0x9c], 13, 14, 0)]"
  "filter (\<lambda>(codes, st, a, n). st = 8) vt_writes =
    (r_range 0 (NON_ASCII_PRINTABLE + 1), 8, 1, 0) # any_state 8 @
      [(EXECUTABLES, 8, 0, 8), (PRINTABLES, 8, 5, 8), ([0x7f], 8, 5, 8), ([0x9c, 0x1b, 0x18, 0x1a, 0x07], 8, 6, 0),
       (r_range 0x1c 0x20, 8, 0, 8), ([NON_ASCII_PRINTABLE], 8, 5, 8)]"
  by (simp_all add: vt_writes_def any_state_def all_states)

definition column :: "nat \<Rightarrow> nat" where
  "column c = (if c < 0xa0 then c else NON_ASCII_PRINTABLE)"

definition plain :: "nat \<Rightarrow> bool" where
  "plain c = ((c < 0x7f \<or> 0x9f < c) \<and> c \<noteq> 0x18 \<and> c \<noteq> 0x1a \<and> c \<noteq> undefined_code)"

lemma set_r_range: "set (r_range a b) = {a..<b}"
  by (simp add: r_range_def)

lemmas code_sets = EXECUTABLES_def PRINTABLES_def set_r_range NON_ASCII_PRINTABLE_def column_def

lemma plain_cases:
  assumes "plain c"
  obtains "0x9f < c" | "0x1f < c" "c < 0x7f" | "c = 0x1b" | "c < 0x18" | "c = 0x19" | "0x1b < c" "c < 0x20"
  using assms by (auto simp: plain_def) linarith

lemma ground_table:
  assumes "plain c"
  shows "VT500_TRANSITION_TABLE 0 (column c) =
    (if 0x9f < c then 16 else if 0x1f < c then 32 else if c = 0x1b then 177 else 48)"
  unfolding table_entries entry_value_def state_writes
  using assms by (cases rule: plain_cases) (simp_all add: any_state_def code_sets)

lemma dcs_table:
  assumes "plain c"
  shows "VT500_TRANSITION_TABLE 13 (column c) = (if 0x9f < c then 16 else if c = 0x1b then 224 else 221)"
  unfolding table_entries entry_value_def state_writes
  using assms by (cases rule: plain_cases) (simp_all add: any_state_def code_sets)

lemma osc_table:
  assumes "plain c" and "osc_part c"
  shows "VT500_TRANSITION_TABLE 8 (column c) = 88"
  unfolding table_entries entry_value_def state_writes
  using assms by (cases rule: plain_cases) (simp_all add: any_state_def code_sets osc_part_def)

subsection \<open>One code point at a time\<close>

text \<open>
  What the calls show: every character printed or put on its own, errors left out.
\<close>

fun visible_call :: "'h called \<Rightarrow> 'h called list" where
  "visible_call (Print h cs) = map (\<lambda>c. Print h [c]) cs"
| "visible_call (Put h cs) = map (\<lambda>c. Put h [c]) cs"
| "visible_call (ErrorCall e) = []"
| "visible_call c = [c]"

definition visible :: "'h called list \<Rightarrow> 'h called list" where
  "visible cs = concat (map visible_call cs)"

lemma visible_simps [simp]:
  "visible [] = []" "visible (c # cs) = visible_call c @ visible cs" "visible (xs @ ys) = visible xs @ visible ys"
  by (simp_all add: visible_def)

lemma visible_prints [simp]: "visible (map (\<lambda>c. Print h [c]) cs) = map (\<lambda>c. Print h [c]) cs"
  by (induction cs) simp_all

text \<open>The locals after a chunk of one code point, the calls kept.\<close>

definition one_point ::
  "('h \<Rightarrow> nat list \<Rightarrow> units \<Rightarrow> bool) \<Rightarrow> ('h \<Rightarrow> units \<Rightarrow> bool) \<Rightarrow> 'h parser \<Rightarrow> nat \<Rightarrow> 'h plocal \<Rightarrow> 'h plocal" where
  "one_point csi_ok osc_ok p c s =
     (case parse_round VT500_TRANSITION_TABLE csi_ok osc_ok p [c] 0 s of
        Next s' t j \<Rightarrow> (parse_end p [c] (s'\<lparr>l_state := t AND 15\<rparr>))\<lparr>l_print := None, l_dcs := None\<rparr>
      | Abort s' \<Rightarrow> s' | Crash s' \<Rightarrow> s')"

text \<open>What is printed or put when the pending range ends at \<open>i\<close>.\<close>

definition pending :: "'h parser \<Rightarrow> nat list \<Rightarrow> nat \<Rightarrow> 'h plocal \<Rightarrow> 'h called list" where
  "pending p data i s =
     (case l_print s of Some k \<Rightarrow> [Print (printHandler p) (slice data k i)] | None \<Rightarrow> []) @
     (case (l_dcs s, l_dcsHandler s) of (Some d, Some h) \<Rightarrow> [Put h (slice data d i)] | _ \<Rightarrow> [])"

definition locals_ok :: "nat \<Rightarrow> 'h plocal \<Rightarrow> bool" where
  "locals_ok i s = ((\<forall>k. l_print s = Some k \<longrightarrow> l_state s = 0 \<and> l_dcs s = None \<and> k \<le> i) \<and>
     (\<forall>d. l_dcs s = Some d \<longrightarrow> l_state s = 13 \<and> d \<le> i) \<and> (l_state s = 13 \<longrightarrow> l_dcsHandler s \<noteq> None))"

text \<open>
  The locals \<open>s\<close> of a run at index \<open>i\<close> against those of a run code point by code point, which has
  shown \<open>V\<close> before.
\<close>

definition follows :: "'h parser \<Rightarrow> 'h called list \<Rightarrow> nat list \<Rightarrow> nat \<Rightarrow> 'h plocal \<Rightarrow> 'h plocal \<Rightarrow> bool" where
  "follows p V data i s a =
     (locals_ok i s \<and> l_state a = l_state s \<and> l_osc a = l_osc s \<and> l_collect a = l_collect s \<and>
      l_params a = l_params s \<and> l_dcsHandler a = l_dcsHandler s \<and> l_print a = None \<and> l_dcs a = None \<and>
      visible (l_calls a) = V @ visible (l_calls s @ pending p data i s))"

lemma slice_simps [simp]:
  "slice data i i = []"
  by (simp add: slice_def)

lemma slice_Suc: "k \<le> i \<Longrightarrow> i < length data \<Longrightarrow> slice data k (Suc i) = slice data k i @ [data ! i]"
  by (simp add: slice_def Suc_diff_le take_Suc_conv_app_nth)

lemma slice_append:
  assumes "k \<le> i" and "i \<le> j"
  shows "slice data k j = slice data k i @ slice data i j"
proof -
  obtain x y where "i = k + x" "j = k + x + y" using assms by (auto simp: le_iff_add)
  then show ?thesis by (simp add: slice_def take_add ac_simps)
qed

lemma scan_bounds: "j \<le> scan P data j" "j \<le> length data \<Longrightarrow> scan P data j \<le> length data"
proof -
  show "j \<le> scan P data j" by (simp add: scan_def)
  show "j \<le> length data \<Longrightarrow> scan P data j \<le> length data"
    using length_takeWhile_le [of P "drop j data"] by (simp add: scan_def)
qed

lemma slice_scan: "slice data j (scan P data j) = takeWhile P (drop j data)"
  by (simp add: slice_def scan_def takeWhile_eq_take [symmetric])

lemma fold_make_call: "fold (\<lambda>h. make_call (f h)) hs s = s\<lparr>l_calls := l_calls s @ map f hs\<rparr>"
  by (induction hs arbitrary: s) (simp_all add: make_call_def)

lemma transition_fields: "drop_bit 4 (16::nat) = 1" "drop_bit 4 (32::nat) = 2" "drop_bit 4 (177::nat) = 11"
  "drop_bit 4 (48::nat) = 3" "drop_bit 4 (224::nat) = 14" "drop_bit 4 (221::nat) = 13" "drop_bit 4 (88::nat) = 5"
  by simp_all

text \<open>The ground state.\<close>

lemma one_printable:
  assumes "l_state a = 0" and "l_print a = None" and "l_dcs a = None" and "0x1f < c \<and> c < 0x7f \<or> 0x9f < c"
    and "c \<noteq> undefined_code"
  shows "one_point csi_ok osc_ok p c a = make_call (Print (printHandler p) [c]) a"
proof -
  have "plain c" using assms(4,5) by (auto simp: plain_def)
  from ground_table [OF this] assms show ?thesis
    by (cases a) (auto simp: one_point_def parse_round_def do_action_def act_error_def parse_end_def flush_print_def
      start_at_def make_call_def slice_def column_def [symmetric])
qed

lemma fold_printables:
  assumes "l_state a = 0" and "l_print a = None" and "l_dcs a = None"
    and "\<forall>c \<in> set cs. 0x1f < c \<and> c < 0x7f"
  shows "fold (one_point csi_ok osc_ok p) cs a = a\<lparr>l_calls := l_calls a @ map (\<lambda>c. Print (printHandler p) [c]) cs\<rparr>"
  using assms
proof (induction cs arbitrary: a)
  case (Cons c cs)
  then show ?case by (simp add: one_printable make_call_def)
qed simp

text \<open>One round of the loop against the code points it consumes.\<close>

definition round_follows ::
  "('h \<Rightarrow> nat list \<Rightarrow> units \<Rightarrow> bool) \<Rightarrow> ('h \<Rightarrow> units \<Rightarrow> bool) \<Rightarrow> 'h parser \<Rightarrow> 'h called list \<Rightarrow> nat list \<Rightarrow> nat \<Rightarrow> 'h plocal \<Rightarrow> 'h plocal \<Rightarrow> bool" where
  "round_follows csi_ok osc_ok p V data i s a =
     (\<exists>s' t j. parse_round VT500_TRANSITION_TABLE csi_ok osc_ok p data i s = Next s' t j \<and> i < j \<and> j \<le> length data \<and>
       follows p V data j (s'\<lparr>l_state := t AND 15\<rparr>) (fold (one_point csi_ok osc_ok p) (slice data i j) a))"

lemma round_followsI:
  assumes "parse_round VT500_TRANSITION_TABLE csi_ok osc_ok p data i s = Next s' t (Suc i)" and "i < length data"
    and "follows p V data (Suc i) (s'\<lparr>l_state := t AND 15\<rparr>) (one_point csi_ok osc_ok p (data ! i) a)"
  shows "round_follows csi_ok osc_ok p V data i s a"
  using assms slice_Suc [of i i data] by (auto simp: round_follows_def)

lemma ground_execute:
  assumes f: "follows p V data i s a" and i: "i < length data" and st: "l_state s = 0"
    and c: "plain (data ! i)" "data ! i < 0x20" "data ! i \<noteq> 0x1b"
  shows "round_follows csi_ok osc_ok p V data i s a"
proof -
  let ?c = "data ! i"
  have ok: "locals_ok i s" and vis: "visible (l_calls a) = V @ visible (l_calls s @ pending p data i s)"
    and a: "l_state a = l_state s" "l_osc a = l_osc s" "l_collect a = l_collect s" "l_params a = l_params s"
      "l_dcsHandler a = l_dcsHandler s" "l_print a = None" "l_dcs a = None"
    using f by (auto simp: follows_def)
  have dcs: "l_dcs s = None" using ok st by (cases "l_dcs s") (auto simp: locals_ok_def)
  have a0: "l_state a = 0" "l_print a = None" "l_dcs a = None" using st a by simp_all
  have run: "parse_round VT500_TRANSITION_TABLE csi_ok osc_ok p data i s = Next (act_execute p data i ?c s) 48 (Suc i)"
    using c st ground_table [OF c(1)] by (simp add: parse_round_def do_action_def column_def Let_def)
  define x where "x = (case executeHandlers p ?c of Some h \<Rightarrow> Execute h | None \<Rightarrow> ExecuteFb (executeHandlerFb p) ?c)"
  have x: "visible_call x = [x]" by (simp add: x_def split: option.splits)
  have one: "one_point csi_ok osc_ok p ?c a = make_call x a"
    using c a0 ground_table [OF c(1)]
    by (cases a) (simp add: one_point_def parse_round_def do_action_def column_def act_execute_def x_def
        flush_print_def parse_end_def make_call_def Let_def)
  show ?thesis
    by (rule round_followsI [OF run i], unfold one)
      (use vis dcs a st x in \<open>cases "l_print s"; auto simp: follows_def locals_ok_def pending_def act_execute_def
        x_def [symmetric] flush_print_def make_call_def\<close>)
qed

lemma follows_ground:
  assumes f: "follows p V data i s a" and i: "i < length data" and pl: "\<forall>c\<in>set data. plain c" and st: "l_state s = 0"
  shows "round_follows csi_ok osc_ok p V data i s a"
proof -
  let ?c = "data ! i"
  have c: "plain ?c" using pl i by simp
  have ok: "locals_ok i s" and vis: "visible (l_calls a) = V @ visible (l_calls s @ pending p data i s)"
    and a: "l_state a = l_state s" "l_osc a = l_osc s" "l_collect a = l_collect s" "l_params a = l_params s"
      "l_dcsHandler a = l_dcsHandler s" "l_print a = None" "l_dcs a = None"
    using f by (auto simp: follows_def)
  have dcs: "l_dcs s = None" using ok st by (cases "l_dcs s") (auto simp: locals_ok_def)
  have a0: "l_state a = 0" "l_print a = None" "l_dcs a = None" using st a by simp_all
  have range: "k \<le> i" if "l_print s = Some k" for k using ok that by (auto simp: locals_ok_def)
  from c show ?thesis
  proof (cases rule: plain_cases)
    case 2
    let ?j = "scan ascii_printable data (i + 1)"
    have run: "parse_round VT500_TRANSITION_TABLE csi_ok osc_ok p data i s =
        Next (s\<lparr>l_print := start_at i (l_print s)\<rparr>) 0 ?j"
      using 2 st by (simp add: parse_round_def)
    have j: "i + 1 \<le> ?j" "?j \<le> length data" using scan_bounds(1) [of "i + 1"] scan_bounds(2) [of "i + 1" data ascii_printable] i by auto
    have sl: "slice data i ?j = ?c # takeWhile ascii_printable (drop (i + 1) data)"
      using slice_append [of i "i + 1" ?j data] slice_Suc [of i i data] slice_scan [of data "i + 1"] j i by simp
    have "0x1f < x \<and> x < 0x7f" if "x \<in> set (takeWhile ascii_printable (drop (i + 1) data))" for x
    proof -
      have "ascii_printable x" and "plain x"
        using that pl by (blast dest: set_takeWhileD in_set_dropD)+
      then show ?thesis by (auto simp: ascii_printable_def plain_def)
    qed
    then have "\<forall>x\<in>set (slice data i ?j). 0x1f < x \<and> x < 0x7f" using 2 unfolding sl by auto
    from fold_printables [OF a0 this]
    have fold: "fold (one_point csi_ok osc_ok p) (slice data i ?j) a =
        a\<lparr>l_calls := l_calls a @ map (\<lambda>c. Print (printHandler p) [c]) (slice data i ?j)\<rparr>" .
    have sp: "slice data k ?j = slice data k i @ slice data i ?j" if "l_print s = Some k" for k
      using range [OF that] j by (intro slice_append) auto
    have "follows p V data ?j (s\<lparr>l_print := start_at i (l_print s), l_state := 0 AND 15\<rparr>)
        (fold (one_point csi_ok osc_ok p) (slice data i ?j) a)"
      unfolding fold using vis dcs st range j a sp
      by (cases "l_print s") (auto simp: follows_def locals_ok_def pending_def start_at_def)
    with run j show ?thesis by (auto simp: round_follows_def)
  next
    case 1
    then have run: "parse_round VT500_TRANSITION_TABLE csi_ok osc_ok p data i s =
        Next (s\<lparr>l_print := start_at i (l_print s)\<rparr>) 16 (Suc i)"
      using st ground_table [OF c] c [unfolded plain_def]
      by (simp add: parse_round_def do_action_def act_error_def column_def Let_def)
    show ?thesis
      by (rule round_followsI [OF run i])
        (use 1 vis dcs st range i a c [unfolded plain_def] one_printable [OF a0, of ?c csi_ok osc_ok p] slice_Suc [of _ i data] in
          \<open>cases "l_print s"; auto simp: follows_def locals_ok_def pending_def start_at_def make_call_def\<close>)
  next
    case 3
    then have run: "parse_round VT500_TRANSITION_TABLE csi_ok osc_ok p data i s = Next (act_clear p data i s) 177 (Suc i)"
      using st ground_table [OF c] by (simp add: parse_round_def do_action_def column_def Let_def)
    have one: "one_point csi_ok osc_ok p ?c a = a\<lparr>l_osc := [], l_params := [0], l_collect := [], l_state := 1\<rparr>"
      using 3 a0 ground_table [OF c]
      by (simp add: one_point_def parse_round_def do_action_def column_def act_clear_def clear_sequence_def
          flush_print_def parse_end_def Let_def)
    show ?thesis
      by (rule round_followsI [OF run i], unfold one)
        (use vis dcs a in \<open>cases "l_print s"; auto simp: follows_def locals_ok_def pending_def act_clear_def
          clear_sequence_def flush_print_def make_call_def\<close>)
  qed (rule ground_execute; use f i c st in simp)+
qed

lemma follows_dcs:
  assumes f: "follows p V data i s a" and i: "i < length data" and c: "plain (data ! i)" and st: "l_state s = 13"
  shows "round_follows csi_ok osc_ok p V data i s a"
proof -
  let ?c = "data ! i"
  have ok: "locals_ok i s" and vis: "visible (l_calls a) = V @ visible (l_calls s @ pending p data i s)"
    and a: "l_state a = l_state s" "l_osc a = l_osc s" "l_collect a = l_collect s" "l_params a = l_params s"
      "l_dcsHandler a = l_dcsHandler s" "l_print a = None" "l_dcs a = None"
    using f by (auto simp: follows_def)
  obtain h where h: "l_dcsHandler s = Some h" using ok st by (auto simp: locals_ok_def)
  have pr: "l_print s = None" using ok st by (cases "l_print s") (auto simp: locals_ok_def)
  have range: "d \<le> i" if "l_dcs s = Some d" for d using ok that by (auto simp: locals_ok_def)
  note tab = dcs_table [OF c]
  show ?thesis
  proof (cases "?c = 0x1b")
    case True
    then have run: "parse_round VT500_TRANSITION_TABLE csi_ok osc_ok p data i s = Next (act_unhook data i s) 225 (Suc i)"
      using st tab by (simp add: parse_round_def do_action_def column_def Let_def)
    have one: "one_point csi_ok osc_ok p ?c a = (act_unhook [?c] 0 a)\<lparr>l_state := 1\<rparr>"
      using True a st tab h
      by (simp add: one_point_def parse_round_def do_action_def column_def Let_def act_unhook_def clear_sequence_def
          parse_end_def make_call_def)
    show ?thesis
      by (rule round_followsI [OF run i], unfold one)
        (use vis pr a h in \<open>cases "l_dcs s"; auto simp: follows_def locals_ok_def pending_def act_unhook_def
          clear_sequence_def make_call_def\<close>)
  next
    case False
    define t :: nat where "t = (if 0x9f < ?c then 29 else 221)"
    have run: "parse_round VT500_TRANSITION_TABLE csi_ok osc_ok p data i s =
        Next (s\<lparr>l_dcs := start_at i (l_dcs s)\<rparr>) t (Suc i)"
      using False st tab c [unfolded plain_def]
      by (cases "0x9f < ?c") (simp_all add: t_def parse_round_def do_action_def act_error_def column_def Let_def)
    have t: "t AND 15 = 13" by (simp add: t_def)
    have one: "one_point csi_ok osc_ok p ?c a = make_call (Put h [?c]) a"
      using False a st tab h c [unfolded plain_def]
      by (cases a; cases "0x9f < ?c")
        (simp_all add: one_point_def parse_round_def do_action_def act_error_def column_def Let_def parse_end_def
          make_call_def start_at_def slice_def)
    show ?thesis
      by (rule round_followsI [OF run i], unfold one t)
        (use vis pr a h range i st slice_Suc [of _ i data] in
          \<open>cases "l_dcs s"; auto simp: follows_def locals_ok_def pending_def start_at_def make_call_def\<close>)
  qed
qed

text \<open>Every other state has nothing pending.\<close>

lemma osc_control_table:
  assumes "plain c" and "\<not> osc_part c"
  shows "drop_bit 4 (VT500_TRANSITION_TABLE 8 (column c)) \<noteq> 5"
  unfolding table_entries entry_value_def state_writes
  using assms by (cases rule: plain_cases) (simp_all add: any_state_def code_sets osc_part_def)

definition twin :: "'h plocal \<Rightarrow> 'h plocal \<Rightarrow> bool" where
  "twin s a = (l_state a = l_state s \<and> l_osc a = l_osc s \<and> l_collect a = l_collect s \<and> l_params a = l_params s \<and>
     l_dcsHandler a = l_dcsHandler s \<and> l_print a = None \<and> l_dcs a = None \<and> l_print s = None \<and> l_dcs s = None)"

definition grown :: "'h plocal \<Rightarrow> 'h plocal \<Rightarrow> 'h plocal \<Rightarrow> 'h plocal \<Rightarrow> bool" where
  "grown s a s' a' = (twin s' a' \<and> l_state s' = l_state s \<and>
     (\<exists>X. visible (l_calls s') = visible (l_calls s) @ X \<and> visible (l_calls a') = visible (l_calls a) @ X))"

lemma grown_call: "twin s a \<Longrightarrow> grown s a (make_call x s) (make_call x a)"
  by (simp add: grown_def twin_def make_call_def)

lemma grown_calls:
  assumes "twin s a"
  shows "grown s a (fold (\<lambda>h. make_call (f h)) hs s) (fold (\<lambda>h. make_call (f h)) hs a)"
  using assms by (simp add: fold_make_call grown_def twin_def)

lemma grown_trans: "grown s a s' a' \<Longrightarrow> grown s' a' s'' a'' \<Longrightarrow> grown s a s'' a''"
  by (auto simp: grown_def)

lemma twin_fields:
  assumes "twin s a"
  shows "l_params a = l_params s" "l_collect a = l_collect s" "l_osc a = l_osc s" "l_dcsHandler a = l_dcsHandler s"
    "flush_print p data i s = s" "flush_print p data i a = a"
  using assms by (simp_all add: twin_def flush_print_def)

lemma grown_actions:
  assumes "twin s a"
  shows "grown s a (act_execute p data i c s) (act_execute p [c] 0 c a)"
    "grown s a (act_csi csi_ok p c s) (act_csi csi_ok p c a)"
    "grown s a (act_param c s) (act_param c a)"
    "grown s a (act_esc p c s) (act_esc p c a)"
    "grown s a (act_clear p data i s) (act_clear p [c] 0 a)"
    "grown s a (act_hook p c s) (act_hook p c a)"
    "grown s a (act_unhook data i s) (act_unhook [c] 0 a)"
    "grown s a (act_osc_end osc_ok p c s) (act_osc_end osc_ok p c a)"
proof -
  note tf = twin_fields [OF assms]
  have clear: "grown s a s' a' \<Longrightarrow> grown s a (clear_sequence s') (clear_sequence a')" for s' a' :: "'a plocal"
    by (simp add: grown_def twin_def clear_sequence_def)
  have self: "grown s a s a" using assms by (simp add: grown_def)
  have many: "grown s a (fold (\<lambda>h. make_call (f h)) hs s) (fold (\<lambda>h. make_call (f h)) hs a)" for f and hs :: "'a list"
    by (rule grown_calls [OF assms])
  have calls: "grown s a (make_call y (fold (\<lambda>h. make_call (f h)) hs s)) (make_call y (fold (\<lambda>h. make_call (f h)) hs a))"
    for y f and hs :: "'a list"
    using grown_calls [OF assms, of f hs] by (meson grown_call grown_def grown_trans)
  show "grown s a (act_execute p data i c s) (act_execute p [c] 0 c a)"
    "grown s a (act_esc p c s) (act_esc p c a)"
    by (simp_all add: act_execute_def act_esc_def tf grown_call [OF assms] split: option.split)
  show "grown s a (act_csi csi_ok p c s) (act_csi csi_ok p c a)"
    using many calls by (simp add: act_csi_def tf Let_def split: prod.split)
  show "grown s a (act_param c s) (act_param c a)"
    using assms by (simp add: act_param_def grown_def twin_def)
  show "grown s a (act_clear p data i s) (act_clear p [c] 0 a)"
    by (simp add: act_clear_def tf clear self)
  show "grown s a (act_hook p c s) (act_hook p c a)"
    using assms by (simp add: act_hook_def Let_def make_call_def grown_def twin_def)
  show "grown s a (act_unhook data i s) (act_unhook [c] 0 a)"
    using assms by (auto simp: act_unhook_def make_call_def grown_def twin_def clear_sequence_def split: option.split)
  have "grown s a (osc_dispatch osc_ok p s) (osc_dispatch osc_ok p a)"
    using many calls grown_call [OF assms]
    by (simp add: osc_dispatch_def tf Let_def split: prod.split)
  then show "grown s a (act_osc_end osc_ok p c s) (act_osc_end osc_ok p c a)"
    by (simp add: act_osc_end_def tf clear self)
qed

lemma follows_twin:
  assumes "twin s a" and "l_state s = 13 \<longrightarrow> l_dcsHandler s \<noteq> None"
  shows "follows p V data i s a \<longleftrightarrow> visible (l_calls a) = V @ visible (l_calls s)"
  using assms by (auto simp: follows_def twin_def locals_ok_def pending_def)

lemma follows_state_change:
  assumes "grown s a s' a'" and "follows p V data i s a" and "l_state s \<noteq> 0" and "l_state s \<noteq> 13"
    and "n = 13 \<longrightarrow> l_dcsHandler s' \<noteq> None"
  shows "follows p V data j (s'\<lparr>l_state := n\<rparr>) (a'\<lparr>l_state := n\<rparr>)"
proof -
  have "twin (s'\<lparr>l_state := n\<rparr>) (a'\<lparr>l_state := n\<rparr>)" using assms(1) by (simp add: grown_def twin_def)
  moreover have "visible (l_calls a') = V @ visible (l_calls s')"
    using assms(1-4) by (auto simp: grown_def follows_def pending_def twin_def locals_ok_def split: option.splits)
  ultimately show ?thesis using assms(5) by (subst follows_twin) simp_all
qed

lemma one_osc:
  assumes "l_state a = 8" and "l_print a = None" and "l_dcs a = None" and "plain c" and "osc_part c"
  shows "one_point csi_ok osc_ok p c a = a\<lparr>l_osc := l_osc a @ stringFromCodePoint c\<rparr>"
  using assms osc_table [OF assms(4,5)]
  by (cases a) (simp add: one_point_def parse_round_def do_action_def Let_def column_def parse_end_def scan_def
      utf32ToString_concat split: if_splits)

lemma fold_osc:
  assumes "l_state a = 8" and "l_print a = None" and "l_dcs a = None" and "\<forall>c\<in>set cs. plain c \<and> osc_part c"
  shows "fold (one_point csi_ok osc_ok p) cs a = a\<lparr>l_osc := l_osc a @ concat (map stringFromCodePoint cs)\<rparr>"
  using assms by (induction cs arbitrary: a) (simp_all add: one_osc)

text \<open>A round whose action is taken alike on the data and on the single code point.\<close>

lemma follows_same_action:
  assumes f: "follows p V data i s a" and i: "i < length data" and st: "l_state s \<noteq> 0" "l_state s \<noteq> 13"
    and run: "parse_round VT500_TRANSITION_TABLE csi_ok osc_ok p data i s = Next s' t (Suc i)"
    and one: "parse_round VT500_TRANSITION_TABLE csi_ok osc_ok p [data ! i] 0 a = Next a' t (Suc 0)"
    and g: "grown s a s' a'" and n: "t AND 15 = 13 \<longrightarrow> l_dcsHandler s' \<noteq> None"
  shows "round_follows csi_ok osc_ok p V data i s a"
proof (rule round_followsI [OF run i])
  have "l_print a' = None" "l_dcs a' = None" using g by (simp_all add: grown_def twin_def)
  then have "one_point csi_ok osc_ok p (data ! i) a = a'\<lparr>l_state := t AND 15\<rparr>"
    by (cases a'; cases "t AND 15 = 13") (simp_all add: one_point_def one parse_end_def)
  with follows_state_change [OF g f st n]
  show "follows p V data (Suc i) (s'\<lparr>l_state := t AND 15\<rparr>) (one_point csi_ok osc_ok p (data ! i) a)" by simp
qed

lemma error_rounds:
  assumes "twin s a" and "\<And>e. \<not> errorHandler p e" and "l_state s \<noteq> 0" and "l_state s \<noteq> 13"
  obtains s' a' t' where "act_error p i c t s = Next s' t' (Suc i)" and "act_error p 0 c t a = Next a' t' (Suc 0)"
    and "grown s a s' a'" and "t' = t \<or> t' = t OR 6 \<or> t' = t OR 11"
proof -
  have "grown s a s a" using assms(1) by (simp add: grown_def)
  moreover have "grown s a (make_call (ErrorCall x) s) (make_call (ErrorCall y) a)" for x y
    using assms(1) by (simp add: grown_def twin_def make_call_def)
  moreover have "l_state a = l_state s" using assms(1) by (simp add: twin_def)
  moreover have "(if c > 0x9f \<and> c \<noteq> undefined_code \<and> (l_state s = 6 \<or> l_state s = 11) then act_error p j c t b = Next b (t OR l_state s) (Suc j)
      else act_error p j c t b = report_error p j c t b)" if "l_state b = l_state s" for j b
    using that assms(3,4) by (auto simp: act_error_def)
  ultimately show ?thesis
    using assms(2-4) that [where t' = t] that [where t' = "t OR 6", of s a] that [where t' = "t OR 11", of s a]
    by (cases "c > 0x9f \<and> c \<noteq> undefined_code \<and> (l_state s = 6 \<or> l_state s = 11)") (auto simp: report_error_def Let_def)
qed

lemma and_or_distrib: "((a::nat) OR b) AND c = (a AND c) OR (b AND c)"
  by (rule bit_eqI) (auto simp: bit_simps)

lemma follows_other:
  assumes f: "follows p V data i s a" and i: "i < length data" and pl: "\<forall>c\<in>set data. plain c"
    and st: "l_state s \<noteq> 0" "l_state s \<noteq> 13" and err: "\<And>e. \<not> errorHandler p e"
  shows "round_follows csi_ok osc_ok p V data i s a"
proof -
  let ?c = "data ! i"
  define t where "t = VT500_TRANSITION_TABLE (l_state s) (column ?c)"
  have tw: "twin s a" using f st by (auto simp: follows_def twin_def locals_ok_def split: option.splits)
  have sane: "sane_entry (l_state s) t" unfolding t_def by (rule table_sane)
  have sta: "l_state a = l_state s" using tw by (simp add: twin_def)
  note same = follows_same_action [OF f i st]
  show ?thesis
  proof (cases "l_state s = 4 \<and> 0x2f < ?c \<and> ?c < 0x39")
    case True
    then show ?thesis
      using tw same [of csi_ok osc_ok "s\<lparr>l_params := add_digit ?c (l_params s)\<rparr>" 4 "a\<lparr>l_params := add_digit ?c (l_params a)\<rparr>"]
      by (simp add: parse_round_def grown_def twin_def)
  next
    case False
    have run: "parse_round VT500_TRANSITION_TABLE csi_ok osc_ok p data i s = do_action csi_ok osc_ok p data i ?c t s"
      using False st by (auto simp: parse_round_def t_def column_def Let_def)
    have one: "parse_round VT500_TRANSITION_TABLE csi_ok osc_ok p [?c] 0 a = do_action csi_ok osc_ok p [?c] 0 ?c t a"
      using False st by (auto simp: parse_round_def t_def column_def Let_def sta)
    let ?a = "drop_bit 4 t"
    have twelve: "t AND 15 = 13 \<longrightarrow> ?a = 12" and not: "?a \<noteq> 2" "?a \<noteq> 13"
      using sane st unfolding sane_entry_def Let_def by blast+
    have low: "?a = 1 \<or> ?a = 6 \<or> ?a = 14 \<longrightarrow> t AND 15 = 0" using sane unfolding sane_entry_def Let_def by blast
    have osc: "?a = 5 \<Longrightarrow> l_state s = 8 \<and> t AND 15 = 8" using sane unfolding sane_entry_def Let_def by blast
    have both: "round_follows csi_ok osc_ok p V data i s a"
      if "do_action csi_ok osc_ok p data i ?c t s = Next s' t' (Suc i)" "do_action csi_ok osc_ok p [?c] 0 ?c t a = Next a' t' (Suc 0)"
        "grown s a s' a'" "t' AND 15 = 13 \<longrightarrow> l_dcsHandler s' \<noteq> None" for s' a' t'
      using same [of csi_ok osc_ok s' t' a'] that run one by simp
    show ?thesis
    proof (cases "?a = 5")
      case True
      let ?j = "scan osc_part data (i + 1)"
      from osc [OF True] have s8: "l_state s = 8" and t8: "t AND 15 = 8" by auto
      have c: "plain ?c" using pl i by simp
      have cosc: "osc_part ?c" using osc_control_table [OF c] True s8 unfolding t_def by auto
      have j: "i + 1 \<le> ?j" "?j \<le> length data"
        using scan_bounds(1) [of "i + 1"] scan_bounds(2) [of "i + 1" data osc_part] i by auto
      have sl: "slice data i ?j = ?c # takeWhile osc_part (drop (i + 1) data)"
        using slice_append [of i "i + 1" ?j data] slice_Suc [of i i data] slice_scan [of data "i + 1"] j i by simp
      have "plain x \<and> osc_part x" if "x \<in> set (takeWhile osc_part (drop (i + 1) data))" for x
        using that pl by (blast dest: set_takeWhileD in_set_dropD)
      then have "\<forall>x\<in>set (slice data i ?j). plain x \<and> osc_part x" using c cosc unfolding sl by auto
      then have fold: "fold (one_point csi_ok osc_ok p) (slice data i ?j) a =
          a\<lparr>l_osc := l_osc a @ concat (map stringFromCodePoint (slice data i ?j))\<rparr>"
        using tw s8 by (intro fold_osc) (simp_all add: twin_def)
      have "parse_round VT500_TRANSITION_TABLE csi_ok osc_ok p data i s =
          Next (s\<lparr>l_osc := l_osc s @ concat (map stringFromCodePoint (slice data i ?j))\<rparr>) t ?j"
        unfolding run using True j by (simp add: do_action_def Let_def utf32ToString_concat slice_def)
      moreover have "follows p V data ?j (s\<lparr>l_osc := l_osc s @ concat (map stringFromCodePoint (slice data i ?j)), l_state := 8\<rparr>)
          (a\<lparr>l_osc := l_osc a @ concat (map stringFromCodePoint (slice data i ?j))\<rparr>)"
        using f tw s8 by (auto simp: follows_def twin_def locals_ok_def pending_def)
      ultimately show ?thesis using j fold t8 by (auto simp: round_follows_def)
    next
      case False
      show ?thesis
      proof (cases "?a = 1")
        case True
        obtain s' a' t' where e: "act_error p i ?c t s = Next s' t' (Suc i)" "act_error p 0 ?c t a = Next a' t' (Suc 0)"
          "grown s a s' a'" and t': "t' = t \<or> t' = t OR 6 \<or> t' = t OR 11"
          using error_rounds [OF tw err st] by metis
        have "t' AND 15 \<noteq> 13"
          using t' low True by (auto simp: and_or_distrib)
        then have n: "t' AND 15 = 13 \<longrightarrow> l_dcsHandler s' \<noteq> None" by blast
        show ?thesis by (rule both [OF _ _ e(3) n]) (use e(1,2) True in \<open>simp_all add: do_action_def Let_def\<close>)
      next
        case no_error: False
        note g = grown_actions [OF tw, where c = ?c]
        have self: "grown s a s a" using tw by (simp add: grown_def)
        have coll: "grown s a (s\<lparr>l_collect := l_collect s @ [?c]\<rparr>) (a\<lparr>l_collect := l_collect a @ [?c]\<rparr>)"
          "grown s a (s\<lparr>l_osc := []\<rparr>) (a\<lparr>l_osc := []\<rparr>)"
          using tw by (simp_all add: grown_def twin_def)
        let ?r = "if ?c = 0x1b then t OR 1 else t"
        have restart: "?r AND 15 \<noteq> 13" if "?a = 6 \<or> ?a = 14" using low that by (auto simp: and_or_distrib)
        have hook: "l_dcsHandler (act_hook p ?c s) \<noteq> None" by (simp add: act_hook_def Let_def make_call_def)
        consider "?a = 3" | "?a = 0" | "?a = 7" | "?a = 8" | "?a = 9" | "?a = 10" | "?a = 11" | "?a = 12" | "?a = 14"
          | "?a = 4" | "?a = 6" | "?a \<notin> {0, 1, 2, 3, 4, 5, 6, 7, 8, 9, 10, 11, 12, 13, 14}"
          using not False no_error by auto
        then show ?thesis
        proof cases
          case 1
          with twelve show ?thesis by (intro both [where t' = t, OF _ _ g(1)]) (simp_all add: do_action_def Let_def)
        next
          case 2
          with twelve tw show ?thesis
            by (intro both [where t' = t, OF _ _ self]) (simp_all add: do_action_def Let_def act_ignore_def twin_def)
        next
          case 3
          with twelve show ?thesis by (intro both [where t' = t, OF _ _ g(2)]) (simp_all add: do_action_def Let_def)
        next
          case 4
          with twelve show ?thesis by (intro both [where t' = t, OF _ _ g(3)]) (simp_all add: do_action_def Let_def)
        next
          case 5
          with twelve show ?thesis by (intro both [where t' = t, OF _ _ coll(1)]) (simp_all add: do_action_def Let_def)
        next
          case 6
          with twelve show ?thesis by (intro both [where t' = t, OF _ _ g(4)]) (simp_all add: do_action_def Let_def)
        next
          case 7
          with twelve show ?thesis by (intro both [where t' = t, OF _ _ g(5)]) (simp_all add: do_action_def Let_def)
        next
          case 8
          with hook show ?thesis by (intro both [where t' = t, OF _ _ g(6)]) (auto simp: do_action_def Let_def)
        next
          case 9
          with restart show ?thesis by (intro both [where t' = ?r, OF _ _ g(7)]) (simp_all add: do_action_def Let_def)
        next
          case 10
          with twelve show ?thesis
            by (intro both [where t' = t, OF _ _ coll(2)]) (simp_all add: do_action_def Let_def twin_fields [OF tw])
        next
          case 11
          with restart show ?thesis by (intro both [where t' = ?r, OF _ _ g(8)]) (simp_all add: do_action_def Let_def)
        next
          case 12
          with twelve show ?thesis by (intro both [where t' = t, OF _ _ self]) (simp_all add: do_action_def Let_def)
        qed
      qed
    qed
  qed
qed

lemma slice_drop: "i \<le> j \<Longrightarrow> slice data i j @ drop j data = drop i data"
  by (simp add: slice_def) (metis append_take_drop_id drop_drop le_add_diff_inverse2)

lemma loop_follows:
  assumes "follows p V data i s a" and "i \<le> length data" and "\<forall>c\<in>set data. plain c" and "\<And>e. \<not> errorHandler p e"
  shows "\<exists>s' n. parse_loop VT500_TRANSITION_TABLE csi_ok osc_ok p data i s = Next s' n (length data) \<and>
    follows p V data (length data) s' (fold (one_point csi_ok osc_ok p) (drop i data) a)"
  using assms(1,2)
proof (induction "length data - i" arbitrary: i s a rule: less_induct)
  case less
  show ?case
  proof (cases "i < length data")
    case False
    with less.prems show ?thesis by (auto simp: parse_loop.simps)
  next
    case True
    have "round_follows csi_ok osc_ok p V data i s a"
      using follows_ground [OF less.prems(1) True assms(3)] follows_dcs [OF less.prems(1) True]
        follows_other [OF less.prems(1) True assms(3) _ _ assms(4)] assms(3) True nth_mem
      by metis
    then obtain s' t j where r: "parse_round VT500_TRANSITION_TABLE csi_ok osc_ok p data i s = Next s' t j" "i < j" "j \<le> length data"
      and f: "follows p V data j (s'\<lparr>l_state := t AND 15\<rparr>) (fold (one_point csi_ok osc_ok p) (slice data i j) a)"
      by (auto simp: round_follows_def)
    have "length data - j < length data - i" using r(2,3) by simp
    from less.hyps [OF this f r(3)] r True show ?thesis
      by (simp add: parse_loop.simps [of _ _ _ _ data i] flip: slice_drop [of i j data])
  qed
qed

definition parser_ok :: "'h parser \<Rightarrow> bool" where
  "parser_ok p = (currentState p = 13 \<longrightarrow> activeDcs p \<noteq> None)"

definition store_locals :: "'h plocal \<Rightarrow> 'h parser \<Rightarrow> 'h parser" where
  "store_locals s p = p\<lparr>p_osc := l_osc s, p_collect := l_collect s, p_params := l_params s, activeDcs := l_dcsHandler s,
     currentState := l_state s\<rparr>"

definition resumes :: "'h parser \<Rightarrow> 'h plocal \<Rightarrow> bool" where
  "resumes p a = (parse_start p = a\<lparr>l_calls := []\<rparr>)"

lemma parse_follows:
  fixes csi_ok osc_ok p data a
  defines "a' \<equiv> fold (one_point csi_ok osc_ok p) data a"
  assumes "parser_ok p" and "resumes p a" and "\<forall>c\<in>set data. plain c" and "\<And>e. \<not> errorHandler p e"
  shows "\<exists>calls. parse VT500_TRANSITION_TABLE csi_ok osc_ok data p = (store_locals a' p, calls, False) \<and>
    visible (l_calls a') = visible (l_calls a) @ visible calls \<and>
    parser_ok (store_locals a' p) \<and> resumes (store_locals a' p) a'"
proof -
  have "follows p (visible (l_calls a)) data 0 (parse_start p) a"
    using assms(2,3) by (cases a) (auto simp: follows_def locals_ok_def pending_def parser_ok_def resumes_def parse_start_def)
  from loop_follows [OF this _ assms(4,5), of csi_ok osc_ok]
  obtain s n where run: "parse_loop VT500_TRANSITION_TABLE csi_ok osc_ok p data 0 (parse_start p) = Next s n (length data)"
    and f: "follows p (visible (l_calls a)) data (length data) s a'" by (auto simp: a'_def)
  have "store_locals (parse_end p data s) p = store_locals a' p"
    using f by (auto simp: store_locals_def parse_end_def flush_print_def make_call_def follows_def split: option.splits bool.splits)
  moreover have "visible (l_calls a') = visible (l_calls a) @ visible (l_calls (parse_end p data s))"
    using f by (auto simp: parse_end_def flush_print_def make_call_def follows_def pending_def locals_ok_def
        split: option.splits bool.splits)
  moreover have "parser_ok (store_locals a' p)" "resumes (store_locals a' p) a'"
    using f by (cases a'; auto simp: parser_ok_def store_locals_def follows_def locals_ok_def resumes_def parse_start_def)+
  ultimately show ?thesis
    unfolding parse_def run by (simp add: Let_def store_locals_def)
qed

lemma stored_fields:
  "printHandler (store_locals s p) = printHandler p" "executeHandlers (store_locals s p) = executeHandlers p"
  "executeHandlerFb (store_locals s p) = executeHandlerFb p" "csiHandlers (store_locals s p) = csiHandlers p"
  "csiHandlerFb (store_locals s p) = csiHandlerFb p" "escHandlers (store_locals s p) = escHandlers p"
  "escHandlerFb (store_locals s p) = escHandlerFb p" "oscHandlers (store_locals s p) = oscHandlers p"
  "oscHandlerFb (store_locals s p) = oscHandlerFb p" "dcsHandlers (store_locals s p) = dcsHandlers p"
  "dcsHandlerFb (store_locals s p) = dcsHandlerFb p" "errorHandler (store_locals s p) = errorHandler p"
  by (simp_all add: store_locals_def)

lemma stored_actions:
  "flush_print (store_locals s p) = flush_print p" "act_hook (store_locals s p) = act_hook p"
  "act_csi csi_ok (store_locals s p) = act_csi csi_ok p" "act_esc (store_locals s p) = act_esc p"
  "osc_dispatch osc_ok (store_locals s p) = osc_dispatch osc_ok p" "report_error (store_locals s p) = report_error p"
  unfolding flush_print_def act_hook_def act_csi_def act_esc_def osc_dispatch_def report_error_def stored_fields
  by (rule refl)+

lemma stored_rounds:
  "act_execute (store_locals s p) = act_execute p" "act_ignore (store_locals s p) = act_ignore p"
  "act_error (store_locals s p) = act_error p" "act_clear (store_locals s p) = act_clear p"
  "act_osc_end osc_ok (store_locals s p) = act_osc_end osc_ok p" "parse_end (store_locals s p) = parse_end p"
  unfolding act_execute_def act_ignore_def act_error_def act_clear_def act_osc_end_def parse_end_def
    stored_actions stored_fields
  by (rule refl)+

lemma one_point_stored: "one_point csi_ok osc_ok (store_locals s p) = one_point csi_ok osc_ok p"
proof -
  have "do_action csi_ok osc_ok (store_locals s p) = do_action csi_ok osc_ok p"
    by (intro ext, unfold do_action_def stored_actions stored_rounds, rule refl)
  then show ?thesis by (intro ext) (simp only: one_point_def parse_round_def stored_rounds Let_def)
qed

text \<open>Data given in chunks.\<close>

fun parse_chunks ::
  "('h \<Rightarrow> nat list \<Rightarrow> units \<Rightarrow> bool) \<Rightarrow> ('h \<Rightarrow> units \<Rightarrow> bool) \<Rightarrow> nat list list \<Rightarrow> 'h parser \<Rightarrow> 'h parser \<times> 'h called list" where
  "parse_chunks csi_ok osc_ok [] p = (p, [])"
| "parse_chunks csi_ok osc_ok (d # ds) p =
     (let (p1, calls, thrown) = parse VT500_TRANSITION_TABLE csi_ok osc_ok d p;
          (p2, more) = parse_chunks csi_ok osc_ok ds p1
      in (p2, calls @ more))"

lemma store_twice [simp]: "store_locals s (store_locals s' p) = store_locals s p"
  by (simp add: store_locals_def)

lemma chunks_follow:
  assumes "parser_ok p" and "resumes p a" and "\<forall>d\<in>set ds. \<forall>c\<in>set d. plain c" and "\<And>e. \<not> errorHandler p e"
  shows "\<exists>calls. parse_chunks csi_ok osc_ok ds p =
      ((if ds = [] then p else store_locals (fold (one_point csi_ok osc_ok p) (concat ds) a) p), calls) \<and>
    visible (l_calls (fold (one_point csi_ok osc_ok p) (concat ds) a)) = visible (l_calls a) @ visible calls"
  using assms
proof (induction ds arbitrary: p a)
  case (Cons d ds)
  let ?a = "fold (one_point csi_ok osc_ok p) d a"
  obtain calls where d: "parse VT500_TRANSITION_TABLE csi_ok osc_ok d p = (store_locals ?a p, calls, False)"
    "visible (l_calls ?a) = visible (l_calls a) @ visible calls"
    "parser_ok (store_locals ?a p)" "resumes (store_locals ?a p) ?a"
    using parse_follows [OF Cons.prems(1,2) _ Cons.prems(4), of d csi_ok osc_ok] Cons.prems(3) by auto
  have "\<not> errorHandler (store_locals ?a p) e" for e using Cons.prems(4) by (simp add: store_locals_def)
  with Cons.IH [OF d(3,4)] Cons.prems(3) d(1,2) show ?case
    by (fastforce simp: one_point_stored split: if_splits)
qed simp

lemma store_start: "store_locals (parse_start p) p = p"
  by (simp add: store_locals_def parse_start_def)

subsection \<open>No exception\<close>

text \<open>A DCS handler is there whenever one is needed, whatever the data and the error handler.\<close>

definition dcs_inv :: "'h plocal \<Rightarrow> bool" where
  "dcs_inv s = ((l_state s = 13 \<or> l_dcs s \<noteq> None) \<longrightarrow> l_dcsHandler s \<noteq> None)"

lemma kept_handlers:
  "l_dcsHandler (make_call x s) = l_dcsHandler s" "l_dcs (make_call x s) = l_dcs s" "l_state (make_call x s) = l_state s"
  "l_state (flush_print p data i s) = l_state s" "l_dcsHandler (flush_print p data i s) = l_dcsHandler s" "l_dcs (flush_print p data i s) = l_dcs s"
  "l_dcsHandler (clear_sequence s) = l_dcsHandler s" "l_dcs (clear_sequence s) = None"
  by (simp_all add: make_call_def flush_print_def clear_sequence_def split: option.split)

lemma kept_dispatch:
  "l_dcsHandler (act_csi csi_ok p c s) = l_dcsHandler s" "l_dcs (act_csi csi_ok p c s) = l_dcs s"
  "l_dcsHandler (osc_dispatch osc_ok p s) = l_dcsHandler s"
  by (simp_all add: act_csi_def osc_dispatch_def Let_def fold_make_call kept_handlers split: prod.split)

lemma dcs_inv_action:
  assumes "dcs_inv s" and "sane_entry (l_state s) t"
  shows "case do_action csi_ok osc_ok p data i c t s of
      Next s' t' j \<Rightarrow> dcs_inv (s'\<lparr>l_state := t' AND 15\<rparr>) | Abort s' \<Rightarrow> True | Crash s' \<Rightarrow> False"
proof -
  let ?a = "drop_bit 4 t"
  have s: "(?a = 1 \<or> ?a = 6 \<or> ?a = 14 \<longrightarrow> t AND 15 = 0)" "(?a = 13 \<longrightarrow> l_state s = 13)"
    "(t AND 15 = 13 \<longrightarrow> ?a = 12 \<or> l_state s = 13)"
    using assms(2) unfolding sane_entry_def Let_def by blast+
  have keep: "dcs_inv (s'\<lparr>l_state := n\<rparr>)"
    if "l_dcsHandler s' = l_dcsHandler s" "l_dcs s' = l_dcs s \<or> l_dcs s' = None \<or> l_state s = 13" "n = 13 \<longrightarrow> l_state s = 13"
    for s' :: "'a plocal" and n
    using that assms(1) by (auto simp: dcs_inv_def)
  have t13: "?a \<noteq> 12 \<Longrightarrow> t AND 15 = 13 \<longrightarrow> l_state s = 13" using s by blast
  have restart: "?a = 6 \<or> ?a = 14 \<Longrightarrow> (if c = 0x1b then t OR 1 else t) AND 15 \<noteq> 13" using s(1) by (auto simp: and_or_distrib)
  consider "?a = 0" | "?a = 1" | "?a = 12" | "?a = 14" | "?a = 6" | "?a \<notin> {0, 1, 6, 12, 14}"
    by (cases "?a \<in> {0, 1, 6, 12, 14}") auto
  then show ?thesis
  proof cases
    case 1
    then show ?thesis using assms(1) t13
      by (auto simp: do_action_def Let_def act_ignore_def kept_handlers dcs_inv_def split: option.split)
  next
    case 2
    then have "t AND 15 = 0" using s(1) by blast
    with 2 show ?thesis
      by (auto simp: do_action_def Let_def act_error_def report_error_def and_or_distrib kept_handlers
          intro!: keep)
  next
    case 3
    then show ?thesis by (simp add: do_action_def Let_def act_hook_def kept_handlers dcs_inv_def)
  next
    case 4
    with restart show ?thesis
      by (simp add: do_action_def Let_def act_unhook_def kept_handlers dcs_inv_def)
  next
    case 5
    with restart show ?thesis
      by (simp add: do_action_def Let_def act_osc_end_def kept_handlers kept_dispatch dcs_inv_def)
  next
    case 6
    with s(2) t13 show ?thesis
      by (auto simp: do_action_def Let_def act_execute_def act_param_def act_esc_def act_clear_def kept_handlers
          kept_dispatch intro!: keep)
  qed
qed

lemma dcs_inv_loop:
  assumes "dcs_inv s"
  shows "case parse_loop VT500_TRANSITION_TABLE csi_ok osc_ok p data i s of
      Next s' n j \<Rightarrow> dcs_inv s' | Abort s' \<Rightarrow> True | Crash s' \<Rightarrow> False"
  using assms
proof (induction "length data - i" arbitrary: i s rule: less_induct)
  case less
  show ?case
  proof (cases "i < length data")
    case True
    have round: "case parse_round VT500_TRANSITION_TABLE csi_ok osc_ok p data i s of
        Next s' t j \<Rightarrow> dcs_inv (s'\<lparr>l_state := t AND 15\<rparr>) | Abort s' \<Rightarrow> True | Crash s' \<Rightarrow> False"
      using dcs_inv_action [OF less.prems table_sane] less.prems
      by (simp add: parse_round_def Let_def dcs_inv_def)
    show ?thesis
    proof (cases "parse_round VT500_TRANSITION_TABLE csi_ok osc_ok p data i s")
      case (Next s' t j)
      then have "length data - j < length data - i" using round_advances [OF Next] True by simp
      from less.hyps [OF this, of "s'\<lparr>l_state := t AND 15\<rparr>"] round Next True show ?thesis
        by (simp add: parse_loop.simps [of _ _ _ _ data i])
    qed (use round True in \<open>simp_all add: parse_loop.simps [of _ _ _ _ data i]\<close>)
  qed (use less.prems in \<open>simp add: parse_loop.simps\<close>)
qed

lemma parse_sound:
  assumes "parser_ok p"
  shows "\<not> snd (snd (parse VT500_TRANSITION_TABLE csi_ok osc_ok data p)) \<and>
    parser_ok (fst (parse VT500_TRANSITION_TABLE csi_ok osc_ok data p))"
proof -
  have "dcs_inv (parse_start p)" using assms by (simp add: dcs_inv_def parse_start_def parser_ok_def)
  from dcs_inv_loop [OF this, of csi_ok osc_ok p data 0] assms show ?thesis
    by (auto simp: parse_def parser_ok_def dcs_inv_def Let_def parse_end_def kept_handlers
        split: round.splits option.splits bool.splits)
qed

subsection \<open>A control sequence and its parameters\<close>

definition csi_units :: "nat list \<Rightarrow> nat list" where
  "csi_units ps = map of_char (js_join '';'' (map nat_str ps))"

lemma csi_writes:
  "filter (\<lambda>(codes, st, a, n). st = 1) vt_writes =
    (r_range 0 (NON_ASCII_PRINTABLE + 1), 1, 1, 0) # any_state 1 @
      [(EXECUTABLES, 1, 3, 1), ([0x7f], 1, 0, 1), ([0x5d], 1, 4, 8), ([0x58, 0x5e, 0x5f], 1, 0, 7), ([0x5b], 1, 11, 3),
       (r_range 0x20 0x30, 1, 9, 2), (r_range 0x30 0x50, 1, 10, 0), (r_range 0x51 0x58, 1, 10, 0), ([0x59, 0x5a, 0x5c], 1, 10, 0),
       (r_range 0x60 0x7f, 1, 10, 0), ([0x50], 1, 11, 9)]"
  "filter (\<lambda>(codes, st, a, n). st = 3) vt_writes =
    (r_range 0 (NON_ASCII_PRINTABLE + 1), 3, 1, 0) # any_state 3 @
      [(EXECUTABLES, 3, 3, 3), ([0x7f], 3, 0, 3), (r_range 0x40 0x7f, 3, 7, 0), (r_range 0x30 0x3a, 3, 8, 4), ([0x3b], 3, 8, 4),
       ([0x3c, 0x3d, 0x3e, 0x3f], 3, 9, 4), ([0x3a], 3, 0, 6), (r_range 0x20 0x30, 3, 9, 5)]"
  "filter (\<lambda>(codes, st, a, n). st = 4) vt_writes =
    (r_range 0 (NON_ASCII_PRINTABLE + 1), 4, 1, 0) # any_state 4 @
      [(EXECUTABLES, 4, 3, 4), ([0x7f], 4, 0, 4), (r_range 0x30 0x3a, 4, 8, 4), ([0x3b], 4, 8, 4), (r_range 0x40 0x7f, 4, 7, 0),
       ([0x3a, 0x3c, 0x3d, 0x3e, 0x3f], 4, 0, 6), (r_range 0x20 0x30, 4, 9, 5)]"
  by (simp_all add: vt_writes_def any_state_def all_states)

lemma csi_table:
  "VT500_TRANSITION_TABLE 1 0x5b = 179"
  "st = 3 \<or> st = 4 \<Longrightarrow> 48 \<le> c \<Longrightarrow> c \<le> 57 \<Longrightarrow> VT500_TRANSITION_TABLE st c = 132"
  "st = 3 \<or> st = 4 \<Longrightarrow> VT500_TRANSITION_TABLE st 0x3b = 132"
  "st = 3 \<or> st = 4 \<Longrightarrow> 0x40 \<le> c \<Longrightarrow> c < 0x7f \<Longrightarrow> VT500_TRANSITION_TABLE st c = 112"
  "0x3c \<le> c \<Longrightarrow> c \<le> 0x3f \<Longrightarrow> VT500_TRANSITION_TABLE 3 c = 148"
  unfolding table_entries entry_value_def
  by (auto simp only: csi_writes) (simp_all add: any_state_def code_sets, arith)

definition idle :: "'h plocal \<Rightarrow> bool" where
  "idle a = (l_print a = None \<and> l_dcs a = None)"

lemma one_intro:
  assumes "l_state a = 0" and "idle a"
  shows "one_point csi_ok osc_ok p 0x5b (one_point csi_ok osc_ok p 0x1b a) =
    a\<lparr>l_osc := [], l_params := [0], l_collect := [], l_state := 3\<rparr>"
  using assms csi_table(1) ground_table [of "0x1b"]
  by (cases a) (simp add: idle_def one_point_def parse_round_def do_action_def Let_def column_def plain_def act_clear_def
      clear_sequence_def flush_print_def parse_end_def)

text \<open>The mark of a private sequence.\<close>

definition csi_mark :: "nat list \<Rightarrow> bool" where
  "csi_mark mark = (mark = [] \<or> (\<exists>c. mark = [c] \<and> 0x3c \<le> c \<and> c \<le> 0x3f))"

lemma fold_mark:
  assumes "l_state a = 3" and "idle a" and "csi_mark mark"
  shows "\<exists>n. (n = 3 \<or> n = 4) \<and> fold (one_point csi_ok osc_ok p) mark a = a\<lparr>l_collect := l_collect a @ mark, l_state := n\<rparr>"
proof -
  have "one_point csi_ok osc_ok p c a = a\<lparr>l_collect := l_collect a @ [c], l_state := 4\<rparr>" if "0x3c \<le> c" "c \<le> 0x3f" for c
    using assms(1,2) csi_table(5) [OF that] that
    by (cases a) (simp add: idle_def one_point_def parse_round_def do_action_def Let_def parse_end_def)
  moreover have "a\<lparr>l_state := 3\<rparr> = a" using assms(1) by simp
  ultimately show ?thesis using assms(3) unfolding csi_mark_def by fastforce
qed

lemma one_digit:
  assumes "l_state a = 3 \<or> l_state a = 4" and "idle a" and "48 \<le> c" and "c \<le> 57"
  shows "one_point csi_ok osc_ok p c a = a\<lparr>l_params := add_digit c (l_params a), l_state := 4\<rparr>"
  using assms csi_table(2) [of "l_state a" c]
  by (cases a) (auto simp: idle_def one_point_def parse_round_def do_action_def Let_def act_param_def parse_end_def)

lemma one_semicolon:
  assumes "l_state a = 3 \<or> l_state a = 4" and "idle a"
  shows "one_point csi_ok osc_ok p 0x3b a = a\<lparr>l_params := l_params a @ [0], l_state := 4\<rparr>"
  using assms csi_table(3) [of "l_state a"]
  by (cases a) (auto simp: idle_def one_point_def parse_round_def do_action_def Let_def act_param_def parse_end_def)

lemma one_final:
  assumes "l_state a = 3 \<or> l_state a = 4" and "idle a" and "0x40 \<le> c" and "c < 0x7f"
    and "csiHandlers p c = Some [h]" and "csi_ok h (l_params a) (l_collect a)"
  shows "one_point csi_ok osc_ok p c a = (make_call (Csi h (l_params a) (l_collect a)) a)\<lparr>l_state := 0\<rparr>"
  using assms csi_table(4) [of "l_state a" c]
  by (cases a) (auto simp: idle_def one_point_def parse_round_def do_action_def Let_def act_csi_def handlers_of_def
      make_call_def parse_end_def)

lemma fold_number:
  assumes "l_state a = 3 \<or> l_state a = 4" and "idle a" and "l_params a = qs @ [0]"
  shows "fold (one_point csi_ok osc_ok p) (map of_char (nat_str n)) a = a\<lparr>l_params := qs @ [n], l_state := 4\<rparr>"
proof (induction n rule: nat_str.induct)
  case (1 n)
  have d: "(of_char (digit_char k) :: nat) = 48 + k" if "k < 10" for k
    using that by (simp add: digit_char_def)
  show ?case
  proof (cases "n < 10")
    case True
    then show ?thesis
      using assms by (simp add: nat_str.simps [of n] d one_digit add_digit_def)
  next
    case False
    have "idle (a\<lparr>l_params := qs @ [n div 10], l_state := 4\<rparr>)" using assms(2) by (simp add: idle_def)
    with False 1 show ?thesis
      by (simp add: nat_str.simps [of n] d one_digit add_digit_def)
  qed
qed

lemma fold_numbers:
  assumes "l_state a = 3 \<or> l_state a = 4" and "idle a" and "l_params a = qs @ [0]" and "ps \<noteq> []"
  shows "fold (one_point csi_ok osc_ok p) (csi_units ps) a = a\<lparr>l_params := qs @ ps, l_state := 4\<rparr>"
  using assms
proof (induction ps arbitrary: a qs)
  case (Cons n ps)
  show ?case
  proof (cases ps)
    case Nil
    then show ?thesis using fold_number [OF Cons.prems(1-3)] by (simp add: csi_units_def)
  next
    case (Cons m ms)
    let ?b = "a\<lparr>l_params := (qs @ [n]) @ [0], l_state := 4\<rparr>"
    have "idle ?b" "idle (a\<lparr>l_params := qs @ [n], l_state := 4\<rparr>)" using Cons.prems(2) by (simp_all add: idle_def)
    with Cons.IH [of ?b "qs @ [n]"] Cons fold_number [OF Cons.prems(1-3)] show ?thesis
      by (simp add: csi_units_def one_semicolon)
  qed
qed simp

lemma csi_units_plain: "c \<in> set (csi_units ps) \<Longrightarrow> plain c"
proof -
  have num: "48 \<le> k \<and> k \<le> 57" if "k \<in> of_char ` set (nat_str n)" for k n :: nat
    using that
  proof (induction n rule: nat_str.induct)
    case (1 n)
    have "n < 10 \<Longrightarrow> (of_char (digit_char n) :: nat) = 48 + n" "(of_char (digit_char (n mod 10)) :: nat) = 48 + n mod 10"
      by (simp_all add: digit_char_def)
    with 1 show ?case by (cases "n < 10") (auto simp: nat_str.simps [of n])
  qed
  have "c \<in> set (csi_units ps) \<Longrightarrow> 48 \<le> c \<and> c \<le> 57 \<or> c = 59"
  proof (induction ps)
    case (Cons n ps)
    then show ?case using num [of c n] by (cases ps) (auto simp: csi_units_def)
  qed (simp add: csi_units_def)
  then show "c \<in> set (csi_units ps) \<Longrightarrow> plain c" by (auto simp: plain_def)
qed

lemma csi_dispatch:
  assumes "currentState p = 0" and "\<And>e. \<not> errorHandler p e" and "csi_mark mark" and "ps \<noteq> []" and "0x40 \<le> f" and "f < 0x7f"
    and "csiHandlers p f = Some [h]" and "csi_ok h ps mark"
  shows "\<exists>p' calls. parse VT500_TRANSITION_TABLE csi_ok osc_ok ([0x1b, 0x5b] @ mark @ csi_units ps @ [f]) p = (p', calls, False) \<and>
    visible calls = [Csi h ps mark] \<and> currentState p' = 0"
proof -
  let ?data = "[0x1b, 0x5b] @ mark @ csi_units ps @ [f]" and ?a = "parse_start p"
  let ?b = "?a\<lparr>l_osc := [], l_params := [0], l_collect := [], l_state := 3\<rparr>"
  have start: "l_state ?a = 0" "idle ?a" "idle ?b" using assms(1) by (simp_all add: parse_start_def idle_def)
  have "fold (one_point csi_ok osc_ok p) [0x1b, 0x5b] ?a = ?b" using one_intro [OF start(1,2)] by simp
  moreover obtain n where n: "n = 3 \<or> n = 4"
    and "fold (one_point csi_ok osc_ok p) mark ?b = ?b\<lparr>l_collect := mark, l_state := n\<rparr>"
    using fold_mark [of ?b mark csi_ok osc_ok p] start(3) assms(3) by auto
  moreover have "fold (one_point csi_ok osc_ok p) (csi_units ps) (?b\<lparr>l_collect := mark, l_state := n\<rparr>) =
      ?b\<lparr>l_collect := mark, l_params := ps, l_state := 4\<rparr>"
    using fold_numbers [of "?b\<lparr>l_collect := mark, l_state := n\<rparr>" "[]" ps] n start(3) assms(4) by (simp add: idle_def)
  moreover have "one_point csi_ok osc_ok p f (?b\<lparr>l_collect := mark, l_params := ps, l_state := 4\<rparr>) =
      (make_call (Csi h ps mark) (?b\<lparr>l_collect := mark, l_params := ps, l_state := 4\<rparr>))\<lparr>l_state := 0\<rparr>"
    using one_final [of "?b\<lparr>l_collect := mark, l_params := ps, l_state := 4\<rparr>" f p h csi_ok] start(3) assms(5-8) by (simp add: idle_def)
  ultimately have run: "fold (one_point csi_ok osc_ok p) ?data ?a =
      (make_call (Csi h ps mark) (?b\<lparr>l_collect := mark, l_params := ps, l_state := 4\<rparr>))\<lparr>l_state := 0\<rparr>" by simp
  have "plain f" "plain 0x1b" "plain 0x5b" "\<forall>c\<in>set mark. plain c" using assms(3,5,6) by (auto simp: plain_def csi_mark_def)
  then have "\<forall>c\<in>set ?data. plain c" using csi_units_plain by auto
  with parse_follows [of p ?a ?data csi_ok osc_ok] assms(1,2) show ?thesis
    unfolding run by (auto simp: parser_ok_def resumes_def parse_start_def make_call_def store_locals_def)
qed

subsection \<open>Properties\<close>

text \<open>
  The parser does not depend on how its input is cut into chunks: for input without DEL, CAN, SUB
  and eight-bit controls, parsing chunk by chunk leaves the same parser and makes the same calls as
  parsing it in one piece, up to where printed and put text is cut and up to error reports.
\<close>

theorem parser_chunks:
  assumes "parser_ok p" and "\<And>e. \<not> errorHandler p e" and "\<And>d c. d \<in> set ds \<Longrightarrow> c \<in> set d \<Longrightarrow> plain c"
  shows "fst (parse_chunks csi_ok osc_ok ds p) = fst (parse VT500_TRANSITION_TABLE csi_ok osc_ok (concat ds) p) \<and>
    visible (snd (parse_chunks csi_ok osc_ok ds p)) =
      visible (fst (snd (parse VT500_TRANSITION_TABLE csi_ok osc_ok (concat ds) p)))"
proof -
  have start: "resumes p (parse_start p)" "l_calls (parse_start p) = []" by (simp_all add: resumes_def parse_start_def)
  have "\<forall>d\<in>set ds. \<forall>c\<in>set d. plain c" "\<forall>c\<in>set (concat ds). plain c" using assms(3) by auto
  with chunks_follow [OF assms(1) start(1) _ assms(2), of ds csi_ok osc_ok]
    parse_follows [OF assms(1) start(1) _ assms(2), of "concat ds" csi_ok osc_ok] start(2)
  show ?thesis by (auto simp: store_start)
qed

theorem parser_chunks_witness:
  "visible (snd (parse_chunks (\<lambda>_ _ _. True) (\<lambda>_ _. True) [[104, 0x1b], [0x5b, 109]] (new_parser (0::nat)))) =
   visible (fst (snd (parse VT500_TRANSITION_TABLE (\<lambda>_ _ _. True) (\<lambda>_ _. True) [104, 0x1b, 0x5b, 109] (new_parser (0::nat)))))"
proof -
  let ?ds = "[[104, 0x1b], [0x5b, 109]] :: nat list list"
  have ok: "parser_ok (new_parser (0::nat))" and err: "\<And>e. \<not> errorHandler (new_parser (0::nat)) e"
    by (simp_all add: parser_ok_def new_parser_def)
  have pl: "plain c" if "d \<in> set ?ds" "c \<in> set d" for d c using that by (auto simp: plain_def)
  have whole: "concat ?ds = [104, 0x1b, 0x5b, 109]" by simp
  show ?thesis
    using conjunct2 [OF parser_chunks [where ds = ?ds and csi_ok = "\<lambda>_ _ _. True" and osc_ok = "\<lambda>_ _. True", OF ok err pl]] unfolding whole .
qed

text \<open>
  A control sequence with any parameters, private or not, reaches the handler registered for its final byte with
  exactly those parameters and its mark, and the parser is back in the ground state.
\<close>

theorem csi_sequence_dispatched:
  assumes "currentState p = 0" and "\<And>e. \<not> errorHandler p e" and "csi_mark mark" and "ps \<noteq> []" and "0x40 \<le> f" and "f < 0x7f"
    and "csiHandlers p f = Some [h]" and "csi_ok h ps mark"
  shows "\<exists>p' calls. parse VT500_TRANSITION_TABLE csi_ok osc_ok ([0x1b, 0x5b] @ mark @ csi_units ps @ [f]) p = (p', calls, False) \<and>
    visible calls = [Csi h ps mark] \<and> currentState p' = 0"
  by (rule csi_dispatch) (fact assms)+

theorem csi_sequence_dispatched_witness:
  "\<exists>p' calls. parse VT500_TRANSITION_TABLE (\<lambda>_ _ _. True) (\<lambda>_ _. True) ([0x1b, 0x5b] @ [0x3f] @ csi_units [31, 9] @ [109])
      (setCsiHandler 109 (7::nat) (new_parser 0)) = (p', calls, False) \<and>
    visible calls = [Csi 7 [31, 9] [0x3f]] \<and> currentState p' = 0"
  by (rule csi_sequence_dispatched) (simp_all add: setCsiHandler_def new_parser_def csi_mark_def)

text \<open>
  C12. No input and no error handler makes \<open>parse\<close> call a method of a missing DCS handler: from a sound
  parser it never throws, and leaves a sound parser.
\<close>

theorem parser_never_throws:
  assumes "parser_ok p"
  shows "\<not> snd (snd (parse VT500_TRANSITION_TABLE csi_ok osc_ok data p)) \<and>
    parser_ok (fst (parse VT500_TRANSITION_TABLE csi_ok osc_ok data p))"
  by (rule parse_sound [OF assms])

theorem parser_never_throws_witness:
  "\<not> snd (snd (parse VT500_TRANSITION_TABLE (\<lambda>_ _ _. True) (\<lambda>_ _. True) [0x1b, 0x50, 0x71, 0x18, 0x9c] (new_parser (0::nat))))"
  using parser_never_throws [of "new_parser (0::nat)" "\<lambda>_ _ _. True" "\<lambda>_ _. True" "[0x1b, 0x50, 0x71, 0x18, 0x9c]"]
  by (simp add: parser_ok_def new_parser_def)

end
