(* ===== verification/Terminal.thy ===== *)
theory Terminal
  imports Resize Parser_Chunks LessonPlayer
begin

text \<open>
  The terminal around the screen: its two buffers, its modes, character sets and options, the handlers that
  change them, the registration of all handlers with the parser, and \<open>InputHandler.parse\<close>, which decodes a
  chunk of text, runs the parser on it and performs the calls the parser makes (\<open>Terminal\<close>, \<open>BufferSet\<close>,
  \<open>InputHandler\<close> and \<open>Charsets\<close> in \<open>xterm.js\<close>).

  \<open>scr\<close> is the terminal with its active buffer, \<open>inactive\<close> the other buffer; of \<open>inactive\<close> only the fields of a
  \<open>Buffer\<close> count. A run is \<open>None\<close> when it does not end and \<open>Inl\<close> when it throws. The document, the viewport, the
  selection, the renderer and the sound are left out, and with them every statement that only talks to
  them; events are kept as lists. Numbers given to \<open>resize\<close> are not \<open>NaN\<close>. The option \<open>windowsMode\<close>, which no page
  sets, is read here by the resize only: the listener that \<open>applyWindowsMode\<close> adds to the line feed, to mark the row below a
  full one as wrapped, is not modelled.
\<close>

subsection \<open>Character sets\<close>

text \<open>A character set maps characters to strings, of which the first code unit is used; \<open>null\<close> is \<open>None\<close>.\<close>

type_synonym charset_map = "nat \<Rightarrow> nat option"

definition charset_of :: "(nat \<times> units) list \<Rightarrow> charset_map" where
  "charset_of table = (\<lambda>code. map_option hd (map_of table code))"

definition CHARSET_0 :: "(nat \<times> units) list" where
  "CHARSET_0 =
    [(96, [0x25c6]), (97, [0x2592]), (98, [0x9]), (99, [0xc]), (100, [0xd]), (101, [0xa]), (102, [0xb0]),
     (103, [0xb1]), (104, [0x2424]), (105, [0xb]), (106, [0x2518]), (107, [0x2510]), (108, [0x250c]),
     (109, [0x2514]), (110, [0x253c]), (111, [0x23ba]), (112, [0x23bb]), (113, [0x2500]), (114, [0x23bc]),
     (115, [0x23bd]), (116, [0x251c]), (117, [0x2524]), (118, [0x2534]), (119, [0x252c]), (120, [0x2502]),
     (121, [0x2264]), (122, [0x2265]), (123, [0x3c0]), (124, [0x2260]), (125, [0xa3]), (126, [0xb7])]"

definition CHARSET_A :: "(nat \<times> units) list" where
  "CHARSET_A =
    [(35, [0xa3])]"

definition CHARSET_4 :: "(nat \<times> units) list" where
  "CHARSET_4 =
    [(35, [0xa3]), (64, [0xbe]), (91, [105, 106]), (92, [0xbd]), (93, [0x7c]), (123, [0xa8]), (124, [0x66]),
     (125, [0xbc]), (126, [0xb4])]"

definition CHARSET_C :: "(nat \<times> units) list" where
  "CHARSET_C =
    [(91, [0xc4]), (92, [0xd6]), (93, [0xc5]), (94, [0xdc]), (96, [0xe9]), (123, [0xe4]), (124, [0xf6]),
     (125, [0xe5]), (126, [0xfc])]"

definition CHARSET_R :: "(nat \<times> units) list" where
  "CHARSET_R =
    [(35, [0xa3]), (64, [0xe0]), (91, [0xb0]), (92, [0xe7]), (93, [0xa7]), (123, [0xe9]), (124, [0xf9]),
     (125, [0xe8]), (126, [0xa8])]"

definition CHARSET_Q :: "(nat \<times> units) list" where
  "CHARSET_Q =
    [(64, [0xe0]), (91, [0xe2]), (92, [0xe7]), (93, [0xea]), (94, [0xee]), (96, [0xf4]), (123, [0xe9]),
     (124, [0xf9]), (125, [0xe8]), (126, [0xfb])]"

definition CHARSET_K :: "(nat \<times> units) list" where
  "CHARSET_K =
    [(64, [0xa7]), (91, [0xc4]), (92, [0xd6]), (93, [0xdc]), (123, [0xe4]), (124, [0xf6]), (125, [0xfc]),
     (126, [0xdf])]"

definition CHARSET_Y :: "(nat \<times> units) list" where
  "CHARSET_Y =
    [(35, [0xa3]), (64, [0xa7]), (91, [0xb0]), (92, [0xe7]), (93, [0xe9]), (96, [0xf9]), (123, [0xe0]),
     (124, [0xf2]), (125, [0xe8]), (126, [0xec])]"

definition CHARSET_E :: "(nat \<times> units) list" where
  "CHARSET_E =
    [(64, [0xc4]), (91, [0xc6]), (92, [0xd8]), (93, [0xc5]), (94, [0xdc]), (96, [0xe4]), (123, [0xe6]),
     (124, [0xf8]), (125, [0xe5]), (126, [0xfc])]"

definition CHARSET_Z :: "(nat \<times> units) list" where
  "CHARSET_Z =
    [(35, [0xa3]), (64, [0xa7]), (91, [0xa1]), (92, [0xd1]), (93, [0xbf]), (123, [0xb0]), (124, [0xf1]),
     (125, [0xe7])]"

definition CHARSET_H :: "(nat \<times> units) list" where
  "CHARSET_H =
    [(64, [0xc9]), (91, [0xc4]), (92, [0xd6]), (93, [0xc5]), (94, [0xdc]), (96, [0xe9]), (123, [0xe4]),
     (124, [0xf6]), (125, [0xe5]), (126, [0xfc])]"

definition CHARSET_swiss :: "(nat \<times> units) list" where
  "CHARSET_swiss =
    [(35, [0xf9]), (64, [0xe0]), (91, [0xe9]), (92, [0xe7]), (93, [0xea]), (94, [0xee]), (95, [0xe8]),
     (96, [0xf4]), (123, [0xe4]), (124, [0xf6]), (125, [0xfc]), (126, [0xfb])]"

definition CHARSETS :: "(char \<times> charset_map option) list" where
  "CHARSETS =
    [(CHR ''0'', Some (charset_of CHARSET_0)), (CHR ''A'', Some (charset_of CHARSET_A)), (CHR ''B'', None),
     (CHR ''4'', Some (charset_of CHARSET_4)), (CHR ''C'', Some (charset_of CHARSET_C)),
     (CHR ''5'', Some (charset_of CHARSET_C)), (CHR ''R'', Some (charset_of CHARSET_R)),
     (CHR ''Q'', Some (charset_of CHARSET_Q)), (CHR ''K'', Some (charset_of CHARSET_K)),
     (CHR ''Y'', Some (charset_of CHARSET_Y)), (CHR ''E'', Some (charset_of CHARSET_E)),
     (CHR ''6'', Some (charset_of CHARSET_E)), (CHR ''Z'', Some (charset_of CHARSET_Z)),
     (CHR ''H'', Some (charset_of CHARSET_H)), (CHR ''7'', Some (charset_of CHARSET_H)),
     (CHR ''='', Some (charset_of CHARSET_swiss))]"

text \<open>It is read from \<open>CHARSETS\<close> before the entry is made.\<close>

definition DEFAULT_CHARSET :: "charset_map option" where
  "DEFAULT_CHARSET = None"

definition GLEVEL :: "(char \<times> nat) list" where
  "GLEVEL = [(CHR ''('', 0), (CHR '')'', 1), (CHR ''*'', 2), (CHR ''+'', 3), (CHR ''-'', 1), (CHR ''.'', 2)]"

subsection \<open>The terminal\<close>

record terminal =
  scr :: screen
  inactive :: screen
  isAlt :: bool
  glevel :: nat
  charsets :: "nat \<Rightarrow> charset_map option"
  applicationCursor :: bool
  applicationKeypad :: bool
  originMode :: bool
  bracketedPasteMode :: bool
  cursorHidden :: bool
  cursorState :: bool
  x10Mouse :: bool
  vt200Mouse :: bool
  normalMouse :: bool
  mouseEvents :: bool
  sendFocus :: bool
  utfMouse :: bool
  sgrMouse :: bool
  urxvtMouse :: bool
  savedCols :: "int option"
  scrollback :: int
  windowsMode :: bool
  disableStdin :: bool
  termName :: string
  cursorStyle :: string
  cursorBlink :: bool
  titles :: "units list"
  bells :: nat
  resizes :: "(int \<times> int) list"
  decrqss :: "nat list"
  lessons :: lesson_term

fun run_each :: "('a \<Rightarrow> 's \<Rightarrow> 's run) \<Rightarrow> 'a list \<Rightarrow> 's \<Rightarrow> 's run" where
  "run_each f [] s = Some (Inr s)"
| "run_each f (x # xs) s = run_then (f x s) (run_each f xs)"

definition ends :: "'a option \<Rightarrow> 'a run" where
  "ends v = map_option Inr v"

abbreviation returns :: "'a \<Rightarrow> 'a run" where
  "returns v \<equiv> Some (Inr v)"

definition on_screen :: "(screen \<Rightarrow> screen outcome) \<Rightarrow> terminal \<Rightarrow> terminal run" where
  "on_screen f t = run_then (as_run (f (scr t))) (\<lambda>s. returns (t\<lparr>scr := s\<rparr>))"

definition in_screen :: "(screen \<Rightarrow> screen) \<Rightarrow> terminal \<Rightarrow> terminal" where
  "in_screen f t = t\<lparr>scr := f (scr t)\<rparr>"

subsection \<open>The two buffers\<close>

text \<open>The fields of a buffer, with everything else from the terminal.\<close>

definition with_buffer :: "screen \<Rightarrow> screen \<Rightarrow> screen" where
  "with_buffer b s =
     s\<lparr>cu_x := cu_x b, cu_y := cu_y b, scrollTop := scrollTop b, scrollBottom := scrollBottom b, tabs := tabs b,
       savedX := savedX b, savedY := savedY b, savedCurAttrData := savedCurAttrData b, lines := lines b,
       ybase := ybase b, ydisp := ydisp b\<rparr>"

definition activateNormalBuffer :: "terminal \<Rightarrow> terminal run" where
  "activateNormalBuffer t =
     (if \<not> isAlt t then returns t
      else
        (let alt = scr t; normal = (with_buffer (inactive t) alt)\<lparr>cu_x := cu_x alt, cu_y := cu_y alt\<rparr>
         in run_then (ends (buffer_clear False (scrollback t) alt)) (\<lambda>cleared.
              returns (t\<lparr>scr := normal, inactive := cleared, isAlt := False\<rparr>))))"

definition activateAltBuffer :: "attribute_data \<Rightarrow> terminal \<Rightarrow> terminal" where
  "activateAltBuffer fillAttr t =
     (if isAlt t then t
      else
        (let normal = scr t; alt = fillViewportRows (Some fillAttr) (with_buffer (inactive t) normal)
         in t\<lparr>scr := alt\<lparr>cu_x := cu_x normal, cu_y := cu_y normal\<rparr>, inactive := normal, isAlt := True\<rparr>))"

definition buffers_resize :: "int \<Rightarrow> int \<Rightarrow> terminal \<Rightarrow> terminal run" where
  "buffers_resize newCols newRows t =
     (let size = (\<lambda>alt. buffer_resize (\<not> alt) (scrollback t) (windowsMode t) newCols newRows)
      in if isAlt t
         then run_then (size False (with_buffer (inactive t) (scr t))) (\<lambda>b. run_then (size True (scr t)) (\<lambda>s. returns (t\<lparr>scr := s, inactive := b\<rparr>)))
         else run_then (size False (scr t)) (\<lambda>s. run_then (size True (with_buffer (inactive t) (scr t))) (\<lambda>b. returns (t\<lparr>scr := s, inactive := b\<rparr>))))"

definition buffers_setupTabStops :: "int option \<Rightarrow> terminal \<Rightarrow> terminal run" where
  "buffers_setupTabStops i t =
     run_then (ends (setupTabStops i (scr t))) (\<lambda>s.
     run_then (ends (setupTabStops i (with_buffer (inactive t) (scr t)))) (\<lambda>b.
       returns (t\<lparr>scr := s, inactive := b\<rparr>)))"

definition MINIMUM_COLS :: int where "MINIMUM_COLS = 2"
definition MINIMUM_ROWS :: int where "MINIMUM_ROWS = 1"

definition terminal_resize :: "int \<Rightarrow> int \<Rightarrow> terminal \<Rightarrow> terminal run" where
  "terminal_resize x y t =
     (if x = cu_cols (scr t) \<and> y = cu_rows (scr t) then returns t
      else
        (let x = (if x < MINIMUM_COLS then MINIMUM_COLS else x); y = (if y < MINIMUM_ROWS then MINIMUM_ROWS else y)
         in run_then (buffers_resize x y t) (\<lambda>t1.
            run_then (buffers_setupTabStops (Some x) t1) (\<lambda>t2. returns (t2\<lparr>resizes := resizes t2 @ [(x, y)]\<rparr>)))))"

subsection \<open>Setting up and resetting\<close>

text \<open>\<open>new Buffer\<close>.\<close>

definition new_buffer :: "bool \<Rightarrow> int \<Rightarrow> screen \<Rightarrow> screen run" where
  "new_buffer hasScrollback sb s =
     ends (buffer_clear hasScrollback sb (s\<lparr>savedX := None, savedY := None, savedCurAttrData := DEFAULT_ATTR_DATA\<rparr>))"

definition terminal_setup :: "terminal \<Rightarrow> terminal run" where
  "terminal_setup t =
     (let s = (scr t)\<lparr>cu_cols := max (cu_cols (scr t)) MINIMUM_COLS, cu_rows := max (cu_rows (scr t)) MINIMUM_ROWS,
                insertMode := False, wraparoundMode := True, charset := (\<lambda>_. None),
                curAttrData := DEFAULT_ATTR_DATA, eraseAttr := DEFAULT_ATTR_DATA, userScrolling := False\<rparr>
      in run_then (new_buffer True (scrollback t) s) (\<lambda>normal.
         run_then (new_buffer False (scrollback t) s) (\<lambda>alt.
           buffers_setupTabStops None
             (t\<lparr>scr := fillViewportRows None normal, inactive := alt, isAlt := False,
                glevel := 0, charsets := (\<lambda>_. None), cursorState := False, cursorHidden := False, applicationKeypad := False,
                applicationCursor := False, originMode := False, bracketedPasteMode := False\<rparr>))))"

definition terminal_reset :: "terminal \<Rightarrow> terminal run" where
  "terminal_reset t =
     run_then (terminal_setup t) (\<lambda>t1.
       returns (t1\<lparr>cursorState := cursorState t, scr := (scr t1)\<lparr>userScrolling := userScrolling (scr t)\<rparr>\<rparr>))"

definition input_reset :: "terminal \<Rightarrow> terminal run" where
  "input_reset t =
     run_then (terminal_reset t) (\<lambda>t1.
       returns (t1\<lparr>lessons := (lessons t1)\<lparr>lt_currentLesson := None, lt_currentStep := 0\<rparr>\<rparr>))"

subsection \<open>Character set handlers, reports and small handlers\<close>

definition charset_fun :: "charset_map option \<Rightarrow> charset_map" where
  "charset_fun c = (case c of None \<Rightarrow> \<lambda>_. None | Some f \<Rightarrow> f)"

definition setgLevel :: "nat \<Rightarrow> terminal \<Rightarrow> terminal" where
  "setgLevel g t = t\<lparr>glevel := g, scr := (scr t)\<lparr>charset := charset_fun (charsets t g)\<rparr>\<rparr>"

definition setgCharset :: "nat \<Rightarrow> charset_map option \<Rightarrow> terminal \<Rightarrow> terminal" where
  "setgCharset g c t =
     (let t1 = t\<lparr>charsets := (charsets t)(g := c)\<rparr>
      in if glevel t1 = g then t1\<lparr>scr := (scr t1)\<lparr>charset := charset_fun c\<rparr>\<rparr> else t1)"

definition selectDefaultCharset :: "terminal \<Rightarrow> terminal" where
  "selectDefaultCharset t = setgCharset 0 DEFAULT_CHARSET (setgLevel 0 t)"

text \<open>The handler is registered for two characters, the first of them in \<open>GLEVEL\<close> or a slash.\<close>

definition selectCharset :: "string \<Rightarrow> terminal \<Rightarrow> terminal" where
  "selectCharset collectAndFlag t =
     (if length collectAndFlag \<noteq> 2 then selectDefaultCharset t
      else if collectAndFlag ! 0 = CHR ''/'' then t
      else
        (case map_of GLEVEL (collectAndFlag ! 0) of None \<Rightarrow> t
         | Some g \<Rightarrow> setgCharset g (case map_of CHARSETS (collectAndFlag ! 1) of Some (Some c) \<Rightarrow> Some c | _ \<Rightarrow> DEFAULT_CHARSET) t))"

definition shiftOut :: "terminal \<Rightarrow> terminal" where "shiftOut t = setgLevel 1 t"
definition shiftIn :: "terminal \<Rightarrow> terminal" where "shiftIn t = setgLevel 0 t"

definition terminal_handler :: "string \<Rightarrow> terminal \<Rightarrow> terminal" where
  "terminal_handler data t =
     (if disableStdin t then t
      else
        (let s = (if ybase (scr t) \<noteq> ydisp (scr t) then scrollToBottom (scr t) else scr t)
         in t\<lparr>scr := s\<lparr>reports := reports s @ [data]\<rparr>\<rparr>))"

definition terminal_is :: "string \<Rightarrow> terminal \<Rightarrow> bool" where
  "terminal_is term t = (take (length term) (termName t) = term)"

definition sendDeviceAttributes :: "nat list \<Rightarrow> string \<Rightarrow> terminal \<Rightarrow> terminal" where
  "sendDeviceAttributes params collect t =
     (if hd params > 0 then t
      else if collect = [] then
        (if terminal_is ''xterm'' t \<or> terminal_is ''rxvt-unicode'' t \<or> terminal_is ''screen'' t
         then terminal_handler ([CHR 0x1B] @ ''[?1;2c'') t
         else if terminal_is ''linux'' t then terminal_handler ([CHR 0x1B] @ ''[?6c'') t else t)
      else if collect = ''>'' then
        (if terminal_is ''xterm'' t then terminal_handler ([CHR 0x1B] @ ''[>0;276;0c'') t
         else if terminal_is ''rxvt-unicode'' t then terminal_handler ([CHR 0x1B] @ ''[>85;95;0c'') t
         else if terminal_is ''linux'' t then terminal_handler (nat_str (hd params) @ ''c'') t
         else if terminal_is ''screen'' t then terminal_handler ([CHR 0x1B] @ ''[>83;40003;0c'') t else t)
      else t)"

definition bell :: "terminal \<Rightarrow> terminal" where
  "bell t = t\<lparr>bells := bells t + 1\<rparr>"

definition setTitle :: "units \<Rightarrow> terminal \<Rightarrow> terminal" where
  "setTitle data t = t\<lparr>titles := titles t @ [data]\<rparr>"

definition keypadApplicationMode :: "terminal \<Rightarrow> terminal" where
  "keypadApplicationMode t = t\<lparr>applicationKeypad := True\<rparr>"

definition keypadNumericMode :: "terminal \<Rightarrow> terminal" where
  "keypadNumericMode t = t\<lparr>applicationKeypad := False\<rparr>"

definition softReset :: "nat list \<Rightarrow> string \<Rightarrow> terminal \<Rightarrow> terminal" where
  "softReset params collect t =
     (if collect = ''!'' then
        t\<lparr>cursorHidden := False, originMode := False, applicationKeypad := False, applicationCursor := False,
          glevel := 0, charsets := (\<lambda>_. None),
          scr := (scr t)\<lparr>insertMode := False, wraparoundMode := True, scrollTop := 0, scrollBottom := cu_rows (scr t) - 1,
                   curAttrData := DEFAULT_ATTR_DATA, cu_x := Some 0, cu_y := 0, charset := (\<lambda>_. None)\<rparr>\<rparr>
      else t)"

text \<open>\<open>setOption\<close> of the two options; both values are truthy or boolean, so that it stores them.\<close>

definition setCursorStyle :: "nat list \<Rightarrow> string \<Rightarrow> terminal \<Rightarrow> terminal" where
  "setCursorStyle params collect t =
     (if collect = '' '' then
        (let param = (if hd params < 1 then 1 else hd params);
             t1 = (if param = 1 \<or> param = 2 then t\<lparr>cursorStyle := ''block''\<rparr>
                   else if param = 3 \<or> param = 4 then t\<lparr>cursorStyle := ''underline''\<rparr>
                   else if param = 5 \<or> param = 6 then t\<lparr>cursorStyle := ''bar''\<rparr> else t)
         in t1\<lparr>cursorBlink := (param mod 2 = 1)\<rparr>)
      else t)"

subsection \<open>Modes\<close>

definition showCursor :: "terminal \<Rightarrow> terminal" where
  "showCursor t = (if \<not> cursorState t then t\<lparr>cursorState := True\<rparr> else t)"

definition enter_alt :: "terminal \<Rightarrow> terminal" where
  "enter_alt t = (let t1 = in_screen take_eraseAttr t in showCursor (activateAltBuffer (eraseAttr (scr t1)) t1))"

definition set_mode_one :: "nat \<Rightarrow> string \<Rightarrow> terminal \<Rightarrow> terminal run" where
  "set_mode_one p collect t =
     (if collect = [] then (if p = 4 then returns (in_screen (\<lambda>s. s\<lparr>insertMode := True\<rparr>) t) else returns t)
      else if collect = ''?'' then
        (if p = 1 then returns (t\<lparr>applicationCursor := True\<rparr>)
         else if p = 2 then returns (fold (\<lambda>g. setgCharset g DEFAULT_CHARSET) [0, 1, 2, 3] t)
         else if p = 3 then terminal_resize 132 (cu_rows (scr t)) (t\<lparr>savedCols := Some (cu_cols (scr t))\<rparr>)
         else if p = 6 then returns (t\<lparr>originMode := True\<rparr>)
         else if p = 7 then returns (in_screen (\<lambda>s. s\<lparr>wraparoundMode := True\<rparr>) t)
         else if p = 66 then returns (t\<lparr>applicationKeypad := True\<rparr>)
         else if p \<in> {9, 1000, 1002, 1003} then
           returns (t\<lparr>x10Mouse := (p = 9), vt200Mouse := (p = 1000), normalMouse := (p > 1000), mouseEvents := True\<rparr>)
         else if p = 1004 then returns (t\<lparr>sendFocus := True\<rparr>)
         else if p = 1005 then returns (t\<lparr>utfMouse := True\<rparr>)
         else if p = 1006 then returns (t\<lparr>sgrMouse := True\<rparr>)
         else if p = 1015 then returns (t\<lparr>urxvtMouse := True\<rparr>)
         else if p = 25 then returns (t\<lparr>cursorHidden := False\<rparr>)
         else if p = 1048 then returns (in_screen saveCursor t)
         else if p = 1049 then returns (enter_alt (in_screen saveCursor t))
         else if p = 47 \<or> p = 1047 then returns (enter_alt t)
         else if p = 2004 then returns (t\<lparr>bracketedPasteMode := True\<rparr>)
         else returns t)
      else returns t)"

text \<open>With several parameters each is handled on its own, and without what was collected.\<close>

definition setMode :: "nat list \<Rightarrow> string \<Rightarrow> terminal \<Rightarrow> terminal run" where
  "setMode params collect t =
     (if length params > 1 then run_each (\<lambda>p. set_mode_one p []) params t else set_mode_one (hd params) collect t)"

definition leave_alt :: "nat \<Rightarrow> terminal \<Rightarrow> terminal run" where
  "leave_alt p t =
     run_then (activateNormalBuffer t) (\<lambda>t1. returns (showCursor (if p = 1049 then in_screen restoreCursor t1 else t1)))"

definition reset_mode_one :: "nat \<Rightarrow> string \<Rightarrow> terminal \<Rightarrow> terminal run" where
  "reset_mode_one p collect t =
     (if collect = [] then (if p = 4 then returns (in_screen (\<lambda>s. s\<lparr>insertMode := False\<rparr>) t) else returns t)
      else if collect = ''?'' then
        (if p = 1 then returns (t\<lparr>applicationCursor := False\<rparr>)
         else if p = 3 then
           run_then (case savedCols t of
               Some c \<Rightarrow> if cu_cols (scr t) = 132 \<and> c \<noteq> 0 then terminal_resize c (cu_rows (scr t)) t else returns t
             | None \<Rightarrow> returns t) (\<lambda>t1. returns (t1\<lparr>savedCols := None\<rparr>))
         else if p = 6 then returns (t\<lparr>originMode := False\<rparr>)
         else if p = 7 then returns (in_screen (\<lambda>s. s\<lparr>wraparoundMode := False\<rparr>) t)
         else if p = 66 then returns (t\<lparr>applicationKeypad := False\<rparr>)
         else if p \<in> {9, 1000, 1002, 1003} then
           returns (t\<lparr>x10Mouse := False, vt200Mouse := False, normalMouse := False, mouseEvents := False\<rparr>)
         else if p = 1004 then returns (t\<lparr>sendFocus := False\<rparr>)
         else if p = 1005 then returns (t\<lparr>utfMouse := False\<rparr>)
         else if p = 1006 then returns (t\<lparr>sgrMouse := False\<rparr>)
         else if p = 1015 then returns (t\<lparr>urxvtMouse := False\<rparr>)
         else if p = 25 then returns (t\<lparr>cursorHidden := True\<rparr>)
         else if p = 1048 then returns (in_screen restoreCursor t)
         else if p = 1049 \<or> p = 47 \<or> p = 1047 then leave_alt p t
         else if p = 2004 then returns (t\<lparr>bracketedPasteMode := False\<rparr>)
         else returns t)
      else returns t)"

definition resetMode :: "nat list \<Rightarrow> string \<Rightarrow> terminal \<Rightarrow> terminal run" where
  "resetMode params collect t =
     (if length params > 1 then run_each (\<lambda>p. reset_mode_one p []) params t else reset_mode_one (hd params) collect t)"

subsection \<open>The registration of the handlers\<close>

text \<open>A handler of the input handler, by the method it calls; \<open>H_error\<close> are the fallbacks, which only log.\<close>

datatype handler =
    H_print | H_insertChars | H_cursorUp | H_cursorDown | H_cursorForward | H_cursorBackward | H_cursorNextLine
    | H_cursorPrecedingLine | H_cursorCharAbsolute | H_cursorPosition | H_cursorForwardTab | H_eraseInDisplay
    | H_eraseInLine | H_insertLines | H_deleteLines | H_deleteChars | H_scrollUp | H_scrollDown | H_eraseChars
    | H_cursorBackwardTab | H_charPosAbsolute | H_hPositionRelative | H_repeatPrecedingCharacter
    | H_sendDeviceAttributes | H_linePosAbsolute | H_vPositionRelative | H_hVPosition | H_tabClear | H_setMode
    | H_resetMode | H_charAttributes | H_deviceStatus | H_softReset | H_setCursorStyle | H_setScrollRegion
    | H_saveCursor | H_restoreCursor | H_bell | H_lineFeed | H_carriageReturn | H_backspace | H_tab | H_shiftOut
    | H_shiftIn | H_index | H_nextLine | H_tabSet | H_setTitle | H_reverseIndex | H_keypadApplicationMode
    | H_keypadNumericMode | H_reset | H_setgLevel nat | H_selectDefaultCharset | H_selectCharset string
    | H_DECRQSS | H_error | H_nop

definition csi_registrations :: "(char \<times> handler) list" where
  "csi_registrations =
    [(CHR ''@'', H_insertChars), (CHR ''A'', H_cursorUp), (CHR ''B'', H_cursorDown),
     (CHR ''C'', H_cursorForward), (CHR ''D'', H_cursorBackward), (CHR ''E'', H_cursorNextLine),
     (CHR ''F'', H_cursorPrecedingLine), (CHR ''G'', H_cursorCharAbsolute), (CHR ''H'', H_cursorPosition),
     (CHR ''I'', H_cursorForwardTab), (CHR ''J'', H_eraseInDisplay), (CHR ''K'', H_eraseInLine),
     (CHR ''L'', H_insertLines), (CHR ''M'', H_deleteLines), (CHR ''P'', H_deleteChars),
     (CHR ''S'', H_scrollUp), (CHR ''T'', H_scrollDown), (CHR ''X'', H_eraseChars),
     (CHR ''Z'', H_cursorBackwardTab), (CHR 0x60, H_charPosAbsolute), (CHR ''a'', H_hPositionRelative),
     (CHR ''b'', H_repeatPrecedingCharacter), (CHR ''c'', H_sendDeviceAttributes),
     (CHR ''d'', H_linePosAbsolute), (CHR ''e'', H_vPositionRelative), (CHR ''f'', H_hVPosition),
     (CHR ''g'', H_tabClear), (CHR ''h'', H_setMode), (CHR ''l'', H_resetMode), (CHR ''m'', H_charAttributes),
     (CHR ''n'', H_deviceStatus), (CHR ''p'', H_softReset), (CHR ''q'', H_setCursorStyle),
     (CHR ''r'', H_setScrollRegion), (CHR ''s'', H_saveCursor), (CHR ''u'', H_restoreCursor)]"

definition execute_registrations :: "(nat \<times> handler) list" where
  "execute_registrations =
    [(0x07, H_bell), (0x0A, H_lineFeed), (0x0B, H_lineFeed), (0x0C, H_lineFeed), (0x0D, H_carriageReturn),
     (0x08, H_backspace), (0x09, H_tab), (0x0E, H_shiftOut), (0x0F, H_shiftIn), (0x84, H_index), (0x85, H_nextLine), (0x88, H_tabSet)]"

definition esc_registrations :: "(string \<times> handler) list" where
  "esc_registrations =
    [(''7'', H_saveCursor), (''8'', H_restoreCursor), (''D'', H_index), (''E'', H_nextLine), (''H'', H_tabSet),
     (''M'', H_reverseIndex), (''='', H_keypadApplicationMode), (''>'', H_keypadNumericMode), (''c'', H_reset),
     (''n'', H_setgLevel 2), (''o'', H_setgLevel 3), (''|'', H_setgLevel 3), (''}'', H_setgLevel 2), (''~'', H_setgLevel 1),
     (''%@'', H_selectDefaultCharset), (''%G'', H_selectDefaultCharset)] @
    concat (map (\<lambda>(flag, _). map (\<lambda>c. ([c, flag], H_selectCharset [c, flag])) ''()*+-./'') CHARSETS)"

definition codes :: "string \<Rightarrow> units" where
  "codes = map of_char"

definition letters :: "units \<Rightarrow> string" where
  "letters = map char_of"

definition input_parser :: "handler parser" where
  "input_parser =
     (let p0 = setOscHandlerFallback H_error (setExecuteHandlerFallback H_error (setEscHandlerFallback H_error
                 (setCsiHandlerFallback H_error (new_parser H_nop))));
          p1 = fold (\<lambda>(c, h). setCsiHandler (of_char c) h) csi_registrations (setPrintHandler H_print p0);
          p2 = fold (\<lambda>(code, h). setExecuteHandler code h) execute_registrations p1;
          p3 = setOscHandler 2 H_setTitle (setOscHandler 0 H_setTitle p2);
          p4 = fold (\<lambda>(cf, h). setEscHandler (codes cf) h) esc_registrations p3
      in setDcsHandler (codes ''$q'') H_DECRQSS (setErrorHandler (\<lambda>_. False) p4))"

subsection \<open>Performing the calls of the parser\<close>

fun perform_csi :: "handler \<Rightarrow> nat list \<Rightarrow> string \<Rightarrow> terminal \<Rightarrow> terminal run" where
  "perform_csi H_insertChars params collect t = on_screen (insertChars params) t"
| "perform_csi H_cursorUp params collect t = returns (in_screen (cursorUp params) t)"
| "perform_csi H_cursorDown params collect t = returns (in_screen (cursorDown params) t)"
| "perform_csi H_cursorForward params collect t = returns (in_screen (cursorForward params) t)"
| "perform_csi H_cursorBackward params collect t = returns (in_screen (cursorBackward params) t)"
| "perform_csi H_cursorNextLine params collect t = returns (in_screen (cursorNextLine params) t)"
| "perform_csi H_cursorPrecedingLine params collect t = returns (in_screen (cursorPrecedingLine params) t)"
| "perform_csi H_cursorCharAbsolute params collect t = returns (in_screen (cursorCharAbsolute params) t)"
| "perform_csi H_cursorPosition params collect t = returns (in_screen (cursorPosition params) t)"
| "perform_csi H_cursorForwardTab params collect t = returns (in_screen (cursorForwardTab params) t)"
| "perform_csi H_eraseInDisplay params collect t = on_screen (eraseInDisplay params) t"
| "perform_csi H_eraseInLine params collect t = on_screen (eraseInLine params) t"
| "perform_csi H_insertLines params collect t = returns (in_screen (insertLines params) t)"
| "perform_csi H_deleteLines params collect t = returns (in_screen (deleteLines params) t)"
| "perform_csi H_deleteChars params collect t = on_screen (deleteChars params) t"
| "perform_csi H_scrollUp params collect t = returns (in_screen (scrollUp params) t)"
| "perform_csi H_scrollDown params collect t = returns (in_screen (scrollDown params collect) t)"
| "perform_csi H_eraseChars params collect t = on_screen (eraseChars params) t"
| "perform_csi H_cursorBackwardTab params collect t = returns (in_screen (cursorBackwardTab params) t)"
| "perform_csi H_charPosAbsolute params collect t = returns (in_screen (charPosAbsolute params) t)"
| "perform_csi H_hPositionRelative params collect t = returns (in_screen (hPositionRelative params) t)"
| "perform_csi H_repeatPrecedingCharacter params collect t = on_screen (repeatPrecedingCharacter params) t"
| "perform_csi H_sendDeviceAttributes params collect t = returns (sendDeviceAttributes params collect t)"
| "perform_csi H_linePosAbsolute params collect t = returns (in_screen (linePosAbsolute params) t)"
| "perform_csi H_vPositionRelative params collect t = returns (in_screen (vPositionRelative params) t)"
| "perform_csi H_hVPosition params collect t = returns (in_screen (hVPosition params) t)"
| "perform_csi H_tabClear params collect t = returns (in_screen (tabClear params) t)"
| "perform_csi H_setMode params collect t = setMode params collect t"
| "perform_csi H_resetMode params collect t = resetMode params collect t"
| "perform_csi H_charAttributes params collect t = returns (in_screen (charAttributes params) t)"
| "perform_csi H_deviceStatus params collect t = returns (in_screen (deviceStatus params collect) t)"
| "perform_csi H_softReset params collect t = returns (softReset params collect t)"
| "perform_csi H_setCursorStyle params collect t = returns (setCursorStyle params collect t)"
| "perform_csi H_setScrollRegion params collect t = returns (in_screen (setScrollRegion params collect) t)"
| "perform_csi H_saveCursor params collect t = returns (in_screen saveCursor t)"
| "perform_csi H_restoreCursor params collect t = returns (in_screen restoreCursor t)"
| "perform_csi _ params collect t = returns t"

fun perform_execute :: "handler \<Rightarrow> terminal \<Rightarrow> terminal run" where
  "perform_execute H_bell t = returns (bell t)"
| "perform_execute H_lineFeed t = on_screen lineFeed t"
| "perform_execute H_carriageReturn t = returns (in_screen carriageReturn t)"
| "perform_execute H_backspace t = returns (in_screen backspace t)"
| "perform_execute H_tab t = returns (in_screen tab t)"
| "perform_execute H_shiftOut t = returns (shiftOut t)"
| "perform_execute H_shiftIn t = returns (shiftIn t)"
| "perform_execute H_index t = on_screen index t"
| "perform_execute H_nextLine t = on_screen nextLine t"
| "perform_execute H_tabSet t = returns (in_screen tabSet t)"
| "perform_execute _ t = returns t"

text \<open>\<open>reset\<close> also resets the parser; it runs within \<open>parse\<close>, which then stores its own variables over it.\<close>

fun perform_esc :: "handler \<Rightarrow> terminal \<Rightarrow> terminal run" where
  "perform_esc H_saveCursor t = returns (in_screen saveCursor t)"
| "perform_esc H_restoreCursor t = returns (in_screen restoreCursor t)"
| "perform_esc H_index t = on_screen index t"
| "perform_esc H_nextLine t = on_screen nextLine t"
| "perform_esc H_tabSet t = returns (in_screen tabSet t)"
| "perform_esc H_reverseIndex t = on_screen reverseIndex t"
| "perform_esc H_keypadApplicationMode t = returns (keypadApplicationMode t)"
| "perform_esc H_keypadNumericMode t = returns (keypadNumericMode t)"
| "perform_esc H_reset t = input_reset t"
| "perform_esc (H_setgLevel g) t = returns (setgLevel g t)"
| "perform_esc H_selectDefaultCharset t = returns (selectDefaultCharset t)"
| "perform_esc (H_selectCharset cf) t = returns (selectCharset cf t)"
| "perform_esc _ t = returns t"

text \<open>\<open>DECRQSS\<close>: the request is collected and answered at its end; the style is \<open>NaN\<close> for an unknown cursor style.\<close>

definition dcs_reply :: "string \<Rightarrow> string" where
  "dcs_reply body = [CHR 0x1B] @ ''P1$r'' @ body @ [CHR 0x1B, CHR 0x5C]"

definition decrqss_unhook :: "terminal \<Rightarrow> terminal" where
  "decrqss_unhook t =
     (let data = utf32ToString (decrqss t) 0 (length (decrqss t)); s = scr t; t1 = t\<lparr>decrqss := []\<rparr>;
          num = (\<lambda>k. num_str (Some k));
          style = map_option (\<lambda>k. k - (if cursorBlink t then 1 else 0))
                    (map_of [(''block'', 2), (''underline'', 4), (''bar'', 6)] (cursorStyle t))
      in if data = codes [CHR 0x22, CHR ''q''] then terminal_handler (dcs_reply [CHR ''0'', CHR 0x22, CHR ''q'']) t1
         else if data = codes [CHR 0x22, CHR ''p''] then terminal_handler (dcs_reply [CHR ''6'', CHR ''1'', CHR 0x22, CHR ''p'']) t1
         else if data = codes ''r''
         then terminal_handler (dcs_reply (num (scrollTop s + 1) @ '';'' @ num (scrollBottom s + 1) @ ''r'')) t1
         else if data = codes ''m'' then terminal_handler (dcs_reply ''0m'') t1
         else if data = codes '' q'' then terminal_handler (dcs_reply (num_str style @ '' q'')) t1
         else terminal_handler ([CHR 0x1B] @ ''P0$r'' @ [CHR 0x1B, CHR 0x5C]) t1)"

definition perform :: "handler called \<Rightarrow> terminal \<Rightarrow> terminal run" where
  "perform c t =
     (case c of
        EscapeSequenceParser.Print h data \<Rightarrow> if h = Some H_print then on_screen (print data) t else returns t
      | Execute h \<Rightarrow> perform_execute h t
      | Csi h params collect \<Rightarrow> perform_csi h params (letters collect) t
      | Esc h collect code \<Rightarrow> perform_esc h t
      | Osc h data \<Rightarrow> if h = H_setTitle then returns (setTitle data t) else returns t
      | Hook h collect params code \<Rightarrow> if h = Some H_DECRQSS then returns (t\<lparr>decrqss := []\<rparr>) else returns t
      | Put h data \<Rightarrow> if h = Some H_DECRQSS then returns (t\<lparr>decrqss := decrqss t @ data\<rparr>) else returns t
      | Unhook h \<Rightarrow> if h = Some H_DECRQSS then returns (decrqss_unhook t) else returns t
      | _ \<Rightarrow> returns t)"

text \<open>
  The input handler: the terminal with the parser, the decoders and the length of the buffer \<open>_parseBuffer\<close> for the code points of
  a piece, which is 4096 at first and made longer when a piece has more units. A surrogate that is left over from the piece before can
  make one code point more than there are units, which then does not fit.
\<close>

record input_state =
  i_terminal :: terminal
  i_parser :: "handler parser"
  i_interim :: nat
  i_interim8 :: "nat list"
  i_moves :: nat
  i_room :: nat

text \<open>No handler answers \<open>false\<close>, so that the first one ends the search.\<close>

definition run_input :: "nat list \<Rightarrow> input_state \<Rightarrow> input_state run" where
  "run_input points i =
     (case parse VT500_TRANSITION_TABLE (\<lambda>_ _ _. True) (\<lambda>_ _. True) points (i_parser i) of
        (p, calls, crashed) \<Rightarrow>
          run_then (run_each perform calls (i_terminal i)) (\<lambda>t.
            if crashed then Some (Inl TypeError)
            else
              (let s0 = scr (i_terminal i); s1 = scr t;
                   moved = (cu_x s1 = None \<or> cu_x s1 \<noteq> cu_x s0 \<or> cu_y s1 \<noteq> cu_y s0)
               in returns (i\<lparr>i_parser := p, i_terminal := t, i_moves := (if moved then i_moves i + 1 else i_moves i)\<rparr>))))"

definition input_parse :: "units \<Rightarrow> input_state \<Rightarrow> input_state run" where
  "input_parse data i =
     (let room = max (i_room i) (length data); (interim, points) = s32_decode (i_interim i) data
      in run_input (stored room points) (i\<lparr>i_interim := interim, i_room := room\<rparr>))"

definition input_parseUtf8 :: "nat list \<Rightarrow> input_state \<Rightarrow> input_state run" where
  "input_parseUtf8 data i =
     (let room = max (i_room i) (length data); (interim, points) = u8_decode (i_interim8 i) data
      in run_input (stored room points) (i\<lparr>i_interim8 := interim, i_room := room\<rparr>))"

end
