(* ===== verification/Terminal_Input.thy ===== *)
theory Terminal_Input
  imports Terminal
begin

text \<open>
  The terminal fed with text: the decoder, the parser and the handlers together. Printing a text in pieces is
  printing it at once, so that the calls of the parser may be cut anywhere; it follows that the chunks in which
  text arrives do not matter. Control sequences given as text are in \<open>Terminal_Modes\<close>.
\<close>

subsection \<open>Printing in pieces\<close>

definition widen :: "int \<Rightarrow> screen \<Rightarrow> screen" where
  "widen y s = s\<lparr>refreshStart := min y (refreshStart s), refreshEnd := max y (refreshEnd s)\<rparr>"

lemma updateRange_widen: "updateRange y s = widen y s"
  by (auto simp: updateRange_def widen_def Let_def min_def max_def)

lemma widen_fields [simp]:
  "cursor.truncate (widen y s) = cursor.truncate s" "lines (widen y s) = lines s" "ybase (widen y s) = ybase s"
  "cu_x (widen y s) = cu_x s" "cu_y (widen y s) = cu_y s" "cu_cols (widen y s) = cu_cols s" "cu_rows (widen y s) = cu_rows s"
  "scrollTop (widen y s) = scrollTop s" "scrollBottom (widen y s) = scrollBottom s" "curAttrData (widen y s) = curAttrData s"
  "ydisp (widen y s) = ydisp s" "eraseAttr (widen y s) = eraseAttr s" "blankLine (widen y s) = blankLine s"
  "userScrolling (widen y s) = userScrolling s" "charset (widen y s) = charset s" "insertMode (widen y s) = insertMode s"
  "wraparoundMode (widen y s) = wraparoundMode s" "scrolled (widen y s) = scrolled s"
  "refreshStart (widen y s) = min y (refreshStart s)" "refreshEnd (widen y s) = max y (refreshEnd s)"
  by (simp_all add: widen_def cursor.truncate_def)

lemma widen_updates [simp]:
  "(widen y s)\<lparr>lines := c\<rparr> = widen y (s\<lparr>lines := c\<rparr>)" "(widen y s)\<lparr>cu_x := x\<rparr> = widen y (s\<lparr>cu_x := x\<rparr>)"
  "(widen y s)\<lparr>cu_y := k\<rparr> = widen y (s\<lparr>cu_y := k\<rparr>)" "(widen y s)\<lparr>eraseAttr := a\<rparr> = widen y (s\<lparr>eraseAttr := a\<rparr>)"
  "(widen y s)\<lparr>blankLine := b\<rparr> = widen y (s\<lparr>blankLine := b\<rparr>)" "(widen y s)\<lparr>ybase := k\<rparr> = widen y (s\<lparr>ybase := k\<rparr>)"
  "(widen y s)\<lparr>ydisp := k\<rparr> = widen y (s\<lparr>ydisp := k\<rparr>)" "(widen y s)\<lparr>scrolled := e\<rparr> = widen y (s\<lparr>scrolled := e\<rparr>)"
  by (simp_all add: widen_def)

lemma widen_widen: "widen y (widen k s) = widen k (widen y s)"
  by (simp add: widen_def min.left_commute max.left_commute)

text \<open>A handler that does not look at the range, and only makes it wider.\<close>

definition ranged :: "(screen \<Rightarrow> screen outcome) \<Rightarrow> bool" where
  "ranged f \<longleftrightarrow> (\<forall>y s. f (widen y s) = map_outcome_state (widen y) (f s))"

lemma ranged_then: "ranged f \<Longrightarrow> ranged g \<Longrightarrow> ranged (\<lambda>s. and_then (f s) g)"
proof -
  assume fg: "ranged f" "ranged g"
  have "and_then (f (widen y s)) g = map_outcome_state (widen y) (and_then (f s) g)" for y s
    using fg by (cases "f s") (simp_all add: ranged_def)
  then show ?thesis by (simp add: ranged_def)
qed

lemma ranged_at: "ranged f \<Longrightarrow> f (widen y s) = map_outcome_state (widen y) (f s)"
  by (simp add: ranged_def)

lemma on_line_widen [simp]: "on_line k f (widen y s) = map_outcome_state (widen y) (on_line k f s)"
  by (simp add: on_line_def split: option.split)

lemma scroll_line_widen: "scroll_line w (take_eraseAttr (widen y s)) = widen y (scroll_line w (take_eraseAttr s))"
  by (simp add: scroll_line_def take_eraseAttr_def Let_def split: option.split)

lemma scroll_append_widen: "ranged (scroll_append l)"
  by (simp add: ranged_def scroll_append_def Let_def split: sum.split option.split)

lemma scroll_region_widen: "ranged (scroll_region l)"
  by (simp add: ranged_def scroll_region_def Let_def split: sum.split)

lemma scroll_end_widen:
  "ranged (\<lambda>s2. let s3 = (if \<not> userScrolling s2 then s2\<lparr>ydisp := ybase s2\<rparr> else s2);
               s4 = updateRange (scrollBottom s3) (updateRange (scrollTop s3) s3)
           in Done (s4\<lparr>scrolled := scrolled s4 @ [ydisp s4]\<rparr>))"
  by (simp add: ranged_def updateRange_widen widen_widen)

lemma scroll_counters_widen: "ranged (\<lambda>s. Done (scroll_counters b s))"
  by (simp add: ranged_def scroll_counters_def Let_def)

lemma scroll_ranged: "ranged (scroll w)"
proof -
  have "scroll w (widen y s) = map_outcome_state (widen y) (scroll w s)" for y s
  proof -
    let ?s = "scroll_line w (take_eraseAttr s)"
    let ?moved = "\<lambda>t. if scrollTop ?s = 0
      then and_then (scroll_append (the (blankLine ?s)) t) (\<lambda>s2. Done (scroll_counters (cl_isFull (lines ?s)) s2))
      else scroll_region (the (blankLine ?s)) t"
    have "ranged ?moved"
      using ranged_then [OF scroll_append_widen scroll_counters_widen] scroll_region_widen by (simp add: ranged_def)
    from ranged_at [OF ranged_then [OF this scroll_end_widen], of y ?s] show ?thesis
      unfolding scroll_def Let_def scroll_line_widen widen_fields .
  qed
  then show ?thesis by (simp add: ranged_def)
qed

lemma wrap_ranged: "ranged wrap"
  by (simp add: ranged_def wrap_def Let_def ranged_at [OF scroll_ranged])

lemma put_ranged: "ranged (put_char code w)"
proof -
  have "put_char code w (widen y s) = map_outcome_state (widen y) (put_char code w s)" for y s
    unfolding put_char_def Let_def
    by (cases "on_line (row s) (at_column (cu_x s) (\<lambda>x l.
      for_up 1 (int w) (\<lambda>i l. setCellFromCodePoint l (x + i) 0 0 (ad_fg (curAttrData s)) (ad_bg (curAttrData s)))
        (setCellFromCodePoint l x code (of_nat w) (ad_fg (curAttrData s)) (ad_bg (curAttrData s))))) s") simp_all
  then show ?thesis by (simp add: ranged_def)
qed

lemma gap_ranged: "ranged (insert_gap w)"
  unfolding ranged_def insert_gap_def Let_def widen_fields on_line_widen by simp

lemma mark_ranged: "ranged (add_mark code x)"
  by (simp add: ranged_def add_mark_def)

lemma gap_put_ranged: "ranged (\<lambda>s. and_then (insert_gap w s) (put_char code w))"
  by (rule ranged_then [OF gap_ranged put_ranged])

definition gap_put :: "nat \<Rightarrow> nat \<Rightarrow> screen \<Rightarrow> screen outcome" where
  "gap_put w code s = and_then (if insertMode s then insert_gap w s else Done s) (put_char code w)"

lemma gap_put_any: "ranged (gap_put w code)"
  by (simp add: ranged_def gap_put_def ranged_at [OF gap_put_ranged] ranged_at [OF put_ranged])

lemma print_one_ranged: "ranged (print_one c)"
proof -
  have wrapped: "ranged (\<lambda>s. and_then (wrap s) (gap_put w code))" for w code
    by (rule ranged_then [OF wrap_ranged gap_put_any])
  have [simp]: "map_charset (widen y s) c = map_charset s c" for y s by (simp add: map_charset_def)
  show ?thesis
    unfolding ranged_def print_one_def gap_put_def [symmetric] Let_def
    by (simp add: ranged_at [OF mark_ranged] ranged_at [OF gap_put_any] ranged_at [OF wrapped] split: option.split) auto
qed

text \<open>Printing moves the cursor down at most, and keeps what is to be refreshed.\<close>

definition goes_down :: "screen \<Rightarrow> screen \<Rightarrow> bool" where
  "goes_down s s' \<longleftrightarrow> cu_y s \<le> cu_y s' \<and> refreshStart s' \<le> refreshStart s"

lemma goes_down_trans: "goes_down s s' \<Longrightarrow> goes_down s' s'' \<Longrightarrow> goes_down s s''"
  by (auto simp: goes_down_def)

lemma on_line_down: "on_line k f s = Done s' \<Longrightarrow> cu_y s' = cu_y s \<and> refreshStart s' = refreshStart s"
  by (auto simp: on_line_def split: option.splits)

lemma scroll_parts_down:
  "scroll_append l s = Done s' \<Longrightarrow> cu_y s' = cu_y s \<and> refreshStart s' = refreshStart s"
  "scroll_region l s = Done s' \<Longrightarrow> cu_y s' = cu_y s \<and> refreshStart s' = refreshStart s"
  "cu_y (scroll_counters b s) = cu_y s" "refreshStart (scroll_counters b s) = refreshStart s"
  "cu_y (scroll_line w (take_eraseAttr s)) = cu_y s" "refreshStart (scroll_line w (take_eraseAttr s)) = refreshStart s"
  by (auto simp: scroll_append_def scroll_region_def scroll_counters_def scroll_line_def take_eraseAttr_def Let_def
      split: if_splits sum.splits option.splits)

lemma scroll_down: "scroll w s = Done s' \<Longrightarrow> cu_y s' = cu_y s \<and> refreshStart s' \<le> refreshStart s"
proof -
  assume s': "scroll w s = Done s'"
  let ?s1 = "scroll_line w (take_eraseAttr s)"
  obtain s2 where s2: "(if scrollTop ?s1 = 0
        then and_then (scroll_append (the (blankLine ?s1)) ?s1) (\<lambda>s2. Done (scroll_counters (cl_isFull (lines ?s1)) s2))
        else scroll_region (the (blankLine ?s1)) ?s1) = Done s2"
    and fin: "s' = (let s3 = (if \<not> userScrolling s2 then s2\<lparr>ydisp := ybase s2\<rparr> else s2);
               s4 = updateRange (scrollBottom s3) (updateRange (scrollTop s3) s3)
           in s4\<lparr>scrolled := scrolled s4 @ [ydisp s4]\<rparr>)"
    using s' unfolding scroll_def Let_def and_then_Done_iff by blast
  have "cu_y s2 = cu_y s \<and> refreshStart s2 = refreshStart s"
    using s2 scroll_parts_down by (cases "scrollTop ?s1 = 0") (fastforce simp: and_then_Done_iff)+
  then show ?thesis unfolding fin Let_def by (simp add: updateRange_widen min.coboundedI2)
qed

lemma wrap_down: "wrap s = Done s' \<Longrightarrow> goes_down s s'"
  by (auto simp: wrap_def Let_def goes_down_def dest!: scroll_down on_line_down split: if_splits)

lemma put_down_cursor: "put_char code w s = Done s' \<Longrightarrow> goes_down s s'"
  by (auto simp: put_char_def Let_def and_then_Done_iff goes_down_def dest!: on_line_down)

lemma gap_down: "insert_gap w s = Done s' \<Longrightarrow> goes_down s s'"
  unfolding insert_gap_def Let_def by (drule on_line_down) (simp add: goes_down_def)

lemma mark_down: "add_mark code x s = Done s' \<Longrightarrow> goes_down s s'"
  unfolding add_mark_def by (drule on_line_down) (simp add: goes_down_def)

lemma goes_down_refl: "goes_down s s"
  by (simp add: goes_down_def)

lemma gap_put_down:
  "and_then (if b then insert_gap w s else Done s) (put_char code w) = Done s' \<Longrightarrow> goes_down s s'"
  by (auto simp: and_then_Done_iff split: if_splits intro: goes_down_trans gap_down put_down_cursor)

lemma print_one_down: "print_one c s = Done s' \<Longrightarrow> goes_down s s'"
proof -
  assume run: "print_one c s = Done s'"
  show ?thesis
  proof (cases "cu_x s")
    case None
    with run show ?thesis by (simp only: print_one_def Let_def option.case gap_put_down)
  next
    case (Some x)
    let ?over = "x + int (wcwidth c) - 1 \<ge> cu_cols s"
    let ?rest = "\<lambda>s1. and_then (if insertMode s1 then insert_gap (wcwidth c) s1 else Done s1) (put_char (map_charset s c) (wcwidth c))"
    consider "add_mark (map_charset s c) x s = Done s'" | "s' = s" | "and_then (if ?over \<and> wraparoundMode s then wrap s else Done s) ?rest = Done s'"
      using run unfolding print_one_def Let_def Some option.case by (metis outcome.inject(1))
    then show ?thesis
    proof cases
      case 3
      then obtain s1 where "(if ?over \<and> wraparoundMode s then wrap s else Done s) = Done s1" "?rest s1 = Done s'"
        unfolding and_then_Done_iff by blast
      then have "goes_down s s1" "goes_down s1 s'"
        using wrap_down goes_down_refl gap_put_down by (metis outcome.inject(1))+
      then show ?thesis by (rule goes_down_trans)
    qed (simp_all add: mark_down goes_down_refl)
  qed
qed

lemma each_down: "each print_one cs s = Done s' \<Longrightarrow> goes_down s s'"
proof (induction cs arbitrary: s)
  case Nil
  then show ?case by (simp add: goes_down_def)
next
  case (Cons c cs)
  then obtain s1 where "print_one c s = Done s1" "each print_one cs s1 = Done s'" by (auto simp: and_then_Done_iff)
  with Cons.IH print_one_down show ?case by (blast intro: goes_down_trans)
qed

lemma each_ranged: "ranged (each print_one cs)"
proof (induction cs)
  case (Cons c cs)
  from ranged_then [OF print_one_ranged Cons.IH, of c] show ?case by (simp add: ranged_def)
qed (simp add: ranged_def)

lemma run_then_assoc: "run_then (run_then m f) g = run_then m (\<lambda>v. run_then (f v) g)"
  by (cases m; cases "the m") auto

lemma print_pieces: "as_run (print (xs @ ys) s) = run_then (as_run (print xs s)) (\<lambda>t. as_run (print ys t))"
proof (cases "each print_one xs (widen (cu_y s) s)")
  case (Throw e t)
  then show ?thesis by (simp add: print_def updateRange_widen each_append)
next
  case (Done s1)
  have d1: "cu_y s \<le> cu_y s1" "refreshStart s1 \<le> cu_y s" using each_down [OF Done] by (auto simp: goes_down_def)
  have idem: "widen y (widen y t) = widen y t" for y t by (simp add: widen_def)
  show ?thesis
  proof (cases "each print_one ys s1")
    case (Throw e t)
    then have "each print_one ys (widen (cu_y s1) s1) = Throw e (widen (cu_y s1) t)"
      using ranged_at [OF each_ranged] by simp
    then show ?thesis using Done Throw by (simp add: print_def updateRange_widen each_append idem)
  next
    case (Done s2)
    then have ys: "each print_one ys (widen (cu_y s1) s1) = Done (widen (cu_y s1) s2)"
      using ranged_at [OF each_ranged] by simp
    have d2: "cu_y s1 \<le> cu_y s2" "refreshStart s2 \<le> cu_y s1"
      using each_down [OF Done] d1 by (auto simp: goes_down_def)
    then have "widen (cu_y s2) (widen (cu_y s1) s2) = widen (cu_y s2) s2" by (simp add: widen_def)
    then show ?thesis using \<open>each print_one xs (widen (cu_y s) s) = Done s1\<close> Done ys
      by (simp add: print_def updateRange_widen each_append idem)
  qed
qed

subsection \<open>The calls of the parser, cut into single characters\<close>

text \<open>The parser never prints an empty text.\<close>

fun prints_text :: "'h called \<Rightarrow> bool" where
  "prints_text (EscapeSequenceParser.Print h cs) = (cs \<noteq> [])"
| "prints_text _ = True"

definition prints_ok :: "nat \<Rightarrow> 'h plocal \<Rightarrow> bool" where
  "prints_ok i s \<longleftrightarrow> (\<forall>k. l_print s = Some k \<longrightarrow> k < i) \<and> list_all prints_text (l_calls s)"

lemma slice_text: "k < i \<Longrightarrow> i \<le> length data \<Longrightarrow> slice data k i \<noteq> []"
  by (simp add: slice_def)

lemma prints_ok_call: "prints_text c \<Longrightarrow> prints_ok i (make_call c s) = prints_ok i s"
  by (simp add: prints_ok_def make_call_def)

lemma prints_ok_calls: "(\<And>h. prints_text (f h)) \<Longrightarrow> prints_ok i (fold (\<lambda>h. make_call (f h)) hs s) = prints_ok i s"
  by (induction hs arbitrary: s) (simp_all add: prints_ok_call)

lemma prints_ok_flush: "i \<le> length data \<Longrightarrow> prints_ok i s \<Longrightarrow> prints_ok i (flush_print p data i s)"
  by (auto simp: prints_ok_def flush_print_def make_call_def slice_text split: option.split)

lemma prints_ok_updates [simp]:
  "prints_ok i (s\<lparr>l_state := n\<rparr>) = prints_ok i s" "prints_ok i (s\<lparr>l_osc := x\<rparr>) = prints_ok i s"
  "prints_ok i (s\<lparr>l_collect := x\<rparr>) = prints_ok i s" "prints_ok i (s\<lparr>l_params := y\<rparr>) = prints_ok i s"
  "prints_ok i (s\<lparr>l_dcs := d\<rparr>) = prints_ok i s" "prints_ok i (s\<lparr>l_dcsHandler := h\<rparr>) = prints_ok i s"
  "prints_ok i (clear_sequence s) = prints_ok i s"
  by (simp_all add: prints_ok_def clear_sequence_def)

lemma prints_ok_mono: "prints_ok i s \<Longrightarrow> i \<le> j \<Longrightarrow> prints_ok j s"
  by (auto simp: prints_ok_def)

lemma prints_ok_start: "prints_ok i s \<Longrightarrow> i < j \<Longrightarrow> prints_ok j (s\<lparr>l_print := start_at i (l_print s)\<rparr>)"
  by (auto simp: prints_ok_def start_at_def split: option.splits)

lemma prints_ok_actions:
  assumes "i \<le> length data" and "prints_ok i s"
  shows "prints_ok i (act_execute p data i c s)" "prints_ok i (act_csi csi_ok p c s)" "prints_ok i (act_param c s)"
    "prints_ok i (act_esc p c s)" "prints_ok i (act_clear p data i s)" "prints_ok i (act_hook p c s)"
    "prints_ok i (act_unhook data i s)" "prints_ok i (act_osc_end osc_ok p c s)"
proof -
  show "prints_ok i (act_execute p data i c s)" "prints_ok i (act_clear p data i s)"
    using prints_ok_flush [OF assms] by (simp_all add: act_execute_def act_clear_def prints_ok_call split: option.split)
  show "prints_ok i (act_csi csi_ok p c s)"
    using assms(2) by (simp add: act_csi_def Let_def prints_ok_call prints_ok_calls split: prod.split)
  show "prints_ok i (act_param c s)" "prints_ok i (act_esc p c s)" "prints_ok i (act_hook p c s)"
    using assms(2) by (simp_all add: act_param_def act_esc_def act_hook_def Let_def prints_ok_call split: option.split)
  show "prints_ok i (act_unhook data i s)"
    using assms(2) by (simp add: act_unhook_def prints_ok_call split: option.split)
  have "prints_ok i (osc_dispatch osc_ok p s)"
    using assms(2) by (simp add: osc_dispatch_def Let_def prints_ok_call prints_ok_calls split: prod.split)
  then show "prints_ok i (act_osc_end osc_ok p c s)" using assms(2) by (simp add: act_osc_end_def)
qed

lemma prints_ok_round:
  assumes "i < length data" and "prints_ok i s" and "parse_round table csi_ok osc_ok p data i s = Next s' t j"
  shows "prints_ok j s'"
proof -
  note le = less_imp_le [OF assms(1)]
  have j: "i < j" by (rule round_advances [OF assms(3)])
  have "prints_ok i s' \<or> s' = s\<lparr>l_print := start_at i (l_print s)\<rparr>"
    using assms(3) assms(2)
    by (auto simp: parse_round_def do_action_def Let_def act_ignore_def act_error_def report_error_def prints_ok_call
        intro!: prints_ok_actions [OF le assms(2)] prints_ok_flush [OF le assms(2)] split: if_splits option.splits)
  with j assms(2) show ?thesis using prints_ok_mono [of i s' j] prints_ok_start [of i s j] by auto
qed

lemma prints_ok_loop:
  assumes "i \<le> length data" and "prints_ok i s" and "parse_loop VT500_TRANSITION_TABLE csi_ok osc_ok p data i s = Next s' n (length data)"
  shows "prints_ok (length data) s'"
  using assms
proof (induction "length data - i" arbitrary: i s rule: less_induct)
  case less
  show ?case
  proof (cases "i < length data")
    case True
    with less.prems(3) obtain s1 t j where next1: "parse_round VT500_TRANSITION_TABLE csi_ok osc_ok p data i s = Next s1 t j"
      and loop: "parse_loop VT500_TRANSITION_TABLE csi_ok osc_ok p data j (s1\<lparr>l_state := t AND 15\<rparr>) = Next s' n (length data)"
      by (auto simp: parse_loop.simps [of _ _ _ _ data i] split: round.splits)
    have j: "i < j" by (rule round_advances [OF next1])
    show ?thesis
    proof (cases "j \<le> length data")
      case le: True
      from less.hyps [OF _ le _ loop] j True prints_ok_round [OF True less.prems(2) next1] show ?thesis by simp
    qed (use loop in \<open>simp add: parse_loop.simps [of _ _ _ _ data j]\<close>)
  next
    case False
    then have "s' = s" "i = length data" using less.prems by (auto simp: parse_loop.simps)
    with less.prems(2) show ?thesis by simp
  qed
qed

lemma parse_prints_text:
  assumes "parser_ok p" and "\<forall>c\<in>set data. plain c" and "\<And>e. \<not> errorHandler p e"
  shows "list_all prints_text (fst (snd (parse VT500_TRANSITION_TABLE csi_ok osc_ok data p)))"
proof -
  have "follows p [] data 0 (parse_start p) (parse_start p)"
    using assms(1) by (auto simp: follows_def locals_ok_def pending_def parser_ok_def parse_start_def)
  from loop_follows [OF this _ assms(2,3), of csi_ok osc_ok] obtain s n
    where run: "parse_loop VT500_TRANSITION_TABLE csi_ok osc_ok p data 0 (parse_start p) = Next s n (length data)" by auto
  have "prints_ok 0 (parse_start p)" by (simp add: prints_ok_def parse_start_def)
  from prints_ok_loop [OF _ this run] have "prints_ok (length data) s" by simp
  then have "prints_ok (length data) (parse_end p data s)"
    by (auto simp: parse_end_def prints_ok_call intro: prints_ok_flush split: option.split bool.split)
  then show ?thesis by (simp add: parse_def run Let_def prints_ok_def)
qed

text \<open>Performing the calls one character at a time.\<close>

lemma run_each_append: "run_each f (xs @ ys) s = run_then (run_each f xs s) (run_each f ys)"
proof (induction xs arbitrary: s)
  case (Cons x xs)
  then have "run_each f (xs @ ys) = (\<lambda>s. run_then (run_each f xs s) (run_each f ys))" by (intro ext)
  then show ?case by (simp add: run_then_assoc)
qed simp

lemma run_then_returns [simp]: "run_then m (run_each f []) = m"
  by (cases m; cases "the m") auto

lemma on_screen_pieces: "on_screen (print (xs @ ys)) t = run_then (on_screen (print xs) t) (on_screen (print ys))"
  unfolding on_screen_def print_pieces by (simp add: run_then_assoc)

lemma perform_print: "cs \<noteq> [] \<Longrightarrow> run_each perform (map (\<lambda>c. EscapeSequenceParser.Print h [c]) cs) t = perform (EscapeSequenceParser.Print h cs) t"
proof (induction cs arbitrary: t rule: list_nonempty_induct)
  case (single c)
  then show ?case by simp
next
  case (cons c cs)
  have "run_each perform (map (\<lambda>c. EscapeSequenceParser.Print h [c]) cs) = perform (EscapeSequenceParser.Print h cs)"
    using cons.IH by (intro ext)
  then show ?case using on_screen_pieces [of "[c]" cs t] by (simp add: perform_def [abs_def])
qed

lemma perform_put: "run_each perform (map (\<lambda>c. Put h [c]) cs) t = perform (Put h cs) t"
proof (induction cs arbitrary: t)
  case (Cons c cs)
  then show ?case by (cases "h = Some H_DECRQSS") (simp_all add: perform_def)
qed (simp add: perform_def)

lemma perform_visible_call: "prints_text c \<Longrightarrow> run_each perform (visible_call c) t = perform c t"
  by (cases c) (simp_all add: perform_print perform_put, simp add: perform_def)

lemma perform_visible: "list_all prints_text cs \<Longrightarrow> run_each perform cs t = run_each perform (visible cs) t"
proof (induction cs arbitrary: t)
  case (Cons c cs)
  then have "run_each perform cs = run_each perform (visible cs)" by (intro ext) simp
  with Cons.prems show ?case by (simp add: run_each_append perform_visible_call)
qed simp

subsection \<open>Text in pieces\<close>

text \<open>An input handler whose parser is sound and does not abort, and whose interim unit is none or half a character.\<close>

definition input_ok :: "input_state \<Rightarrow> bool" where
  "input_ok i \<longleftrightarrow> parser_ok (i_parser i) \<and> errorHandler (i_parser i) = (\<lambda>_. False) \<and> (i_interim i = 0 \<or> is_high (i_interim i))"

text \<open>The result, the number of cursor notifications and the length of the parse buffer aside.\<close>

definition settled :: "input_state run \<Rightarrow> input_state run" where
  "settled = map_option (map_sum id (\<lambda>i. i\<lparr>i_moves := 0, i_room := 0\<rparr>))"

lemma settled_then: "settled (run_then m f) = run_then m (\<lambda>v. settled (f v))"
  by (cases m; cases "the m") (auto simp: settled_def)

abbreviation parse_all :: "nat list \<Rightarrow> handler parser \<Rightarrow> handler parser \<times> handler called list \<times> bool" where
  "parse_all \<equiv> parse VT500_TRANSITION_TABLE (\<lambda>_ _ _. True) (\<lambda>_ _. True)"

lemma run_input_visible:
  assumes "parse_all points (i_parser i) = (p, calls, False)" and "list_all prints_text calls"
  shows "settled (run_input points i) = run_then (run_each perform (visible calls) (i_terminal i))
    (\<lambda>t. returns (i\<lparr>i_parser := p, i_terminal := t, i_moves := 0, i_room := 0\<rparr>))"
  using assms by (simp add: run_input_def perform_visible settled_then) (simp add: settled_def Let_def)

lemma parse_pieces:
  assumes "parser_ok p" and "errorHandler p = (\<lambda>_. False)" and "\<forall>c\<in>set (xs @ ys). plain c"
  obtains p1 cx p2 cy c where "parse_all xs p = (p1, cx, False)" "parse_all ys p1 = (p2, cy, False)"
    "parse_all (xs @ ys) p = (p2, c, False)" "visible c = visible cx @ visible cy"
    "parser_ok p1" "errorHandler p1 = (\<lambda>_. False)" "parser_ok p2" "errorHandler p2 = (\<lambda>_. False)"
proof -
  let ?one = "one_point (\<lambda>_ _ _. True) (\<lambda>_ _. True) p" and ?a = "parse_start p"
  have noerr: "\<And>e. \<not> errorHandler p e" using assms(2) by simp
  have a: "resumes p ?a" "visible (l_calls ?a) = []" by (simp_all add: resumes_def parse_start_def)
  define p1 where "p1 = store_locals (fold ?one xs ?a) p"
  define p2 where "p2 = store_locals (fold ?one (xs @ ys) ?a) p"
  obtain cx where x: "parse_all xs p = (p1, cx, False)" "visible (l_calls (fold ?one xs ?a)) = visible cx"
    "parser_ok p1" "resumes p1 (fold ?one xs ?a)"
    using parse_follows [OF assms(1) a(1) _ noerr, of xs "\<lambda>_ _ _. True" "\<lambda>_ _. True"] assms(3) a(2) unfolding p1_def by auto
  have e: "errorHandler p1 = (\<lambda>_. False)" "errorHandler p2 = (\<lambda>_. False)" using assms(2) by (simp_all add: p1_def p2_def store_locals_def)
  have noerr1: "\<And>e. \<not> errorHandler p1 e" using e by simp
  have next2: "fold (one_point (\<lambda>_ _ _. True) (\<lambda>_ _. True) p1) ys (fold ?one xs ?a) = fold ?one (xs @ ys) ?a"
    by (simp add: p1_def one_point_stored)
  have p2: "store_locals (fold ?one (xs @ ys) ?a) p1 = p2" unfolding p1_def p2_def by simp
  obtain cy where y: "parse_all ys p1 = (p2, cy, False)"
    "visible (l_calls (fold ?one (xs @ ys) ?a)) = visible cx @ visible cy" "parser_ok p2"
    using parse_follows [OF x(3,4) _ noerr1, of ys "\<lambda>_ _ _. True" "\<lambda>_ _. True"] assms(3) x(2)
    unfolding next2 p2 by auto
  obtain c where "parse_all (xs @ ys) p = (p2, c, False)" "visible (l_calls (fold ?one (xs @ ys) ?a)) = visible c"
    using parse_follows [OF assms(1) a(1) assms(3) noerr, of "\<lambda>_ _ _. True" "\<lambda>_ _. True"] a(2) unfolding p2_def by auto
  with x y e show ?thesis using that by metis
qed

lemma run_input_pieces:
  assumes "parser_ok (i_parser i)" and "errorHandler (i_parser i) = (\<lambda>_. False)" and "\<forall>c\<in>set (xs @ ys). plain c"
  shows "settled (run_input (xs @ ys) (i\<lparr>i_interim := n\<rparr>)) =
    run_then (run_input xs (i\<lparr>i_interim := k\<rparr>)) (\<lambda>i'. settled (run_input ys (i'\<lparr>i_interim := n\<rparr>)))"
proof -
  obtain p1 cx p2 cy c where p: "parse_all xs (i_parser i) = (p1, cx, False)" "parse_all ys p1 = (p2, cy, False)"
    "parse_all (xs @ ys) (i_parser i) = (p2, c, False)" "visible c = visible cx @ visible cy"
    "parser_ok p1" "errorHandler p1 = (\<lambda>_. False)"
    using parse_pieces [OF assms] by metis
  have noerr: "\<And>e. \<not> errorHandler (i_parser i) e" "\<And>e. \<not> errorHandler p1 e" using assms(2) p(6) by simp_all
  have texts: "list_all prints_text cx" "list_all prints_text cy" "list_all prints_text c"
    using parse_prints_text [OF assms(1) _ noerr(1), of xs "\<lambda>_ _ _. True" "\<lambda>_ _. True"]
      parse_prints_text [OF assms(1) assms(3) noerr(1), of "\<lambda>_ _ _. True" "\<lambda>_ _. True"]
      parse_prints_text [OF p(5) _ noerr(2), of ys "\<lambda>_ _ _. True" "\<lambda>_ _. True"] assms(3) p by auto
  have "settled (run_input ys (i'\<lparr>i_interim := n\<rparr>)) =
      run_then (run_each perform (visible cy) (i_terminal i')) (\<lambda>t. returns (i'\<lparr>i_interim := n, i_parser := p2, i_terminal := t, i_moves := 0, i_room := 0\<rparr>))"
    if "i_parser i' = p1" for i'
    using run_input_visible [of ys "i'\<lparr>i_interim := n\<rparr>"] p(2) texts(2) that by simp
  moreover obtain moves where "run_input xs (i\<lparr>i_interim := k\<rparr>) =
      run_then (run_each perform (visible cx) (i_terminal i)) (\<lambda>t. returns (i\<lparr>i_interim := k, i_parser := p1, i_terminal := t, i_moves := moves t\<rparr>))"
    using p(1) perform_visible [OF texts(1)] by (simp add: run_input_def Let_def)
  moreover have "settled (run_input (xs @ ys) (i\<lparr>i_interim := n\<rparr>)) = run_then (run_each perform (visible c) (i_terminal i))
      (\<lambda>t. returns (i\<lparr>i_interim := n, i_parser := p2, i_terminal := t, i_moves := 0, i_room := 0\<rparr>))"
    using run_input_visible [of "xs @ ys" "i\<lparr>i_interim := n\<rparr>"] p(3) texts(3) by simp
  ultimately show ?thesis by (simp add: p(4) run_each_append run_then_assoc)
qed

lemma parse_nothing: "parse_all [] p = (p, [], False)"
  by (cases "currentState p = 13") (simp_all add: parse_def parse_loop.simps parse_end_def parse_start_def Let_def)

lemma unit_step_plain:
  assumes "n = 0 \<or> is_high n" and "\<forall>c\<in>set (u # out). plain c"
  shows "(fst (unit_step (n, out) u) = 0 \<or> is_high (fst (unit_step (n, out) u))) \<and> (\<forall>c\<in>set (snd (unit_step (n, out) u)). plain c)"
proof -
  have "plain (combine n u)" if "is_low u" "is_high n" using that by (auto simp: combine_def plain_def is_low_def is_high_def)
  moreover have "plain n" if "is_high n" using that by (auto simp: plain_def is_high_def)
  ultimately show ?thesis using assms by (auto split: if_splits)
qed

lemma units_plain:
  assumes "n = 0 \<or> is_high n" and "\<forall>c\<in>set out. plain c" and "\<forall>c\<in>set us. plain c" and "foldl unit_step (n, out) us = (n', out')"
  shows "(n' = 0 \<or> is_high n') \<and> (\<forall>c\<in>set out'. plain c)"
  using assms
proof (induction us arbitrary: n out)
  case (Cons u us)
  obtain n1 out1 where st: "unit_step (n, out) u = (n1, out1)" by fastforce
  then have "n1 = 0 \<or> is_high n1" "\<forall>c\<in>set out1. plain c" using unit_step_plain [of n u out] Cons.prems by auto
  from Cons.IH [OF this] Cons.prems st show ?case by simp
qed simp

text \<open>No more code points than units, but for a surrogate left over from the piece before.\<close>

lemma units_length:
  "foldl unit_step (n, out) us = (n', out') \<Longrightarrow>
    length out' + (if n' = 0 then 0 else 1) \<le> length out + (if n = 0 then 0 else 1) + length us"
proof (induction us arbitrary: n out)
  case (Cons u us)
  obtain n1 out1 where st: "unit_step (n, out) u = (n1, out1)" by fastforce
  then have "length out1 + (if n1 = 0 then 0 else 1) \<le> length out + (if n = 0 then 0 else 1) + 1" by (auto split: if_splits)
  with Cons.IH [of n1 out1] Cons.prems st show ?case by simp
qed simp

lemma run_input_ok:
  assumes "parser_ok (i_parser i)" and "errorHandler (i_parser i) = (\<lambda>_. False)" and "\<forall>c\<in>set xs. plain c"
    and "run_input xs i = returns i'"
  shows "parser_ok (i_parser i') \<and> errorHandler (i_parser i') = (\<lambda>_. False) \<and> i_interim i' = i_interim i"
proof -
  obtain p1 cx where p: "parse_all xs (i_parser i) = (p1, cx, False)" "parser_ok p1" "errorHandler p1 = (\<lambda>_. False)"
    using parse_pieces [OF assms(1,2), of xs "[]"] assms(3) by (metis append_Nil2)
  from p(1) assms(4) show ?thesis
    by (cases "run_each perform cx (i_terminal i)"; cases "the (run_each perform cx (i_terminal i))")
      (auto simp: run_input_def Let_def p(2,3))
qed

text \<open>Parsing with a buffer that is long enough.\<close>

definition whole_parse :: "units \<Rightarrow> input_state \<Rightarrow> input_state run" where
  "whole_parse data i =
     (let (interim, points) = s32_decode (i_interim i) data in run_input points (i\<lparr>i_interim := interim\<rparr>))"

lemma whole_pieces:
  assumes "input_ok i" and "\<forall>c\<in>set (xs @ ys). plain c"
  shows "settled (whole_parse (xs @ ys) i) = run_then (whole_parse xs i) (\<lambda>i'. settled (whole_parse ys i'))"
proof -
  obtain k px where x: "s32_decode (i_interim i) xs = (k, px)" by fastforce
  obtain n py where y: "s32_decode k ys = (n, py)" by fastforce
  have xy: "s32_decode (i_interim i) (xs @ ys) = (n, px @ py)"
    using x y unit_steps_out [of k px ys] by (simp add: s32_decode_units)
  have ok: "parser_ok (i_parser i)" "errorHandler (i_parser i) = (\<lambda>_. False)" "i_interim i = 0 \<or> is_high (i_interim i)"
    using assms(1) by (auto simp: input_ok_def)
  have px: "(k = 0 \<or> is_high k)" "\<forall>c\<in>set px. plain c"
    using units_plain [OF ok(3), of "[]" xs] x assms(2) by (auto simp: s32_decode_units)
  have py: "\<forall>c\<in>set py. plain c" using units_plain [OF px(1), of "[]" ys] y assms(2) by (auto simp: s32_decode_units)
  have plain: "\<forall>c\<in>set (px @ py). plain c" using px(2) py by auto
  have "run_then (run_input px (i\<lparr>i_interim := k\<rparr>)) (\<lambda>i'. settled (whole_parse ys i')) =
      run_then (run_input px (i\<lparr>i_interim := k\<rparr>)) (\<lambda>i'. settled (run_input py (i'\<lparr>i_interim := n\<rparr>)))"
  proof (cases "\<exists>i'. run_input px (i\<lparr>i_interim := k\<rparr>) = returns i'")
    case True
    then obtain i' where i': "run_input px (i\<lparr>i_interim := k\<rparr>) = returns i'" by blast
    from run_input_ok [OF _ _ px(2) this] ok have "i_interim i' = k" by simp
    with i' y show ?thesis by (simp add: whole_parse_def)
  next
    case False
    then show ?thesis
      by (cases "run_input px (i\<lparr>i_interim := k\<rparr>)"; cases "the (run_input px (i\<lparr>i_interim := k\<rparr>))") auto
  qed
  with run_input_pieces [OF ok(1,2) plain, of n k] show ?thesis by (simp add: whole_parse_def x xy)
qed

lemma whole_ok:
  assumes "input_ok i" and "\<forall>c\<in>set xs. plain c" and "whole_parse xs i = returns i'"
  shows "input_ok i'"
proof -
  obtain k px where x: "s32_decode (i_interim i) xs = (k, px)" by fastforce
  have ok: "i_interim i = 0 \<or> is_high (i_interim i)" using assms(1) by (auto simp: input_ok_def)
  have "(k = 0 \<or> is_high k)" "\<forall>c\<in>set px. plain c"
    using units_plain [OF ok, of "[]" xs] x assms(2) by (auto simp: s32_decode_units)
  with run_input_ok [of "i\<lparr>i_interim := k\<rparr>" px i'] assms(1,3) x show ?thesis
    by (auto simp: whole_parse_def input_ok_def)
qed

lemma whole_chunks:
  assumes "input_ok i" and "\<forall>d\<in>set ds. \<forall>c\<in>set d. plain c"
  shows "settled (run_each whole_parse ds i) = settled (whole_parse (concat ds) i)"
  using assms
proof (induction ds arbitrary: i)
  case Nil
  then show ?case by (simp add: whole_parse_def s32_decode_def run_input_def parse_nothing settled_def Let_def)
next
  case (Cons d ds)
  have pl: "\<forall>c\<in>set d. plain c" "\<forall>c\<in>set (d @ concat ds). plain c" using Cons.prems(2) by auto
  have "run_then (whole_parse d i) (\<lambda>i'. settled (run_each whole_parse ds i')) =
      run_then (whole_parse d i) (\<lambda>i'. settled (whole_parse (concat ds) i'))"
  proof (cases "\<exists>i'. whole_parse d i = returns i'")
    case True
    then obtain i' where i': "whole_parse d i = returns i'" by blast
    from Cons.IH [OF whole_ok [OF Cons.prems(1) pl(1) this]] Cons.prems(2) i' show ?thesis by simp
  next
    case False
    then show ?thesis by (cases "whole_parse d i"; cases "the (whole_parse d i)") auto
  qed
  with whole_pieces [OF Cons.prems(1) pl(2)] show ?case by (simp add: settled_then)
qed

subsection \<open>The parse buffer\<close>

lemma decoded_fits:
  assumes "s32_decode n data = (n', points)" and "n = 0 \<or> length data < k" and "length data \<le> k"
  shows "length points \<le> k"
  using units_length [of n "[]" data n' points] assms by (auto simp: s32_decode_units split: if_splits)

lemma interim_room: "i\<lparr>i_room := r, i_interim := n\<rparr> = i\<lparr>i_interim := n, i_room := r\<rparr>"
  by (cases i) simp

lemma input_parse_fits:
  assumes "i_interim i = 0 \<or> length data < i_room i"
  shows "input_parse data i = whole_parse data (i\<lparr>i_room := max (i_room i) (length data)\<rparr>)"
proof -
  obtain n points where d: "s32_decode (i_interim i) data = (n, points)" by fastforce
  have "length points \<le> max (i_room i) (length data)" using assms by (intro decoded_fits [OF d]) auto
  with d show ?thesis by (simp add: input_parse_def whole_parse_def interim_room)
qed

lemma room_run: "run_input points (i\<lparr>i_room := r\<rparr>) = map_option (map_sum id (\<lambda>i. i\<lparr>i_room := r\<rparr>)) (run_input points i)"
proof -
  obtain p calls crash where p: "parse_all points (i_parser i) = (p, calls, crash)" by (cases "parse_all points (i_parser i)") auto
  show ?thesis
    by (cases "run_each perform calls (i_terminal i)"; cases "the (run_each perform calls (i_terminal i))"; cases i)
      (use p in \<open>auto simp: run_input_def Let_def\<close>)
qed

lemma room_parse: "whole_parse data (i\<lparr>i_room := r\<rparr>) = map_option (map_sum id (\<lambda>i. i\<lparr>i_room := r\<rparr>)) (whole_parse data i)"
proof -
  obtain n points where d: "s32_decode (i_interim i) data = (n, points)" by fastforce
  then show ?thesis using room_run [of points _ "i\<lparr>i_interim := n\<rparr>"] by (simp add: whole_parse_def interim_room)
qed

lemma settled_room: "settled (map_option (map_sum id (\<lambda>i. i\<lparr>i_room := r\<rparr>)) m) = settled m"
  by (cases m; cases "the m") (auto simp: settled_def)

lemma whole_run_room:
  "settled (run_each whole_parse ds (i\<lparr>i_room := r\<rparr>)) = settled (run_each whole_parse ds i)"
proof (induction ds arbitrary: i r)
  case Nil
  then show ?case by (simp add: settled_def)
next
  case (Cons d ds)
  then show ?case by (cases "whole_parse d i"; cases "the (whole_parse d i)") (auto simp: room_parse settled_def)
qed

lemma run_room_kept: "run_input points i = returns i' \<Longrightarrow> i_room i' = i_room i"
  by (cases "run_each perform (fst (snd (parse_all points (i_parser i)))) (i_terminal i)";
      cases "the (run_each perform (fst (snd (parse_all points (i_parser i)))) (i_terminal i))")
    (auto simp: run_input_def Let_def split: prod.splits if_splits)

lemma parse_room: "input_parse data i = returns i' \<Longrightarrow> i_room i' = max (i_room i) (length data)"
  by (auto simp: input_parse_def Let_def dest!: run_room_kept split: prod.splits)

lemma chunks_whole:
  assumes "\<forall>d\<in>set ds. length d < i_room i"
  shows "settled (run_each input_parse ds i) = settled (run_each whole_parse ds i)"
  using assms
proof (induction ds arbitrary: i)
  case (Cons d ds)
  have eq: "input_parse d i = whole_parse d i"
    using input_parse_fits [of i d] Cons.prems by (simp add: max_absorb1 less_imp_le)
  have "settled (run_each input_parse ds i') = settled (run_each whole_parse ds i')" if "input_parse d i = returns i'" for i'
    using parse_room [OF that] Cons.prems by (intro Cons.IH) auto
  then show ?case using eq by (cases "whole_parse d i"; cases "the (whole_parse d i)") auto
qed simp

lemma chunks_settled:
  assumes "input_ok i" and "\<forall>d\<in>set ds. \<forall>c\<in>set d. plain c" and "\<forall>d\<in>set ds. length d < i_room i"
    and "i_interim i = 0 \<or> length (concat ds) < i_room i"
  shows "settled (run_each input_parse ds i) = settled (input_parse (concat ds) i)"
  unfolding chunks_whole [OF assms(3)] whole_chunks [OF assms(1,2)] input_parse_fits [OF assms(4)] room_parse settled_room ..

end
