(* ===== verification/Terminal_Safety.thy ===== *)
theory Terminal_Safety
  imports Terminal_Input
begin

text \<open>
  No text that avoids a few control sequences makes the terminal throw: every call of the parser returns and
  leaves both buffers well-formed. First that no handler of the screen changes its size, then filling and clearing
  of buffers, then the handlers one by one.
\<close>

subsection \<open>Runs of guarded steps\<close>

text \<open>Every step finds what it needs in the state the steps before it leave.\<close>

fun guarded :: "('a \<Rightarrow> 's \<Rightarrow> 's run) \<Rightarrow> ('a \<Rightarrow> 's \<Rightarrow> bool) \<Rightarrow> 'a list \<Rightarrow> 's \<Rightarrow> bool" where
  "guarded step guard [] s = True"
| "guarded step guard (x # xs) s =
     (guard x s \<and> (case step x s of Some (Inr s') \<Rightarrow> guarded step guard xs s' | _ \<Rightarrow> True))"

text \<open>Operations that return and keep an invariant wherever their guard holds.\<close>

locale guarded_run =
  fixes step :: "'a \<Rightarrow> 's \<Rightarrow> 's run" and inv :: "'s \<Rightarrow> bool" and guard :: "'a \<Rightarrow> 's \<Rightarrow> bool"
  assumes step_returns: "inv s \<Longrightarrow> guard x s \<Longrightarrow> \<exists>s'. step x s = returns s' \<and> inv s'"
begin

lemma run_returns: "inv s \<Longrightarrow> guarded step guard xs s \<Longrightarrow> \<exists>s'. run_each step xs s = returns s' \<and> inv s'"
proof (induction xs arbitrary: s)
  case (Cons x xs)
  then obtain s1 where "step x s = returns s1" "inv s1" using step_returns [of s x] by auto
  with Cons show ?case by simp
qed simp

lemma run_unguarded:
  assumes "\<And>x s. x \<in> set xs \<Longrightarrow> guard x s" and "inv s"
  shows "\<exists>s'. run_each step xs s = returns s' \<and> inv s'"
  using assms
proof (induction xs arbitrary: s)
  case (Cons x xs)
  then obtain s1 where "step x s = returns s1" "inv s1" using step_returns [of s x] by auto
  with Cons show ?case by simp
qed simp

end

subsection \<open>No handler of the screen changes its size\<close>

definition size_of :: "'a cursor_scheme \<Rightarrow> int \<times> int \<times> int" where
  "size_of s = (cu_cols s, cu_rows s, tabStopWidth s)"

definition sized :: "('s cursor_scheme \<Rightarrow> 's cursor_scheme outcome) \<Rightarrow> bool" where
  "sized f \<longleftrightarrow> (\<forall>s s'. f s = Done s' \<longrightarrow> size_of s' = size_of s)"

lemma size_of_updates [simp]:
  "size_of (s\<lparr>cu_x := x\<rparr>) = size_of s" "size_of (s\<lparr>cu_y := y\<rparr>) = size_of s" "size_of (s\<lparr>tabs := ts\<rparr>) = size_of s"
  "size_of (s\<lparr>scrollTop := y\<rparr>) = size_of s" "size_of (s\<lparr>scrollBottom := y\<rparr>) = size_of s"
  "size_of (s\<lparr>savedX := x\<rparr>) = size_of s" "size_of (s\<lparr>savedY := x\<rparr>) = size_of s" "size_of (s\<lparr>savedCurAttrData := a\<rparr>) = size_of s"
  "size_of (s\<lparr>curAttrData := a\<rparr>) = size_of s" "size_of (s\<lparr>reports := rs\<rparr>) = size_of s"
  by (simp_all add: size_of_def)

lemma size_of_screen [simp]:
  "size_of (s\<lparr>lines := c\<rparr>) = size_of s" "size_of (s\<lparr>ybase := y\<rparr>) = size_of s" "size_of (s\<lparr>ydisp := y\<rparr>) = size_of s"
  "size_of (s\<lparr>eraseAttr := a\<rparr>) = size_of s" "size_of (s\<lparr>blankLine := b\<rparr>) = size_of s" "size_of (s\<lparr>userScrolling := u\<rparr>) = size_of s"
  "size_of (s\<lparr>scrolled := es\<rparr>) = size_of s" "size_of (s\<lparr>lineFeeds := n\<rparr>) = size_of s" "size_of (s\<lparr>charset := cs\<rparr>) = size_of s"
  "size_of (s\<lparr>insertMode := u\<rparr>) = size_of s" "size_of (s\<lparr>wraparoundMode := u\<rparr>) = size_of s"
  "size_of (updateRange y s) = size_of s" "size_of (take_eraseAttr s) = size_of s" for s :: screen
  by (simp_all add: size_of_def updateRange_widen widen_def take_eraseAttr_def)

lemma sized_then: "sized f \<Longrightarrow> (\<And>s. sized (g s)) \<Longrightarrow> sized (\<lambda>s. and_then (f s) (g s))"
  by (fastforce simp: sized_def and_then_Done_iff)

lemma sized_Done: "(\<And>s. size_of (f s) = size_of s) \<Longrightarrow> sized (\<lambda>s. Done (f s))"
  by (simp add: sized_def)

lemma sized_each: "(\<And>x. sized (f x)) \<Longrightarrow> sized (each f xs)"
proof (induction xs)
  case (Cons x xs)
  then show ?case by (fastforce simp: sized_def and_then_Done_iff)
qed (simp add: sized_def)

lemma sized_at: "sized f \<Longrightarrow> f s = Done s' \<Longrightarrow> size_of s' = size_of s"
  by (simp add: sized_def)

lemma on_line_size: "on_line k f s = Done s' \<Longrightarrow> size_of s' = size_of s"
  by (auto simp: on_line_def split: option.splits)

lemma scroll_size: "scroll w s = Done s' \<Longrightarrow> size_of s' = size_of s"
proof -
  assume run: "scroll w s = Done s'"
  let ?s1 = "scroll_line w (take_eraseAttr s)"
  obtain s2 where s2: "(if scrollTop ?s1 = 0
        then and_then (scroll_append (the (blankLine ?s1)) ?s1) (\<lambda>s2. Done (scroll_counters (cl_isFull (lines ?s1)) s2))
        else scroll_region (the (blankLine ?s1)) ?s1) = Done s2"
    and fin: "s' = (let s3 = (if \<not> userScrolling s2 then s2\<lparr>ydisp := ybase s2\<rparr> else s2);
               s4 = updateRange (scrollBottom s3) (updateRange (scrollTop s3) s3)
           in s4\<lparr>scrolled := scrolled s4 @ [ydisp s4]\<rparr>)"
    using run unfolding scroll_def Let_def and_then_Done_iff by blast
  have "size_of ?s1 = size_of s" by (simp add: scroll_line_def Let_def)
  moreover have "scroll_append l t = Done u \<Longrightarrow> size_of u = size_of t" "scroll_region l t = Done u \<Longrightarrow> size_of u = size_of t"
    "size_of (scroll_counters b t) = size_of t" for l t u b
    by (auto simp: scroll_append_def scroll_region_def scroll_counters_def Let_def split: if_splits sum.splits option.splits)
  ultimately have "size_of s2 = size_of s"
    using s2 by (cases "scrollTop ?s1 = 0") (fastforce simp: and_then_Done_iff)+
  then show ?thesis unfolding fin Let_def by simp
qed

lemma move_size: "size_of (cursor_step op s) = size_of s"
proof -
  have "size_of (((\<lambda>c. c\<lparr>cu_x := f c\<rparr>) ^^ n) s) = size_of s" for f :: "'a cursor_scheme \<Rightarrow> int option" and n
    by (induction n) simp_all
  then show ?thesis
    by (cases op) (simp_all add: cursor_defs cursorForwardTab_def cursorBackwardTab_def Let_def split: option.split)
qed

lemma print_one_size: "print_one c s = Done s' \<Longrightarrow> size_of s' = size_of s"
proof -
  have w: "wrap s = Done s' \<Longrightarrow> size_of s' = size_of s" for s s'
    by (auto simp: wrap_def Let_def dest!: scroll_size on_line_size split: if_splits)
  have p: "gap_put w code s = Done s' \<Longrightarrow> size_of s' = size_of s" for w code s s'
    by (auto simp: gap_put_def put_char_def insert_gap_def Let_def and_then_Done_iff dest!: on_line_size split: if_splits)
  show "print_one c s = Done s' \<Longrightarrow> size_of s' = size_of s"
    unfolding print_one_def gap_put_def [symmetric] Let_def
    by (auto simp: and_then_Done_iff add_mark_def dest!: w p on_line_size split: option.splits if_splits)
qed

lemma step_size: "input_step i s = Done s' \<Longrightarrow> size_of s' = size_of s"
proof -
  have erase: "eraseInBufferLine y a b w s = Done s' \<Longrightarrow> size_of s' = size_of s" for y a b w s s'
    unfolding eraseInBufferLine_def Let_def by (drule on_line_size) simp
  have resets: "each resetBufferLine ys s = Done s' \<Longrightarrow> size_of s' = size_of s" for ys s s'
    by (rule sized_at [OF sized_each]) (auto simp: sized_def resetBufferLine_def dest: erase)
  have down: "reset_down j s = Done s' \<Longrightarrow> size_of s' = size_of s" for j s s'
    by (auto simp: reset_down_def and_then_Done_iff dest: resets split: if_splits)
  have prints: "each print_one cs s = Done s' \<Longrightarrow> size_of s' = size_of s" for cs s s'
    by (rule sized_at [OF sized_each]) (auto simp: sized_def dest: print_one_size)
  have swaps: "(\<And>s. size_of (f s) = size_of s) \<Longrightarrow> size_of ((f ^^ n) s) = size_of s" for f :: "screen \<Rightarrow> screen" and n s
    by (induction n) simp_all
  have swap: "size_of (swap_line a b at s) = size_of s" for a b at s by (simp add: swap_line_def Let_def)
  have view: "size_of (scrollLines n b s) = size_of s" for n b s by (simp add: scrollLines_def Let_def)
  have index: "Screen.index s = Done s' \<Longrightarrow> size_of s' = size_of s" for s s'
    by (auto simp: index_def Let_def and_then_Done_iff step_inside_def dest!: scroll_size split: if_splits)
  assume run: "input_step i s = Done s'"
  show ?thesis
  proof (cases i)
    case (EraseInDisplay ps)
    with run show ?thesis
      by (auto simp: eraseInDisplay_def Let_def and_then_Done_iff dest!: erase resets down on_line_size split: if_splits option.splits)
  next
    case LineFeed
    with run show ?thesis
      by (auto simp: lineFeed_def Let_def and_then_Done_iff step_inside_def dest!: scroll_size split: if_splits)
  next
    case ReverseIndex
    with run show ?thesis by (auto simp: reverseIndex_def Let_def split: if_splits sum.splits)
  next
    case (EraseInLine ps)
    with run show ?thesis by (auto simp: eraseInLine_def and_then_Done_iff dest!: erase split: if_splits)
  next
    case (Print cs)
    with run show ?thesis by (auto simp: print_def and_then_Done_iff dest!: prints)
  next
    case (Attributes ps)
    with run show ?thesis by (auto simp: charAttributes_def)
  qed (use run in \<open>auto simp: move_size nextLine_def insertChars_def deleteChars_def eraseChars_def repeatPrecedingCharacter_def
      insertLines_def deleteLines_def scrollUp_def scrollDown_def scrollPages_def scrollToTop_def scrollToBottom_def scrollToLine_def
      Let_def and_then_Done_iff swaps swap view dest!: on_line_size index\<close>)
qed

subsection \<open>Filling a buffer\<close>

definition blank_row :: "screen \<Rightarrow> attribute_data \<Rightarrow> buffer_line option" where
  "blank_row s a = Some (getBlankLine (cu_cols s) a False)"

lemma fill_viewport:
  assumes "cl_inv (lines s)" and "cl_length (lines s) = 0" and "cu_rows s \<le> cl_maxLength (lines s)" and "0 < cu_rows s"
  shows "\<exists>c. fillViewportRows fill s = s\<lparr>lines := c\<rparr> \<and> cl_inv c \<and>
    cl_list c = replicate (nat (cu_rows s)) (blank_row s (case fill of None \<Rightarrow> DEFAULT_ATTR_DATA | Some a \<Rightarrow> a)) \<and>
    cl_maxLength c = cl_maxLength (lines s)"
proof -
  let ?a = "case fill of None \<Rightarrow> DEFAULT_ATTR_DATA | Some a \<Rightarrow> a"
  let ?v = "blank_row s ?a" and ?n = "nat (cu_rows s)"
  have empty: "cl_list (lines s) = replicate 0 ?v" using cl_length_list [OF assms(1)] assms(2) by (simp flip: length_0_conv)
  obtain c where c: "for_down (int ?n - 1) 0 (\<lambda>i s. s\<lparr>lines := fst (cl_push (lines s) ?v)\<rparr>) (s\<lparr>lines := lines s\<rparr>) = s\<lparr>lines := c\<rparr>"
    "cl_inv c" "cl_list c = replicate (0 + ?n) ?v" "cl_maxLength c = cl_maxLength (lines s)"
    using fill_rows [OF assms(1) empty, of ?n s] assms(3,4) by auto
  have "fold (\<lambda>i s. s\<lparr>lines := fst (cl_push (lines s) (Some (getBlankLine (cu_cols s) ?a False)))\<rparr>) xs t =
      fold (\<lambda>i s. s\<lparr>lines := fst (cl_push (lines s) ?v)\<rparr>) xs t" if "cu_cols t = cu_cols s" for xs :: "int list" and t :: screen
    using that by (induction xs arbitrary: t) (simp_all add: blank_row_def)
  then have "fillViewportRows fill s = s\<lparr>lines := c\<rparr>"
    using c(1) assms(2,4) by (simp add: fillViewportRows_def for_down_def Let_def)
  with c show ?thesis by auto
qed

lemma tab_stops_end: "0 < tabStopWidth c \<Longrightarrow> \<exists>ts. setupTabStops i c = Some (c\<lparr>tabs := ts\<rparr>)"
  by (cases i) (auto simp: setupTabStops_def Let_def tab_loop_sets)

lemma clear_ends:
  assumes "0 < tabStopWidth s"
  shows "\<exists>ts. buffer_clear b sb s = Some (s\<lparr>ydisp := 0, ybase := 0, cu_y := 0, cu_x := Some 0,
       lines := cl_new (getCorrectBufferLength b sb (cu_rows s)), scrollTop := 0, scrollBottom := cu_rows s - 1, tabs := ts\<rparr>)"
  using tab_stops_end [of "s\<lparr>ydisp := 0, ybase := 0, cu_y := 0, cu_x := Some 0,
       lines := cl_new (getCorrectBufferLength b sb (cu_rows s)), scrollTop := 0, scrollBottom := cu_rows s - 1\<rparr>" None] assms
  by (auto simp: buffer_clear_def)

lemma blank_lines_ok: "0 < cols \<Longrightarrow> cl_inv c \<Longrightarrow> cl_list c = replicate n (Some (getBlankLine cols a False)) \<Longrightarrow> lines_ok cols c"
  using good_blank [of cols] by (auto simp: lines_ok_def)

subsection \<open>Well-formed terminals\<close>

text \<open>The alternate buffer while it is not shown: it has no lines.\<close>

definition alt_waits :: "int \<Rightarrow> screen \<Rightarrow> bool" where
  "alt_waits rows b \<longleftrightarrow> cl_inv (lines b) \<and> cl_length (lines b) = 0 \<and> rows \<le> cl_maxLength (lines b) \<and> ybase b = 0 \<and> ydisp b = 0 \<and>
     0 \<le> scrollTop b \<and> scrollTop b \<le> scrollBottom b \<and> scrollBottom b < rows \<and>
     (\<forall>x. savedX b = Some x \<longrightarrow> 0 \<le> x) \<and> (\<forall>y. savedY b = Some y \<longrightarrow> 0 \<le> y \<and> y < rows)"

definition terminal_ok :: "terminal \<Rightarrow> bool" where
  "terminal_ok t \<longleftrightarrow> screen_ok (scr t) \<and> 0 < tabStopWidth (scr t) \<and> 0 \<le> scrollback t \<and> cu_rows (scr t) \<le> MAX_BUFFER_SIZE \<and>
     (if isAlt t then screen_ok ((with_buffer (inactive t) (scr t))\<lparr>cu_x := Some 0, cu_y := 0\<rparr>) else alt_waits (cu_rows (scr t)) (inactive t))"

lemma with_buffer_ok:
  assumes "screen_ok ((with_buffer b s)\<lparr>cu_x := Some 0, cu_y := 0\<rparr>)" and "screen_ok s'" and "size_of s' = size_of s"
  shows "screen_ok ((with_buffer b s')\<lparr>cu_x := cu_x s', cu_y := cu_y s'\<rparr>)" "screen_ok ((with_buffer b s')\<lparr>cu_x := Some 0, cu_y := 0\<rparr>)"
  using assms by (auto simp: screen_ok_def place_ok_def buffer_ok_def with_buffer_def size_of_def)

text \<open>A change of the screen that keeps it well-formed and of its size.\<close>

lemma terminal_ok_scr:
  assumes "terminal_ok t" and "screen_ok s" and "size_of s = size_of (scr t)"
  shows "terminal_ok (t\<lparr>scr := s\<rparr>)"
  using assms with_buffer_ok(2) [of "inactive t" "scr t" s] by (auto simp: terminal_ok_def size_of_def)

lemma on_screen_ok:
  assumes "terminal_ok t" and "safe op (scr t)"
  shows "\<exists>t'. on_screen (input_step op) t = returns t' \<and> terminal_ok t'"
proof -
  have "screen_ok (scr t)" using assms(1) by (simp add: terminal_ok_def)
  then obtain s where s: "input_step op (scr t) = Done s" "screen_ok s" using input_ok assms(2) by (auto simp: fine_def)
  with terminal_ok_scr [OF assms(1) s(2) step_size [OF s(1)]] show ?thesis by (simp add: on_screen_def)
qed

interpretation screen_inputs: guarded_run "\<lambda>op. on_screen (input_step op)" terminal_ok "\<lambda>op t. safe op (scr t)"
  by unfold_locales (rule on_screen_ok)

lemma enter_alt_ok:
  assumes "terminal_ok t"
  shows "terminal_ok (enter_alt t)"
proof (cases "isAlt t")
  case True
  have "terminal_ok (in_screen take_eraseAttr t)"
    unfolding in_screen_def using assms
    by (intro terminal_ok_scr) (auto simp: terminal_ok_def take_eraseAttr_def screen_ok_def place_ok_def buffer_ok_def)
  with True show ?thesis by (simp add: enter_alt_def Let_def activateAltBuffer_def showCursor_def in_screen_def) (simp add: terminal_ok_def)
next
  case False
  let ?s = "take_eraseAttr (scr t)"
  let ?b = "with_buffer (inactive t) ?s"
  have t: "screen_ok (scr t)" "alt_waits (cu_rows (scr t)) (inactive t)" "0 < cu_cols (scr t)" "0 < cu_rows (scr t)"
    using assms False screen_ok_ranges(3,4) by (auto simp: terminal_ok_def)
  obtain c where c: "fillViewportRows (Some (eraseAttr ?s)) ?b = ?b\<lparr>lines := c\<rparr>" "cl_inv c"
    "cl_list c = replicate (nat (cu_rows (scr t))) (Some (getBlankLine (cu_cols (scr t)) (eraseAttr ?s) False))"
    using fill_viewport [of ?b "Some (eraseAttr ?s)"] t by (auto simp: with_buffer_def take_eraseAttr_def alt_waits_def blank_row_def)
  have len: "cl_length c = cu_rows (scr t)" using cl_length_list [OF c(2)] c(3) t(4) by simp
  have lines: "lines_ok (cu_cols (scr t)) c" by (rule blank_lines_ok [OF t(3) c(2,3)])
  have "enter_alt t = showCursor (t\<lparr>scr := ?b\<lparr>lines := c, cu_x := cu_x ?s, cu_y := cu_y ?s\<rparr>, inactive := ?s, isAlt := True\<rparr>)"
    using c(1) False by (simp add: enter_alt_def Let_def activateAltBuffer_def in_screen_def)
  then show ?thesis
    using assms False len lines t
    by (simp add: showCursor_def terminal_ok_def screen_ok_def place_ok_def buffer_ok_def with_buffer_def take_eraseAttr_def alt_waits_def)
qed

lemma getCorrect_positive: "0 < rows \<Longrightarrow> 0 \<le> sb \<Longrightarrow> rows \<le> MAX_BUFFER_SIZE \<Longrightarrow> 0 < getCorrectBufferLength b sb rows \<and> rows \<le> getCorrectBufferLength b sb rows"
  by (auto simp: getCorrectBufferLength_def Let_def)

lemma normal_ok:
  assumes "terminal_ok t"
  shows "\<exists>t'. activateNormalBuffer t = returns t' \<and> terminal_ok t'"
proof (cases "isAlt t")
  case True
  have t: "screen_ok (scr t)" "0 < tabStopWidth (scr t)" "0 < cu_rows (scr t)" "0 \<le> scrollback t" "cu_rows (scr t) \<le> MAX_BUFFER_SIZE"
    using assms screen_ok_ranges(4) by (auto simp: terminal_ok_def)
  obtain ts where cl: "buffer_clear False (scrollback t) (scr t) = Some ((scr t)\<lparr>ydisp := 0, ybase := 0, cu_y := 0, cu_x := Some 0,
       lines := cl_new (getCorrectBufferLength False (scrollback t) (cu_rows (scr t))), scrollTop := 0, scrollBottom := cu_rows (scr t) - 1, tabs := ts\<rparr>)"
    using clear_ends [OF t(2)] by blast
  have "screen_ok ((with_buffer (inactive t) (scr t))\<lparr>cu_x := cu_x (scr t), cu_y := cu_y (scr t)\<rparr>)"
    using with_buffer_ok(1) [OF _ t(1) refl] assms True by (simp add: terminal_ok_def)
  moreover have "cl_inv (cl_new (getCorrectBufferLength False (scrollback t) (cu_rows (scr t))))"
    using cl_new_inv getCorrect_positive [OF t(3,4,5)] by blast
  ultimately show ?thesis
    using True t cl getCorrect_positive [OF t(3,4,5), of False]
    by (auto simp: activateNormalBuffer_def Let_def ends_def terminal_ok_def alt_waits_def cl_new_fields with_buffer_def screen_ok_def place_ok_def)
qed (use assms in \<open>simp add: activateNormalBuffer_def\<close>)

text \<open>What the program asked to be told of, and the width to go back to.\<close>

definition reporting :: "terminal \<Rightarrow> (bool \<times> bool \<times> bool \<times> bool) \<times> (bool \<times> bool \<times> bool \<times> bool) \<times> int option" where
  "reporting t = ((x10Mouse t, vt200Mouse t, normalMouse t, mouseEvents t), (sendFocus t, utfMouse t, sgrMouse t, urxvtMouse t), savedCols t)"

lemma setup_ok:
  assumes "0 < tabStopWidth (scr t)" and "0 \<le> scrollback t" and "cu_rows (scr t) \<le> MAX_BUFFER_SIZE" and "blankLine (scr t) = None \<or> screen_ok (scr t)"
  shows "\<exists>t'. terminal_setup t = returns t' \<and> terminal_ok t' \<and> \<not> isAlt t' \<and>
    viewport (scr t') = replicate (nat (cu_rows (scr t'))) (blank_row (scr t') DEFAULT_ATTR_DATA) \<and> history (scr t') = [] \<and>
    cu_x (scr t') = Some 0 \<and> cu_y (scr t') = 0 \<and> \<not> insertMode (scr t') \<and> wraparoundMode (scr t') \<and>
    curAttrData (scr t') = DEFAULT_ATTR_DATA \<and> charset (scr t') = (\<lambda>_. None) \<and> reporting t' = reporting t"
proof -
  define s where "s = (scr t)\<lparr>cu_cols := max (cu_cols (scr t)) MINIMUM_COLS, cu_rows := max (cu_rows (scr t)) MINIMUM_ROWS,
                insertMode := False, wraparoundMode := True, charset := (\<lambda>_. None),
                curAttrData := DEFAULT_ATTR_DATA, eraseAttr := DEFAULT_ATTR_DATA, userScrolling := False,
                savedX := None, savedY := None, savedCurAttrData := DEFAULT_ATTR_DATA\<rparr>"
  define size where "size = (\<lambda>b. getCorrectBufferLength b (scrollback t) (cu_rows s))"
  have dims: "0 < tabStopWidth s" "0 < cu_rows s" "0 < cu_cols s" "cu_rows s \<le> MAX_BUFFER_SIZE"
    using assms by (simp_all add: s_def MINIMUM_COLS_def MINIMUM_ROWS_def MAX_BUFFER_SIZE_def max_def)
  have blank: "\<forall>l. blankLine s = Some l \<longrightarrow> (\<exists>n a w. l = getBlankLine n a w)"
    using assms(4) by (auto simp: s_def screen_ok_def buffer_ok_def)
  have big: "0 < size b" "cu_rows s \<le> size b" for b using getCorrect_positive [OF dims(2) assms(2) dims(4)] by (simp_all add: size_def)
  define fresh where "fresh = (\<lambda>b ts. s\<lparr>ydisp := 0, ybase := 0, cu_y := 0, cu_x := Some 0, lines := cl_new (size b),
      scrollTop := 0, scrollBottom := cu_rows s - 1, tabs := ts\<rparr>)"
  have clear: "\<exists>ts. buffer_clear b (scrollback t) s = Some (fresh b ts)" for b
    using clear_ends [OF dims(1), of b "scrollback t"] by (simp add: size_def fresh_def)
  obtain t1 where n: "buffer_clear True (scrollback t) s = Some (fresh True t1)" using clear by blast
  obtain t2 where a: "buffer_clear False (scrollback t) s = Some (fresh False t2)" using clear by blast
  obtain c where c: "fillViewportRows None (fresh True t1) = (fresh True t1)\<lparr>lines := c\<rparr>" "cl_inv c"
    "cl_list c = replicate (nat (cu_rows s)) (Some (getBlankLine (cu_cols s) DEFAULT_ATTR_DATA False))"
    using fill_viewport [of "fresh True t1" None] cl_new_inv [OF big(1)] big(2) dims(2)
    by (auto simp: fresh_def cl_new_fields blank_row_def)
  have len: "cl_length c = cu_rows s" using cl_length_list [OF c(2)] c(3) dims(2) by simp
  let ?n = "(fresh True t1)\<lparr>lines := c\<rparr>"
  obtain t3 where t3: "setupTabStops None ?n = Some (?n\<lparr>tabs := t3\<rparr>)"
    using tab_stops_end [of ?n None] dims(1) by (auto simp: fresh_def)
  obtain t4 where t4: "setupTabStops None (with_buffer (fresh False t2) ?n) = Some ((with_buffer (fresh False t2) ?n)\<lparr>tabs := t4\<rparr>)"
    using tab_stops_end [of "with_buffer (fresh False t2) ?n" None] dims(1) by (auto simp: fresh_def with_buffer_def)
  define t' where "t' = t\<lparr>scr := ?n\<lparr>tabs := t3\<rparr>, inactive := (with_buffer (fresh False t2) ?n)\<lparr>tabs := t4\<rparr>, isAlt := False,
        glevel := 0, charsets := (\<lambda>_. None), cursorState := False, cursorHidden := False, applicationKeypad := False,
        applicationCursor := False, originMode := False, bracketedPasteMode := False\<rparr>"
  have "terminal_setup t = returns t'"
    unfolding terminal_setup_def Let_def new_buffer_def
    using n a c(1) t3 t4 by (simp add: s_def [symmetric] ends_def buffers_setupTabStops_def t'_def)
  moreover have "savedX s = None" "savedY s = None" "cl_inv (cl_new (size False) :: buffer_line circular_list)"
    using cl_new_inv [OF big(1)] by (simp_all add: s_def)
  then have "terminal_ok t'"
    using dims assms(2) blank len blank_lines_ok [OF dims(3) c(2,3)] big
    by (simp add: t'_def terminal_ok_def screen_ok_def place_ok_def buffer_ok_def fresh_def alt_waits_def with_buffer_def cl_new_fields)
  moreover have "viewport (scr t') = replicate (nat (cu_rows (scr t'))) (blank_row (scr t') DEFAULT_ATTR_DATA) \<and> history (scr t') = [] \<and>
    cu_x (scr t') = Some 0 \<and> cu_y (scr t') = 0 \<and> \<not> insertMode (scr t') \<and> wraparoundMode (scr t') \<and>
    curAttrData (scr t') = DEFAULT_ATTR_DATA \<and> charset (scr t') = (\<lambda>_. None) \<and> reporting t' = reporting t \<and> \<not> isAlt t'"
    using c(3) by (simp add: t'_def fresh_def s_def viewport_def history_def blank_row_def reporting_def)
  ultimately show ?thesis by blast
qed

lemma reset_spec:
  assumes "terminal_ok t"
  shows "\<exists>t'. input_reset t = returns t' \<and> terminal_ok t' \<and> \<not> isAlt t' \<and>
    viewport (scr t') = replicate (nat (cu_rows (scr t'))) (blank_row (scr t') DEFAULT_ATTR_DATA) \<and> history (scr t') = [] \<and>
    cu_x (scr t') = Some 0 \<and> cu_y (scr t') = 0 \<and> \<not> insertMode (scr t') \<and> wraparoundMode (scr t') \<and>
    curAttrData (scr t') = DEFAULT_ATTR_DATA \<and> charset (scr t') = (\<lambda>_. None) \<and> reporting t' = reporting t"
proof -
  obtain t' where t': "terminal_setup t = returns t'" "terminal_ok t'"
    and rest: "\<not> isAlt t' \<and> viewport (scr t') = replicate (nat (cu_rows (scr t'))) (blank_row (scr t') DEFAULT_ATTR_DATA) \<and> history (scr t') = [] \<and>
      cu_x (scr t') = Some 0 \<and> cu_y (scr t') = 0 \<and> \<not> insertMode (scr t') \<and> wraparoundMode (scr t') \<and>
      curAttrData (scr t') = DEFAULT_ATTR_DATA \<and> charset (scr t') = (\<lambda>_. None) \<and> reporting t' = reporting t"
    using setup_ok [of t] assms by (auto simp: terminal_ok_def)
  let ?t = "t'\<lparr>cursorState := cursorState t, scr := (scr t')\<lparr>userScrolling := userScrolling (scr t)\<rparr>\<rparr>"
  let ?r = "?t\<lparr>lessons := (lessons ?t)\<lparr>lt_currentLesson := None, lt_currentStep := 0\<rparr>\<rparr>"
  have "screen_ok (scr t')" using t'(2) by (simp add: terminal_ok_def)
  then have "terminal_ok (t'\<lparr>scr := (scr t')\<lparr>userScrolling := userScrolling (scr t)\<rparr>\<rparr>)"
    by (intro terminal_ok_scr [OF t'(2)]) (simp_all add: screen_ok_def place_ok_def buffer_ok_def)
  then have "terminal_ok ?r" by (auto simp: terminal_ok_def split: if_splits)
  moreover have "input_reset t = returns ?r" using t'(1) by (simp add: input_reset_def terminal_reset_def)
  ultimately show ?thesis using rest by (simp add: viewport_def history_def blank_row_def reporting_def)
qed

lemma reset_ok: "terminal_ok t \<Longrightarrow> \<exists>t'. input_reset t = returns t' \<and> terminal_ok t'"
  using reset_spec by blast

subsection \<open>The calls of the parser\<close>

text \<open>The handlers that act on the screen only, as inputs of the screen.\<close>

fun screen_csi :: "handler \<Rightarrow> nat list \<Rightarrow> string \<Rightarrow> input option" where
  "screen_csi H_insertChars ps cl = Some (InsertChars ps)"
| "screen_csi H_cursorUp ps cl = Some (Move (CursorUp ps))"
| "screen_csi H_cursorDown ps cl = Some (Move (CursorDown ps))"
| "screen_csi H_cursorForward ps cl = Some (Move (CursorForward ps))"
| "screen_csi H_cursorBackward ps cl = Some (Move (CursorBackward ps))"
| "screen_csi H_cursorNextLine ps cl = Some (Move (CursorNextLine ps))"
| "screen_csi H_cursorPrecedingLine ps cl = Some (Move (CursorPrecedingLine ps))"
| "screen_csi H_cursorCharAbsolute ps cl = Some (Move (CursorCharAbsolute ps))"
| "screen_csi H_cursorPosition ps cl = Some (Move (CursorPosition ps))"
| "screen_csi H_cursorForwardTab ps cl = Some (Move (CursorForwardTab ps))"
| "screen_csi H_eraseInDisplay ps cl = Some (EraseInDisplay ps)"
| "screen_csi H_eraseInLine ps cl = Some (EraseInLine ps)"
| "screen_csi H_insertLines ps cl = Some (InsertLines ps)"
| "screen_csi H_deleteLines ps cl = Some (DeleteLines ps)"
| "screen_csi H_deleteChars ps cl = Some (DeleteChars ps)"
| "screen_csi H_scrollUp ps cl = Some (ScrollUp ps)"
| "screen_csi H_scrollDown ps cl = Some (ScrollDown ps cl)"
| "screen_csi H_eraseChars ps cl = Some (EraseChars ps)"
| "screen_csi H_cursorBackwardTab ps cl = Some (Move (CursorBackwardTab ps))"
| "screen_csi H_charPosAbsolute ps cl = Some (Move (CharPosAbsolute ps))"
| "screen_csi H_hPositionRelative ps cl = Some (Move (HPositionRelative ps))"
| "screen_csi H_repeatPrecedingCharacter ps cl = Some (RepeatPrecedingCharacter ps)"
| "screen_csi H_linePosAbsolute ps cl = Some (Move (LinePosAbsolute ps))"
| "screen_csi H_vPositionRelative ps cl = Some (Move (VPositionRelative ps))"
| "screen_csi H_hVPosition ps cl = Some (Move (HVPosition ps))"
| "screen_csi H_tabClear ps cl = Some (Move (TabClear ps))"
| "screen_csi H_charAttributes ps cl = Some (Attributes ps)"
| "screen_csi H_deviceStatus ps cl = Some (Move (DeviceStatus ps cl))"
| "screen_csi H_setScrollRegion ps cl = Some (Move (SetScrollRegion ps cl))"
| "screen_csi H_saveCursor ps cl = Some (Move SaveCursor)"
| "screen_csi H_restoreCursor ps cl = Some (Move RestoreCursor)"
| "screen_csi _ ps cl = None"

fun screen_execute :: "handler \<Rightarrow> input option" where
  "screen_execute H_lineFeed = Some LineFeed"
| "screen_execute H_carriageReturn = Some (Move CarriageReturn)"
| "screen_execute H_backspace = Some (Move Backspace)"
| "screen_execute H_tab = Some (Move Tab)"
| "screen_execute H_index = Some Index"
| "screen_execute H_nextLine = Some NextLine"
| "screen_execute H_tabSet = Some (Move TabSet)"
| "screen_execute _ = None"

fun screen_esc :: "handler \<Rightarrow> input option" where
  "screen_esc H_saveCursor = Some (Move SaveCursor)"
| "screen_esc H_restoreCursor = Some (Move RestoreCursor)"
| "screen_esc H_index = Some Index"
| "screen_esc H_nextLine = Some NextLine"
| "screen_esc H_tabSet = Some (Move TabSet)"
| "screen_esc H_reverseIndex = Some ReverseIndex"
| "screen_esc _ = None"

lemma in_screen_step: "returns (in_screen f t) = on_screen (\<lambda>s. Done (f s)) t"
  by (simp add: in_screen_def on_screen_def)

lemma screen_csi_step: "screen_csi h ps cl = Some op \<Longrightarrow> perform_csi h ps cl t = on_screen (input_step op) t"
  by (cases h) (auto simp: in_screen_step on_screen_def)

lemma screen_execute_step: "screen_execute h = Some op \<Longrightarrow> perform_execute h t = on_screen (input_step op) t"
  by (cases h) (auto simp: in_screen_step on_screen_def)

lemma screen_esc_step: "screen_esc h = Some op \<Longrightarrow> perform_esc h t = on_screen (input_step op) t"
  by (cases h) (auto simp: in_screen_step on_screen_def)

text \<open>Switching to 132 columns and back resizes the buffers.\<close>

definition switches_columns :: "handler \<Rightarrow> nat list \<Rightarrow> string \<Rightarrow> bool" where
  "switches_columns h ps cl \<longleftrightarrow> (h = H_setMode \<or> h = H_resetMode) \<and> length ps \<le> 1 \<and> hd ps = 3 \<and> cl = ''?''"

definition safe_on :: "input option \<Rightarrow> screen \<Rightarrow> bool" where
  "safe_on op s \<longleftrightarrow> (case op of None \<Rightarrow> True | Some i \<Rightarrow> safe i s)"

fun safe_call :: "handler called \<Rightarrow> terminal \<Rightarrow> bool" where
  "safe_call (Csi h ps collect) t \<longleftrightarrow>
     safe_on (screen_csi h ps (letters collect)) (scr t) \<and> \<not> switches_columns h ps (letters collect)"
| "safe_call (Esc h collect code) t \<longleftrightarrow> safe_on (screen_esc h) (scr t)"
| "safe_call _ t \<longleftrightarrow> True"

text \<open>Handlers that only change fields outside of the buffers and the size, or the modes of the screen.\<close>

lemma terminal_ok_fields [simp]:
  "terminal_ok (t\<lparr>applicationCursor := b\<rparr>) = terminal_ok t" "terminal_ok (t\<lparr>applicationKeypad := b\<rparr>) = terminal_ok t"
  "terminal_ok (t\<lparr>originMode := b\<rparr>) = terminal_ok t" "terminal_ok (t\<lparr>bracketedPasteMode := b\<rparr>) = terminal_ok t"
  "terminal_ok (t\<lparr>cursorHidden := b\<rparr>) = terminal_ok t" "terminal_ok (t\<lparr>cursorState := b\<rparr>) = terminal_ok t"
  "terminal_ok (t\<lparr>x10Mouse := b\<rparr>) = terminal_ok t" "terminal_ok (t\<lparr>vt200Mouse := b\<rparr>) = terminal_ok t"
  "terminal_ok (t\<lparr>normalMouse := b\<rparr>) = terminal_ok t" "terminal_ok (t\<lparr>mouseEvents := b\<rparr>) = terminal_ok t"
  "terminal_ok (t\<lparr>sendFocus := b\<rparr>) = terminal_ok t" "terminal_ok (t\<lparr>utfMouse := b\<rparr>) = terminal_ok t"
  "terminal_ok (t\<lparr>sgrMouse := b\<rparr>) = terminal_ok t" "terminal_ok (t\<lparr>urxvtMouse := b\<rparr>) = terminal_ok t"
  "terminal_ok (t\<lparr>glevel := n\<rparr>) = terminal_ok t" "terminal_ok (t\<lparr>charsets := cs\<rparr>) = terminal_ok t"
  "terminal_ok (t\<lparr>cursorStyle := st\<rparr>) = terminal_ok t" "terminal_ok (t\<lparr>cursorBlink := b\<rparr>) = terminal_ok t"
  "terminal_ok (t\<lparr>titles := ts\<rparr>) = terminal_ok t" "terminal_ok (t\<lparr>bells := n\<rparr>) = terminal_ok t"
  "terminal_ok (t\<lparr>decrqss := d\<rparr>) = terminal_ok t"
  by (simp_all add: terminal_ok_def)

lemma mode_change_ok:
  assumes "terminal_ok t"
  shows "terminal_ok (in_screen (\<lambda>s. s\<lparr>insertMode := b\<rparr>) t)" "terminal_ok (in_screen (\<lambda>s. s\<lparr>wraparoundMode := b\<rparr>) t)"
    "terminal_ok (t\<lparr>scr := (scr t)\<lparr>charset := cs\<rparr>\<rparr>)" "terminal_ok (in_screen saveCursor t)" "terminal_ok (in_screen restoreCursor t)"
proof -
  have s: "screen_ok (scr t)" using assms by (simp add: terminal_ok_def)
  note change = terminal_ok_scr [OF assms]
  show "terminal_ok (in_screen (\<lambda>s. s\<lparr>insertMode := b\<rparr>) t)" "terminal_ok (in_screen (\<lambda>s. s\<lparr>wraparoundMode := b\<rparr>) t)"
    "terminal_ok (t\<lparr>scr := (scr t)\<lparr>charset := cs\<rparr>\<rparr>)"
    unfolding in_screen_def by (rule change; use s in \<open>simp add: screen_ok_def place_ok_def buffer_ok_def\<close>)+
  show "terminal_ok (in_screen saveCursor t)" "terminal_ok (in_screen restoreCursor t)"
    unfolding in_screen_def using s move_ok [OF s, of SaveCursor] move_ok [OF s, of RestoreCursor] move_size [of SaveCursor "scr t"]
      move_size [of RestoreCursor "scr t"]
    by (simp_all add: change)
qed

lemma level_ok: "terminal_ok t \<Longrightarrow> terminal_ok (setgLevel g t)"
  using mode_change_ok(3) [of "t\<lparr>glevel := g\<rparr>"] by (simp add: setgLevel_def)

lemma charset_ok: "terminal_ok t \<Longrightarrow> terminal_ok (setgCharset g c t)"
  using mode_change_ok(3) [of "t\<lparr>charsets := (charsets t)(g := c)\<rparr>"] by (simp add: setgCharset_def Let_def)

lemma handler_ok: "terminal_ok t \<Longrightarrow> terminal_ok (terminal_handler data t)"
proof -
  assume t: "terminal_ok t"
  let ?s = "if ybase (scr t) \<noteq> ydisp (scr t) then scrollToBottom (scr t) else scr t"
  have "screen_ok (scr t)" using t by (simp add: terminal_ok_def)
  then have "screen_ok ?s" "size_of ?s = size_of (scr t)"
    by (auto simp: scrollToBottom_def scrollLines_ok) (simp add: scrollLines_def Let_def)
  then have "terminal_ok (t\<lparr>scr := ?s\<lparr>reports := reports ?s @ [data]\<rparr>\<rparr>)"
    by (intro terminal_ok_scr [OF t]) (simp_all add: screen_ok_def place_ok_def buffer_ok_def)
  with t show ?thesis by (simp add: terminal_handler_def Let_def)
qed

lemma set_mode_ok:
  assumes "terminal_ok t" and "\<not> (p = 3 \<and> cl = ''?'')"
  shows "\<exists>t'. set_mode_one p cl t = returns t' \<and> terminal_ok t'"
  unfolding set_mode_one_def
  using assms by (simp add: mode_change_ok charset_ok enter_alt_ok)

lemma leave_alt_ok: "terminal_ok t \<Longrightarrow> \<exists>t'. leave_alt p t = returns t' \<and> terminal_ok t'"
  using normal_ok [of t] by (auto simp: leave_alt_def showCursor_def mode_change_ok)

lemma reset_mode_ok:
  assumes "terminal_ok t" and "\<not> (p = 3 \<and> cl = ''?'')"
  shows "\<exists>t'. reset_mode_one p cl t = returns t' \<and> terminal_ok t'"
  unfolding reset_mode_one_def
  using assms by (simp add: mode_change_ok leave_alt_ok)

text \<open>Without the mark of private sequences no mode switches the columns.\<close>

interpretation plain_set: guarded_run "\<lambda>p. set_mode_one p []" terminal_ok "\<lambda>_ _. True"
  by unfold_locales (simp add: set_mode_ok)

interpretation plain_reset: guarded_run "\<lambda>p. reset_mode_one p []" terminal_ok "\<lambda>_ _. True"
  by unfold_locales (simp add: reset_mode_ok)

lemma modes_ok:
  assumes "terminal_ok t" and "\<not> switches_columns h ps cl"
  shows "h = H_setMode \<Longrightarrow> \<exists>t'. setMode ps cl t = returns t' \<and> terminal_ok t'"
    and "h = H_resetMode \<Longrightarrow> \<exists>t'. resetMode ps cl t = returns t' \<and> terminal_ok t'"
  using assms plain_set.run_unguarded [of ps t] plain_reset.run_unguarded [of ps t] set_mode_ok [of t "hd ps" cl] reset_mode_ok [of t "hd ps" cl]
  by (auto simp: setMode_def resetMode_def switches_columns_def)

lemma soft_reset_ok: "terminal_ok t \<Longrightarrow> terminal_ok (softReset ps cl t)"
proof -
  assume t: "terminal_ok t"
  let ?s = "(scr t)\<lparr>insertMode := False, wraparoundMode := True, scrollTop := 0, scrollBottom := cu_rows (scr t) - 1,
      curAttrData := DEFAULT_ATTR_DATA, cu_x := Some 0, cu_y := 0, charset := (\<lambda>_. None)\<rparr>"
  let ?t = "t\<lparr>cursorHidden := False, originMode := False, applicationKeypad := False, applicationCursor := False,
      glevel := 0, charsets := (\<lambda>_. None)\<rparr>"
  have "terminal_ok ?t" using t by simp
  then have "terminal_ok (?t\<lparr>scr := ?s\<rparr>)"
    by (rule terminal_ok_scr) (use t in \<open>auto simp: terminal_ok_def screen_ok_def place_ok_def buffer_ok_def\<close>)
  with t show ?thesis by (simp add: softReset_def)
qed

lemma perform_csi_ok:
  assumes "terminal_ok t" and "safe_on (screen_csi h ps cl) (scr t)" and "\<not> switches_columns h ps cl"
  shows "\<exists>t'. perform_csi h ps cl t = returns t' \<and> terminal_ok t'"
proof (cases "screen_csi h ps cl")
  case (Some op)
  then show ?thesis using screen_csi_step [OF Some, of t] on_screen_ok [OF assms(1), of op] assms(2) by (simp add: safe_on_def)
next
  case None
  have "terminal_ok (sendDeviceAttributes ps cl t)" using assms(1) by (simp add: sendDeviceAttributes_def handler_ok)
  moreover have "terminal_ok (setCursorStyle ps cl t)" using assms(1) by (simp add: setCursorStyle_def Let_def)
  ultimately show ?thesis
    using None modes_ok [OF assms(1,3)] soft_reset_ok [OF assms(1), of ps cl] assms(1) by (cases h) simp_all
qed

lemma perform_execute_ok:
  assumes "terminal_ok t"
  shows "\<exists>t'. perform_execute h t = returns t' \<and> terminal_ok t'"
proof (cases "screen_execute h")
  case (Some op)
  then have "safe op (scr t)" by (cases h) auto
  then show ?thesis using screen_execute_step [OF Some, of t] on_screen_ok [OF assms, of op] by simp
next
  case None
  then show ?thesis using assms by (cases h) (simp_all add: bell_def shiftOut_def shiftIn_def level_ok)
qed

lemma perform_esc_ok:
  assumes "terminal_ok t" and "safe_on (screen_esc h) (scr t)"
  shows "\<exists>t'. perform_esc h t = returns t' \<and> terminal_ok t'"
proof (cases "screen_esc h")
  case (Some op)
  then show ?thesis using screen_esc_step [OF Some, of t] on_screen_ok [OF assms(1), of op] assms(2) by (simp add: safe_on_def)
next
  case None
  have "terminal_ok (selectDefaultCharset t)" using assms(1) by (simp add: selectDefaultCharset_def charset_ok level_ok)
  moreover then have "terminal_ok (selectCharset cf t)" for cf
    using assms(1) by (auto simp: selectCharset_def charset_ok split: option.split)
  ultimately show ?thesis
    using None assms(1) reset_ok [OF assms(1)] by (cases h) (simp_all add: keypadApplicationMode_def keypadNumericMode_def level_ok)
qed

lemma perform_ok:
  assumes "terminal_ok t" and "safe_call c t"
  shows "\<exists>t'. perform c t = returns t' \<and> terminal_ok t'"
proof (cases c)
  case (Print h data)
  then show ?thesis using on_screen_ok [OF assms(1), of "Screen_Safety.Print data"] assms(1) by (simp add: perform_def on_screen_def)
next
  case (Csi h ps collect)
  then show ?thesis using perform_csi_ok [OF assms(1), of h ps "letters collect"] assms(2) by (simp add: perform_def)
next
  case (Esc h collect code)
  then show ?thesis using perform_esc_ok [OF assms(1), of h] assms(2) by (simp add: perform_def)
next
  case (Execute h)
  then show ?thesis using perform_execute_ok [OF assms(1), of h] by (simp add: perform_def)
next
  case (Unhook h)
  then show ?thesis using assms(1) by (simp add: perform_def decrqss_unhook_def Let_def handler_ok)
qed (use assms(1) in \<open>simp_all add: perform_def setTitle_def\<close>)

interpretation parser_calls: guarded_run perform terminal_ok safe_call
  by unfold_locales (rule perform_ok)

text \<open>Text whose control sequences are safe, each on the terminal it finds.\<close>

definition safe_text :: "units \<Rightarrow> input_state \<Rightarrow> bool" where
  "safe_text data i \<longleftrightarrow>
     guarded perform safe_call (fst (snd (parse_all (stored (max (i_room i) (length data)) (snd (s32_decode (i_interim i) data))) (i_parser i))))
       (i_terminal i)"

definition input_wf :: "input_state \<Rightarrow> bool" where
  "input_wf i \<longleftrightarrow> terminal_ok (i_terminal i) \<and> parser_ok (i_parser i)"

lemma text_ok:
  assumes "input_wf i" and "safe_text data i"
  shows "\<exists>i'. input_parse data i = returns i' \<and> input_wf i'"
proof -
  have i: "terminal_ok (i_terminal i)" "parser_ok (i_parser i)" using assms(1) by (simp_all add: input_wf_def)
  obtain k all where d: "s32_decode (i_interim i) data = (k, all)" by fastforce
  define points where "points = stored (max (i_room i) (length data)) all"
  obtain p calls crash where p: "parse_all points (i_parser i) = (p, calls, crash)" by (cases "parse_all points (i_parser i)") auto
  have sound: "\<not> crash" "parser_ok p" using parse_sound [OF i(2), of "\<lambda>_ _ _. True" "\<lambda>_ _. True" points] p by simp_all
  obtain t' where "run_each perform calls (i_terminal i) = returns t'" "terminal_ok t'"
    using parser_calls.run_returns [OF i(1), of calls] assms(2) d p by (auto simp: safe_text_def points_def)
  then show ?thesis using d p sound by (simp add: input_parse_def run_input_def Let_def input_wf_def points_def)
qed

interpretation text_pieces: guarded_run input_parse input_wf safe_text
  by unfold_locales (rule text_ok)

end
