(* ===== verification/Terminal_Modes.thy ===== *)
theory Terminal_Modes
  imports Terminal_Safety
begin

text \<open>
  Control sequences given as text perform their handlers on the terminal; resetting, the alternate buffer and private
  modes; and the properties of the terminal as a whole.
\<close>

subsection \<open>The parser with its handlers\<close>

lemma registered_csi:
  "csiHandlers (fold (\<lambda>(c, h). setCsiHandler (of_char c) h) rs p) (of_char c) =
    (case map_of (rev rs) c of Some h \<Rightarrow> Some [h] | None \<Rightarrow> csiHandlers p (of_char c))"
  by (induction rs rule: rev_induct) (auto simp: setCsiHandler_def)

lemma registered_state:
  "currentState (fold (\<lambda>(c, h). setCsiHandler (of_char c) h) rs p) = currentState p"
  by (induction rs arbitrary: p) (auto simp: setCsiHandler_def)

lemma registered_execute:
  "csiHandlers (fold (\<lambda>(code, h). setExecuteHandler code h) es p) = csiHandlers p \<and>
   currentState (fold (\<lambda>(code, h). setExecuteHandler code h) es p) = currentState p"
  by (induction es arbitrary: p) (auto simp: setExecuteHandler_def)

lemma registered_esc:
  "csiHandlers (fold (\<lambda>(cf, h). setEscHandler (codes cf) h) xs p) = csiHandlers p \<and>
   currentState (fold (\<lambda>(cf, h). setEscHandler (codes cf) h) xs p) = currentState p"
  by (induction xs arbitrary: p) (auto simp: setEscHandler_def)

lemma input_parser_start: "currentState input_parser = 0" "errorHandler input_parser = (\<lambda>_. False)"
  by (simp_all add: input_parser_def Let_def setDcsHandler_def setErrorHandler_def registered_esc registered_execute
      registered_state setOscHandler_def setPrintHandler_def setOscHandlerFallback_def setExecuteHandlerFallback_def
      setEscHandlerFallback_def setCsiHandlerFallback_def new_parser_def)

lemma csi_finals: "list_all (\<lambda>(c, h). 0x40 \<le> (of_char c :: nat) \<and> of_char c < (0x7f :: nat)) csi_registrations"
  by (simp add: csi_registrations_def)

lemma csi_distinct: "distinct (map fst csi_registrations)"
  by (simp add: csi_registrations_def)

lemma input_parser_csi:
  assumes "(c, h) \<in> set csi_registrations"
  shows "csiHandlers input_parser (of_char c) = Some [h]"
proof -
  have "map_of (rev csi_registrations) c = Some h"
    using assms csi_distinct by (intro map_of_is_SomeI) (simp_all add: rev_map [symmetric])
  then show ?thesis
    by (simp add: input_parser_def Let_def setDcsHandler_def setErrorHandler_def registered_esc registered_execute
        registered_csi setOscHandler_def)
qed

lemma units_below:
  "\<forall>u\<in>set us. u < 0xD800 \<Longrightarrow> s32_decode 0 us = (0, us)"
proof -
  have "\<forall>u\<in>set us. u < 0xD800 \<Longrightarrow> foldl unit_step (0, out) us = (0, out @ us)" for out
    by (induction us arbitrary: out) (auto simp: is_high_def)
  from this [of "[]"] show "\<forall>u\<in>set us. u < 0xD800 \<Longrightarrow> s32_decode 0 us = (0, us)" by (simp add: s32_decode_units)
qed

lemma char_code: "(of_char c :: nat) < 256"
  by (cases c) (auto simp: of_char_def horner_sum_simps split: if_splits)

definition ready :: "input_state \<Rightarrow> bool" where
  "ready i = (currentState (i_parser i) = 0 \<and> errorHandler (i_parser i) = (\<lambda>_. False) \<and>
     csiHandlers (i_parser i) = csiHandlers input_parser \<and> i_interim i = 0)"

lemma run_visible_one:
  assumes "list_all prints_text calls" and "visible calls = [c]"
  shows "run_each perform calls t = perform c t"
  using perform_visible [OF assms(1)] assms(2) by simp

definition csi_text :: "nat list \<Rightarrow> nat list \<Rightarrow> char \<Rightarrow> units" where
  "csi_text mark ps c = [0x1b, 0x5b] @ mark @ csi_units ps @ [of_char c]"

lemma parse_keeps:
  "csiHandlers (fst (parse VT500_TRANSITION_TABLE csi_ok osc_ok data p)) = csiHandlers p \<and>
   errorHandler (fst (parse VT500_TRANSITION_TABLE csi_ok osc_ok data p)) = errorHandler p"
  by (simp add: parse_def Let_def split: round.split)

lemma control_performed:
  assumes "ready i" and "csi_mark mark" and "ps \<noteq> []" and "(c, h) \<in> set csi_registrations"
  shows "\<exists>p'. ready (i\<lparr>i_parser := p'\<rparr>) \<and> settled (input_parse (csi_text mark ps c) i) =
    run_then (perform_csi h ps (letters mark) (i_terminal i)) (\<lambda>t. returns (i\<lparr>i_parser := p', i_terminal := t, i_moves := 0, i_room := 0\<rparr>))"
proof -
  have r: "currentState (i_parser i) = 0" "\<And>e. \<not> errorHandler (i_parser i) e" "i_interim i = 0"
    "csiHandlers (i_parser i) (of_char c) = Some [h]"
    using assms(1) input_parser_csi [OF assms(4)] by (simp_all add: ready_def)
  have f: "0x40 \<le> (of_char c :: nat)" "of_char c < (0x7f :: nat)" using csi_finals assms(4) by (auto simp: list_all_iff)
  obtain p' calls where run: "parse_all (csi_text mark ps c) (i_parser i) = (p', calls, False)" "visible calls = [Csi h ps mark]" "currentState p' = 0"
    using csi_dispatch [where csi_ok = "\<lambda>_ _ _. True" and osc_ok = "\<lambda>_ _. True", OF r(1,2) assms(2,3) f r(4)]
    by (auto simp: csi_text_def)
  have "\<forall>u\<in>set (csi_text mark ps c). u < 0xD800 \<and> plain u"
    using csi_units_plain [of _ ps] f assms(2) char_code by (auto simp: csi_text_def csi_mark_def plain_def csi_units_def intro: less_trans [OF char_code])
  then have pl: "\<forall>u\<in>set (csi_text mark ps c). plain u" and dec: "s32_decode (i_interim i) (csi_text mark ps c) = (0, csi_text mark ps c)"
    using units_below r(3) by auto
  then have whole: "settled (input_parse (csi_text mark ps c) i) = settled (run_input (csi_text mark ps c) (i\<lparr>i_interim := 0\<rparr>))"
    using input_parse_fits [of i "csi_text mark ps c"] r(3) by (simp add: room_parse settled_room) (simp add: whole_parse_def)
  have "list_all prints_text calls"
    using parse_prints_text [OF _ pl r(2), of "\<lambda>_ _ _. True" "\<lambda>_ _. True"] run(1) r(1) by (simp add: parser_ok_def)
  then have "settled (run_input (csi_text mark ps c) i) = run_then (perform (Csi h ps mark) (i_terminal i))
      (\<lambda>t. returns (i\<lparr>i_parser := p', i_terminal := t, i_moves := 0, i_room := 0\<rparr>))"
    using run_input_visible [OF run(1)] run(2) by simp
  moreover have "i\<lparr>i_interim := 0\<rparr> = i" using r(3) by simp
  moreover have "ready (i\<lparr>i_parser := p'\<rparr>)"
    using parse_keeps [of "\<lambda>_ _ _. True" "\<lambda>_ _. True" "csi_text mark ps c" "i_parser i"] run(1,3) assms(1) by (simp add: ready_def)
  ultimately show ?thesis using whole by (auto simp: perform_def)
qed

subsection \<open>A small terminal\<close>

definition small_terminal :: terminal where
  "small_terminal =
     \<lparr>scr = new_screen 4 3 5, inactive = (new_screen 4 3 5)\<lparr>lines := cl_new 3\<rparr>, isAlt = False, glevel = 0, charsets = (\<lambda>_. None),
      applicationCursor = False, applicationKeypad = False, originMode = False, bracketedPasteMode = False, cursorHidden = False,
      cursorState = False, x10Mouse = False, vt200Mouse = False, normalMouse = False, mouseEvents = False, sendFocus = False,
      utfMouse = False, sgrMouse = False, urxvtMouse = False, savedCols = None, scrollback = 5, windowsMode = False,
      disableStdin = False, termName = ''xterm'', cursorStyle = ''block'', cursorBlink = False, titles = [], bells = 0, resizes = [],
      decrqss = [], lessons = \<lparr>lt_currentLesson = None, lt_currentStep = 0, lt_written = [], lt_onLessonStart = [], lt_onLessonStep = []\<rparr>\<rparr>"

definition small_input :: input_state where
  "small_input = \<lparr>i_terminal = small_terminal, i_parser = input_parser, i_interim = 0, i_interim8 = [], i_moves = 0, i_room = 4096\<rparr>"

lemma new_screen_more:
  "tabStopWidth (new_screen 4 3 5) = 8" "ydisp (new_screen 4 3 5) = 0" "savedX (new_screen 4 3 5) = None" "savedY (new_screen 4 3 5) = None"
proof -
  obtain ts where ts: "buffer_clear True 5 (blank_screen 4 3) = Some ((blank_screen 4 3)\<lparr>ydisp := 0, ybase := 0, cu_y := 0, cu_x := Some 0,
       lines := cl_new (getCorrectBufferLength True 5 (cu_rows (blank_screen 4 3))), scrollTop := 0, scrollBottom := cu_rows (blank_screen 4 3) - 1, tabs := ts\<rparr>)"
    (is "_ = Some ?s")
    using clear_ends [of "blank_screen 4 3" True 5] by (auto simp: blank_screen_def)
  have "\<exists>c. fillViewportRows None ?s = ?s\<lparr>lines := c\<rparr>"
    using fill_viewport [of ?s None] cl_new_inv [of 8] by (auto simp: cl_new_fields blank_screen_def getCorrectBufferLength_def MAX_BUFFER_SIZE_def)
  then obtain c where "new_screen 4 3 5 = ?s\<lparr>lines := c\<rparr>" using ts by (auto simp: new_screen_def)
  then show "tabStopWidth (new_screen 4 3 5) = 8" "ydisp (new_screen 4 3 5) = 0" "savedX (new_screen 4 3 5) = None" "savedY (new_screen 4 3 5) = None"
    by (simp_all add: blank_screen_def)
qed

lemma small_terminal_ok: "terminal_ok small_terminal"
  using small_screen new_screen_more cl_new_inv [of 3]
  by (simp add: small_terminal_def terminal_ok_def alt_waits_def cl_new_fields MAX_BUFFER_SIZE_def)

lemma small_input_ok: "input_ok small_input" "ready small_input" "parser_ok (i_parser small_input)"
  by (simp_all add: small_input_def input_ok_def ready_def input_parser_start parser_ok_def)

lemma hi_safe:
  assumes "i_parser i = input_parser" and "i_interim i = 0"
  shows "safe_text [72, 105, 10] i"
proof -
  have "snd (s32_decode (i_interim i) [72, 105, 10]) = [72, 105, 10]" by (simp add: assms units_below)
  moreover have "VT500_TRANSITION_TABLE 0 10 = 48" using ground_table [of 10] by (simp add: column_def plain_def)
  then have "\<exists>p x. parse_all [72, 105, 10] input_parser = (p, [EscapeSequenceParser.Print (printHandler input_parser) [72, 105], x], False) \<and>
      (\<forall>t. safe_call x t)"
    by (cases "executeHandlers input_parser 10")
      (auto simp: parse_def parse_start_def input_parser_start parse_loop.simps parse_round_def do_action_def Let_def scan_def
        ascii_printable_def start_at_def act_execute_def flush_print_def make_call_def slice_def parse_end_def)
  ultimately show ?thesis
    by (auto simp: safe_text_def assms split: option.split sum.split)
qed

subsection \<open>Modes\<close>

lemma private_mark: "letters [0x3f] = ''?''" "csi_mark [0x3f]"
proof -
  have "(0x3f :: nat) = of_char CHR ''?''" by simp
  then show "letters [0x3f] = ''?''" by (simp only: letters_def list.map char_of_char)
qed (simp add: csi_mark_def)

lemma mode_handlers: "(CHR ''h'', H_setMode) \<in> set csi_registrations" "(CHR ''l'', H_resetMode) \<in> set csi_registrations"
  by (simp_all add: csi_registrations_def)

lemma plain_modes:
  "run_each (\<lambda>p. set_mode_one p []) ps t = returns (if 4 \<in> set ps then in_screen (\<lambda>s. s\<lparr>insertMode := True\<rparr>) t else t)"
  "run_each (\<lambda>p. reset_mode_one p []) ps t = returns (if 4 \<in> set ps then in_screen (\<lambda>s. s\<lparr>insertMode := False\<rparr>) t else t)"
  by (induction ps arbitrary: t) (auto simp: set_mode_one_def reset_mode_one_def in_screen_def)

text \<open>While the alternate buffer is shown, inputs of the screen leave the normal one alone.\<close>

lemma screen_run_frame:
  "run_each (\<lambda>op. on_screen (input_step op)) ops t = returns t' \<Longrightarrow>
    \<exists>s. t' = t\<lparr>scr := s\<rparr> \<and> size_of s = size_of (scr t)"
proof (induction ops arbitrary: t)
  case Nil
  then show ?case by (intro exI [of _ "scr t"]) simp
next
  case (Cons op ops)
  show ?case
  proof (cases "input_step op (scr t)")
    case (Done s)
    then have "on_screen (input_step op) t = returns (t\<lparr>scr := s\<rparr>)" by (simp add: on_screen_def)
    with Cons.prems have "run_each (\<lambda>op. on_screen (input_step op)) ops (t\<lparr>scr := s\<rparr>) = returns t'" by simp
    from Cons.IH [OF this] step_size [OF Done] show ?thesis by auto
  qed (use Cons.prems in \<open>simp add: on_screen_def\<close>)
qed

lemma alternate_back:
  assumes "terminal_ok t" and "\<not> isAlt t" and "cu_x (scr t) = Some x"
    and run: "run_then (setMode [1049] ''?'' t) (run_each (\<lambda>op. on_screen (input_step op)) ops) = returns t2"
  shows "\<exists>t3. resetMode [1049] ''?'' t2 = returns t3 \<and> \<not> isAlt t3 \<and>
    viewport (scr t3) = viewport (scr t) \<and> history (scr t3) = history (scr t) \<and> cu_x (scr t3) = cu_x (scr t) \<and> cu_y (scr t3) = cu_y (scr t) \<and>
    curAttrData (scr t3) = curAttrData (scr t) \<and> scrollTop (scr t3) = scrollTop (scr t) \<and> scrollBottom (scr t3) = scrollBottom (scr t)"
proof -
  define t1 where "t1 = enter_alt (in_screen saveCursor t)"
  have inside: "terminal_ok t1" unfolding t1_def by (intro enter_alt_ok mode_change_ok assms)
  have t1: "setMode [1049] ''?'' t = returns t1" by (simp add: setMode_def set_mode_one_def t1_def)
  have kept: "isAlt t1" "inactive t1 = take_eraseAttr (saveCursor (scr t))"
    using assms(2) by (simp_all add: t1_def enter_alt_def activateAltBuffer_def in_screen_def showCursor_def Let_def)
  from run t1 have "run_each (\<lambda>op. on_screen (input_step op)) ops t1 = returns t2" by simp
  from screen_run_frame [OF this] obtain s where s: "t2 = t1\<lparr>scr := s\<rparr>" "size_of s = size_of (scr t1)" by blast
  have "0 < tabStopWidth s" using s(2) inside by (simp add: size_of_def terminal_ok_def)
  from clear_ends [OF this, of False "scrollback t1"] obtain c where c: "buffer_clear False (scrollback t1) s = Some c" by blast
  have x: "or_zero (cu_x (scr t)) = x" "or_zero (Some (cu_y (scr t))) = cu_y (scr t)" using assms(3) by (simp_all add: or_zero_def)
  show ?thesis
    using assms(3) c x kept s(1)
    by (simp add: resetMode_def reset_mode_one_def leave_alt_def activateNormalBuffer_def Let_def ends_def in_screen_def restoreCursor_def
        with_buffer_def take_eraseAttr_def saveCursor_def viewport_def history_def showCursor_def)
qed

subsection \<open>Properties\<close>

text \<open>
  C2. The terminal does not depend on how its input is cut, for text without DEL, CAN, SUB and eight-bit controls, in
  pieces that are each shorter than the parse buffer (4096 cells at first, never less), and when no half of a surrogate
  pair is left over from before or the whole text is shorter than the buffer too: giving the pieces to \<open>parse\<close> one after
  the other leaves the same screen, modes, replies, parser and decoder, or throws the same exception, as giving it the
  whole text; also when a cut separates a surrogate pair or falls within a control sequence. Only how often the cursor
  is reported to have moved and how long the parse buffer has become may differ.
\<close>

theorem terminal_chunks:
  assumes "input_ok i" and "\<forall>d\<in>set ds. \<forall>c\<in>set d. plain c" and "\<forall>d\<in>set ds. length d < i_room i"
    and "i_interim i = 0 \<or> length (concat ds) < i_room i"
  shows "settled (run_each input_parse ds i) = settled (input_parse (concat ds) i)"
  by (rule chunks_settled [OF assms])

theorem terminal_chunks_witness:
  "settled (run_each input_parse [[104, 0x1b], [0x5b, 0x3f], [50, 53, 108]] small_input) =
   settled (input_parse [104, 0x1b, 0x5b, 0x3f, 50, 53, 108] small_input)"
  using terminal_chunks [OF small_input_ok(1), of "[[104, 0x1b], [0x5b, 0x3f], [50, 53, 108]]"]
  by (simp add: plain_def small_input_def)

text \<open>
  C1. Text does not make the terminal throw: from a well-formed terminal and a sound parser, \<open>parse\<close> returns for every piece of
  text in turn and leaves a well-formed terminal, both buffers with all their rows and the cursor in one of them, for any text whose control sequences
  avoid an empty scroll region, a reverse index above the region in the top row, an erase up to the end of the last row
  and the switch of the column mode.
\<close>

theorem terminal_text_sound:
  assumes "terminal_ok (i_terminal i)" and "parser_ok (i_parser i)" and "guarded input_parse safe_text ds i"
  shows "\<exists>i'. run_each input_parse ds i = returns i' \<and> terminal_ok (i_terminal i') \<and> parser_ok (i_parser i')"
  using text_pieces.run_returns [of i ds] assms by (simp add: input_wf_def)

theorem terminal_text_sound_witness:
  "\<exists>i'. run_each input_parse [[72, 105, 10]] small_input = returns i' \<and> terminal_ok (i_terminal i')"
proof -
  have "safe_text [72, 105, 10] small_input" by (rule hi_safe) (simp_all add: small_input_def)
  then have "guarded input_parse safe_text [[72, 105, 10]] small_input" by (simp split: option.split sum.split)
  with terminal_text_sound [of small_input "[[72, 105, 10]]"] small_terminal_ok small_input_ok(3) show ?thesis by (auto simp: small_input_def)
qed

text \<open>
  C13. A control sequence in the text performs the method registered for its final byte, with its parameters and its mark,
  on the terminal, and the input handler is ready for the next one; an exception of the method comes through.
\<close>

theorem control_sequence_performed:
  assumes "ready i" and "csi_mark mark" and "ps \<noteq> []" and "(c, h) \<in> set csi_registrations"
  shows "\<exists>p'. ready (i\<lparr>i_parser := p'\<rparr>) \<and> settled (input_parse (csi_text mark ps c) i) =
    run_then (perform_csi h ps (letters mark) (i_terminal i)) (\<lambda>t. returns (i\<lparr>i_parser := p', i_terminal := t, i_moves := 0, i_room := 0\<rparr>))"
  by (rule control_performed [OF assms])

theorem control_sequence_performed_witness:
  "\<exists>p'. ready (small_input\<lparr>i_parser := p'\<rparr>) \<and> settled (input_parse (csi_text [0x3f] [25] CHR ''l'') small_input) =
    returns (small_input\<lparr>i_parser := p', i_terminal := small_terminal\<lparr>cursorHidden := True\<rparr>, i_moves := 0, i_room := 0\<rparr>)"
proof -
  have "resetMode [25] ''?'' small_terminal = returns (small_terminal\<lparr>cursorHidden := True\<rparr>)"
    by (simp add: resetMode_def reset_mode_one_def)
  then show ?thesis
    using control_sequence_performed [OF small_input_ok(2) private_mark(2), of "[25]", OF _ mode_handlers(2)]
    unfolding private_mark(1) by (simp add: small_input_def)
qed

text \<open>
  C27. The reply to \<open>CSI 6 n\<close> names the place that \<open>CSI row ; col H\<close> with its two numbers goes back to, whatever the
  terminal did in between as long as the parser is between sequences and the screen has the same size: the row of the cursor,
  and its column, or the last column when the cursor was right of it and the next character would wrap.
\<close>

theorem position_report_roundtrip:
  assumes "terminal_ok (i_terminal i)" and "ready i" and "cu_x (scr (i_terminal i)) = Some x"
    and "ready j" and "cu_cols (scr (i_terminal j)) = cu_cols (scr (i_terminal i))" and "cu_rows (scr (i_terminal j)) = cu_rows (scr (i_terminal i))"
  shows "\<exists>n col i' j'. settled (input_parse (csi_text [] [6] CHR ''n'') i) = returns i' \<and>
    reports (scr (i_terminal i')) = reports (scr (i_terminal i)) @ [[CHR 0x1B] @ ''['' @ nat_str n @ '';'' @ nat_str col @ ''R''] \<and>
    settled (input_parse (csi_text [] [n, col] CHR ''H'') j) = returns j' \<and>
    cu_x (scr (i_terminal j')) = Some (min x (cu_cols (scr (i_terminal i)) - 1)) \<and> cu_y (scr (i_terminal j')) = cu_y (scr (i_terminal i))"
proof -
  note r = screen_ok_ranges [of "scr (i_terminal i)"]
  have "screen_ok (scr (i_terminal i))" using assms(1) by (simp add: terminal_ok_def)
  with r assms(3) obtain n col where rep: "reports (deviceStatus [6] [] (scr (i_terminal i))) =
      reports (scr (i_terminal i)) @ [[CHR 0x1B] @ ''['' @ nat_str n @ '';'' @ nat_str col @ ''R'']"
    and ret: "cu_x (cursorPosition [n, col] (scr (i_terminal j))) = Some (min x (cu_cols (scr (i_terminal i)) - 1))"
      "cu_y (cursorPosition [n, col] (scr (i_terminal j))) = cu_y (scr (i_terminal i))"
    using report_goes_back [OF assms(3) _ _ _ assms(5,6)] by blast
  have reg: "(CHR ''n'', H_deviceStatus) \<in> set csi_registrations" "(CHR ''H'', H_cursorPosition) \<in> set csi_registrations"
    by (simp_all add: csi_registrations_def)
  have "csi_mark []" "letters [] = []" by (simp_all add: csi_mark_def letters_def)
  with control_performed [OF assms(2) _ _ reg(1), of "[]" "[6]"] control_performed [OF assms(4) _ _ reg(2), of "[]" "[n, col]"]
  obtain p q where runs: "settled (input_parse (csi_text [] [6] CHR ''n'') i) =
      returns (i\<lparr>i_parser := p, i_terminal := in_screen (deviceStatus [6] []) (i_terminal i), i_moves := 0, i_room := 0\<rparr>)"
    "settled (input_parse (csi_text [] [n, col] CHR ''H'') j) =
      returns (j\<lparr>i_parser := q, i_terminal := in_screen (cursorPosition [n, col]) (i_terminal j), i_moves := 0, i_room := 0\<rparr>)"
    by auto
  with rep ret runs show ?thesis by (intro exI conjI) (assumption | simp add: in_screen_def)+
qed

theorem position_report_roundtrip_witness:
  "\<exists>n col i' j'. settled (input_parse (csi_text [] [6] CHR ''n'') small_input) = returns i' \<and>
    settled (input_parse (csi_text [] [n, col] CHR ''H'') small_input) = returns j' \<and> cu_x (scr (i_terminal j')) = Some 0"
  using position_report_roundtrip [of small_input 0 small_input] small_terminal_ok small_input_ok(2) small_screen
  by (auto simp: small_input_def small_terminal_def)

text \<open>
  C37. Several private modes in one sequence are not set: \<open>setMode\<close> handles each parameter without the mark, so that
  such a sequence turns on insert mode when one of its parameters is 4, and does nothing otherwise.
\<close>

theorem private_modes_dropped:
  assumes "ready i" and "2 \<le> length ps"
  shows "\<exists>p'. settled (input_parse (csi_text [0x3f] ps CHR ''h'') i) = returns (i\<lparr>i_parser := p',
    i_terminal := (if 4 \<in> set ps then in_screen (\<lambda>s. s\<lparr>insertMode := True\<rparr>) (i_terminal i) else i_terminal i), i_moves := 0, i_room := 0\<rparr>)"
proof -
  have "setMode ps ''?'' (i_terminal i) = returns (if 4 \<in> set ps then in_screen (\<lambda>s. s\<lparr>insertMode := True\<rparr>) (i_terminal i) else i_terminal i)"
    using assms(2) by (simp add: setMode_def plain_modes del: run_each.simps)
  moreover have "ps \<noteq> []" using assms(2) by auto
  ultimately show ?thesis
    using control_performed [OF assms(1) private_mark(2) _ mode_handlers(1), of ps] unfolding private_mark(1) by auto
qed

theorem private_modes_dropped_witness:
  "\<exists>p'. settled (input_parse (csi_text [0x3f] [1, 25] CHR ''h'') small_input) = returns (small_input\<lparr>i_parser := p', i_room := 0\<rparr>)"
  using private_modes_dropped [OF small_input_ok(2), of "[1, 25]"] by (simp add: small_input_def)

text \<open>
  C14. The alternate buffer gives the normal one back: after the mode 1049 is set, any inputs on the screen run and the mode is
  reset, the rows, the scrollback, the cursor, its attributes and the scroll region of the normal buffer are as before.
\<close>

theorem alternate_buffer_roundtrip:
  assumes "terminal_ok t" and "\<not> isAlt t" and "cu_x (scr t) = Some x"
    and "run_then (setMode [1049] ''?'' t) (run_each (\<lambda>op. on_screen (input_step op)) ops) = returns t2"
  shows "\<exists>t3. resetMode [1049] ''?'' t2 = returns t3 \<and> \<not> isAlt t3 \<and>
    viewport (scr t3) = viewport (scr t) \<and> history (scr t3) = history (scr t) \<and> cu_x (scr t3) = cu_x (scr t) \<and> cu_y (scr t3) = cu_y (scr t) \<and>
    curAttrData (scr t3) = curAttrData (scr t) \<and> scrollTop (scr t3) = scrollTop (scr t) \<and> scrollBottom (scr t3) = scrollBottom (scr t)"
  by (rule alternate_back [OF assms])

theorem alternate_buffer_roundtrip_witness:
  "\<exists>t2 t3. run_then (setMode [1049] ''?'' small_terminal)
      (run_each (\<lambda>op. on_screen (input_step op)) [Screen_Safety.Print [72, 105], EraseInLine [2], ScrollUp [1]]) = returns t2 \<and>
    resetMode [1049] ''?'' t2 = returns t3 \<and> viewport (scr t3) = viewport (new_screen 4 3 5) \<and> cu_x (scr t3) = Some 0"
proof -
  let ?ops = "[Screen_Safety.Print [72, 105], EraseInLine [2], ScrollUp [1]]"
  obtain t1 where t1: "setMode [1049] ''?'' small_terminal = returns t1" "terminal_ok t1"
    using modes_ok(1) [OF small_terminal_ok, of H_setMode "[1049]" "''?''"] by (auto simp: switches_columns_def)
  have "guarded (\<lambda>op. on_screen (input_step op)) (\<lambda>op t. safe op (scr t)) ?ops t1" by (simp split: option.split sum.split)
  then obtain t2 where t2: "run_each (\<lambda>op. on_screen (input_step op)) ?ops t1 = returns t2"
    using screen_inputs.run_returns [OF t1(2)] by blast
  have "run_then (setMode [1049] ''?'' small_terminal) (run_each (\<lambda>op. on_screen (input_step op)) ?ops) = returns t2"
    using t1(1) t2 by simp
  moreover have "\<not> isAlt small_terminal" "cu_x (scr small_terminal) = Some 0" "scr small_terminal = new_screen 4 3 5"
    using small_screen by (simp_all add: small_terminal_def)
  ultimately show ?thesis using alternate_buffer_roundtrip [OF small_terminal_ok, of 0 ?ops t2] by auto
qed

text \<open>
  C15. Resetting the terminal (\<open>ESC c\<close>) returns, shows the normal buffer with blank rows, no history and the cursor at its
  start, with the default attributes, character set and modes of the screen; but mouse and focus reports that were turned
  on, their encodings and the width to go back to stay as they were.
\<close>

theorem reset_blanks_screen:
  assumes "terminal_ok t"
  shows "\<exists>t'. input_reset t = returns t' \<and> terminal_ok t' \<and> \<not> isAlt t' \<and>
    viewport (scr t') = replicate (nat (cu_rows (scr t'))) (blank_row (scr t') DEFAULT_ATTR_DATA) \<and> history (scr t') = [] \<and>
    cu_x (scr t') = Some 0 \<and> cu_y (scr t') = 0 \<and> \<not> insertMode (scr t') \<and> wraparoundMode (scr t') \<and>
    curAttrData (scr t') = DEFAULT_ATTR_DATA \<and> charset (scr t') = (\<lambda>_. None) \<and> reporting t' = reporting t"
  by (rule reset_spec [OF assms])

theorem reset_blanks_screen_witness:
  "\<exists>t'. input_reset (small_terminal\<lparr>mouseEvents := True\<rparr>) = returns t' \<and> history (scr t') = [] \<and> mouseEvents t'"
  using reset_blanks_screen [of "small_terminal\<lparr>mouseEvents := True\<rparr>"] small_terminal_ok by (auto simp: reporting_def)

end
