(* ===== verification/WriteBuffer.thy ===== *)
theory WriteBuffer
  imports Terminal_Modes
begin

text \<open>
  The buffered writes of the terminal (\<open>write\<close>, \<open>writeUtf8\<close> and their timers in \<open>xterm.js\<close>): a piece of text is pushed
  onto a buffer that a timer empties, a few milliseconds at a time, with flow control towards the sender. The clock
  is an argument: the number of pieces after which the time of a round is up. Events outside of the terminal may come
  between any two rounds.
\<close>

subsection \<open>The buffers and their timers\<close>

definition WRITE_BUFFER_PAUSE_THRESHOLD :: nat where "WRITE_BUFFER_PAUSE_THRESHOLD = 5"
definition WRITE_BUFFER_LENGTH_THRESHOLD :: nat where "WRITE_BUFFER_LENGTH_THRESHOLD = 50"

text \<open>A pending \<open>setTimeout\<close>, with the offset it is called with.\<close>

datatype timeout = WriteTimer nat | Utf8Timer nat

record write_state =
  wq_input :: input_state
  writeBuffer :: "units list"
  writeBufferUtf8 :: "nat list list"
  writeInProgress :: bool
  xoffSentToCatchUp :: bool
  isDisposed :: bool
  useFlowControl :: bool
  wq_timers :: "timeout list"
  wq_refreshes :: "(int \<times> int) list"

definition DC1 :: char where "DC1 = CHR 0x11"
definition DC3 :: char where "DC3 = CHR 0x13"

definition send_control :: "char \<Rightarrow> input_state \<Rightarrow> input_state" where
  "send_control c i = i\<lparr>i_terminal := terminal_handler [c] (i_terminal i)\<rparr>"

definition term_write :: "units \<Rightarrow> write_state \<Rightarrow> write_state" where
  "term_write data w =
     (if isDisposed w \<or> data = [] then w
      else
        (let w1 = w\<lparr>writeBuffer := writeBuffer w @ [data]\<rparr>;
             w2 = (if useFlowControl w1 \<and> \<not> xoffSentToCatchUp w1 \<and> length (writeBuffer w1) \<ge> WRITE_BUFFER_PAUSE_THRESHOLD
                   then w1\<lparr>wq_input := send_control DC3 (wq_input w1), xoffSentToCatchUp := True\<rparr> else w1)
         in if \<not> writeInProgress w2 \<and> length (writeBuffer w2) > 0
            then w2\<lparr>writeInProgress := True, wq_timers := wq_timers w2 @ [WriteTimer 0]\<rparr> else w2))"

definition writeln :: "units \<Rightarrow> write_state \<Rightarrow> write_state" where
  "writeln data w = term_write (data @ [13, 10]) w"

definition writeUtf8 :: "nat list \<Rightarrow> write_state \<Rightarrow> write_state" where
  "writeUtf8 data w =
     (if isDisposed w then w
      else
        (let w1 = w\<lparr>writeBufferUtf8 := writeBufferUtf8 w @ [data]\<rparr>;
             w2 = (if useFlowControl w1 \<and> \<not> xoffSentToCatchUp w1 \<and> length (writeBufferUtf8 w1) \<ge> WRITE_BUFFER_PAUSE_THRESHOLD
                   then w1\<lparr>wq_input := send_control DC3 (wq_input w1), xoffSentToCatchUp := True\<rparr> else w1)
         in if \<not> writeInProgress w2 \<and> length (writeBufferUtf8 w2) > 0
            then w2\<lparr>writeInProgress := True, wq_timers := wq_timers w2 @ [Utf8Timer 0]\<rparr> else w2))"

text \<open>One piece: the range to refresh starts at the row of the cursor and ends at its row afterwards.\<close>

definition on_range :: "(screen \<Rightarrow> screen) \<Rightarrow> input_state \<Rightarrow> input_state" where
  "on_range f i = i\<lparr>i_terminal := in_screen f (i_terminal i)\<rparr>"

definition show_piece :: "('d \<Rightarrow> input_state \<Rightarrow> input_state run) \<Rightarrow> 'd \<Rightarrow> input_state \<Rightarrow> input_state run" where
  "show_piece f data i =
     run_then (f data (on_range (\<lambda>s. s\<lparr>refreshStart := cu_y s, refreshEnd := cu_y s\<rparr>) i)) (\<lambda>i1.
       returns (on_range (\<lambda>s. updateRange (cu_y s) s) i1))"

definition refresh_event :: "input_state \<Rightarrow> int \<times> int" where
  "refresh_event i = (refreshStart (scr (i_terminal i)), refreshEnd (scr (i_terminal i)))"

definition catch_up :: "bool \<Rightarrow> write_state \<Rightarrow> write_state" where
  "catch_up b w =
     (if xoffSentToCatchUp w \<and> b then w\<lparr>wq_input := send_control DC1 (wq_input w), xoffSentToCatchUp := False\<rparr> else w)"

text \<open>The loops: \<open>k\<close> more pieces are written after the next one before the time is up.\<close>

fun write_loop :: "nat \<Rightarrow> nat \<Rightarrow> write_state \<Rightarrow> (nat \<times> write_state) run" where
  "write_loop k bufferOffset w =
     (if length (writeBuffer w) > bufferOffset then
        (let data = writeBuffer w ! bufferOffset; w1 = catch_up (length (writeBuffer w) = bufferOffset + 1) w
         in run_then (show_piece input_parse data (wq_input w1)) (\<lambda>i.
              let w2 = w1\<lparr>wq_input := i, wq_refreshes := wq_refreshes w1 @ [refresh_event i]\<rparr>
              in case k of 0 \<Rightarrow> returns (bufferOffset + 1, w2) | Suc k' \<Rightarrow> write_loop k' (bufferOffset + 1) w2))
      else returns (bufferOffset, w))"

fun write_loop8 :: "nat \<Rightarrow> nat \<Rightarrow> write_state \<Rightarrow> (nat \<times> write_state) run" where
  "write_loop8 k bufferOffset w =
     (if length (writeBufferUtf8 w) > bufferOffset then
        (let data = writeBufferUtf8 w ! bufferOffset; w1 = catch_up (length (writeBufferUtf8 w) = bufferOffset + 1) w
         in run_then (show_piece input_parseUtf8 data (wq_input w1)) (\<lambda>i.
              let w2 = w1\<lparr>wq_input := i, wq_refreshes := wq_refreshes w1 @ [refresh_event i]\<rparr>
              in case k of 0 \<Rightarrow> returns (bufferOffset + 1, w2) | Suc k' \<Rightarrow> write_loop8 k' (bufferOffset + 1) w2))
      else returns (bufferOffset, w))"

declare write_loop.simps [simp del] write_loop8.simps [simp del]

definition innerWrite :: "nat \<Rightarrow> nat \<Rightarrow> write_state \<Rightarrow> write_state run" where
  "innerWrite k bufferOffset w =
     run_then (write_loop k bufferOffset (if isDisposed w then w\<lparr>writeBuffer := []\<rparr> else w)) (\<lambda>(bufferOffset, w).
       returns
         (if length (writeBuffer w) > bufferOffset then
            (if bufferOffset > WRITE_BUFFER_LENGTH_THRESHOLD
             then w\<lparr>writeBuffer := drop bufferOffset (writeBuffer w), wq_timers := wq_timers w @ [WriteTimer 0]\<rparr>
             else w\<lparr>wq_timers := wq_timers w @ [WriteTimer bufferOffset]\<rparr>)
          else w\<lparr>writeInProgress := False, writeBuffer := []\<rparr>))"

definition innerWriteUtf8 :: "nat \<Rightarrow> nat \<Rightarrow> write_state \<Rightarrow> write_state run" where
  "innerWriteUtf8 k bufferOffset w =
     run_then (write_loop8 k bufferOffset (if isDisposed w then w\<lparr>writeBufferUtf8 := []\<rparr> else w)) (\<lambda>(bufferOffset, w).
       returns
         (if length (writeBufferUtf8 w) > bufferOffset then
            (if bufferOffset > WRITE_BUFFER_LENGTH_THRESHOLD
             then w\<lparr>writeBufferUtf8 := drop bufferOffset (writeBufferUtf8 w), wq_timers := wq_timers w @ [Utf8Timer 0]\<rparr>
             else w\<lparr>wq_timers := wq_timers w @ [Utf8Timer bufferOffset]\<rparr>)
          else w\<lparr>writeInProgress := False, writeBufferUtf8 := []\<rparr>))"

text \<open>What can happen next. An uncaught exception ends the round it is thrown in; how far the terminal had come is left open.\<close>

datatype write_event = Write units | WriteUtf8 "nat list" | Timer | Uncaught

inductive write_step :: "write_event \<Rightarrow> write_state \<Rightarrow> write_state \<Rightarrow> bool" where
  Written: "write_step (Write data) w (term_write data w)"
| WrittenUtf8: "write_step (WriteUtf8 bs) w (writeUtf8 bs w)"
| Fired: "wq_timers w = WriteTimer off # ts \<Longrightarrow> innerWrite k off (w\<lparr>wq_timers := ts\<rparr>) = returns w' \<Longrightarrow> write_step Timer w w'"
| FiredUtf8: "wq_timers w = Utf8Timer off # ts \<Longrightarrow> innerWriteUtf8 k off (w\<lparr>wq_timers := ts\<rparr>) = returns w' \<Longrightarrow> write_step Timer w w'"
| Thrown: "wq_timers w = WriteTimer off # ts \<Longrightarrow> innerWrite k off (w\<lparr>wq_timers := ts\<rparr>) = Some (Inl e) \<Longrightarrow>
    write_step Uncaught w (w\<lparr>wq_timers := ts, wq_input := i, xoffSentToCatchUp := x, wq_refreshes := r\<rparr>)"
| ThrownUtf8: "wq_timers w = Utf8Timer off # ts \<Longrightarrow> innerWriteUtf8 k off (w\<lparr>wq_timers := ts\<rparr>) = Some (Inl e) \<Longrightarrow>
    write_step Uncaught w (w\<lparr>wq_timers := ts, wq_input := i, xoffSentToCatchUp := x, wq_refreshes := r\<rparr>)"

inductive write_run :: "write_event list \<Rightarrow> write_state \<Rightarrow> write_state \<Rightarrow> bool" where
  Start: "write_run [] w w"
| Step: "write_run es w w1 \<Longrightarrow> write_step e w1 w2 \<Longrightarrow> write_run (es @ [e]) w w2"

inductive_cases write_step_cases: "write_step (Write data) w w'" "write_step (WriteUtf8 bs) w w'" "write_step Timer w w'" "write_step Uncaught w w'"

subsection \<open>Everything written is shown in order\<close>

text \<open>What the terminal is given: pieces of text, and the control characters it answers with.\<close>

datatype shown = Piece units | Control char

fun show_one :: "shown \<Rightarrow> input_state \<Rightarrow> input_state run" where
  "show_one (Piece data) i = show_piece input_parse data i"
| "show_one (Control c) i = returns (send_control c i)"

fun pieces :: "shown list \<Rightarrow> units list" where
  "pieces [] = []" | "pieces (Piece d # as) = d # pieces as" | "pieces (Control c # as) = pieces as"

fun controls :: "shown list \<Rightarrow> char list" where
  "controls [] = []" | "controls (Piece d # as) = controls as" | "controls (Control c # as) = c # controls as"

lemma shown_append [simp]: "pieces (as @ bs) = pieces as @ pieces bs" "controls (as @ bs) = controls as @ controls bs"
  by (induction as rule: pieces.induct) simp_all

fun written :: "write_event list \<Rightarrow> units list" where
  "written [] = []" | "written (Write d # es) = (if d = [] then written es else d # written es)" | "written (_ # es) = written es"

lemma written_events_append [simp]: "written (as @ bs) = written as @ written bs"
  by (induction as rule: written.induct) simp_all

definition pending_text :: "write_state \<Rightarrow> units list" where
  "pending_text w = (case wq_timers w of WriteTimer off # _ \<Rightarrow> drop off (writeBuffer w) | _ \<Rightarrow> writeBuffer w)"

definition write_idle :: "write_state \<Rightarrow> bool" where
  "write_idle w \<longleftrightarrow> writeBuffer w = [] \<and> writeBufferUtf8 w = [] \<and> \<not> writeInProgress w \<and> \<not> xoffSentToCatchUp w \<and> wq_timers w = [] \<and> \<not> isDisposed w"

definition write_inv :: "write_state \<Rightarrow> bool" where
  "write_inv w \<longleftrightarrow> write_idle w \<or> writeBufferUtf8 w = [] \<and> writeInProgress w \<and> \<not> isDisposed w \<and>
     (\<exists>off. wq_timers w = [WriteTimer off] \<and> off < length (writeBuffer w))"

text \<open>Stops and continues alternate; the last one is a stop exactly while it is in force.\<close>

definition paced :: "char list \<Rightarrow> bool \<Rightarrow> bool" where
  "paced cs stopped \<longleftrightarrow> (\<exists>n. cs = concat (replicate n [DC3, DC1]) @ (if stopped then [DC3] else []))"

lemma paced_stop: "paced cs False \<Longrightarrow> paced (cs @ [DC3]) True"
  by (auto simp: paced_def)

lemma paced_continue: "paced cs True \<Longrightarrow> paced (cs @ [DC1]) False"
proof -
  have pair: "concat (replicate n [DC3, DC1]) @ [DC3, DC1] = concat (replicate (Suc n) [DC3, DC1])" for n
    by (induction n) simp_all
  assume "paced cs True"
  then obtain n where "cs = concat (replicate n [DC3, DC1]) @ [DC3]" by (auto simp: paced_def)
  then show ?thesis unfolding paced_def using pair [of n] by (intro exI [of _ "Suc n"]) (simp del: replicate.simps)
qed

definition shows_all :: "input_state \<Rightarrow> units list \<Rightarrow> shown list \<Rightarrow> write_state \<Rightarrow> bool" where
  "shows_all i0 ds as w \<longleftrightarrow> run_each show_one as i0 = returns (wq_input w) \<and> pieces as = ds \<and> paced (controls as) (xoffSentToCatchUp w)"

lemma shows_next:
  assumes "shows_all i0 ds as w" and "show_one a (wq_input w) = returns i"
  shows "run_each show_one (as @ [a]) i0 = returns i"
  using assms by (simp add: shows_all_def run_each_append)

lemma shows_catch_up:
  assumes "shows_all i0 ds as w"
  shows "\<exists>as'. shows_all i0 ds as' (catch_up b w)"
proof (cases "xoffSentToCatchUp w \<and> b")
  case True
  then have "shows_all i0 ds (as @ [Control DC1]) (catch_up b w)"
    using assms shows_next [OF assms, of "Control DC1"] paced_continue by (simp add: shows_all_def catch_up_def)
  then show ?thesis by blast
qed (use assms in \<open>auto simp: catch_up_def\<close>)

lemma run_then_returns_iff: "run_then m f = returns v \<longleftrightarrow> (\<exists>x. m = returns x \<and> f x = returns v)"
  by (cases m; cases "the m") auto

text \<open>The state after the piece at an offset.\<close>

definition piece_at :: "nat \<Rightarrow> write_state \<Rightarrow> write_state run" where
  "piece_at off w =
     (let w1 = catch_up (length (writeBuffer w) = off + 1) w
      in run_then (show_piece input_parse (writeBuffer w ! off) (wq_input w1)) (\<lambda>i.
           returns (w1\<lparr>wq_input := i, wq_refreshes := wq_refreshes w1 @ [refresh_event i]\<rparr>)))"

lemma write_loop_step:
  "off < length (writeBuffer w) \<Longrightarrow> write_loop 0 off w = run_then (piece_at off w) (\<lambda>w2. returns (Suc off, w2))"
  "off < length (writeBuffer w) \<Longrightarrow> write_loop (Suc k) off w = run_then (piece_at off w) (write_loop k (Suc off))"
  "\<not> off < length (writeBuffer w) \<Longrightarrow> write_loop k off w = returns (off, w)"
  by (subst write_loop.simps; simp add: piece_at_def run_then_assoc Let_def)+

definition same_queue :: "write_state \<Rightarrow> write_state \<Rightarrow> bool" where
  "same_queue w w' \<longleftrightarrow> writeBuffer w' = writeBuffer w \<and> writeBufferUtf8 w' = writeBufferUtf8 w \<and> writeInProgress w' = writeInProgress w \<and>
     isDisposed w' = isDisposed w \<and> useFlowControl w' = useFlowControl w \<and> wq_timers w' = wq_timers w"

lemma loop_shows:
  assumes "shows_all i0 (P @ take off (writeBuffer w)) as w" and "off < length (writeBuffer w)"
    and "write_loop k off w = returns (off', w')"
  shows "\<exists>as'. shows_all i0 (P @ take off' (writeBuffer w)) as' w' \<and> off < off' \<and> off' \<le> length (writeBuffer w) \<and> same_queue w w' \<and>
    (off' = length (writeBuffer w) \<longrightarrow> \<not> xoffSentToCatchUp w')"
  using assms
proof (induction k arbitrary: off w as)
  have piece: "\<exists>as. shows_all i0 (P @ take (Suc off) (writeBuffer w)) as w2 \<and> same_queue w w2 \<and>
      (Suc off = length (writeBuffer w) \<longrightarrow> \<not> xoffSentToCatchUp w2)"
    if w: "shows_all i0 (P @ take off (writeBuffer w)) as w" "off < length (writeBuffer w)" and w2: "piece_at off w = returns w2"
    for off w as w2
  proof -
    let ?c = "catch_up (length (writeBuffer w) = off + 1) w" and ?d = "writeBuffer w ! off"
    obtain i where i: "show_piece input_parse ?d (wq_input ?c) = returns i"
      "w2 = ?c\<lparr>wq_input := i, wq_refreshes := wq_refreshes ?c @ [refresh_event i]\<rparr>"
      using w2 by (auto simp: piece_at_def Let_def run_then_returns_iff)
    obtain as' where as': "shows_all i0 (P @ take off (writeBuffer w)) as' ?c" using shows_catch_up [OF w(1)] by blast
    have "run_each show_one (as' @ [Piece ?d]) i0 = returns i" using shows_next [OF as', of "Piece ?d"] i(1) by simp
    then have "shows_all i0 (P @ take (Suc off) (writeBuffer w)) (as' @ [Piece ?d]) w2"
      using as' w(2) i(2) by (simp add: shows_all_def take_Suc_conv_app_nth)
    moreover have "same_queue w w2" "Suc off = length (writeBuffer w) \<longrightarrow> \<not> xoffSentToCatchUp w2"
      using i(2) by (auto simp: same_queue_def catch_up_def)
    ultimately show ?thesis by blast
  qed
  {
    case 0
    then obtain "piece_at off w = returns w'" "off' = Suc off" by (auto simp: write_loop_step(1) run_then_returns_iff)
    with piece [OF 0(1,2)] 0(2) show ?case by fastforce
  next
    case (Suc k)
    then obtain w2 where p: "piece_at off w = returns w2" and rest: "write_loop k (Suc off) w2 = returns (off', w')"
      by (auto simp: write_loop_step(2) run_then_returns_iff)
    obtain as2 where w2: "shows_all i0 (P @ take (Suc off) (writeBuffer w)) as2 w2" "same_queue w w2"
      "Suc off = length (writeBuffer w) \<longrightarrow> \<not> xoffSentToCatchUp w2"
      using piece [OF Suc.prems(1,2) p] by blast
    show ?case
    proof (cases "Suc off < length (writeBuffer w)")
      case True
      with Suc.IH [of "Suc off" w2 as2] w2 rest show ?thesis by (fastforce simp: same_queue_def)
    next
      case False
      with rest w2(2) Suc.prems(2) have "off' = Suc off" "w' = w2" by (auto simp: write_loop_step(3) same_queue_def)
      with w2 False Suc.prems(2) show ?thesis by fastforce
    qed
  }
qed

text \<open>The timer is at an offset of the buffer, and what was written before that offset has been shown.\<close>

definition write_so_far :: "input_state \<Rightarrow> units list \<Rightarrow> write_state \<Rightarrow> bool" where
  "write_so_far i0 ds w \<longleftrightarrow> (\<exists>P off as. shows_all i0 (P @ take off (writeBuffer w)) as w \<and> P @ writeBuffer w = ds \<and>
     writeBufferUtf8 w = [] \<and> \<not> isDisposed w \<and>
     (if writeInProgress w then wq_timers w = [WriteTimer off] \<and> off < length (writeBuffer w)
      else wq_timers w = [] \<and> writeBuffer w = [] \<and> \<not> xoffSentToCatchUp w))"

lemma write_pushes:
  assumes "write_so_far i0 ds w" and "d \<noteq> []"
  shows "write_so_far i0 (ds @ [d]) (term_write d w)"
proof -
  obtain P off as where w: "shows_all i0 (P @ take off (writeBuffer w)) as w" "P @ writeBuffer w = ds" "writeBufferUtf8 w = []" "\<not> isDisposed w"
    "if writeInProgress w then wq_timers w = [WriteTimer off] \<and> off < length (writeBuffer w)
      else wq_timers w = [] \<and> writeBuffer w = [] \<and> \<not> xoffSentToCatchUp w"
    using assms(1) by (auto simp: write_so_far_def)
  define off' where "off' = (if writeInProgress w then off else 0)"
  let ?w1 = "w\<lparr>writeBuffer := writeBuffer w @ [d]\<rparr>"
  let ?stop = "useFlowControl w \<and> \<not> xoffSentToCatchUp w \<and> length (writeBuffer w) + 1 \<ge> WRITE_BUFFER_PAUSE_THRESHOLD"
  let ?w2 = "if ?stop then ?w1\<lparr>wq_input := send_control DC3 (wq_input w), xoffSentToCatchUp := True\<rparr> else ?w1"
  have run: "term_write d w = (if writeInProgress w then ?w2 else ?w2\<lparr>writeInProgress := True, wq_timers := wq_timers w @ [WriteTimer 0]\<rparr>)"
    using w(4) assms(2) by (simp add: term_write_def Let_def)
  have front: "take off' (writeBuffer w @ [d]) = take off (writeBuffer w)" using w(5) by (auto simp: off'_def split: if_splits)
  have start: "shows_all i0 (P @ take off' (writeBuffer w @ [d])) as w" using w(1) front by simp
  have "\<exists>as'. shows_all i0 (P @ take off' (writeBuffer w @ [d])) as' ?w2"
  proof (cases ?stop)
    case True
    have "shows_all i0 (P @ take off' (writeBuffer w @ [d])) (as @ [Control DC3]) ?w2"
      using True shows_next [OF start, of "Control DC3"] start paced_stop by (simp add: shows_all_def)
    then show ?thesis by blast
  next
    case False
    then have "shows_all i0 (P @ take off' (writeBuffer w @ [d])) as ?w2" using start by (auto simp: shows_all_def)
    then show ?thesis by blast
  qed
  then obtain as' where as': "shows_all i0 (P @ take off' (writeBuffer w @ [d])) as' ?w2" by blast
  have "writeBuffer (term_write d w) = writeBuffer w @ [d]" "writeBufferUtf8 (term_write d w) = []" "\<not> isDisposed (term_write d w)"
    "writeInProgress (term_write d w)" "wq_timers (term_write d w) = [WriteTimer off']" "wq_input (term_write d w) = wq_input ?w2"
    "xoffSentToCatchUp (term_write d w) = xoffSentToCatchUp ?w2"
    using w by (auto simp: run off'_def split: if_splits)
  moreover have "off' < length (writeBuffer w @ [d])" using w(5) by (auto simp: off'_def split: if_splits)
  ultimately show ?thesis
    unfolding write_so_far_def using as' w(2) by (intro exI [of _ P] exI [of _ off'] exI [of _ as']) (simp add: shows_all_def)
qed

lemma timer_shows:
  assumes "write_so_far i0 ds w" and "wq_timers w = WriteTimer off # ts" and "innerWrite k off (w\<lparr>wq_timers := ts\<rparr>) = returns w'"
  shows "write_so_far i0 ds w' \<and> length (pending_text w') < length (pending_text w)"
proof -
  obtain P as where w: "shows_all i0 (P @ take off (writeBuffer w)) as w" "P @ writeBuffer w = ds" "writeBufferUtf8 w = []" "\<not> isDisposed w"
    "writeInProgress w" "ts = []" "off < length (writeBuffer w)"
    using assms(1,2) by (auto simp: write_so_far_def split: if_splits)
  let ?w = "w\<lparr>wq_timers := []\<rparr>"
  have start: "shows_all i0 (P @ take off (writeBuffer ?w)) as ?w" using w(1) by (simp add: shows_all_def)
  obtain off' w1 where loop: "write_loop k off ?w = returns (off', w1)"
    and w': "w' = (if length (writeBuffer w1) > off' then
            (if off' > WRITE_BUFFER_LENGTH_THRESHOLD
             then w1\<lparr>writeBuffer := drop off' (writeBuffer w1), wq_timers := wq_timers w1 @ [WriteTimer 0]\<rparr>
             else w1\<lparr>wq_timers := wq_timers w1 @ [WriteTimer off']\<rparr>)
          else w1\<lparr>writeInProgress := False, writeBuffer := []\<rparr>)"
    using assms(3) w(4,6) by (auto simp: innerWrite_def run_then_returns_iff)
  obtain as' where as': "shows_all i0 (P @ take off' (writeBuffer w)) as' w1" "off < off'" "off' \<le> length (writeBuffer w)"
    and same: "same_queue ?w w1" and caught: "off' = length (writeBuffer w) \<Longrightarrow> \<not> xoffSentToCatchUp w1"
    using loop_shows [OF start _ loop] w(7) by auto
  have w1: "writeBuffer w1 = writeBuffer w" "writeBufferUtf8 w1 = []" "\<not> isDisposed w1" "writeInProgress w1" "wq_timers w1 = []"
    using same w by (simp_all add: same_queue_def)
  have old: "length (pending_text w) = length (writeBuffer w) - off" using assms(2) by (simp add: pending_text_def)
  consider "off' < length (writeBuffer w)" "off' > WRITE_BUFFER_LENGTH_THRESHOLD" | "off' < length (writeBuffer w)" "\<not> off' > WRITE_BUFFER_LENGTH_THRESHOLD"
    | "off' = length (writeBuffer w)" using as'(3) by linarith
  then show ?thesis
  proof cases
    case 1
    then have "w' = w1\<lparr>writeBuffer := drop off' (writeBuffer w), wq_timers := [WriteTimer 0]\<rparr>" using w' w1 by simp
    with 1 as' w w1 old show ?thesis
      by (auto simp: write_so_far_def shows_all_def pending_text_def intro!: exI [of _ "P @ take off' (writeBuffer w)"] exI [of _ 0])
  next
    case 2
    then have "w' = w1\<lparr>wq_timers := [WriteTimer off']\<rparr>" using w' w1 by simp
    with 2 as' w w1 old show ?thesis
      by (auto simp: write_so_far_def shows_all_def pending_text_def intro!: exI [of _ P] exI [of _ off'])
  next
    case 3
    then have "w' = w1\<lparr>writeInProgress := False, writeBuffer := []\<rparr>" using w' w1 by simp
    with 3 as' w w1 old caught show ?thesis
      by (auto simp: write_so_far_def shows_all_def pending_text_def intro!: exI [of _ "P @ writeBuffer w"])
  qed
qed

lemma run_shows:
  assumes "write_run es w0 w" and "write_idle w0" and "\<forall>e\<in>set es. e = Timer \<or> (\<exists>d. e = Write d)"
  shows "write_so_far (wq_input w0) (written es) w"
  using assms
proof (induction rule: write_run.induct)
  case (Start w)
  have "shows_all (wq_input w) [] [] w" using Start by (simp add: shows_all_def paced_def write_idle_def)
  with Start show ?case
    by (auto simp: write_so_far_def write_idle_def intro!: exI [of _ "[]"])
next
  case (Step es w w1 e w2)
  then have IH: "write_so_far (wq_input w) (written es) w1" by simp
  consider "e = Timer" | d where "e = Write d" using Step.prems(2) by auto
  then show ?case
  proof cases
    case 1
    have "writeBufferUtf8 w1 = []" "\<And>off ts. wq_timers w1 \<noteq> Utf8Timer off # ts"
      using IH by (auto simp: write_so_far_def split: if_splits)
    moreover have "write_step Timer w1 w2" using Step.hyps(2) 1 by simp
    ultimately obtain off ts k where "wq_timers w1 = WriteTimer off # ts" "innerWrite k off (w1\<lparr>wq_timers := ts\<rparr>) = returns w2"
      by (elim write_step_cases(3)) blast+
    from timer_shows [OF IH this] 1 show ?thesis by simp
  next
    case 2
    then have w2: "w2 = term_write d w1" using Step.hyps(2) by (auto elim: write_step_cases)
    show ?thesis
    proof (cases "d = []")
      case True
      then show ?thesis using IH 2 w2 by (simp add: term_write_def)
    next
      case False
      with write_pushes [OF IH False] 2 w2 show ?thesis by simp
    qed
  qed
qed

subsection \<open>When writing stops\<close>

text \<open>A round that threw: the flag is set and no timer is left to clear it.\<close>

definition write_stuck :: "write_state \<Rightarrow> bool" where
  "write_stuck w \<longleftrightarrow> writeInProgress w \<and> wq_timers w = [] \<and> \<not> useFlowControl w"

lemma stuck_stays:
  assumes "write_stuck w" and "write_step e w w'"
  shows "write_stuck w' \<and> wq_input w' = wq_input w"
  using assms(2,1) by (cases rule: write_step.cases) (auto simp: write_stuck_def term_write_def writeUtf8_def Let_def)

lemma throw_sticks:
  assumes "write_so_far i0 ds w" and "\<not> useFlowControl w" and "write_step Uncaught w w'"
  shows "write_stuck w'"
proof -
  have "wq_timers w = t # ts \<Longrightarrow> ts = [] \<and> writeInProgress w" for t ts
    using assms(1) by (auto simp: write_so_far_def split: if_splits)
  with assms(3,2) show ?thesis by (auto simp: write_stuck_def elim!: write_step_cases)
qed

lemma stuck_run: "write_run es w w' \<Longrightarrow> write_stuck w \<Longrightarrow> write_stuck w' \<and> wq_input w' = wq_input w"
  by (induction rule: write_run.induct) (auto dest: stuck_stays)

lemma one_utf8_piece:
  assumes "writeBufferUtf8 w = [b]" and "\<not> isDisposed w" and "\<not> xoffSentToCatchUp w" and "innerWriteUtf8 k 0 w = returns w'"
  shows "writeBuffer w' = writeBuffer w \<and> wq_timers w' = wq_timers w \<and> \<not> writeInProgress w'"
proof -
  have last: "write_loop8 m (Suc 0) v = returns (Suc 0, v)" if "length (writeBufferUtf8 v) = Suc 0" for m v
    using that by (subst write_loop8.simps) simp
  have "\<exists>i r. write_loop8 k 0 w = returns (Suc 0, w\<lparr>wq_input := i, wq_refreshes := r\<rparr>)" if "write_loop8 k 0 w = returns v" for v
    using that assms(1,3) by (subst (asm) write_loop8.simps, subst write_loop8.simps)
      (auto simp: catch_up_def Let_def run_then_returns_iff last split: nat.splits)
  then show ?thesis using assms by (force simp: innerWriteUtf8_def run_then_returns_iff)
qed

subsection \<open>Small writers\<close>

definition small_writer :: "input_state \<Rightarrow> write_state" where
  "small_writer i =
     \<lparr>wq_input = i, writeBuffer = [], writeBufferUtf8 = [], writeInProgress = False, xoffSentToCatchUp = False, isDisposed = False,
      useFlowControl = False, wq_timers = [], wq_refreshes = []\<rparr>"

lemma small_writer_idle: "write_idle (small_writer i)" "\<not> useFlowControl (small_writer i)"
  by (simp_all add: write_idle_def small_writer_def)

lemma piece_returns:
  assumes "input_wf i" and "\<And>j. i_parser j = i_parser i \<Longrightarrow> i_interim j = i_interim i \<Longrightarrow> safe_text data j"
  shows "\<exists>i'. show_piece input_parse data i = returns i'"
proof -
  let ?f = "\<lambda>s. s\<lparr>refreshStart := cu_y s, refreshEnd := cu_y s\<rparr>"
  have "screen_ok (scr (i_terminal i))" "terminal_ok (i_terminal i)" using assms(1) by (auto simp: input_wf_def terminal_ok_def)
  then have "terminal_ok (in_screen ?f (i_terminal i))"
    unfolding in_screen_def by (intro terminal_ok_scr) (simp_all add: screen_ok_def place_ok_def buffer_ok_def size_of_def)
  then have "input_wf (on_range ?f i)" using assms(1) by (simp add: input_wf_def on_range_def)
  from text_ok [OF this assms(2)] show ?thesis by (auto simp: show_piece_def on_range_def)
qed

text \<open>A terminal whose cursor a reverse index moved above the screen: printing throws.\<close>

definition broken_input :: input_state where
  "broken_input = small_input\<lparr>i_terminal := small_terminal\<lparr>scr := (new_screen 2 2 0)\<lparr>cu_y := -1\<rparr>\<rparr>\<rparr>"

lemma broken_print: "threw (print [97] ((new_screen 2 2 0)\<lparr>cu_y := -1, refreshStart := -1, refreshEnd := -1\<rparr>))"
  by code_simp

lemma print_handler: "printHandler input_parser = Some H_print"
proof -
  have "printHandler (fold (\<lambda>(c, h). setCsiHandler (of_char c) h) rs p) = printHandler p" for rs and p :: "handler parser"
    by (induction rs arbitrary: p) (auto simp: setCsiHandler_def)
  moreover have "printHandler (fold (\<lambda>(code, h). setExecuteHandler code h) es p) = printHandler p" for es and p :: "handler parser"
    by (induction es arbitrary: p) (auto simp: setExecuteHandler_def)
  moreover have "printHandler (fold (\<lambda>(cf, h). setEscHandler (codes cf) h) xs p) = printHandler p" for xs and p :: "handler parser"
    by (induction xs arbitrary: p) (auto simp: setEscHandler_def)
  ultimately show ?thesis
    by (simp add: input_parser_def Let_def setDcsHandler_def setErrorHandler_def setOscHandler_def setPrintHandler_def)
qed

lemma broken_piece: "\<exists>e. show_piece input_parse [97] broken_input = Some (Inl e)"
proof -
  have "\<exists>p. parse_all [97] input_parser = (p, [EscapeSequenceParser.Print (Some H_print) [97]], False)"
    by (simp add: parse_def parse_start_def input_parser_start print_handler parse_loop.simps parse_round_def Let_def scan_def
        start_at_def flush_print_def make_call_def slice_def parse_end_def)
  moreover obtain e s where "print [97] ((new_screen 2 2 0)\<lparr>cu_y := -1, refreshStart := -1, refreshEnd := -1\<rparr>) = Throw e s"
    using broken_print by (cases "print [97] ((new_screen 2 2 0)\<lparr>cu_y := -1, refreshStart := -1, refreshEnd := -1\<rparr>)") simp_all
  ultimately show ?thesis
    by (auto simp: show_piece_def on_range_def in_screen_def broken_input_def small_input_def input_parse_def units_below run_input_def
        perform_def on_screen_def)
qed

subsection \<open>Properties\<close>

text \<open>
  C3. Text written to the terminal is shown in the order it was written and none is lost: whatever writes and timers came,
  the terminal has been given exactly the pieces written first, one by one, and the rest is in the buffer with a timer
  that will show more of it; stops and continues towards the sender alternate, the last one a stop exactly while it is
  in force, and with no timer left nothing waits and no stop is in force.
\<close>

theorem writes_in_order:
  assumes "write_run es w0 w" and "write_idle w0" and "\<forall>e\<in>set es. e = Timer \<or> (\<exists>d. e = Write d)"
  shows "(\<exists>as. run_each show_one as (wq_input w0) = returns (wq_input w) \<and> pieces as @ pending_text w = written es \<and>
      paced (controls as) (xoffSentToCatchUp w)) \<and>
    (wq_timers w = [] \<longrightarrow> pending_text w = [] \<and> \<not> xoffSentToCatchUp w) \<and>
    (\<forall>w'. write_step Timer w w' \<longrightarrow> length (pending_text w') < length (pending_text w))"
proof (intro conjI impI allI)
  note inv = run_shows [OF assms]
  then obtain P off as where w: "shows_all (wq_input w0) (P @ take off (writeBuffer w)) as w" "P @ writeBuffer w = written es"
    "if writeInProgress w then wq_timers w = [WriteTimer off] \<and> off < length (writeBuffer w)
      else wq_timers w = [] \<and> writeBuffer w = [] \<and> \<not> xoffSentToCatchUp w"
    by (auto simp: write_so_far_def)
  then have "pieces as @ pending_text w = written es" by (auto simp: shows_all_def pending_text_def split: if_splits)
  with w(1) show "\<exists>as. run_each show_one as (wq_input w0) = returns (wq_input w) \<and> pieces as @ pending_text w = written es \<and>
      paced (controls as) (xoffSentToCatchUp w)" by (auto simp: shows_all_def)
  show "pending_text w = []" "\<not> xoffSentToCatchUp w" if "wq_timers w = []" using w(3) that by (auto simp: pending_text_def split: if_splits)
  show "length (pending_text w') < length (pending_text w)" if "write_step Timer w w'" for w'
    using that timer_shows [OF inv] w(3) by (elim write_step_cases(3)) (blast, simp split: if_splits)
qed

theorem writes_in_order_witness:
  "\<exists>w as. write_run [Write [72, 105, 10], Write [72, 105, 10], Timer] (small_writer small_input) w \<and>
    run_each show_one as small_input = returns (wq_input w) \<and> pieces as @ pending_text w = [[72, 105, 10], [72, 105, 10]]"
proof -
  let ?w = "term_write [72, 105, 10] (term_write [72, 105, 10] (small_writer small_input))" and ?es = "[Write [72, 105, 10], Write [72, 105, 10], Timer]"
  have w: "wq_timers ?w = [WriteTimer 0]" "wq_input ?w = small_input" "writeBuffer ?w = [[72, 105, 10], [72, 105, 10]]" "\<not> isDisposed ?w" "\<not> xoffSentToCatchUp ?w"
    by (simp_all add: term_write_def small_writer_def Let_def)
  have "\<exists>i'. show_piece input_parse [72, 105, 10] small_input = returns i'"
    by (rule piece_returns) (simp_all add: input_wf_def small_input_def small_terminal_ok hi_safe input_parser_start parser_ok_def)
  then obtain w' where "innerWrite 0 0 (?w\<lparr>wq_timers := []\<rparr>) = returns w'"
    using w by (auto simp: innerWrite_def write_loop_step piece_at_def Let_def catch_up_def)
  then have "write_step Timer ?w w'" using write_step.Fired [of ?w 0 "[]" 0 w'] w(1) by simp
  then have run: "write_run ?es (small_writer small_input) w'"
    using write_run.Step [OF write_run.Step [OF write_run.Step [OF write_run.Start write_step.Written] write_step.Written]] by simp
  have "\<forall>e\<in>set ?es. e = Timer \<or> (\<exists>d. e = Write d)" by simp
  from writes_in_order [OF run small_writer_idle(1) this] run show ?thesis by (auto simp: small_writer_def)
qed

text \<open>
  C35. An exception in a round of writing stops the terminal for good: the flag that a round is in progress stays set and no
  timer is left, so that nothing that is written afterwards is ever given to the terminal.
\<close>

theorem exception_stops_writing:
  assumes "write_run es w0 w" and "write_idle w0" and "\<forall>e\<in>set es. e = Timer \<or> (\<exists>d. e = Write d)" and "\<not> useFlowControl w"
    and "write_step Uncaught w w1" and "write_run es' w1 w2"
  shows "wq_input w2 = wq_input w1 \<and> wq_timers w2 = []"
  using stuck_run [OF assms(6) throw_sticks [OF run_shows [OF assms(1-3)] assms(4,5)]] by (simp add: write_stuck_def)

theorem exception_stops_writing_witness:
  "\<exists>w1 w2. write_step Uncaught (term_write [97] (small_writer broken_input)) w1 \<and> write_run [Write [98], Write [99]] w1 w2 \<and>
    wq_input w2 = wq_input w1 \<and> wq_timers w2 = []"
proof -
  let ?w = "term_write [97] (small_writer broken_input)"
  have w: "wq_timers ?w = [WriteTimer 0]" "wq_input ?w = broken_input" "writeBuffer ?w = [[97]]" "\<not> isDisposed ?w" "\<not> xoffSentToCatchUp ?w" "\<not> useFlowControl ?w"
    by (simp_all add: term_write_def small_writer_def Let_def)
  have run: "write_run [Write [97]] (small_writer broken_input) ?w"
    using write_run.Step [OF write_run.Start write_step.Written] by simp
  obtain e where "innerWrite 0 0 (?w\<lparr>wq_timers := []\<rparr>) = Some (Inl e)"
    using broken_piece w by (auto simp: innerWrite_def write_loop_step piece_at_def Let_def catch_up_def)
  from write_step.Thrown [OF w(1) this] obtain w1 where thrown: "write_step Uncaught ?w w1" by blast
  have later: "write_run [Write [98], Write [99]] w1 (term_write [99] (term_write [98] w1))"
    using write_run.Step [OF write_run.Step [OF write_run.Start write_step.Written] write_step.Written] by simp
  have "\<forall>e\<in>set [Write [97]]. e = Timer \<or> (\<exists>d. e = Write d)" by simp
  from exception_stops_writing [OF run small_writer_idle(1) this w(6) thrown later] thrown later show ?thesis by blast
qed

text \<open>
  C36. A string written while bytes are being written is not shown: the timer of the bytes clears the flag they share when it
  is done and leaves the string in its buffer without a timer, until something else is written.
\<close>

theorem string_waits_behind_bytes:
  assumes "write_idle w0" and "\<not> useFlowControl w0" and "d \<noteq> []" and "write_step Timer (term_write d (writeUtf8 b w0)) w"
  shows "writeBuffer w = [d] \<and> wq_timers w = [] \<and> \<not> writeInProgress w"
proof -
  let ?w = "term_write d (writeUtf8 b w0)"
  have w: "wq_timers ?w = [Utf8Timer 0]" "writeBuffer ?w = [d]" "writeBufferUtf8 ?w = [b]" "\<not> isDisposed ?w" "\<not> xoffSentToCatchUp ?w"
    using assms(1-3) by (simp_all add: term_write_def writeUtf8_def write_idle_def Let_def)
  from assms(4) obtain k where "innerWriteUtf8 k 0 (?w\<lparr>wq_timers := []\<rparr>) = returns w"
    by (cases rule: write_step_cases(3)) (use w(1) in auto)
  from one_utf8_piece [OF _ _ _ this] w show ?thesis by simp
qed

theorem string_waits_behind_bytes_witness:
  "\<exists>w. write_step Timer (term_write [97] (writeUtf8 [] (small_writer small_input))) w \<and> writeBuffer w = [[97]] \<and> wq_timers w = []"
proof -
  let ?w = "term_write [97] (writeUtf8 [] (small_writer small_input))"
  have w: "wq_timers ?w = [Utf8Timer 0]" "wq_input ?w = small_input" "writeBufferUtf8 ?w = [[]]" "\<not> isDisposed ?w" "\<not> xoffSentToCatchUp ?w"
    by (simp_all add: term_write_def writeUtf8_def small_writer_def Let_def)
  have "\<exists>i. show_piece input_parseUtf8 [] small_input = returns i"
    by (simp add: show_piece_def input_parseUtf8_def u8_decode_def run_input_def parse_nothing Let_def)
  then have "\<exists>w'. innerWriteUtf8 0 0 (?w\<lparr>wq_timers := []\<rparr>) = returns w'"
    using w by (auto simp: innerWriteUtf8_def write_loop8.simps [of 0] Let_def catch_up_def)
  then obtain w' where "write_step Timer ?w w'" using write_step.FiredUtf8 [of ?w 0 "[]" 0] w(1) by auto
  then show ?thesis using string_waits_behind_bytes [OF small_writer_idle, of "[97]" "[]" small_input w'] by auto
qed

end
