(* ===== verification/Selection.thy ===== *)
theory Selection
  imports SelectionModel Terminal "HOL-Library.Sublist"
begin

text \<open>
  Selecting text (\<open>SelectionManager\<close> in \<open>xterm.js\<close>, with the functions of \<open>Buffer\<close> it reads lines by): clicks, dragging,
  words and lines, and the text of a selection. The position of the mouse in the buffer and how far it is outside of
  the terminal are computed from the page, and come with the event. Animation frames and listeners of the page
  are left out; what they are told of is counted.
\<close>

subsection \<open>Reading the buffer\<close>

definition translateBufferLineToString :: "int \<Rightarrow> bool \<Rightarrow> int \<Rightarrow> int option \<Rightarrow> screen \<Rightarrow> units option" where
  "translateBufferLineToString lineIndex trimRight startCol endCol s =
     (case cl_get (lines s) lineIndex of None \<Rightarrow> Some [] | Some l \<Rightarrow> translateToString l trimRight startCol endCol)"

text \<open>The first and the last line of a paragraph.\<close>

function range_first :: "screen \<Rightarrow> int \<Rightarrow> js_error + int" where
  "range_first s first =
     (if first > 0 then
        (case cl_get (lines s) first of None \<Rightarrow> Inl TypeError
         | Some l \<Rightarrow> if bl_isWrapped l then range_first s (first - 1) else Inr first)
      else Inr first)"
  by pat_completeness auto
termination by (relation "measure (\<lambda>(s, first). nat first)") auto

function range_last :: "screen \<Rightarrow> int \<Rightarrow> js_error + int" where
  "range_last s k =
     (if k + 1 < cl_length (lines s) then
        (case cl_get (lines s) (k + 1) of None \<Rightarrow> Inl TypeError
         | Some l \<Rightarrow> if bl_isWrapped l then range_last s (k + 1) else Inr k)
      else Inr k)"
  by pat_completeness auto
termination by (relation "measure (\<lambda>(s, k). nat (cl_length (lines s) - k))") auto

declare range_first.simps [simp del] range_last.simps [simp del]

definition getWrappedRangeForLine :: "int \<Rightarrow> screen \<Rightarrow> js_error + int \<times> int" where
  "getWrappedRangeForLine y s =
     (case range_first s y of Inl e \<Rightarrow> Inl e
      | Inr first \<Rightarrow> (case range_last s y of Inl e \<Rightarrow> Inl e | Inr k \<Rightarrow> Inr (first, k)))"

subsection \<open>The manager\<close>

record selection_manager =
  sl_screen :: screen
  sl_model :: selection_model
  sl_mode :: nat
  sl_enabled :: bool
  sl_drag :: int
  sl_listening :: bool
  sl_refreshes :: nat
  sl_changes :: nat
  sl_linux :: "units list"

text \<open>The platform the page runs on, and an option of the terminal.\<close>

record platform =
  isLinux :: bool
  isMac :: bool
  isMSWindows :: bool
  macOptionClickForcesSelection :: bool

text \<open>A mouse event: its position in the buffer and the distance it is dragged outside are read from the page.\<close>

record mouse_event =
  ev_coords :: "(int \<times> int) option"
  ev_scroll :: int
  ev_button :: int
  ev_detail :: int
  ev_shift :: bool
  ev_alt :: bool

definition new_manager :: "screen \<Rightarrow> selection_manager" where
  "new_manager s =
     \<lparr>sl_screen = s, sl_model = \<lparr>sm_start = None, sm_end = None, sm_all = False, sm_startLength = 0\<rparr>, sl_mode = 0, sl_enabled = True, sl_drag = 0, sl_listening = False,
      sl_refreshes = 0, sl_changes = 0, sl_linux = []\<rparr>"

definition dims :: "screen \<Rightarrow> term_dims" where
  "dims s = \<lparr>td_cols = cu_cols s, td_rows = cu_rows s, td_ybase = ybase s\<rparr>"

definition selectionStart :: "selection_manager \<Rightarrow> position option" where
  "selectionStart m = finalSelectionStart (sl_model m)"

definition selectionEnd :: "selection_manager \<Rightarrow> position option" where
  "selectionEnd m = finalSelectionEnd (dims (sl_screen m)) (sl_model m)"

definition hasSelection :: "selection_manager \<Rightarrow> bool" where
  "hasSelection m = (case (selectionStart m, selectionEnd m) of (Some a, Some b) \<Rightarrow> fst a \<noteq> fst b \<or> snd a \<noteq> snd b | _ \<Rightarrow> False)"

definition getSelectionPosition :: "selection_manager \<Rightarrow> (position \<times> position) option" where
  "getSelectionPosition m =
     (if \<not> hasSelection m then None
      else (case (selectionStart m, selectionEnd m) of (Some a, Some b) \<Rightarrow> Some (a, b) | _ \<Rightarrow> None))"

subsection \<open>The text of a selection\<close>

text \<open>A row of text that continues the row before, or starts one.\<close>

definition push_row :: "bool \<Rightarrow> units \<Rightarrow> units list \<Rightarrow> units list" where
  "push_row wrapped t rows = (if wrapped then butlast rows @ [last rows @ t] else rows @ [t])"

definition row_text :: "int \<Rightarrow> int option \<Rightarrow> screen \<Rightarrow> units list \<Rightarrow> units list run" where
  "row_text i endCol s rows =
     run_then (ends (translateBufferLineToString i True 0 endCol s)) (\<lambda>t.
       case cl_get (lines s) i of None \<Rightarrow> Some (Inl TypeError) | Some l \<Rightarrow> returns (push_row (bl_isWrapped l) t rows))"

definition column_text :: "int \<Rightarrow> int \<Rightarrow> screen \<Rightarrow> int \<Rightarrow> units list \<Rightarrow> units list run" where
  "column_text a b s i rows =
     run_then (ends (translateBufferLineToString i True a (Some b) s)) (\<lambda>t. returns (rows @ [t]))"

definition plain_spaces :: "units \<Rightarrow> units" where
  "plain_spaces = map (\<lambda>u. if u = 160 then 32 else u)"

fun join_units :: "units \<Rightarrow> units list \<Rightarrow> units" where
  "join_units sep [] = []"
| "join_units sep [t] = t"
| "join_units sep (t # ts) = t @ sep @ join_units sep ts"

definition selection_rows :: "selection_manager \<Rightarrow> position \<Rightarrow> position \<Rightarrow> units list run" where
  "selection_rows m start stop =
     (let s = sl_screen m
      in if sl_mode m = 3
         then run_each (column_text (fst start) (fst stop) s) [snd start..snd stop] []
         else
           run_then (ends (translateBufferLineToString (snd start) True (fst start)
               (if snd start = snd stop then Some (fst stop) else None) s)) (\<lambda>t.
           run_then (run_each (\<lambda>i. row_text i None s) [snd start + 1..snd stop - 1] [t]) (\<lambda>rows.
             if snd start \<noteq> snd stop then row_text (snd stop) (Some (fst stop)) s rows else returns rows)))"

definition selectionText :: "platform \<Rightarrow> selection_manager \<Rightarrow> units run" where
  "selectionText pf m =
     (case (selectionStart m, selectionEnd m) of
        (Some start, Some stop) \<Rightarrow>
          (if sl_mode m = 3 \<and> fst start = fst stop then returns []
           else run_then (selection_rows m start stop) (\<lambda>rows.
             returns (join_units (if isMSWindows pf then [13, 10] else [10]) (map plain_spaces rows))))
      | _ \<Rightarrow> returns [])"

text \<open>A refresh after a selection with the mouse also hands out the text on Linux.\<close>

definition manager_refresh :: "platform \<Rightarrow> bool \<Rightarrow> selection_manager \<Rightarrow> selection_manager run" where
  "manager_refresh pf mouse m =
     (let m1 = m\<lparr>sl_refreshes := sl_refreshes m + 1\<rparr>
      in if isLinux pf \<and> mouse
         then run_then (selectionText pf m1) (\<lambda>t. returns (if t \<noteq> [] then m1\<lparr>sl_linux := sl_linux m1 @ [t]\<rparr> else m1))
         else returns m1)"

definition removeMouseDownListeners :: "selection_manager \<Rightarrow> selection_manager" where
  "removeMouseDownListeners m = m\<lparr>sl_listening := False\<rparr>"

definition in_model :: "(selection_model \<Rightarrow> selection_model) \<Rightarrow> selection_manager \<Rightarrow> selection_manager" where
  "in_model f m = m\<lparr>sl_model := f (sl_model m)\<rparr>"

definition manager_clearSelection :: "platform \<Rightarrow> selection_manager \<Rightarrow> selection_manager run" where
  "manager_clearSelection pf m =
     run_then (manager_refresh pf False (removeMouseDownListeners (in_model clearSelection m))) (\<lambda>m1.
       returns (m1\<lparr>sl_changes := sl_changes m1 + 1\<rparr>))"

definition disable :: "platform \<Rightarrow> selection_manager \<Rightarrow> selection_manager run" where
  "disable pf m = run_then (manager_clearSelection pf m) (\<lambda>m1. returns (m1\<lparr>sl_enabled := False\<rparr>))"

definition enable :: "selection_manager \<Rightarrow> selection_manager" where
  "enable m = m\<lparr>sl_enabled := True\<rparr>"

definition setSelection :: "platform \<Rightarrow> int \<Rightarrow> int \<Rightarrow> int \<Rightarrow> selection_manager \<Rightarrow> selection_manager run" where
  "setSelection pf col y len m =
     manager_refresh pf False (in_model (\<lambda>d. d\<lparr>sm_start := Some (col, y), sm_startLength := len\<rparr>)
       (removeMouseDownListeners (in_model clearSelection m)))"

definition selectAll :: "platform \<Rightarrow> selection_manager \<Rightarrow> selection_manager run" where
  "selectAll pf m =
     run_then (manager_refresh pf False (in_model (\<lambda>d. d\<lparr>sm_all := True\<rparr>) m)) (\<lambda>m1.
       returns (m1\<lparr>sl_changes := sl_changes m1 + 1\<rparr>))"

definition selectLines :: "platform \<Rightarrow> int \<Rightarrow> int \<Rightarrow> selection_manager \<Rightarrow> selection_manager run" where
  "selectLines pf start stop m =
     (let s = sl_screen m; start = max start 0; stop = min stop (cl_length (lines s) - 1)
      in run_then (manager_refresh pf False
             (in_model (\<lambda>d. (clearSelection d)\<lparr>sm_start := Some (0, start), sm_end := Some (cu_cols s, stop)\<rparr>) m)) (\<lambda>m1.
           returns (m1\<lparr>sl_changes := sl_changes m1 + 1\<rparr>)))"

definition areCoordsInSelection :: "position \<Rightarrow> position \<Rightarrow> position \<Rightarrow> bool" where
  "areCoordsInSelection c start stop \<longleftrightarrow>
     (snd c > snd start \<and> snd c < snd stop) \<or>
     (snd start = snd stop \<and> snd c = snd start \<and> fst c \<ge> fst start \<and> fst c < fst stop) \<or>
     (snd start < snd stop \<and> snd c = snd stop \<and> fst c < fst stop) \<or>
     (snd start < snd stop \<and> snd c = snd start \<and> fst c \<ge> fst start)"

definition isClickInSelection :: "mouse_event \<Rightarrow> selection_manager \<Rightarrow> js_error + bool" where
  "isClickInSelection ev m =
     (case (selectionStart m, selectionEnd m) of
        (Some start, Some stop) \<Rightarrow>
          (case ev_coords ev of None \<Rightarrow> Inl TypeError | Some c \<Rightarrow> Inr (areCoordsInSelection c start stop))
      | _ \<Rightarrow> Inr False)"

definition manager_onTrim :: "platform \<Rightarrow> int \<Rightarrow> selection_manager \<Rightarrow> selection_manager run" where
  "manager_onTrim pf amount m =
     (let (d, needsRefresh) = onTrim amount (sl_model m); m1 = m\<lparr>sl_model := d\<rparr>
      in if needsRefresh then manager_refresh pf False m1 else returns m1)"

subsection \<open>Words\<close>

definition WORD_SEPARATORS :: units where
  "WORD_SEPARATORS = map of_char [CHR '' '', CHR ''('', CHR '')'', CHR ''['', CHR '']'', CHR ''{'', CHR ''}'', CHR 0x27, CHR 0x22]"

text \<open>\<open>indexOf\<close> of \<open>undefined\<close> looks for its name.\<close>

definition isCharWordSeparator :: "cell_data \<Rightarrow> bool" where
  "isCharWordSeparator c =
     (if cell_getWidth c = 0 then False
      else (case cell_getChars c of None \<Rightarrow> False | Some t \<Rightarrow> sublist t WORD_SEPARATORS))"

definition chars_length :: "units option \<Rightarrow> int run" where
  "chars_length t = (case t of None \<Rightarrow> Some (Inl TypeError) | Some u \<Rightarrow> returns (int (length u)))"

definition charAt :: "units \<Rightarrow> int \<Rightarrow> nat option" where
  "charAt t k = (if 0 \<le> k \<and> k < int (length t) then Some (t ! nat k) else None)"

definition convertViewportColToCharacterIndex :: "buffer_line \<Rightarrow> int \<Rightarrow> int run" where
  "convertViewportColToCharacterIndex l x =
     run_each (\<lambda>i charIndex. run_then (chars_length (cell_getChars (cell_at l i))) (\<lambda>n.
       returns (if cell_getWidth (cell_at l i) = 0 then charIndex - 1
                else if n > 1 \<and> x \<noteq> i then charIndex + n - 1 else charIndex))) [0..x] x"

function space_left :: "units \<Rightarrow> int \<Rightarrow> int" where
  "space_left line k = (if k > 0 \<and> charAt line (k - 1) = Some 32 then space_left line (k - 1) else k)"
  by pat_completeness auto
termination by (relation "measure (\<lambda>(line, k). nat k)") auto

function space_right :: "units \<Rightarrow> int \<Rightarrow> int" where
  "space_right line k = (if k < int (length line) \<and> charAt line (k + 1) = Some 32 then space_right line (k + 1) else k)"
  by pat_completeness auto
termination by (relation "measure (\<lambda>(line, k). nat (int (length line) - k))") auto

declare space_left.simps [simp del] space_right.simps [simp del]

text \<open>
  The two ends of a word: the column, the index in the text of the line, the wide characters passed and the
  units of long ones.
\<close>

record word_end =
  we_col :: int
  we_index :: int
  we_wide :: int
  we_long :: int

definition left_step :: "int \<Rightarrow> int \<Rightarrow> word_end \<Rightarrow> word_end" where
  "left_step width len w =
     (let w1 = (if width = 0 then w\<lparr>we_wide := we_wide w + 1, we_col := we_col w - 1\<rparr>
                else if len > 1 then w\<lparr>we_long := we_long w + (len - 1), we_index := we_index w - (len - 1)\<rparr> else w)
      in w1\<lparr>we_index := we_index w1 - 1, we_col := we_col w1 - 1\<rparr>)"

definition right_step :: "int \<Rightarrow> int \<Rightarrow> word_end \<Rightarrow> word_end" where
  "right_step width len w =
     (let w1 = (if width = 2 then w\<lparr>we_wide := we_wide w + 1, we_col := we_col w + 1\<rparr>
                else if len > 1 then w\<lparr>we_long := we_long w + (len - 1), we_index := we_index w + (len - 1)\<rparr> else w)
      in w1\<lparr>we_index := we_index w1 + 1, we_col := we_col w1 + 1\<rparr>)"

lemma step_columns: "we_col (left_step wd n w) < we_col w" "we_col w < we_col (right_step wd n w)"
  by (simp_all add: left_step_def right_step_def Let_def)

function word_left :: "buffer_line \<Rightarrow> word_end \<Rightarrow> word_end run" where
  "word_left l w =
     (if we_col w > 0 \<and> we_index w > 0 \<and> \<not> isCharWordSeparator (cell_at l (we_col w - 1)) then
        (let c = cell_at l (we_col w - 1)
         in case cell_getChars c of None \<Rightarrow> Some (Inl TypeError)
            | Some t \<Rightarrow> word_left l (left_step (cell_getWidth c) (int (length t)) w))
      else returns w)"
  by pat_completeness auto
termination by (relation "measure (\<lambda>(l, w). nat (we_col w))") (use step_columns(1) in \<open>auto simp: Let_def\<close>)

function word_right :: "buffer_line \<Rightarrow> units \<Rightarrow> word_end \<Rightarrow> word_end run" where
  "word_right l line w =
     (if we_col w < bl_length l \<and> we_index w + 1 < int (length line) \<and> \<not> isCharWordSeparator (cell_at l (we_col w + 1)) then
        (let c = cell_at l (we_col w + 1)
         in case cell_getChars c of None \<Rightarrow> Some (Inl TypeError)
            | Some t \<Rightarrow> word_right l line (right_step (cell_getWidth c) (int (length t)) w))
      else returns w)"
  by pat_completeness auto
termination by (relation "measure (\<lambda>(l, line, w). nat (bl_length l - we_col w))") (use step_columns(2) in \<open>auto simp: Let_def\<close>)

declare word_left.simps [simp del] word_right.simps [simp del]

definition word_span :: "buffer_line \<Rightarrow> units \<Rightarrow> int \<Rightarrow> int \<Rightarrow> (word_end \<times> word_end) run" where
  "word_span l line x k =
     (let at = \<lparr>we_col = x, we_index = k, we_wide = 0, we_long = 0\<rparr>
      in if charAt line k = Some 32
         then returns (at\<lparr>we_index := space_left line k\<rparr>, at\<lparr>we_index := space_right line k\<rparr>)
         else
           (let left = (if line_getWidth l x = 0 then at\<lparr>we_wide := 1, we_col := x - 1\<rparr> else at);
                right = (if line_getWidth l x = 2 then at\<lparr>we_wide := 1, we_col := x + 1\<rparr> else at)
            in run_then (chars_length (getString l (we_col right))) (\<lambda>n.
                 let right = (if n > 1 then right\<lparr>we_long := n - 1, we_index := we_index right + (n - 1)\<rparr> else right)
                 in run_then (word_left l left) (\<lambda>left. run_then (word_right l line right) (\<lambda>right. returns (left, right))))))"

definition js_slice :: "units \<Rightarrow> int \<Rightarrow> int \<Rightarrow> units" where
  "js_slice t a b =
     (let n = int (length t); lo = (if a < 0 then max (n + a) 0 else min a n); hi = (if b < 0 then max (n + b) 0 else min b n)
      in take (nat (hi - lo)) (drop (nat lo) t))"

definition code_not_space :: "buffer_line \<Rightarrow> int \<Rightarrow> bool run" where
  "code_not_space l i = (case getCodePoint l i of Inl e \<Rightarrow> Some (Inl e) | Inr c \<Rightarrow> returns (c \<noteq> Some 32))"

lemma run_then_bind: "run_then m f = Option.bind m (\<lambda>r. case r of Inl e \<Rightarrow> Some (Inl e) | Inr v \<Rightarrow> f v)"
  by (cases m; cases "the m") auto

lemma run_then_mono [partial_function_mono]:
  assumes "mono_option B" and "\<And>y. mono_option (\<lambda>f. C y f)"
  shows "mono_option (\<lambda>f. run_then (B f) (\<lambda>y. C y f))"
  unfolding run_then_bind
proof (intro bind_mono assms(1))
  show "mono_option (\<lambda>f. case r of Inl e \<Rightarrow> Some (Inl e) | Inr y \<Rightarrow> C y f)" for r :: "js_error + 'c"
    using assms(2) by (cases r) (simp_all add: monotone_def option.leq_refl)
qed

definition word_above :: "screen \<Rightarrow> buffer_line \<Rightarrow> int \<Rightarrow> int \<Rightarrow> bool run" where
  "word_above s l y start =
     (if start = 0 then run_then (code_not_space l 0) (\<lambda>b.
        if b then (case cl_get (lines s) (y - 1) of None \<Rightarrow> returns False
                   | Some p \<Rightarrow> if bl_isWrapped l then code_not_space p (cu_cols s - 1) else returns False)
        else returns False)
      else returns False)"

definition word_below :: "screen \<Rightarrow> buffer_line \<Rightarrow> int \<Rightarrow> int \<Rightarrow> bool run" where
  "word_below s l y stop =
     (if stop = cu_cols s then run_then (code_not_space l (cu_cols s - 1)) (\<lambda>b.
        if b then (case cl_get (lines s) (y + 1) of None \<Rightarrow> returns False
                   | Some n \<Rightarrow> if bl_isWrapped n then code_not_space n 0 else returns False)
        else returns False)
      else returns False)"

text \<open>The start column and the length of the word, \<open>null\<close> when there is none; words go on in wrapped lines.\<close>

partial_function (option) getWordAt :: "screen \<Rightarrow> position \<Rightarrow> bool \<Rightarrow> bool \<Rightarrow> bool \<Rightarrow> (int \<times> int) option run" where
  "getWordAt s coords allowWhitespaceOnlySelection followAbove followBelow =
     (if fst coords \<ge> cu_cols s then Some (Inr None)
      else
        (case cl_get (lines s) (snd coords) of None \<Rightarrow> Some (Inr None)
         | Some l \<Rightarrow>
           run_then (ends (translateBufferLineToString (snd coords) False 0 None s)) (\<lambda>line.
           run_then (convertViewportColToCharacterIndex l (fst coords)) (\<lambda>k.
           run_then (word_span l line (fst coords) k) (\<lambda>(left, right).
             let startIndex = we_index left; endIndex = we_index right + 1;
                 start = startIndex + (fst coords - k) - we_wide left + we_long left;
                 len = min (cu_cols s) (endIndex - startIndex + we_wide left + we_wide right - we_long left - we_long right)
             in if \<not> allowWhitespaceOnlySelection \<and> (\<forall>u\<in>set (js_slice line startIndex endIndex). unit_space u) then Some (Inr None)
                else
                  run_then (if followAbove then word_above s l (snd coords) start else Some (Inr False)) (\<lambda>a.
                  run_then
                    (if a then run_then (getWordAt s (cu_cols s - 1, snd coords - 1) False True False) (\<lambda>w.
                         Some (Inr (case w of None \<Rightarrow> (start, len) | Some (p, _) \<Rightarrow> (start - (cu_cols s - p), len + (cu_cols s - p)))))
                     else Some (Inr (start, len))) (\<lambda>(start, len).
                  run_then (if followBelow then word_below s l (snd coords) (start + len) else Some (Inr False)) (\<lambda>b.
                    if b then run_then (getWordAt s (0, snd coords + 1) False False True) (\<lambda>w.
                         Some (Inr (Some (start, case w of None \<Rightarrow> len | Some (_, n) \<Rightarrow> len + n))))
                    else Some (Inr (Some (start, len)))))))))))"

declare getWordAt.simps [code]

text \<open>Bringing a word that starts in a line before into it, and one that goes on below.\<close>

partial_function (option) start_rows :: "int \<Rightarrow> int \<Rightarrow> int \<Rightarrow> (int \<times> int) option" where
  "start_rows cols start y = (if start < 0 then start_rows cols (start + cols) (y - 1) else Some (start, y))"

partial_function (option) end_rows :: "int \<Rightarrow> int \<Rightarrow> int \<Rightarrow> int \<Rightarrow> (int \<times> int) option" where
  "end_rows cols start len y = (if start + len > cols then end_rows cols start (len - cols) (y + 1) else Some (len, y))"

declare start_rows.simps [code] end_rows.simps [code]

definition selectWordAt :: "position \<Rightarrow> bool \<Rightarrow> selection_manager \<Rightarrow> selection_manager run" where
  "selectWordAt coords allow m =
     (let s = sl_screen m
      in run_then (getWordAt s coords allow True True) (\<lambda>w.
           case w of None \<Rightarrow> returns m
           | Some (start, len) \<Rightarrow>
               run_then (ends (start_rows (cu_cols s) start (snd coords))) (\<lambda>(start, y).
                 returns (in_model (\<lambda>d. d\<lparr>sm_start := Some (start, y), sm_startLength := len\<rparr>) m))))"

definition selectToWordAt :: "position \<Rightarrow> selection_manager \<Rightarrow> selection_manager run" where
  "selectToWordAt coords m =
     (let s = sl_screen m; reversed = areSelectionValuesReversed (sl_model m)
      in run_then (getWordAt s coords True True True) (\<lambda>w.
           case w of None \<Rightarrow> returns m
           | Some (start, len) \<Rightarrow>
               run_then (ends (start_rows (cu_cols s) start (snd coords))) (\<lambda>(start, y).
               run_then (if \<not> reversed then ends (end_rows (cu_cols s) start len y) else returns (len, y)) (\<lambda>(len, y).
                 returns (in_model (\<lambda>d. d\<lparr>sm_end := Some (if reversed then start else start + len, y)\<rparr>) m)))))"

definition selectLineAt :: "int \<Rightarrow> selection_manager \<Rightarrow> selection_manager run" where
  "selectLineAt y m =
     (case getWrappedRangeForLine y (sl_screen m) of Inl e \<Rightarrow> Some (Inl e)
      | Inr (first, k) \<Rightarrow>
          returns (in_model (\<lambda>d. d\<lparr>sm_start := Some (0, first), sm_end := Some (cu_cols (sl_screen m), k), sm_startLength := 0\<rparr>) m))"

subsection \<open>The mouse\<close>

definition shouldForceSelection :: "platform \<Rightarrow> mouse_event \<Rightarrow> bool" where
  "shouldForceSelection pf ev = (if isMac pf then ev_alt ev \<and> macOptionClickForcesSelection pf else ev_shift ev)"

definition shouldColumnSelect :: "platform \<Rightarrow> mouse_event \<Rightarrow> bool" where
  "shouldColumnSelect pf ev \<longleftrightarrow> ev_alt ev \<and> \<not> (isMac pf \<and> macOptionClickForcesSelection pf)"

definition onIncrementalClick :: "mouse_event \<Rightarrow> selection_manager \<Rightarrow> selection_manager" where
  "onIncrementalClick ev m =
     (if sm_start (sl_model m) \<noteq> None then in_model (\<lambda>d. d\<lparr>sm_end := ev_coords ev\<rparr>) m else m)"

definition onSingleClick :: "platform \<Rightarrow> mouse_event \<Rightarrow> selection_manager \<Rightarrow> selection_manager" where
  "onSingleClick pf ev m =
     (let m1 = (in_model (\<lambda>d. d\<lparr>sm_startLength := 0, sm_all := False, sm_start := ev_coords ev\<rparr>) m)
                 \<lparr>sl_mode := (if shouldColumnSelect pf ev then 3 else 0)\<rparr>
      in case ev_coords ev of None \<Rightarrow> m1
         | Some (x, y) \<Rightarrow>
             (let m2 = in_model (\<lambda>d. d\<lparr>sm_end := None\<rparr>) m1
              in case cl_get (lines (sl_screen m)) y of None \<Rightarrow> m2
                 | Some l \<Rightarrow>
                     if bl_length l \<ge> x then m2
                     else if hasWidth l x = 0 then in_model (\<lambda>d. d\<lparr>sm_start := Some (x + 1, y)\<rparr>) m2 else m2))"

definition onDoubleClick :: "mouse_event \<Rightarrow> selection_manager \<Rightarrow> selection_manager run" where
  "onDoubleClick ev m =
     (case ev_coords ev of None \<Rightarrow> returns m | Some coords \<Rightarrow> selectWordAt coords True (m\<lparr>sl_mode := 1\<rparr>))"

definition onTripleClick :: "mouse_event \<Rightarrow> selection_manager \<Rightarrow> selection_manager run" where
  "onTripleClick ev m =
     (case ev_coords ev of None \<Rightarrow> returns m | Some coords \<Rightarrow> selectLineAt (snd coords) (m\<lparr>sl_mode := 2\<rparr>))"

definition onMouseDown :: "platform \<Rightarrow> mouse_event \<Rightarrow> selection_manager \<Rightarrow> selection_manager run" where
  "onMouseDown pf ev m =
     (if ev_button ev \<noteq> 0 \<or> (\<not> sl_enabled m \<and> \<not> shouldForceSelection pf ev) then returns m
      else
        (let m1 = m\<lparr>sl_drag := 0\<rparr>
         in run_then
              (if sl_enabled m1 \<and> ev_shift ev then returns (onIncrementalClick ev m1)
               else if ev_detail ev = 1 then returns (onSingleClick pf ev m1)
               else if ev_detail ev = 2 then onDoubleClick ev m1
               else if ev_detail ev = 3 then onTripleClick ev m1
               else returns m1)
              (\<lambda>m2. manager_refresh pf True (m2\<lparr>sl_listening := True\<rparr>))))"

definition selectWordAtCursor :: "platform \<Rightarrow> mouse_event \<Rightarrow> selection_manager \<Rightarrow> selection_manager run" where
  "selectWordAtCursor pf ev m =
     (case ev_coords ev of None \<Rightarrow> returns m
      | Some coords \<Rightarrow>
          run_then (selectWordAt coords False m) (\<lambda>m1. manager_refresh pf True (in_model (\<lambda>d. d\<lparr>sm_end := None\<rparr>) m1)))"

text \<open>The end of the selection follows the mouse. A method call on a missing line throws.\<close>

definition end_column :: "int \<Rightarrow> selection_manager \<Rightarrow> selection_manager" where
  "end_column x = in_model (\<lambda>d. d\<lparr>sm_end := map_option (\<lambda>p. (x, snd p)) (sm_end d)\<rparr>)"

definition snap_end :: "mouse_event \<Rightarrow> position \<Rightarrow> selection_manager \<Rightarrow> selection_manager run" where
  "snap_end ev stop m =
     (if sl_mode m = 2 then
        (case sm_start (sl_model m) of None \<Rightarrow> Some (Inl TypeError)
         | Some start \<Rightarrow> returns (end_column (if snd stop < snd start then 0 else cu_cols (sl_screen m)) m))
      else if sl_mode m = 1 then selectToWordAt stop m else returns m)"

definition onMouseMove :: "platform \<Rightarrow> mouse_event \<Rightarrow> selection_manager \<Rightarrow> selection_manager run" where
  "onMouseMove pf ev m =
     (let before = sm_end (sl_model m); m1 = in_model (\<lambda>d. d\<lparr>sm_end := ev_coords ev\<rparr>) m; s = sl_screen m
      in case ev_coords ev of None \<Rightarrow> manager_refresh pf True m1
         | Some stop \<Rightarrow>
             run_then (snap_end ev stop m1) (\<lambda>m2.
               let m3 = m2\<lparr>sl_drag := ev_scroll ev\<rparr>;
                   m4 = (if sl_mode m3 \<noteq> 3
                         then (if sl_drag m3 > 0 then end_column (cu_cols s) m3 else if sl_drag m3 < 0 then end_column 0 m3 else m3)
                         else m3)
               in case sm_end (sl_model m4) of None \<Rightarrow> Some (Inl TypeError)
                  | Some (x, y) \<Rightarrow>
                      run_then
                        (if y < cl_length (lines s)
                         then (case cl_get (lines s) y of None \<Rightarrow> Some (Inl TypeError)
                               | Some l \<Rightarrow> returns (if hasWidth l x = 0 then end_column (x + 1) m4 else m4))
                         else returns m4)
                        (\<lambda>m5. if before = None \<or> before \<noteq> sm_end (sl_model m5) then manager_refresh pf True m5 else returns m5)))"

definition dragScroll :: "platform \<Rightarrow> selection_manager \<Rightarrow> selection_manager run" where
  "dragScroll pf m =
     (if sl_drag m = 0 then returns m
      else
        (let m1 = m\<lparr>sl_screen := scrollLines (sl_drag m) False (sl_screen m)\<rparr>; s = sl_screen m1;
             x = (if sl_drag m > 0 then cu_cols s else 0);
             y = (if sl_drag m > 0 then min (ydisp s + cu_rows s) (cl_length (lines s) - 1) else ydisp s)
         in if sm_end (sl_model m1) = None then Some (Inl TypeError)
            else manager_refresh pf False
              (in_model (\<lambda>d. d\<lparr>sm_end := map_option (\<lambda>p. (if sl_mode m \<noteq> 3 then x else fst p, y)) (sm_end d)\<rparr>) m1)))"

text \<open>
  The end of a click: a short one without a selection moves the cursor (\<open>AltClickHandler\<close>, not modelled).
\<close>

definition onMouseUp :: "platform \<Rightarrow> bool \<Rightarrow> selection_manager \<Rightarrow> (selection_manager \<times> bool) run" where
  "onMouseUp pf quick m =
     (let m1 = removeMouseDownListeners m
      in run_then (selectionText pf m1) (\<lambda>t.
           if length t \<le> 1 \<and> quick then returns (m1, True)
           else returns (if hasSelection m1 then m1\<lparr>sl_changes := sl_changes m1 + 1\<rparr> else m1, False)))"

definition manager_onBufferActivate :: "platform \<Rightarrow> selection_manager \<Rightarrow> selection_manager run" where
  "manager_onBufferActivate pf m = manager_clearSelection pf m"

end
