(* ===== verification/Selection_Text.thy ===== *)
theory Selection_Text
  imports Selection Screen_Text
begin

text \<open>
  What a selection shows: a double click selects the word under the mouse, and the text of selected lines is the text of
  their paragraphs.
\<close>

subsection \<open>Lines of narrow characters\<close>

text \<open>Every cell is one column wide and holds one unit or nothing, which reads as a space.\<close>

definition simple_cell :: "u32 \<Rightarrow> nat \<Rightarrow> bool" where
  "simple_cell c u \<longleftrightarrow> width_of c = 1 \<and> \<not> combined_flag c \<and>
     (c AND CODEPOINT = 0 \<and> u = 32 \<or> c AND CODEPOINT \<noteq> 0 \<and> u = code_of c \<and> code_of c \<le> 0xFFFF)"

definition simple_line :: "buffer_line \<Rightarrow> units \<Rightarrow> bool" where
  "simple_line l t \<longleftrightarrow> bl_length l = int (length t) \<and> (\<forall>i < length t. simple_cell (rd (bl_data l) (int i * 3)) (t ! i))"

lemma simple_at: "simple_line l t \<Longrightarrow> 0 \<le> i \<Longrightarrow> i < int (length t) \<Longrightarrow> simple_cell (rd (bl_data l) (i * 3)) (t ! nat i)"
  unfolding simple_line_def by (metis nat_eq_iff nat_less_iff)

lemma simple_text:
  assumes "simple_line l t" and "0 \<le> i" and "i < int (length t)"
  shows "cell_text l i = [t ! nat i]" "advance l i = 1"
  using simple_at [OF assms] by (auto simp: cell_text_def advance_def simple_cell_def Let_def stringFromCodePoint_def code_of_def)

lemma simple_translate:
  assumes "simple_line l t" and "0 \<le> i" and "i \<le> e" and "e \<le> int (length t)"
  shows "translate_loop l i e acc = Some (acc @ take (nat (e - i)) (drop (nat i) t))"
  using assms(2-4)
proof (induction "nat (e - i)" arbitrary: i acc)
  case 0
  then show ?case by (simp add: translate_loop.simps)
next
  case (Suc n)
  have i: "i < int (length t)" "i < e" using Suc by simp_all
  have "take (nat (e - i)) (drop (nat i) t) = t ! nat i # take (nat (e - (i + 1))) (drop (nat (i + 1)) t)"
    using i Suc.prems by (subst Cons_nth_drop_Suc [symmetric]) (auto simp: nat_diff_distrib Suc_nat_eq_nat_zadd1 take_Cons' add.commute)
  moreover have "n = nat (e - (i + 1))" using Suc.hyps(2) by simp
  ultimately show ?case
    using Suc.hyps(1) [of "i + 1"] Suc.prems i simple_text [OF assms(1), of i] by (simp add: translate_loop.simps [of l i])
qed

lemma simple_cells:
  assumes "simple_line l t" and "0 \<le> i" and "i < int (length t)"
  shows "cell_getWidth (cell_at l i) = 1" "\<exists>u. cell_getChars (cell_at l i) = Some u \<and> length u \<le> 1"
    "isCharWordSeparator (cell_at l i) \<longleftrightarrow> t ! nat i \<in> set WORD_SEPARATORS"
    "line_getWidth l i = 1" "\<exists>u. getString l i = Some u \<and> length u \<le> 1" "\<exists>k. getCodePoint l i = Inr k"
proof -
  let ?c = "rd (bl_data l) (i * 3)"
  have c: "width_of ?c = 1" "\<not> combined_flag ?c" and u: "?c AND CODEPOINT = 0 \<and> t ! nat i = 32 \<or> ?c AND CODEPOINT \<noteq> 0 \<and> t ! nat i = code_of ?c \<and> code_of ?c \<le> 0xFFFF"
    using simple_at [OF assms] by (simp_all add: simple_cell_def)
  have chars: "cell_getChars (cell_at l i) = Some (if ?c AND CODEPOINT = 0 then [] else [t ! nat i])"
    using c u by (auto simp: cell_getChars_def cell_at_def loadCell_def Let_def stringFromCodePoint_def)
  have width: "cell_getWidth (cell_at l i) = 1" using c by (simp add: cell_getWidth_def cell_at_def loadCell_def Let_def)
  show "cell_getWidth (cell_at l i) = 1" by (rule width)
  show "\<exists>u. cell_getChars (cell_at l i) = Some u \<and> length u \<le> 1" using chars by simp
  have one: "sublist [v] xs \<longleftrightarrow> v \<in> set xs" for v :: nat and xs by (auto simp: sublist_def in_set_conv_decomp)
  show "isCharWordSeparator (cell_at l i) \<longleftrightarrow> t ! nat i \<in> set WORD_SEPARATORS"
    using chars width u one [of "t ! nat i" WORD_SEPARATORS] by (auto simp: isCharWordSeparator_def WORD_SEPARATORS_def)
  show "line_getWidth l i = 1" using c by (simp add: line_getWidth_def)
  show "\<exists>u. getString l i = Some u \<and> length u \<le> 1" using c u by (auto simp: getString_def Let_def stringFromCodePoint_def)
  show "\<exists>k. getCodePoint l i = Inr k" using c by (simp add: getCodePoint_def Let_def)
qed

subsection \<open>The word under the mouse\<close>

lemma simple_index:
  assumes "simple_line l t" and "0 \<le> x" and "x < int (length t)"
  shows "convertViewportColToCharacterIndex l x = returns x"
proof -
  have "run_each (\<lambda>i charIndex. run_then (chars_length (cell_getChars (cell_at l i))) (\<lambda>n.
       returns (if cell_getWidth (cell_at l i) = 0 then charIndex - 1
                else if n > 1 \<and> x \<noteq> i then charIndex + n - 1 else charIndex))) is k = returns k"
    if "set is \<subseteq> {0..x}" for "is" k
    using that
  proof (induction "is" arbitrary: k)
    case (Cons i "is")
    then obtain u where "cell_getChars (cell_at l i) = Some u" "length u \<le> 1" "cell_getWidth (cell_at l i) = 1"
      using simple_cells(1,2) [OF assms(1), of i] assms(3) by auto
    with Cons show ?case by (simp add: chars_length_def)
  qed simp
  from this [of "[0..x]"] show ?thesis by (simp add: convertViewportColToCharacterIndex_def)
qed

definition at_word :: "int \<Rightarrow> word_end" where
  "at_word k = \<lparr>we_col = k, we_index = k, we_wide = 0, we_long = 0\<rparr>"

lemma simple_left:
  assumes "simple_line l t" and "0 \<le> i" and "i \<le> int (length t)"
  shows "\<exists>a. word_left l (at_word i) = returns (at_word a) \<and> 0 \<le> a \<and> a \<le> i \<and>
    (\<forall>j. a \<le> j \<and> j < i \<longrightarrow> t ! nat j \<notin> set WORD_SEPARATORS) \<and> (a = 0 \<or> t ! nat (a - 1) \<in> set WORD_SEPARATORS)"
  using assms(2,3)
proof (induction "nat i" arbitrary: i)
  case 0
  then show ?case by (intro exI [of _ 0]) (auto simp: word_left.simps at_word_def)
next
  case (Suc n)
  have i: "0 \<le> i - 1" "i - 1 < int (length t)" "n = nat (i - 1)" using Suc by simp_all
  note cell = simple_cells [OF assms(1) i(1,2)]
  show ?case
  proof (cases "t ! nat (i - 1) \<in> set WORD_SEPARATORS")
    case True
    then have "word_left l (at_word i) = returns (at_word i)" using cell(3) by (subst word_left.simps) (simp add: at_word_def)
    with True Suc.prems show ?thesis by (intro exI [of _ i]) auto
  next
    case False
    obtain u where u: "cell_getChars (cell_at l (i - 1)) = Some u" "length u \<le> 1" using cell(2) by blast
    have "left_step 1 (int (length u)) (at_word i) = at_word (i - 1)" using u(2) by (simp add: left_step_def at_word_def)
    then have step: "word_left l (at_word i) = word_left l (at_word (i - 1))"
      using False cell(1,3) u i(1) by (subst word_left.simps) (simp add: at_word_def Let_def)
    obtain a where a: "word_left l (at_word (i - 1)) = returns (at_word a)" "0 \<le> a" "a \<le> i - 1"
      "\<forall>j. a \<le> j \<and> j < i - 1 \<longrightarrow> t ! nat j \<notin> set WORD_SEPARATORS" "a = 0 \<or> t ! nat (a - 1) \<in> set WORD_SEPARATORS"
      using Suc.hyps(1) [OF i(3,1)] i(2) by auto
    have "t ! nat j \<notin> set WORD_SEPARATORS" if "a \<le> j" "j < i" for j using a(4) False that by (cases "j = i - 1") auto
    with a step show ?thesis by (intro exI [of _ a]) auto
  qed
qed

lemma simple_right:
  assumes "simple_line l t" and "0 \<le> i" and "i < int (length t)"
  shows "\<exists>b. word_right l t (at_word i) = returns (at_word b) \<and> i \<le> b \<and> b < int (length t) \<and>
    (\<forall>j. i < j \<and> j \<le> b \<longrightarrow> t ! nat j \<notin> set WORD_SEPARATORS) \<and> (b + 1 = int (length t) \<or> t ! nat (b + 1) \<in> set WORD_SEPARATORS)"
  using assms(2,3)
proof (induction "nat (int (length t) - i)" arbitrary: i)
  case (Suc n)
  show ?case
  proof (cases "i + 1 < int (length t) \<and> t ! nat (i + 1) \<notin> set WORD_SEPARATORS")
    case False
    have "word_right l t (at_word i) = returns (at_word i)"
      using False simple_cells(3) [OF assms(1), of "i + 1"] Suc.prems by (subst word_right.simps) (auto simp: at_word_def)
    then show ?thesis using False Suc.prems by (intro exI [of _ i]) auto
  next
    case True
    then have i: "0 \<le> i + 1" "i + 1 < int (length t)" "n = nat (int (length t) - (i + 1))" using Suc by simp_all
    note cell = simple_cells [OF assms(1) i(1,2)]
    obtain u where u: "cell_getChars (cell_at l (i + 1)) = Some u" "length u \<le> 1" using cell(2) by blast
    have "right_step 1 (int (length u)) (at_word i) = at_word (i + 1)" using u(2) by (simp add: right_step_def at_word_def)
    then have step: "word_right l t (at_word i) = word_right l t (at_word (i + 1))"
      using True cell(1,3) u assms(1) by (subst word_right.simps) (simp add: at_word_def Let_def simple_line_def)
    obtain b where b: "word_right l t (at_word (i + 1)) = returns (at_word b)" "i + 1 \<le> b" "b < int (length t)"
      "\<forall>j. i + 1 < j \<and> j \<le> b \<longrightarrow> t ! nat j \<notin> set WORD_SEPARATORS" "b + 1 = int (length t) \<or> t ! nat (b + 1) \<in> set WORD_SEPARATORS"
      using Suc.hyps(1) [OF i(3,1,2)] by auto
    have "t ! nat j \<notin> set WORD_SEPARATORS" if "i < j" "j \<le> b" for j using b(4) True that by (cases "j = i + 1") auto
    with b step show ?thesis by (intro exI [of _ b]) auto
  qed
qed simp

lemma simple_word:
  assumes l: "cl_get (lines s) y = Some l" "simple_line l t" "int (length t) = cu_cols s" "\<not> bl_isWrapped l"
    and nx: "\<And>n. cl_get (lines s) (y + 1) = Some n \<Longrightarrow> \<not> bl_isWrapped n"
    and x: "0 \<le> x" "x < cu_cols s" "t ! nat x \<notin> set WORD_SEPARATORS"
  shows "\<exists>a b. getWordAt s (x, y) True True True = returns (Some (a, b + 1 - a)) \<and> 0 \<le> a \<and> a \<le> x \<and> x \<le> b \<and> b < cu_cols s \<and>
    (\<forall>j. a \<le> j \<and> j \<le> b \<longrightarrow> t ! nat j \<notin> set WORD_SEPARATORS) \<and>
    (a = 0 \<or> t ! nat (a - 1) \<in> set WORD_SEPARATORS) \<and> (b + 1 = cu_cols s \<or> t ! nat (b + 1) \<in> set WORD_SEPARATORS)"
proof -
  have len: "x < int (length t)" using x l(3) by simp
  obtain a where a: "word_left l (at_word x) = returns (at_word a)" "0 \<le> a" "a \<le> x"
    "\<forall>j. a \<le> j \<and> j < x \<longrightarrow> t ! nat j \<notin> set WORD_SEPARATORS" "a = 0 \<or> t ! nat (a - 1) \<in> set WORD_SEPARATORS"
    using simple_left [OF l(2) x(1)] len by auto
  obtain b where b: "word_right l t (at_word x) = returns (at_word b)" "x \<le> b" "b < int (length t)"
    "\<forall>j. x < j \<and> j \<le> b \<longrightarrow> t ! nat j \<notin> set WORD_SEPARATORS" "b + 1 = int (length t) \<or> t ! nat (b + 1) \<in> set WORD_SEPARATORS"
    using simple_right [OF l(2) x(1) len] by auto
  have line: "translateBufferLineToString y False 0 None s = Some t"
    using l(1,2) simple_translate [OF l(2), of 0 "int (length t)" "[]"] by (simp add: translateBufferLineToString_def translateToString_def simple_line_def)
  have "t ! nat x \<noteq> 32" using x(3) by (auto simp: WORD_SEPARATORS_def)
  then have ch: "charAt t x \<noteq> Some 32" using x(1) len by (simp add: charAt_def)
  obtain u where u: "getString l x = Some u" "length u \<le> 1" using simple_cells(5) [OF l(2) x(1) len] by blast
  have span: "word_span l t x x = returns (at_word a, at_word b)"
    using ch u simple_cells(4) [OF l(2) x(1) len] a(1) b(1)
    by (simp add: word_span_def Let_def chars_length_def at_word_def)
  have codes: "\<exists>k. code_not_space l i = returns k" if "0 \<le> i" "i < int (length t)" for i
    using simple_cells(6) [OF l(2) that] by (auto simp: code_not_space_def)
  obtain k k' where k: "code_not_space l 0 = returns k" "code_not_space l (cu_cols s - 1) = returns k'"
    using codes [of 0] codes [of "cu_cols s - 1"] len x(1) l(3) by auto
  have up: "word_above s l y st = returns False" for st
    using k(1) l(4) by (auto simp: word_above_def split: option.split)
  have down: "word_below s l y st = returns False" for st
    using k(2) nx by (auto simp: word_below_def split: option.split)
  have "min (cu_cols s) (b + 1 - a) = b + 1 - a" using a(2) b(3) l(3) by simp
  then have "getWordAt s (x, y) True True True = returns (Some (a, b + 1 - a))"
    using x l(1) line simple_index [OF l(2) x(1) len] span up down
    by (subst getWordAt.simps) (simp add: ends_def Let_def at_word_def)
  moreover have "t ! nat j \<notin> set WORD_SEPARATORS" if "a \<le> j" "j \<le> b" for j
    using a(4) b(4) x(3) that by (cases j x rule: linorder_cases) auto
  ultimately show ?thesis using a b l(3) by (intro exI [of _ a] exI [of _ b]) auto
qed

lemma trimmed_beyond:
  assumes "simple_line l t" and "b < n" and "n \<le> length t" and "t ! b \<noteq> 32"
  shows "int b + 1 \<le> trimmed_loop l n"
  using assms(2,3)
proof (induction n)
  case (Suc n)
  have cell: "simple_cell (rd (bl_data l) (int k * 3)) (t ! k)" if "k < length t" for k using assms(1) that by (simp add: simple_line_def)
  show ?case
  proof (cases "b = n")
    case True
    let ?c = "rd (bl_data l) (int n * 3)"
    have "?c AND CODEPOINT \<noteq> 0" "width_of ?c = 1" using cell [of n] Suc.prems assms(4) True by (auto simp: simple_cell_def)
    moreover have "?c AND HAS_CONTENT \<noteq> 0"
    proof
      assume "?c AND HAS_CONTENT = 0"
      then have "(?c AND HAS_CONTENT) AND CODEPOINT = 0" by simp
      then show False using \<open>?c AND CODEPOINT \<noteq> 0\<close> by (simp add: and.assoc)
    qed
    ultimately show ?thesis using True by simp
  next
    case False
    then show ?thesis using Suc cell [of n] by (simp add: simple_cell_def)
  qed
qed simp

subsection \<open>The text of a row\<close>

lemma translate_stops: "e \<le> i \<Longrightarrow> translate_loop l i e acc = Some acc"
  by (simp add: translate_loop.simps)

lemma row_selection:
  assumes "selectionStart m = Some (a, y)" and "selectionEnd m = Some (b, y)" and "sl_mode m \<noteq> 3 \<or> a = b"
    and l: "cl_get (lines (sl_screen m)) y = Some l" "simple_line l t" and ab: "0 \<le> a" "a \<le> b" "b \<le> int (length t)"
    and mark: "a = b \<or> t ! nat (b - 1) \<noteq> 32"
  shows "selectionText pf m = returns (plain_spaces (take (nat (b - a)) (drop (nat a) t)))"
proof -
  have "translateBufferLineToString y True a (Some b) (sl_screen m) = Some (take (nat (b - a)) (drop (nat a) t))"
  proof (cases "a = b")
    case True
    then show ?thesis using l(1) translate_stops by (simp add: translateBufferLineToString_def translateToString_def)
  next
    case False
    then have "b \<le> getTrimmedLength l"
      using trimmed_beyond [OF l(2), of "nat (b - 1)" "length t"] ab mark l(2) by (simp add: getTrimmedLength_def simple_line_def)
    then show ?thesis using l simple_translate [OF l(2) ab, of "[]"] by (simp add: translateBufferLineToString_def translateToString_def)
  qed
  with assms(1-3) show ?thesis by (auto simp: selectionText_def selection_rows_def plain_spaces_def ends_def)
qed

lemma selection_rows_cong:
  "sl_screen m = sl_screen m' \<Longrightarrow> sl_mode m = sl_mode m' \<Longrightarrow> selection_rows m = selection_rows m'"
  by (simp add: selection_rows_def fun_eq_iff Let_def)

lemma selectionText_cong:
  assumes "sl_screen m = sl_screen m'" and "sl_mode m = sl_mode m'" and "sl_model m = sl_model m'"
  shows "selectionText pf m = selectionText pf m'"
  unfolding selectionText_def selectionStart_def selectionEnd_def selection_rows_cong [OF assms(1,2)] assms ..

lemma selectionText_fields [simp]:
  "selectionText pf (m\<lparr>sl_refreshes := n\<rparr>) = selectionText pf m" "selectionText pf (m\<lparr>sl_linux := ts\<rparr>) = selectionText pf m"
  "selectionText pf (m\<lparr>sl_listening := b\<rparr>) = selectionText pf m" "selectionText pf (m\<lparr>sl_drag := k\<rparr>) = selectionText pf m"
  "selectionText pf (m\<lparr>sl_changes := n\<rparr>) = selectionText pf m"
  by (rule selectionText_cong; simp)+

lemma refreshed:
  assumes "selectionText pf m = returns t"
  shows "\<exists>n ts. manager_refresh pf b m = returns (m\<lparr>sl_refreshes := n, sl_linux := ts\<rparr>)"
proof -
  have "m\<lparr>sl_refreshes := n\<rparr> = m\<lparr>sl_refreshes := n, sl_linux := sl_linux m\<rparr>" for n by simp
  then have "\<exists>k ts. m\<lparr>sl_refreshes := n\<rparr> = m\<lparr>sl_refreshes := k, sl_linux := ts\<rparr>" for n by blast
  then show ?thesis using assms by (auto simp: manager_refresh_def Let_def)
qed

text \<open>The word of a text around a position, by its first and its last index.\<close>

definition word_at :: "units \<Rightarrow> nat \<Rightarrow> nat \<Rightarrow> nat \<Rightarrow> bool" where
  "word_at t a b x \<longleftrightarrow> a \<le> x \<and> x \<le> b \<and> b < length t \<and> (\<forall>j. a \<le> j \<and> j \<le> b \<longrightarrow> t ! j \<notin> set WORD_SEPARATORS) \<and>
     (a = 0 \<or> t ! (a - 1) \<in> set WORD_SEPARATORS) \<and> (b + 1 = length t \<or> t ! (b + 1) \<in> set WORD_SEPARATORS)"

lemma word_parts:
  assumes "word_at t a b x"
  defines "w \<equiv> take (b + 1 - a) (drop a t)"
  shows "t = take a t @ w @ drop (b + 1) t" "length (take a t) \<le> x" "x < length (take a t) + length w"
    "set w \<inter> set WORD_SEPARATORS = {}" "take a t = [] \<or> last (take a t) \<in> set WORD_SEPARATORS"
    "drop (b + 1) t = [] \<or> hd (drop (b + 1) t) \<in> set WORD_SEPARATORS"
proof -
  note a = assms(1) [unfolded word_at_def]
  have "w @ drop (b + 1) t = drop a t" unfolding w_def using a by (metis append_take_drop_id drop_drop le_add_diff_inverse2 le_SucI Suc_eq_plus1 order_trans)
  then show "t = take a t @ w @ drop (b + 1) t" by simp
  show "length (take a t) \<le> x" "x < length (take a t) + length w" using a by (auto simp: w_def)
  show "set w \<inter> set WORD_SEPARATORS = {}" using a by (auto simp: w_def in_set_conv_nth)
  show "take a t = [] \<or> last (take a t) \<in> set WORD_SEPARATORS" using a by (auto simp: last_conv_nth)
  show "drop (b + 1) t = [] \<or> hd (drop (b + 1) t) \<in> set WORD_SEPARATORS" using a by (auto simp: hd_drop_conv_nth)
qed

subsection \<open>Clicks\<close>

text \<open>What the first press of a click leaves: an empty selection at the mouse.\<close>

definition clicked :: "screen \<Rightarrow> position \<Rightarrow> selection_manager \<Rightarrow> bool" where
  "clicked s p m \<longleftrightarrow> sl_screen m = s \<and> sl_enabled m \<and> sl_model m = \<lparr>sm_start = Some p, sm_end = None, sm_all = False, sm_startLength = 0\<rparr>"

lemma clicked_text:
  assumes "clicked s (x, y) m" and l: "cl_get (lines s) y = Some l" "simple_line l t" and x: "0 \<le> x" "x < cu_cols s" "int (length t) = cu_cols s"
  shows "selectionText pf m = returns []"
  using row_selection [of m x y x l t pf] assms
  by (simp add: clicked_def selectionStart_def selectionEnd_def finalSelectionStart_def finalSelectionEnd_def dims_def plain_spaces_def)

lemma first_press:
  assumes "sl_enabled m" and "ev_button ev = 0" "\<not> ev_shift ev" "ev_detail ev = 1" "ev_coords ev = Some (x, y)"
    and l: "cl_get (lines (sl_screen m)) y = Some l" "simple_line l t" and x: "0 \<le> x" "x < cu_cols (sl_screen m)" "int (length t) = cu_cols (sl_screen m)"
  shows "\<exists>m'. onMouseDown pf ev m = returns m' \<and> clicked (sl_screen m) (x, y) m'"
proof -
  let ?m = "(onSingleClick pf ev (m\<lparr>sl_drag := 0\<rparr>))\<lparr>sl_listening := True\<rparr>"
  have c: "clicked (sl_screen m) (x, y) ?m"
    using assms by (simp add: clicked_def onSingleClick_def in_model_def Let_def simple_line_def)
  obtain n ts where "manager_refresh pf True ?m = returns (?m\<lparr>sl_refreshes := n, sl_linux := ts\<rparr>)"
    using refreshed [OF clicked_text [OF c l x]] by blast
  moreover have "clicked (sl_screen m) (x, y) (?m\<lparr>sl_refreshes := n, sl_linux := ts\<rparr>)" using c by (simp add: clicked_def)
  ultimately show ?thesis using assms by (simp add: onMouseDown_def Let_def)
qed

lemma released:
  assumes "clicked s (x, y) m" and l: "cl_get (lines s) y = Some l" "simple_line l t" and x: "0 \<le> x" "x < cu_cols s" "int (length t) = cu_cols s"
  shows "\<exists>m' b. onMouseUp pf quick m = returns (m', b) \<and> clicked s (x, y) m'"
  using clicked_text [OF assms, of pf] assms(1) by (auto simp: onMouseUp_def removeMouseDownListeners_def Let_def clicked_def)

lemma second_press:
  assumes "clicked s (x, y) m" and ev: "ev_button ev = 0" "\<not> ev_shift ev" "ev_detail ev = 2" "ev_coords ev = Some (x, y)"
    and l: "cl_get (lines s) y = Some l" "simple_line l t" and n: "int (length t) = cu_cols s"
    and w: "getWordAt s (x, y) True True True = returns (Some (a, b + 1 - a))" "0 \<le> a" "a \<le> b" "b < cu_cols s" "t ! nat b \<noteq> 32"
  shows "\<exists>m'. onMouseDown pf ev m = returns m' \<and> selectionText pf m' = returns (plain_spaces (take (nat (b + 1 - a)) (drop (nat a) t)))"
proof -
  let ?m = "m\<lparr>sl_drag := 0, sl_mode := 1, sl_model := (sl_model m)\<lparr>sm_start := Some (a, y), sm_startLength := b + 1 - a\<rparr>, sl_listening := True\<rparr>"
  have "onDoubleClick ev (m\<lparr>sl_drag := 0\<rparr>) = returns (?m\<lparr>sl_listening := sl_listening m\<rparr>)"
    using assms(1) ev w by (simp add: onDoubleClick_def selectWordAt_def clicked_def in_model_def start_rows.simps ends_def)
  moreover have t: "selectionText pf ?m = returns (plain_spaces (take (nat (b + 1 - a)) (drop (nat a) t)))"
    using row_selection [of ?m a y "b + 1" l t pf] assms
    by (simp add: clicked_def selectionStart_def selectionEnd_def finalSelectionStart_def finalSelectionEnd_def dims_def)
  moreover obtain k ts where "manager_refresh pf True ?m = returns (?m\<lparr>sl_refreshes := k, sl_linux := ts\<rparr>)" using refreshed [OF t] by blast
  ultimately show ?thesis using assms(1) ev
    by (intro exI [of _ "?m\<lparr>sl_refreshes := k, sl_linux := ts\<rparr>"]) (simp add: onMouseDown_def Let_def clicked_def)
qed

text \<open>
  C33. A double click selects the word under the mouse: two presses of the button on a character that separates no words, the button released
  between them, leave a selection whose text is the longest run of such characters around it on its line (with
  non-breaking spaces shown as spaces), whatever was selected before and however fast the clicks are. The line is one of narrow
  characters that neither continues another line nor goes on in the next.
\<close>

theorem double_click_selects_word:
  assumes "cl_get (lines (sl_screen m)) y = Some l" "simple_line l t" "int (length t) = cu_cols (sl_screen m)" "\<not> bl_isWrapped l"
    and "\<forall>n. cl_get (lines (sl_screen m)) (y + 1) = Some n \<longrightarrow> \<not> bl_isWrapped n"
    and "x < length t" and "t ! x \<notin> set WORD_SEPARATORS"
    and "sl_enabled m" and "ev_button ev = 0" "\<not> ev_shift ev" "ev_coords ev = Some (int x, y)"
  shows "\<exists>m' u w v.
    run_then (onMouseDown pf (ev\<lparr>ev_detail := 1\<rparr>) m) (\<lambda>m1.
      run_then (onMouseUp pf quick m1) (\<lambda>(m2, _). onMouseDown pf (ev\<lparr>ev_detail := 2\<rparr>) m2)) = returns m' \<and>
    selectionText pf m' = returns (plain_spaces w) \<and> t = u @ w @ v \<and> length u \<le> x \<and> x < length u + length w \<and>
    set w \<inter> set WORD_SEPARATORS = {} \<and> (u = [] \<or> last u \<in> set WORD_SEPARATORS) \<and> (v = [] \<or> hd v \<in> set WORD_SEPARATORS)"
proof -
  let ?s = "sl_screen m"
  have x: "0 \<le> int x" "int x < cu_cols ?s" "t ! nat (int x) \<notin> set WORD_SEPARATORS" using assms(3,6,7) by simp_all
  obtain a b where w: "getWordAt ?s (int x, y) True True True = returns (Some (a, b + 1 - a))" and
    ab: "0 \<le> a" "a \<le> int x" "int x \<le> b" "b < cu_cols ?s"
    "\<forall>j. a \<le> j \<and> j \<le> b \<longrightarrow> t ! nat j \<notin> set WORD_SEPARATORS"
    "a = 0 \<or> t ! nat (a - 1) \<in> set WORD_SEPARATORS" "b + 1 = cu_cols ?s \<or> t ! nat (b + 1) \<in> set WORD_SEPARATORS"
    using simple_word [OF assms(1-4) _ x] assms(5) by auto
  have "32 \<in> set WORD_SEPARATORS" by (simp add: WORD_SEPARATORS_def)
  then have b: "t ! nat b \<noteq> 32" using ab(2,3,5) by (metis order_refl order_trans)
  obtain m1 where m1: "onMouseDown pf (ev\<lparr>ev_detail := 1\<rparr>) m = returns m1" "clicked ?s (int x, y) m1"
    using first_press [OF assms(8), of "ev\<lparr>ev_detail := 1\<rparr>", OF _ _ _ _ assms(1,2) x(1,2) assms(3)] assms(9-11) by auto
  obtain m2 q where m2: "onMouseUp pf quick m1 = returns (m2, q)" "clicked ?s (int x, y) m2"
    using released [OF m1(2) assms(1,2) x(1,2) assms(3)] by blast
  obtain m' where m': "onMouseDown pf (ev\<lparr>ev_detail := 2\<rparr>) m2 = returns m'"
    "selectionText pf m' = returns (plain_spaces (take (nat (b + 1 - a)) (drop (nat a) t)))"
    using second_press [OF m2(2), of "ev\<lparr>ev_detail := 2\<rparr>", OF _ _ _ _ assms(1-3) w ab(1) _ ab(4) b] assms(9-11) ab(2,3) by auto
  have idx: "nat (b + 1) = nat b + 1" "nat (a - 1) = nat a - 1" "nat (b + 1 - a) = nat b + 1 - nat a" using ab(1-3) by simp_all
  have "t ! j \<notin> set WORD_SEPARATORS" if "nat a \<le> j" "j \<le> nat b" for j
  proof -
    have "a \<le> int j" "int j \<le> b" using that ab(1-3) by linarith+
    with ab(5) show ?thesis by (metis nat_int)
  qed
  moreover have "nat b + 1 = length t \<or> t ! (nat b + 1) \<in> set WORD_SEPARATORS" using ab(1-3,7) assms(3) unfolding idx by auto
  moreover have "nat a = 0 \<or> t ! (nat a - 1) \<in> set WORD_SEPARATORS" using ab(6) unfolding idx by auto
  moreover have "nat a \<le> x" "x \<le> nat b" "nat b < length t" using ab(1-4) assms(3) by simp_all
  ultimately have word: "word_at t (nat a) (nat b) x" unfolding word_at_def by blast
  have "run_then (onMouseDown pf (ev\<lparr>ev_detail := 1\<rparr>) m) (\<lambda>m1.
      run_then (onMouseUp pf quick m1) (\<lambda>(m2, _). onMouseDown pf (ev\<lparr>ev_detail := 2\<rparr>) m2)) = returns m'"
    using m1(1) m2(1) m'(1) by simp
  with m'(2) word_parts [OF word] show ?thesis unfolding idx by blast
qed

definition demo_text :: screen where
  "demo_text = (blank_screen 4 1)\<lparr>lines := cl_set ((cl_new 5)\<lparr>cl_length := 1\<rparr>) 0 (Some demo_line)\<rparr>"

lemma demo_text_line:
  "cl_get (lines demo_text) 0 = Some demo_line" "cl_get (lines demo_text) 1 = None" "cu_cols demo_text = 4"
  by (simp_all add: demo_text_def cl_get_def cl_set_def cl_new_def cl_getCyclicIndex_def js_rem_def blank_screen_def)

lemma demo_line_simple: "simple_line demo_line [97, 98, 99, 32]"
proof -
  have four: "\<forall>i < (4::nat). P i" if "P 0" "P 1" "P 2" "P 3" for P :: "nat \<Rightarrow> bool"
    using that less_Suc_eq by (auto simp: numeral_eq_Suc)
  have words: "rd (bl_data demo_line) 0 = 4194401" "rd (bl_data demo_line) 3 = 4194402" "rd (bl_data demo_line) 6 = 4194403"
    "rd (bl_data demo_line) 9 = 4194304"
    by (simp_all add: demo_line_def rd_def)
  have "\<forall>i < 4. simple_cell (rd (bl_data demo_line) (int i * 3)) ([97, 98, 99, 32] ! i)"
    by (rule four) (simp_all add: words simple_cell_def width_of_def combined_flag_def code_of_def)
  then show ?thesis by (simp add: simple_line_def demo_line_def)
qed

definition demo_click :: mouse_event where
  "demo_click = \<lparr>ev_coords = Some (1, 0), ev_scroll = 0, ev_button = 0, ev_detail = 1, ev_shift = False, ev_alt = False\<rparr>"

definition demo_platform :: platform where
  "demo_platform = \<lparr>isLinux = True, isMac = False, isMSWindows = False, macOptionClickForcesSelection = False\<rparr>"

theorem double_click_selects_word_witness:
  "\<exists>m'. run_then (onMouseDown demo_platform (demo_click\<lparr>ev_detail := 1\<rparr>) (new_manager demo_text)) (\<lambda>m1.
       run_then (onMouseUp demo_platform True m1) (\<lambda>(m2, _). onMouseDown demo_platform (demo_click\<lparr>ev_detail := 2\<rparr>) m2)) = returns m' \<and>
     selectionText demo_platform m' = returns [97, 98, 99]"
proof -
  have "\<exists>m' u w v.
    run_then (onMouseDown demo_platform (demo_click\<lparr>ev_detail := 1\<rparr>) (new_manager demo_text)) (\<lambda>m1.
      run_then (onMouseUp demo_platform True m1) (\<lambda>(m2, _). onMouseDown demo_platform (demo_click\<lparr>ev_detail := 2\<rparr>) m2)) = returns m' \<and>
    selectionText demo_platform m' = returns (plain_spaces w) \<and> [97, 98, 99, 32] = u @ w @ v \<and> length u \<le> 1 \<and> 1 < length u + length w \<and>
    set w \<inter> set WORD_SEPARATORS = {} \<and> (u = [] \<or> last u \<in> set WORD_SEPARATORS) \<and> (v = [] \<or> hd v \<in> set WORD_SEPARATORS)"
    by (rule double_click_selects_word [where y = 0 and l = demo_line])
      (simp_all add: new_manager_def demo_text_line demo_line_simple demo_click_def, simp_all add: WORD_SEPARATORS_def demo_line_def)
  moreover have "w = [97, 98, 99]" if "[97, 98, 99, 32] = u @ w @ v" "length u \<le> 1" "1 < length u + length w"
    "set w \<inter> set WORD_SEPARATORS = {}" "u = [] \<or> last u \<in> set WORD_SEPARATORS" "v = [] \<or> hd v \<in> set WORD_SEPARATORS" for u w v
  proof -
    have sep: "97 \<notin> set WORD_SEPARATORS" "98 \<notin> set WORD_SEPARATORS" "99 \<notin> set WORD_SEPARATORS" "32 \<in> set WORD_SEPARATORS"
      by (simp_all add: WORD_SEPARATORS_def)
    have u: "u = []" using that(1,2,5) sep(1) by (cases u) auto
    with that(1,3) obtain w1 where w1: "w = 97 # 98 # w1" by (cases w; cases "tl w") auto
    with that(1) u have rest: "[99, 32] = w1 @ v" by simp
    with that(6) sep(3) obtain w2 where w2: "w1 = 99 # w2" by (cases w1) auto
    with rest that(4) sep(4) w1 show ?thesis by (cases w2) auto
  qed
  moreover have "plain_spaces [97, 98, 99] = [97, 98, 99]" by (simp add: plain_spaces_def)
  ultimately show ?thesis by (elim exE conjE) (intro exI conjI, assumption, simp only:)
qed

end
