(* ===== verification/Spec2Isabelle.thy ===== *)
theory Spec2Isabelle
  imports CircularList LessonPlayer Settings Playground_Streams Playground_Controls
    LessonEditor Attach CharWidth SelectionModel LRUMap Keyboard
    BufferLine_Text WriteBuffer Selection_Text
begin

text \<open>
  LessonCraft: the browser side of the playground. The development models the JavaScript of
  \<open>src/handlers/www/assets\<close>: the controllers of the pages and the terminal emulator \<open>xterm.js\<close> the pages use.

  \<^bold>\<open>The program.\<close> The session page (\<open>app.js\<close>, \<open>PlayController\<close>) keeps the list of the instances of a session, one
  terminal for each, and one web socket to the server. What a user types in a terminal is collected per instance and
  shipped by a timer; what the server sends for an instance is written to its terminal, or kept until the terminal
  exists. Key presses become bytes by \<open>evaluateKeyboardEvent\<close>. What is written to a terminal passes through these
  parts of \<open>xterm.js\<close>, in this order: the write buffer (\<open>write\<close>, \<open>_innerWrite\<close> and a timer), the decoder of UTF-16 or UTF-8
  (\<open>TextDecoder\<close>), the escape sequence parser with its transition table, the handlers of \<open>InputHandler\<close>, and the buffers
  these change: a ring (\<open>CircularList\<close>) of lines (\<open>BufferLine\<close>) of three words per cell, with the cursor, scroll region,
  tab stops, modes and character sets beside it. A change of the window's size resizes the buffers and reflows wrapped
  lines. A lesson is played by the page and the terminal together, edited with \<open>lesson-editor.js\<close> and stored as markdown,
  which the server reads back (\<open>lesson/simple_parser.go\<close>).

  \<^bold>\<open>Conventions.\<close> An object is a record with the names of its fields, an operation a function from the state before to
  the state after. Code that may throw returns an \<open>error + 'a\<close>; code with a loop whose end is not evident returns a
  \<open>run\<close>, an option of such a sum: \<open>None\<close> stands for not returning, \<open>returns x\<close> for a result and the rest for a
  \<open>TypeError\<close> or another exception. There is no fuel: loops are structural, have a termination proof, or are
  \<open>partial_function (option)\<close>, and a theorem that code returns says \<open>= returns x\<close>. The numbers of JavaScript are
  integers where the code only adds, compares and indexes; the fields of cells, which are combined by bits, are 32-bit words, and
  code points and code units are checked against the ranges the decoders produce. Time, random names, the answers of
  the server and the events of the page are arguments, so that an order of events is a list. Maps whose iteration order
  matters are association lists; sharing of mutable objects is kept as references where code depends on it (the
  instances of the page, the nodes of the LRU map).

  \<^bold>\<open>Interfaces.\<close> Four locales carry the arguments the components share. \<open>indexed_store\<close> (reading after writing by index) is
  interpreted by the cells of a line and by the entries of the ring; \<open>bounded_history\<close> (pushing on a store of bounded
  length keeps the newest entries) by the ring; \<open>simulation\<close> (steps of a machine follow those of a specification) by the LRU map;
  \<open>guarded_run\<close> (a sequence of steps, each allowed where it is taken, returns and keeps an invariant) by the
  screen's inputs, the mode lists, the calls of the parser and the pieces of a text.

  \<^bold>\<open>Theories.\<close>

  \<^item> \<open>JS_Prelude\<close>: errors and runs, counting loops, the remainder, list lemmas, the first three locales.

  \<^item> \<open>CircularList\<close> (\<open>xterm.js\<close>, \<open>CircularList\<close>): every operation of the ring. Pushing is the refinement of a list that drops
  its oldest entries, and \<open>splice\<close> is the splice of lists as long as it does not overflow the ring.

  \<^item> \<open>TextDecoder\<close>, \<open>CharWidth\<close>: decoding to code points with the state between chunks, and \<open>wcwidth\<close> with its tables.
  Encoding followed by decoding is the identity on Unicode scalar values, for both encodings, and the binary search of the tables is
  membership in a range. Decoded text goes into a parse buffer of a fixed length, and what does not fit reads back as
  \<open>undefined\<close>, which has a code of its own (\<open>stored\<close>, \<open>undefined_code\<close>).

  \<^item> \<open>EscapeSequenceParser\<close>, \<open>Parser_Chunks\<close>: the VT500 table built by the assignments of the source in their order, the handler
  registry, and \<open>parse\<close> with its shortcuts for runs of text. The parser is a machine over single code points: input may be cut
  anywhere. No input makes it throw.

  \<^item> \<open>CharAttributes\<close>, \<open>BufferLine\<close>, \<open>BufferLine_Text\<close>: attribute words, cells and lines. The parameters of a graphic rendition
  sequence refine an abstract style; text written to a line is read back from it.

  \<^item> \<open>Cursor\<close>, \<open>Screen\<close>, \<open>Screen_Scroll\<close>, \<open>Screen_Edits\<close>, \<open>Screen_Safety\<close>, \<open>Screen_Text\<close>: the handlers of \<open>InputHandler\<close> on one buffer.
  The cursor stays on the screen; on a well-formed screen (all rows present, each as wide as the screen) no handler
  throws but for three kinds of input: an empty scroll region, a reverse index in the top row above the region, and an erase up to
  the end of the last line of the ring, of which the last two are shown to throw on a screen that has not scrolled; scrolling, inserting and deleting lines are the operations on
  the list of rows they are meant to be, and what scrolls off fills the history; printed text reads back.

  \<^item> \<open>Reflow\<close>, \<open>Resize\<close>: \<open>Buffer.resize\<close> and \<open>BufferReflow\<close>. Changing the number of rows drops lines only below the
  cursor, or from the front when the scrollback is full, and keeps the cursor in its line; the lengths
  computed for a narrower screen deal out all cells of a paragraph and their loop ends; a resize that throws is shown.

  \<^item> \<open>Terminal\<close>, \<open>Terminal_Input\<close>, \<open>Terminal_Safety\<close>, \<open>Terminal_Modes\<close>: the terminal around the screen: normal and alternate
  buffer, modes, character sets, set up and reset, the registration of the handlers, and \<open>InputHandler.parse\<close>. A text whose calls
  avoid the inputs that throw is read to its end and leaves both buffers well-formed; the pieces in which a text arrives do
  not matter, when they are shorter than the parse buffer and free of controls whose effect depends on the cut; a control sequence in the text performs its handler; leaving the alternate buffer gives the normal one back.

  \<^item> \<open>WriteBuffer\<close>: \<open>write\<close>, \<open>writeUtf8\<close>, their timers, time limit and flow control. Everything written is parsed in the order of writing
  once the timers have run, whatever the clock says; what happens after an exception, and when both kinds of write are mixed.

  \<^item> \<open>SelectionModel\<close>, \<open>Selection\<close>, \<open>Selection_Text\<close>: the ends of the selection and the manager that sets them by clicks, words, lines
  and dragging. A double click selects the word under the mouse.

  \<^item> \<open>LRUMap\<close>, \<open>Keyboard\<close>: the map behind the character atlas, which refines a list in the order of use, and the key table.

  \<^item> \<open>Attach\<close> (\<open>attach.js\<close>): the socket's messages reach the terminal in order, buffered or not.

  \<^item> \<open>Playground\<close>, \<open>Playground_Safety\<close>, \<open>Playground_Streams\<close>, \<open>Playground_Controls\<close> (\<open>app.js\<close>): the session page as a state with one
  definition per event. Every event keeps the references between instances, terminals and timers consistent; what is typed
  leaves once and in order, also when the socket throws while it is not open; what the server sends for an instance is not lost, and in order unless it came before the terminal.

  \<^item> \<open>Settings\<close> (\<open>app.js\<close>): the services behind the settings dialog.

  \<^item> \<open>LessonPlayer\<close>, \<open>LessonMarkdown\<close>, \<open>LessonEditor\<close>: playing a lesson on page and terminal together (the position stays in
  the lesson, completing every step ends it), the markdown form and its parser (a round trip), and the three controllers of
  the editor and the browser with their requests.

  \<^bold>\<open>Not modelled.\<close> The front end of \<open>xterm.js\<close> (renderers, viewport, mouse zones, linkifier, accessibility, composition)
  reads and writes the page's layout, fonts and canvas, and keeps no state the other parts depend on. Of the add-ons the pages
  apply \<open>fit\<close>, which divides the pixel sizes of the layout, and \<open>fullscreen\<close>, which toggles a class of the page; \<open>search\<close>, \<open>terminado\<close>,
  \<open>webLinks\<close> and \<open>zmodem\<close> are not applied. The option \<open>windowsMode\<close>, which no page sets, is read by the resize but its listener on line feeds
  is left out. Of \<open>app.js\<close>, clipboard,
  pop-up windows, the port prompt and the expiry clock are left out: they call the browser and change nothing modelled here. Of the
  Go server only the lesson parser is modelled. Pages and styles have no behaviour of their own. Parameters stand for what is not
  under the sources: the web socket, \<open>localStorage\<close>, the answers of requests, AngularJS' digest and timers.
\<close>

end
